(* ===== verification/Diode_Prelude.thy ===== *)
theory Diode_Prelude
  imports Main "HOL-Library.Word" "HOL-Library.Monad_Syntax"
begin

text \<open>
  Shared vocabulary of the development: the machine integer types of the C++ sources, the
  little-endian memory image of an integer, slices and in-place updates of a byte buffer, and
  the collections of simplification rules used by the component theories.

  A computation that may touch memory it does not own returns an option: \<open>None\<close> stands for the
  undefined behaviour (or failed assertion) of the source, \<open>Some\<close> for a defined outcome. The
  option monad of \<open>HOL-Library.Monad_Syntax\<close> sequences such steps.
\<close>

type_synonym u8 = "8 word"
type_synonym u16 = "16 word"
type_synonym u32 = "32 word"
type_synonym u64 = "64 word"
type_synonym i64 = "64 word"  \<comment> \<open>signed use\<close>
type_synonym bytes = "u8 list"

named_theorems buf_simps \<open>slices and in-place updates of byte buffers\<close>
named_theorems ser_simps \<open>functional behaviour of the serializer operations\<close>
named_theorems ser_fields \<open>fields a serializer operation leaves alone\<close>

subsection \<open>Little-endian images\<close>

fun le_bytes :: "nat \<Rightarrow> nat \<Rightarrow> bytes" where
  "le_bytes 0 v = []"
| "le_bytes (Suc n) v = of_nat (v mod 256) # le_bytes n (v div 256)"

fun le_nat :: "bytes \<Rightarrow> nat" where
  "le_nat [] = 0"
| "le_nat (b # bs) = unat b + 256 * le_nat bs"

lemma length_le_bytes [simp]: "length (le_bytes n v) = n"
  by (induction n arbitrary: v) auto

lemma unat_bound:
  "unat (a :: u8) < 256"
  "unat (b :: u16) < 65536"
  "unat (c :: u32) < 4294967296"
  "unat (d :: u64) < 18446744073709551616"
  using unsigned_less [of a, where 'a = nat] unsigned_less [of b, where 'a = nat]
    unsigned_less [of c, where 'a = nat] unsigned_less [of d, where 'a = nat]
  by simp_all

lemma unat_of_nat_u8: "unat (of_nat (v mod 256) :: u8) = v mod 256"
  by (simp add: unat_of_nat)

lemma le_nat_le_bytes: "le_nat (le_bytes n v) = v mod 256 ^ n"
proof (induction n arbitrary: v)
  case 0
  then show ?case by simp
next
  case (Suc n)
  have "v mod (256 * 256 ^ n) = v mod 256 + 256 * (v div 256 mod 256 ^ n)"
    by (simp add: mod_mult2_eq)
  with Suc show ?case by (simp add: unat_of_nat)
qed

lemma le_bytes_le_nat: "le_bytes (length bs) (le_nat bs) = bs"
proof (induction bs)
  case Nil
  then show ?case by simp
next
  case (Cons b bs)
  have b: "unat b < 256"
    by (rule unat_bound)
  then have "(unat b + 256 * le_nat bs) div 256 = le_nat bs"
    by simp
  with b Cons show ?case by simp
qed

lemma le_nat_less: "le_nat bs < 256 ^ length bs"
proof (induction bs)
  case Nil
  then show ?case by simp
next
  case (Cons b bs)
  have "unat b < 256"
    by (rule unat_bound)
  with Cons show ?case by simp
qed

lemma le_nat_unat [simp]:
  "le_nat (le_bytes 2 (unat (a :: u16))) = unat a"
  "le_nat (le_bytes 4 (unat (b :: u32))) = unat b"
  "le_nat (le_bytes 8 (unat (c :: u64))) = unat c"
  by (simp_all add: le_nat_le_bytes unat_bound)

subsection \<open>Slices and in-place updates\<close>

definition segment :: "nat \<Rightarrow> nat \<Rightarrow> 'a list \<Rightarrow> 'a list" where
  "segment p n m = take n (drop p m)"

definition patch :: "nat \<Rightarrow> 'a list \<Rightarrow> 'a list \<Rightarrow> 'a list" where
  "patch p bs m = take p m @ bs @ drop (p + length bs) m"

lemma length_patch [buf_simps]:
  "p + length bs \<le> length m \<Longrightarrow> length (patch p bs m) = length m"
  by (simp add: patch_def)

lemma length_segment [buf_simps]: "p + n \<le> length m \<Longrightarrow> length (segment p n m) = n"
  by (simp add: segment_def)

lemma segment_0 [simp]: "segment p 0 m = []"
  by (simp add: segment_def)

lemma patch_Nil [simp]: "patch p [] m = m"
  by (simp add: patch_def)

lemma take_patch [buf_simps]:
  "p + length bs \<le> length m \<Longrightarrow> take (p + length bs) (patch p bs m) = take p m @ bs"
  by (simp add: patch_def)

lemma take_patch_before [buf_simps]:
  "n \<le> p \<Longrightarrow> p + length bs \<le> length m \<Longrightarrow> take n (patch p bs m) = take n m"
  by (simp add: patch_def min_def)

lemma drop_patch_after [buf_simps]:
  "p + length bs \<le> n \<Longrightarrow> p + length bs \<le> length m \<Longrightarrow> drop n (patch p bs m) = drop n m"
  by (simp add: patch_def)

lemma segment_patch [buf_simps]:
  "p + length bs \<le> length m \<Longrightarrow> segment p (length bs) (patch p bs m) = bs"
  by (simp add: segment_def patch_def)

lemma segment_patch_before [buf_simps]:
  assumes "q + n \<le> p" and "p + length bs \<le> length m"
  shows "segment q n (patch p bs m) = segment q n m"
proof -
  have "take (q + n) (patch p bs m) = take (q + n) m"
    using assms by (intro take_patch_before) auto
  then have "drop q (take (q + n) (patch p bs m)) = drop q (take (q + n) m)"
    by simp
  then show ?thesis
    by (simp add: segment_def drop_take)
qed

lemma segment_patch_after [buf_simps]:
  "p + length bs \<le> q \<Longrightarrow> p + length bs \<le> length m \<Longrightarrow> segment q n (patch p bs m) = segment q n m"
  by (simp add: segment_def drop_patch_after)

lemma patch_append:
  assumes "p + length a + length b \<le> length m"
  shows "patch (p + length a) b (patch p a m) = patch p (a @ b) m"
proof -
  have "take (p + length a) (patch p a m) = take p m @ a"
    using assms by (simp add: take_patch)
  moreover have "drop (p + length a + length b) (patch p a m) = drop (p + length a + length b) m"
    using assms by (simp add: drop_patch_after)
  ultimately show ?thesis
    by (simp add: patch_def add.assoc)
qed

lemma segment_append: "segment p (n + k) m = segment p n m @ segment (p + n) k m"
  by (simp add: segment_def take_add add.commute [of n p])

lemma segment_prefix:
  assumes "segment p (length a + k) m = a @ b"
  shows "segment p (length a) m = a"
proof -
  have "take (length a) (segment p (length a + k) m) = take (length a) (a @ b)"
    using assms by simp
  then show ?thesis by (simp add: segment_def min_def)
qed

lemma segment_suffix:
  assumes "segment p (length a + k) m = a @ b"
  shows "segment (p + length a) k m = b"
proof -
  have "drop (length a) (segment p (length a + k) m) = b"
    using assms by simp
  then show ?thesis by (simp add: segment_def drop_take add.commute)
qed

lemma segment_take: "p + n \<le> k \<Longrightarrow> segment p n (take k m) = segment p n m"
  by (simp add: segment_def drop_take min_def)

subsection \<open>Growing and shrinking a vector\<close>

text \<open>\<open>std::vector::resize\<close>: keeps the common prefix, zero-fills what is new.\<close>

definition resize :: "nat \<Rightarrow> 'a \<Rightarrow> 'a list \<Rightarrow> 'a list" where
  "resize n x xs = take n xs @ replicate (n - length xs) x"

lemma length_resize [simp]: "length (resize n x xs) = n"
  by (simp add: resize_def)

lemma resize_0 [simp]: "resize 0 x xs = []"
  by (simp add: resize_def)

subsection \<open>Reading an element of a vector\<close>

text \<open>\<open>xs[i]\<close> on a \<open>std::vector\<close>: reading out of range is undefined behaviour.\<close>

definition vec_at :: "'a list \<Rightarrow> nat \<Rightarrow> 'a option" where
  "vec_at xs i = (if i < length xs then Some (xs ! i) else None)"

lemma vec_at_Some [simp]: "i < length xs \<Longrightarrow> vec_at xs i = Some (xs ! i)"
  by (simp add: vec_at_def)

lemma vec_at_SomeD: "vec_at xs i = Some x \<Longrightarrow> i < length xs \<and> x = xs ! i"
  by (simp add: vec_at_def split: if_splits)

subsection \<open>Sequencing\<close>

text \<open>A loop over a list whose body may fail.\<close>

fun foldM :: "('a \<Rightarrow> 's \<Rightarrow> 's option) \<Rightarrow> 'a list \<Rightarrow> 's \<Rightarrow> 's option" where
  "foldM f [] s = Some s"
| "foldM f (x # xs) s = Option.bind (f x s) (foldM f xs)"

lemma foldM_append: "foldM f (xs @ ys) s = Option.bind (foldM f xs s) (foldM f ys)"
proof (induction xs arbitrary: s)
  case Nil
  then show ?case by simp
next
  case (Cons x xs)
  then show ?case by (cases "f x s") simp_all
qed

lemma foldM_inv:
  assumes "\<And>x s. x \<in> set xs \<Longrightarrow> P s \<Longrightarrow> \<exists>s'. f x s = Some s' \<and> P s'" and "P s"
  shows "\<exists>s'. foldM f xs s = Some s' \<and> P s'"
  using assms
proof (induction xs arbitrary: s)
  case Nil
  then show ?case by simp
next
  case (Cons x xs)
  from Cons.prems obtain s1 where "f x s = Some s1" "P s1"
    by (meson list.set_intros(1))
  with Cons.IH [of s1] Cons.prems(1) show ?case by simp
qed

lemma bind_SomeD: "Option.bind m f = Some y \<Longrightarrow> \<exists>x. m = Some x \<and> f x = Some y"
  by (cases m) auto

lemma unat_word_of_nat_small [simp]:
  "n < 2 ^ LENGTH('a) \<Longrightarrow> unat (of_nat n :: 'a::len word) = n"
  by (simp add: unat_of_nat)

end
