(* ===== verification/Doubles.thy ===== *)
theory Doubles
  imports Complex_Main Diode_Prelude
begin

text \<open>
  The \<open>double\<close> values the sources compute with. A \<open>double\<close> in memory is its IEEE-754 bit pattern
  (the configuration hash is taken over those eight bytes); \<open>dval\<close> reads the rational number a
  finite pattern stands for, \<open>fdiv\<close> is division rounded to nearest-even at 53 significant bits,
  \<open>cround\<close> is \<open>std::round\<close> and \<open>ctrunc\<close> the conversion to an integer type. Not-a-number patterns
  are outside the model (an infinity reads as a value above every finite one), and so are
  results that leave the normal exponent range.
\<close>

type_synonym double = "64 word"

definition dval :: "double \<Rightarrow> rat" where
  "dval w =
     (let n = unat w;
          fr = n mod 2 ^ 52;
          ex = (n div 2 ^ 52) mod 2 ^ 11;
          sg = (if n div 2 ^ 63 = 0 then 1 else - 1 :: rat)
      in if ex = 0 then sg * of_nat fr / 2 ^ 1074
         else if 1075 \<le> ex then sg * of_nat (2 ^ 52 + fr) * 2 ^ (ex - 1075)
         else sg * of_nat (2 ^ 52 + fr) / 2 ^ (1075 - ex))"

text \<open>\<open>std::max(a, b)\<close> is \<open>(a < b) ? b : a\<close>.\<close>

definition dmax :: "double \<Rightarrow> double \<Rightarrow> double" where
  "dmax a b = (if dval a < dval b then b else a)"

definition cround :: "rat \<Rightarrow> int" where
  "cround q = (if 0 \<le> q then \<lfloor>q + 1 / 2\<rfloor> else - \<lfloor>- q + 1 / 2\<rfloor>)"

definition ctrunc :: "rat \<Rightarrow> int" where
  "ctrunc q = (if 0 \<le> q then \<lfloor>q\<rfloor> else - \<lfloor>- q\<rfloor>)"

text \<open>Round half to even.\<close>

definition rne :: "rat \<Rightarrow> int" where
  "rne q =
     (let f = \<lfloor>q\<rfloor>; r = q - of_int f in
      if r < 1 / 2 then f else if r > 1 / 2 then f + 1 else if even f then f else f + 1)"

fun flog2 :: "nat \<Rightarrow> nat" where
  "flog2 n = (if n < 2 then 0 else Suc (flog2 (n div 2)))"

declare flog2.simps [simp del]

definition pow2 :: "int \<Rightarrow> rat" where
  "pow2 e = (if 0 \<le> e then 2 ^ nat e else 1 / 2 ^ nat (- e))"

definition fl :: "rat \<Rightarrow> rat" where
  "fl q =
     (if q = 0 then 0
      else let (a, b) = quotient_of \<bar>q\<bar>;
               e0 = int (flog2 (nat a)) - int (flog2 (nat b));
               e = (if \<bar>q\<bar> < pow2 e0 then e0 - 1 else if pow2 (e0 + 1) \<le> \<bar>q\<bar> then e0 + 1 else e0)
           in sgn q * (of_int (rne (\<bar>q\<bar> / pow2 (e - 52))) * pow2 (e - 52)))"

definition fdiv :: "rat \<Rightarrow> rat \<Rightarrow> rat" where
  "fdiv a b = fl (a / b)"

text \<open>The implicit conversion of an integer to \<open>double\<close>: its bit pattern, rounded to even.\<close>

definition double_of_int :: "int \<Rightarrow> double" where
  "double_of_int n =
     (if n = 0 then 0
      else let m = nat \<bar>n\<bar>;
               e = flog2 m;
               mant = (if e \<le> 52 then m * 2 ^ (52 - e) else nat (rne (of_nat m / 2 ^ (e - 52))))
           in of_nat ((if n < 0 then 2 ^ 63 else 0) + (e + 1023) * 2 ^ 52 + (mant - 2 ^ 52)))"

subsection \<open>Facts\<close>

lemma flog2_bounds: "0 < n \<Longrightarrow> 2 ^ flog2 n \<le> n \<and> n < 2 ^ Suc (flog2 n)"
proof (induction n rule: flog2.induct)
  case (1 n)
  show ?case
  proof (cases "n < 2")
    case True
    with "1.prems" have "n = 1" by simp
    then show ?thesis by (simp add: flog2.simps)
  next
    case False
    then have "0 < n div 2" by simp
    with "1.IH" [OF False] have "2 ^ flog2 (n div 2) \<le> n div 2 \<and> n div 2 < 2 ^ Suc (flog2 (n div 2))"
      by blast
    with False show ?thesis
      by (subst (1 2) flog2.simps) auto
  qed
qed

lemma cround_nonneg: "0 \<le> q \<Longrightarrow> 0 \<le> cround q"
  by (simp add: cround_def)

lemma ctrunc_of_nat [simp]: "ctrunc (of_nat n) = int n"
  by (simp add: ctrunc_def)

text \<open>Naturals below \<open>2 ^ 53\<close> are represented exactly.\<close>

lemma dval_parts:
  assumes "fr < 2 ^ 52" and "0 < ex" and "ex \<le> 1075"
  shows "dval (of_nat (ex * 2 ^ 52 + fr)) = of_nat (2 ^ 52 + fr) / 2 ^ (1075 - ex)"
proof -
  have "ex * 2 ^ 52 + fr < 1076 * 2 ^ 52"
    using assms by simp
  then have n: "unat (of_nat (ex * 2 ^ 52 + fr) :: double) = ex * 2 ^ 52 + fr"
    by (intro unat_word_of_nat_small) simp
  have a: "(ex * 2 ^ 52 + fr) mod 2 ^ 52 = fr" "(ex * 2 ^ 52 + fr) div 2 ^ 52 = ex"
    using assms(1) by simp_all
  have b: "(ex * 2 ^ 52 + fr) div 2 ^ 63 = 0" "ex mod 2 ^ 11 = ex"
    using assms by simp_all
  show ?thesis
    unfolding dval_def n Let_def a b using assms by auto
qed

lemma dval_double_of_int:
  assumes "n < 2 ^ 53"
  shows "dval (double_of_int (int n)) = of_nat n"
proof (cases "n = 0")
  case True
  then show ?thesis by (simp add: double_of_int_def dval_def)
next
  case False
  define e where "e = flog2 n"
  have b: "2 ^ e \<le> n" "n < 2 ^ Suc e"
    using flog2_bounds [of n] False by (simp_all add: e_def)
  have "(2::nat) ^ e < 2 ^ 53"
    using b(1) assms by (rule le_less_trans)
  then have "e < 53"
    by (rule power_less_imp_less_exp [rotated]) simp
  then have e: "e \<le> 52" by simp
  have p: "(2::nat) ^ e * 2 ^ (52 - e) = 2 ^ 52"
    using e by (simp flip: power_add)
  have lo: "2 ^ 52 \<le> n * 2 ^ (52 - e)"
    using mult_le_mono1 [OF b(1), of "2 ^ (52 - e)"] p by simp
  have hi: "n * 2 ^ (52 - e) < 2 ^ 53"
    using mult_strict_right_mono [OF b(2), of "2 ^ (52 - e)"] p by (simp add: mult.assoc)
  define m where "m = n * 2 ^ (52 - e) - 2 ^ 52"
  have "double_of_int (int n) = of_nat ((e + 1023) * 2 ^ 52 + m)"
    unfolding double_of_int_def Let_def e_def [symmetric] m_def using False e
    by (simp add: e_def [symmetric] del: of_nat_add of_nat_mult)
  moreover have "dval (of_nat ((e + 1023) * 2 ^ 52 + m)) = of_nat (2 ^ 52 + m) / 2 ^ (1075 - (e + 1023))"
    by (rule dval_parts) (use hi lo e in \<open>auto simp: m_def\<close>)
  ultimately have "dval (double_of_int (int n)) = of_nat (2 ^ 52 + m) / 2 ^ (1075 - (e + 1023))"
    by simp
  also have "\<dots> = of_nat (n * 2 ^ (52 - e)) / 2 ^ (52 - e)"
    using lo by (simp add: m_def del: of_nat_add of_nat_mult)
  also have "\<dots> = of_nat n" by simp
  finally show ?thesis .
qed

end
