(* ===== verification/Config_Model.thy ===== *)
theory Config_Model
  imports Doubles
begin

unbundle bit_operations_syntax

text \<open>
  The configuration: its data and hash (\<open>src/epics-diode/config.h\<close>) and the SAX-style loader
  (\<open>src/config.cpp\<close>). The JSON parser itself is the library \<open>yajl\<close>: a call of \<open>yajl_parse\<close> on a chunk
  of the file is a parameter that returns the events it delivers to the callbacks and its status.
  Strings are byte strings.
\<close>

subsection \<open>Data\<close>

record config_channel =
  cc_name :: string
  cc_extra :: "string list"
  cc_polled :: "string list"

definition new_config_channel :: "string \<Rightarrow> config_channel" where
  "new_config_channel n = \<lparr>cc_name = n, cc_extra = [], cc_polled = []\<rparr>"

record config =
  cfg_hash :: u64
  cfg_min_update_period :: double
  cfg_polled_fields_update_period :: double
  cfg_heartbeat_period :: double
  cfg_rate_limit_mbs :: u32
  cfg_channels :: "config_channel list"

text \<open>The defaults 0.1, 5.0 and 15.0 as bit patterns.\<close>

definition default_config :: config where
  "default_config =
     \<lparr>cfg_hash = 0, cfg_min_update_period = 0x3FB999999999999A,
      cfg_polled_fields_update_period = 0x4014000000000000,
      cfg_heartbeat_period = 0x402E000000000000, cfg_rate_limit_mbs = 64, cfg_channels = []\<rparr>"

subsection \<open>Hash\<close>

definition FNV_SEED :: u64 where "FNV_SEED = 1469598103934665603"

definition fnv1a_hash :: "bytes \<Rightarrow> u64 \<Rightarrow> u64" where
  "fnv1a_hash bs seed = fold (\<lambda>b h. (h XOR ucast b) * 1099511628211) bs seed"

definition hash_combine :: "u64 \<Rightarrow> u64 \<Rightarrow> u64" where
  "hash_combine h1 h2 = h1 XOR (h2 + 0x9e3779b97f4a7c15 + push_bit 6 h1 + drop_bit 2 h1)"

definition hash_double :: "double \<Rightarrow> u64" where
  "hash_double v = fnv1a_hash (le_bytes 8 (unat v)) FNV_SEED"

definition hash_uint32 :: "u32 \<Rightarrow> u64" where
  "hash_uint32 v = fnv1a_hash (le_bytes 4 (unat v)) FNV_SEED"

definition hash_string :: "string \<Rightarrow> u64" where
  "hash_string s = fnv1a_hash (map of_char s) FNV_SEED"

text \<open>The loops of \<open>update_hash\<close>: every string is folded into the running hash.\<close>

definition hash_fields :: "string list \<Rightarrow> u64 \<Rightarrow> u64" where
  "hash_fields fs h = fold (\<lambda>f h. hash_combine h (hash_string f)) fs h"

definition hash_channel :: "config_channel \<Rightarrow> u64 \<Rightarrow> u64" where
  "hash_channel c h =
     hash_fields (cc_polled c) (hash_fields (cc_extra c) (hash_combine h (hash_string (cc_name c))))"

definition update_hash :: "config \<Rightarrow> config" where
  "update_hash c =
     (let h = FNV_SEED;
          h = hash_combine h (hash_double (cfg_min_update_period c));
          h = hash_combine h (hash_double (cfg_polled_fields_update_period c));
          h = hash_combine h (hash_double (cfg_heartbeat_period c));
          h = hash_combine h (hash_uint32 (cfg_rate_limit_mbs c))
      in c\<lparr>cfg_hash := fold hash_channel (cfg_channels c) h\<rparr>)"

subsection \<open>Channel numbering\<close>

definition channel_width :: "config_channel \<Rightarrow> nat" where
  "channel_width c = length (cc_extra c) + length (cc_polled c) + 1"

definition total_channel_count :: "config \<Rightarrow> nat" where
  "total_channel_count c = fold (\<lambda>ch n. n + channel_width ch) (cfg_channels c) 0"

definition field_name :: "config_channel \<Rightarrow> string \<Rightarrow> string" where
  "field_name c f = cc_name c @ ''.'' @ f"

definition channel_names :: "config_channel \<Rightarrow> string list" where
  "channel_names c = cc_name c # map (field_name c) (cc_extra c) @ map (field_name c) (cc_polled c)"

text \<open>\<open>create_flat_channel_name_vector\<close>: the names in the order of their channel numbers.\<close>

definition flat_channel_names :: "config \<Rightarrow> string list" where
  "flat_channel_names c = concat (map channel_names (cfg_channels c))"

subsection \<open>Loader callbacks\<close>

datatype yevent =
    YNull | YBoolean bool | YInteger int | YDouble double | YString string
  | YStartMap | YMapKey string | YEndMap | YStartArray | YEndArray

record parser_context =
  px_level :: u32
  px_key :: string
  px_config :: config
  px_channel :: "nat option"  \<comment> \<open>index the pointer \<open>current_channel\<close> points at\<close>

definition new_context :: "config \<Rightarrow> parser_context" where
  "new_context c = \<lparr>px_level = 0, px_key = [], px_config = c, px_channel = None\<rparr>"

definition parser_double :: "parser_context \<Rightarrow> double \<Rightarrow> parser_context" where
  "parser_double x d =
     (if px_level x = 1 then
        if px_key x = ''min_update_period''
        then x\<lparr>px_config := (px_config x)\<lparr>cfg_min_update_period := d\<rparr>\<rparr>
        else if px_key x = ''polled_fields_update_period''
        then x\<lparr>px_config := (px_config x)\<lparr>cfg_polled_fields_update_period := d\<rparr>\<rparr>
        else if px_key x = ''heartbeat_period''
        then x\<lparr>px_config := (px_config x)\<lparr>cfg_heartbeat_period := d\<rparr>\<rparr>
        else if px_key x = ''rate_limit_mbs''
        then x\<lparr>px_config := (px_config x)\<lparr>cfg_rate_limit_mbs := word_of_int (ctrunc (dval d))\<rparr>\<rparr>
        else x
      else x)"

definition parser_integer :: "parser_context \<Rightarrow> int \<Rightarrow> parser_context" where
  "parser_integer x i = parser_double x (double_of_int i)"

definition update_current :: "(config_channel \<Rightarrow> config_channel) \<Rightarrow> parser_context \<Rightarrow> parser_context" where
  "update_current f x =
     (case px_channel x of
        None \<Rightarrow> x
      | Some i \<Rightarrow> x\<lparr>px_config := (px_config x)
          \<lparr>cfg_channels := (cfg_channels (px_config x))[i := f (cfg_channels (px_config x) ! i)]\<rparr>\<rparr>)"

definition parser_string :: "parser_context \<Rightarrow> string \<Rightarrow> parser_context" where
  "parser_string x v =
     (if px_level x = 3 then
        if px_key x = ''extra_fields''
        then update_current (\<lambda>c. c\<lparr>cc_extra := cc_extra c @ [v]\<rparr>) x
        else if px_key x = ''polled_fields''
        then update_current (\<lambda>c. c\<lparr>cc_polled := cc_polled c @ [v]\<rparr>) x
        else x
      else x)"

text \<open>The log line of an unknown top-level key is \<open>map_key_line\<close> of \<open>Config_Load\<close>.\<close>

definition parser_map_key :: "parser_context \<Rightarrow> string \<Rightarrow> parser_context" where
  "parser_map_key x k =
     (let x = x\<lparr>px_key := k\<rparr> in
      if px_level x = 2
      then x\<lparr>px_config := (px_config x)
               \<lparr>cfg_channels := cfg_channels (px_config x) @ [new_config_channel k]\<rparr>,
             px_channel := Some (length (cfg_channels (px_config x)))\<rparr>
      else x)"

fun parser_event :: "parser_context \<Rightarrow> yevent \<Rightarrow> parser_context" where
  "parser_event x YNull = x"
| "parser_event x (YBoolean b) = x"
| "parser_event x (YInteger i) = parser_integer x i"
| "parser_event x (YDouble d) = parser_double x d"
| "parser_event x (YString v) = parser_string x v"
| "parser_event x YStartMap = x\<lparr>px_level := px_level x + 1\<rparr>"
| "parser_event x (YMapKey k) = parser_map_key x k"
| "parser_event x YEndMap = x\<lparr>px_level := px_level x - 1\<rparr>"
| "parser_event x YStartArray = x"
| "parser_event x YEndArray = x"

definition parser_events :: "parser_context \<Rightarrow> yevent list \<Rightarrow> parser_context" where
  "parser_events x es = fold (\<lambda>e x. parser_event x e) es x"

subsection \<open>Reading the file\<close>

datatype config_error = FailedToOpen | NotAConfigurationFile | FailedToAllocate | FailedToParse string

text \<open>
  The parser's handle is \<open>None\<close> when it cannot be allocated.
  \<open>yajl h chunk = (events, h', None)\<close> for status ok, with \<open>Some message\<close> for an error (the message
  being what \<open>yajl_get_error\<close> returns). The loop feeds 64 KiB chunks while the stream and the status
  are good.
\<close>

definition CHUNK :: nat where "CHUNK = 64 * 1024"

function parse_chunks ::
  "('h \<Rightarrow> string \<Rightarrow> yevent list \<times> 'h \<times> string option) \<Rightarrow> 'h \<Rightarrow> parser_context \<Rightarrow> string \<Rightarrow>
   string option \<times> parser_context" where
  "parse_chunks yajl h x file =
     (let chunk = take CHUNK file in
      if chunk = [] then (None, x)
      else let (es, h', err) = yajl h chunk; x' = parser_events x es in
        case err of
          Some msg \<Rightarrow> (Some msg, x')
        | None \<Rightarrow> if length chunk < CHUNK then (None, x')
                  else parse_chunks yajl h' x' (drop CHUNK file))"
  by pat_completeness auto
termination
  by (relation "measure (\<lambda>(_, _, _, file). length file)") (auto simp: CHUNK_def)

declare parse_chunks.simps [simp del]

definition parse_json_file ::
  "('h \<Rightarrow> string \<Rightarrow> yevent list \<times> 'h \<times> string option) \<Rightarrow> 'h option \<Rightarrow> string option \<Rightarrow> config \<Rightarrow>
   config_error + config" where
  "parse_json_file yajl handle file c =
     (case file of
        None \<Rightarrow> Inl FailedToOpen
      | Some content \<Rightarrow>
          if content = [] then Inl NotAConfigurationFile
          else (case handle of
            None \<Rightarrow> Inl FailedToAllocate
          | Some h \<Rightarrow>
              (case parse_chunks yajl h (new_context c) content of
                 (Some msg, x) \<Rightarrow> if msg = [] then Inr (px_config x) else Inl (FailedToParse msg)
               | (None, x) \<Rightarrow> Inr (px_config x))))"

definition get_configuration ::
  "('h \<Rightarrow> string \<Rightarrow> yevent list \<times> 'h \<times> string option) \<Rightarrow> 'h option \<Rightarrow> string option \<Rightarrow> config_error + config" where
  "get_configuration yajl handle file =
     (case parse_json_file yajl handle file default_config of
        Inl e \<Rightarrow> Inl e | Inr c \<Rightarrow> Inr (update_hash c))"

end
