(* ===== verification/Serializer.thy ===== *)
theory Serializer
  imports Diode_Prelude
begin

text \<open>
  The \<open>Serializer\<close> of \<open>src/epics-diode/protocol.h\<close>: a cursor over a byte vector.

  \<open>ser_mem\<close> is the whole vector behind the pointers (\<open>start\<close> is its first byte), \<open>ser_pos\<close> and
  \<open>ser_limit\<close> are \<open>pos - start\<close> and \<open>limit - start\<close>, \<open>ser_good\<close> is \<open>good\<close>. The limit may be
  smaller than the vector: the receiver frames a short packet inside its large receive buffer, so
  a read past the limit but inside the vector is defined and yields stale bytes. An access
  outside the vector is undefined behaviour and gives \<open>None\<close>. Integers are copied in host byte
  order, which is little-endian on the supported targets.
\<close>

record serializer =
  ser_mem :: bytes
  ser_pos :: nat
  ser_limit :: nat
  ser_good :: bool

definition ser_make :: "bytes \<Rightarrow> nat \<Rightarrow> serializer" where
  "ser_make m n = \<lparr>ser_mem = m, ser_pos = 0, ser_limit = n, ser_good = True\<rparr>"

definition ser_of :: "bytes \<Rightarrow> serializer" where
  "ser_of m = ser_make m (length m)"

text \<open>
  \<open>remaining()\<close> subtracts two pointers and returns the difference as a \<open>size_t\<close>: once the
  position has run past the limit the (negative) difference wraps to a huge value.
\<close>

definition remaining :: "serializer \<Rightarrow> nat" where
  "remaining s = nat ((int (ser_limit s) - int (ser_pos s)) mod 2 ^ 64)"

definition ensure :: "nat \<Rightarrow> serializer \<Rightarrow> bool \<times> serializer" where
  "ensure n s =
     (let g = (ser_good s \<and> n \<le> remaining s) in (g, s\<lparr>ser_good := g\<rparr>))"

definition advance :: "nat \<Rightarrow> serializer \<Rightarrow> serializer" where
  "advance n s = s\<lparr>ser_pos := ser_pos s + n\<rparr>"

definition distance :: "serializer \<Rightarrow> nat" where
  "distance s = ser_pos s"

definition ser_at :: "serializer \<Rightarrow> nat \<Rightarrow> u8 option" where
  "ser_at s ix = vec_at (ser_mem s) (ser_pos s + ix)"

definition ser_write :: "bytes \<Rightarrow> serializer \<Rightarrow> serializer option" where
  "ser_write bs s =
     (if ser_pos s + length bs \<le> length (ser_mem s)
      then Some (s\<lparr>ser_mem := patch (ser_pos s) bs (ser_mem s), ser_pos := ser_pos s + length bs\<rparr>)
      else None)"

definition ser_read :: "nat \<Rightarrow> serializer \<Rightarrow> (bytes \<times> serializer) option" where
  "ser_read n s =
     (if ser_pos s + n \<le> length (ser_mem s)
      then Some (segment (ser_pos s) n (ser_mem s), s\<lparr>ser_pos := ser_pos s + n\<rparr>)
      else None)"

definition put_u8 :: "u8 \<Rightarrow> serializer \<Rightarrow> serializer option" where
  "put_u8 v s = ser_write [v] s"

definition get_u8 :: "serializer \<Rightarrow> (u8 \<times> serializer) option" where
  "get_u8 s = do { (bs, s') \<leftarrow> ser_read 1 s; Some (hd bs, s') }"

text \<open>The \<open>operator<<\<close> and \<open>operator>>\<close> templates for arithmetic types of at least two bytes.\<close>

definition put_u16 :: "u16 \<Rightarrow> serializer \<Rightarrow> serializer option" where
  "put_u16 v s = ser_write (le_bytes 2 (unat v)) s"

definition put_u32 :: "u32 \<Rightarrow> serializer \<Rightarrow> serializer option" where
  "put_u32 v s = ser_write (le_bytes 4 (unat v)) s"

definition put_u64 :: "u64 \<Rightarrow> serializer \<Rightarrow> serializer option" where
  "put_u64 v s = ser_write (le_bytes 8 (unat v)) s"

definition get_u16 :: "serializer \<Rightarrow> (u16 \<times> serializer) option" where
  "get_u16 s = do { (bs, s') \<leftarrow> ser_read 2 s; Some (of_nat (le_nat bs), s') }"

definition get_u32 :: "serializer \<Rightarrow> (u32 \<times> serializer) option" where
  "get_u32 s = do { (bs, s') \<leftarrow> ser_read 4 s; Some (of_nat (le_nat bs), s') }"

definition get_u64 :: "serializer \<Rightarrow> (u64 \<times> serializer) option" where
  "get_u64 s = do { (bs, s') \<leftarrow> ser_read 8 s; Some (of_nat (le_nat bs), s') }"

text \<open>The padding loop of \<open>pad_align\<close>: one padding byte for each \<open>n\<close> up to the alignment.\<close>

function pad_loop :: "nat \<Rightarrow> nat \<Rightarrow> u8 \<Rightarrow> serializer \<Rightarrow> serializer option" where
  "pad_loop n alignment padding s =
     (if n < alignment
      then do { s' \<leftarrow> put_u8 padding s; pad_loop (Suc n) alignment padding s' }
      else Some s)"
  by pat_completeness auto
termination
  by (relation "measure (\<lambda>(n, alignment, _). alignment - n)") auto

declare pad_loop.simps [simp del]

definition pad_align :: "nat \<Rightarrow> u8 \<Rightarrow> serializer \<Rightarrow> serializer option" where
  "pad_align alignment padding s =
     (let n = distance s mod alignment
      in if n > 0 then pad_loop n alignment padding s else Some s)"

definition pos_align :: "nat \<Rightarrow> serializer \<Rightarrow> serializer" where
  "pos_align alignment s =
     (let n = distance s mod alignment
      in if n > 0 then s\<lparr>ser_pos := ser_pos s + (alignment - n)\<rparr> else s)"

text \<open>\<open>position(new_pos)\<close> asserts its argument is in bounds; \<open>try_position\<close> reports it.\<close>

definition set_position :: "nat \<Rightarrow> serializer \<Rightarrow> serializer option" where
  "set_position p s = (if p \<le> ser_limit s then Some (s\<lparr>ser_pos := p\<rparr>) else None)"

definition try_position :: "nat \<Rightarrow> serializer \<Rightarrow> bool \<times> serializer" where
  "try_position p s = (if p \<le> ser_limit s then (True, s\<lparr>ser_pos := p\<rparr>) else (False, s))"

subsection \<open>Well-formed cursors\<close>

text \<open>
  The framing a client relies on: the cursor is inside its limit, the limit inside the vector,
  and the vector is small enough that pointer differences do not wrap.
\<close>

definition ser_wf :: "serializer \<Rightarrow> bool" where
  "ser_wf s \<longleftrightarrow> ser_pos s \<le> ser_limit s \<and> ser_limit s \<le> length (ser_mem s) \<and> length (ser_mem s) < 2 ^ 64"

lemma remaining_wf [ser_simps]:
  assumes "ser_wf s"
  shows "remaining s = ser_limit s - ser_pos s"
proof -
  have "int (ser_limit s) - int (ser_pos s) = int (ser_limit s - ser_pos s)"
    using assms by (simp add: ser_wf_def of_nat_diff)
  moreover have "int (ser_limit s - ser_pos s) mod 2 ^ 64 = int (ser_limit s - ser_pos s)"
    using assms by (intro mod_pos_pos_trivial) (auto simp: ser_wf_def)
  ultimately show ?thesis
    by (simp only: remaining_def nat_int)
qed

lemma ser_wf_of [simp]: "length m < 2 ^ 64 \<Longrightarrow> ser_wf (ser_of m)"
  by (simp add: ser_wf_def ser_of_def ser_make_def)

lemma ser_wf_make [simp]: "n \<le> length m \<Longrightarrow> length m < 2 ^ 64 \<Longrightarrow> ser_wf (ser_make m n)"
  by (simp add: ser_wf_def ser_make_def)

lemma ser_make_fields [ser_fields]:
  "ser_mem (ser_make m n) = m" "ser_pos (ser_make m n) = 0" "ser_limit (ser_make m n) = n"
  "ser_good (ser_make m n)" "ser_mem (ser_of m) = m" "ser_pos (ser_of m) = 0"
  "ser_limit (ser_of m) = length m" "ser_good (ser_of m)"
  by (simp_all add: ser_make_def ser_of_def)

lemma advance_fields [ser_fields]:
  "ser_mem (advance n s) = ser_mem s" "ser_pos (advance n s) = ser_pos s + n"
  "ser_limit (advance n s) = ser_limit s" "ser_good (advance n s) = ser_good s"
  by (simp_all add: advance_def)

lemma ensure_True [ser_simps]:
  "ser_good s \<Longrightarrow> n \<le> remaining s \<Longrightarrow> ensure n s = (True, s)"
  by (simp add: ensure_def)

lemma ensure_False [ser_simps]:
  "\<not> (ser_good s \<and> n \<le> remaining s) \<Longrightarrow> ensure n s = (False, s\<lparr>ser_good := False\<rparr>)"
  by (auto simp: ensure_def)

lemma fst_ensure: "fst (ensure n s) \<longleftrightarrow> ser_good s \<and> n \<le> remaining s"
  by (simp add: ensure_def Let_def)

text \<open>A failed \<open>ensure\<close> is sticky: no later \<open>ensure\<close> succeeds.\<close>

lemma ensure_sticky: "\<not> fst (ensure n s) \<Longrightarrow> \<not> fst (ensure k (snd (ensure n s)))"
  by (auto simp: ensure_def Let_def)

lemma ser_write_SomeD:
  assumes "ser_write bs s = Some s'"
  shows "s' = s\<lparr>ser_mem := patch (ser_pos s) bs (ser_mem s), ser_pos := ser_pos s + length bs\<rparr>"
    and "ser_pos s + length bs \<le> length (ser_mem s)"
  using assms by (simp_all add: ser_write_def split: if_splits)

lemma ser_write_fields [ser_fields]:
  assumes "ser_write bs s = Some s'"
  shows "ser_pos s' = ser_pos s + length bs" "ser_limit s' = ser_limit s"
    "ser_good s' = ser_good s" "length (ser_mem s') = length (ser_mem s)"
    "take (ser_pos s') (ser_mem s') = take (ser_pos s) (ser_mem s) @ bs"
  using ser_write_SomeD [OF assms] by (simp_all add: buf_simps)

lemma ser_write_wf:
  "ser_write bs s = Some s' \<Longrightarrow> ser_wf s \<Longrightarrow> length bs \<le> remaining s \<Longrightarrow> ser_wf s'"
  by (auto simp: ser_fields ser_simps ser_wf_def)

lemma ser_write_total: "ser_wf s \<Longrightarrow> length bs \<le> remaining s \<Longrightarrow> \<exists>s'. ser_write bs s = Some s'"
  by (auto simp: ser_write_def remaining_wf ser_wf_def)

lemma ser_write_Nil [simp]: "ser_pos s \<le> length (ser_mem s) \<Longrightarrow> ser_write [] s = Some s"
  by (simp add: ser_write_def)

text \<open>Two writes in a row are one write of the concatenation, whether or not they fit.\<close>

lemma ser_write_append:
  "Option.bind (ser_write a s) (ser_write b) = ser_write (a @ b) s"
  by (auto simp: ser_write_def buf_simps patch_append add.assoc)

lemma ser_write_append_k:
  "Option.bind (ser_write a s) (\<lambda>s'. Option.bind (ser_write b s') k) = Option.bind (ser_write (a @ b) s) k"
  by (metis bind_assoc ser_write_append)

lemma put_write_fun:
  "put_u8 a = ser_write [a]" "put_u16 b = ser_write (le_bytes 2 (unat b))"
  "put_u32 c = ser_write (le_bytes 4 (unat c))" "put_u64 d = ser_write (le_bytes 8 (unat d))"
  by (rule ext, simp add: put_u8_def put_u16_def put_u32_def put_u64_def)+

lemma put_write [ser_simps]:
  "put_u8 a s = ser_write [a] s" "put_u16 b s = ser_write (le_bytes 2 (unat b)) s"
  "put_u32 c s = ser_write (le_bytes 4 (unat c)) s" "put_u64 d s = ser_write (le_bytes 8 (unat d)) s"
  by (simp_all add: put_u8_def put_u16_def put_u32_def put_u64_def)

text \<open>The cursor after a write that fits, as a function.\<close>

definition written :: "bytes \<Rightarrow> serializer \<Rightarrow> serializer" where
  "written bs s = s\<lparr>ser_mem := patch (ser_pos s) bs (ser_mem s), ser_pos := ser_pos s + length bs\<rparr>"

lemma ser_write_fits: "ser_pos s + length bs \<le> length (ser_mem s) \<Longrightarrow> ser_write bs s = Some (written bs s)"
  by (simp add: ser_write_def written_def)

lemma ser_write_wf_fits: "ser_wf s \<Longrightarrow> length bs \<le> remaining s \<Longrightarrow> ser_write bs s = Some (written bs s)"
  by (intro ser_write_fits) (auto simp: remaining_wf ser_wf_def)

lemma written_fields [ser_fields]:
  "ser_pos (written bs s) = ser_pos s + length bs" "ser_limit (written bs s) = ser_limit s"
  "ser_good (written bs s) = ser_good s"
  by (simp_all add: written_def)

lemma written_mem [ser_fields]:
  assumes "ser_pos s + length bs \<le> length (ser_mem s)"
  shows "length (ser_mem (written bs s)) = length (ser_mem s)"
    and "take (ser_pos s + length bs) (ser_mem (written bs s)) = take (ser_pos s) (ser_mem s) @ bs"
  using assms by (simp_all add: written_def buf_simps)

lemma written_append:
  "ser_pos s + length a + length b \<le> length (ser_mem s) \<Longrightarrow> written b (written a s) = written (a @ b) s"
  by (simp add: written_def patch_append add.assoc)

lemma written_Nil [simp]: "written [] s = s"
  by (simp add: written_def)

lemma written_good [simp]: "written bs (s\<lparr>ser_good := g\<rparr>) = (written bs s)\<lparr>ser_good := g\<rparr>"
  by (simp add: written_def)

lemma written_wf:
  assumes "ser_wf s" and "length bs \<le> remaining s"
  shows "ser_wf (written bs s)" and "remaining (written bs s) = remaining s - length bs"
proof -
  have le: "ser_pos s + length bs \<le> length (ser_mem s)"
    using assms by (auto simp: remaining_wf ser_wf_def)
  show wf: "ser_wf (written bs s)"
    using assms written_mem(1) [OF le] by (auto simp: ser_wf_def written_fields remaining_wf)
  show "remaining (written bs s) = remaining s - length bs"
    using assms(1) wf by (simp add: remaining_wf written_fields)
qed

subsection \<open>Reading what is there\<close>

text \<open>\<open>at_cursor bs s\<close>: the bytes \<open>bs\<close> lie at the cursor, inside the vector.\<close>

definition at_cursor :: "bytes \<Rightarrow> serializer \<Rightarrow> bool" where
  "at_cursor bs s \<longleftrightarrow>
     ser_pos s + length bs \<le> length (ser_mem s) \<and> segment (ser_pos s) (length bs) (ser_mem s) = bs"

lemma at_cursor_append:
  "at_cursor (a @ b) s \<longleftrightarrow> at_cursor a s \<and> at_cursor b (advance (length a) s)"
proof
  assume l: "at_cursor (a @ b) s"
  then have "segment (ser_pos s) (length a + length b) (ser_mem s) = a @ b"
    by (simp add: at_cursor_def)
  with l show "at_cursor a s \<and> at_cursor b (advance (length a) s)"
    by (auto simp: at_cursor_def ser_fields dest: segment_prefix segment_suffix)
next
  assume "at_cursor a s \<and> at_cursor b (advance (length a) s)"
  then show "at_cursor (a @ b) s"
    by (auto simp: at_cursor_def ser_fields segment_append)
qed

lemma at_cursor_Cons2:
  "at_cursor (a # b # bs) s \<longleftrightarrow> at_cursor [a] s \<and> at_cursor (b # bs) (advance 1 s)"
  using at_cursor_append [of "[a]" "b # bs" s] by simp

lemma at_cursor_Cons_le:
  "at_cursor (a # le_bytes n v) s \<longleftrightarrow> at_cursor [a] s \<and> at_cursor (le_bytes n v) (advance 1 s)"
  "at_cursor (a # le_bytes n v @ bs) s \<longleftrightarrow> at_cursor [a] s \<and> at_cursor (le_bytes n v @ bs) (advance 1 s)"
  using at_cursor_append [of "[a]" "le_bytes n v" s] at_cursor_append [of "[a]" "le_bytes n v @ bs" s]
  by simp_all

lemma ser_read_cursor:
  "at_cursor bs s \<Longrightarrow> length bs = n \<Longrightarrow> ser_read n s = Some (bs, advance n s)"
  by (auto simp: ser_read_def at_cursor_def advance_def)

lemma get_cursor:
  "at_cursor [a] s \<Longrightarrow> get_u8 s = Some (a, advance 1 s)"
  "at_cursor (le_bytes 2 (unat b)) s \<Longrightarrow> get_u16 s = Some (b, advance 2 s)"
  "at_cursor (le_bytes 4 (unat c)) s \<Longrightarrow> get_u32 s = Some (c, advance 4 s)"
  "at_cursor (le_bytes 8 (unat d)) s \<Longrightarrow> get_u64 s = Some (d, advance 8 s)"
  by (simp_all add: get_u8_def get_u16_def get_u32_def get_u64_def ser_read_cursor)

lemma advance_advance [simp]: "advance a (advance b s) = advance (b + a) s"
  by (simp add: advance_def add.assoc)

lemma advance_0 [simp]: "advance 0 s = s"
  by (simp add: advance_def)

lemma written_at_cursor:
  assumes "ser_write bs s = Some s'"
  shows "at_cursor bs (s'\<lparr>ser_pos := ser_pos s\<rparr>)"
  using ser_write_SomeD [OF assms] by (simp add: at_cursor_def buf_simps)

subsection \<open>Padding\<close>

lemma pad_loop_write:
  "n \<le> alignment \<Longrightarrow> ser_pos s \<le> length (ser_mem s) \<Longrightarrow>
   pad_loop n alignment padding s = ser_write (replicate (alignment - n) padding) s"
proof (induction n alignment padding s rule: pad_loop.induct)
  case (1 n alignment padding s)
  show ?case
  proof (cases "n < alignment")
    case True
    have "pad_loop n alignment padding s =
        Option.bind (ser_write [padding] s) (\<lambda>s'. pad_loop (Suc n) alignment padding s')"
      using True by (simp add: pad_loop.simps [of n] put_u8_def)
    also have "\<dots> = Option.bind (ser_write [padding] s) (ser_write (replicate (alignment - Suc n) padding))"
    proof (cases "ser_write [padding] s")
      case None
      then show ?thesis by simp
    next
      case (Some s')
      from ser_write_SomeD [OF Some] have "ser_pos s' \<le> length (ser_mem s')"
        by (simp add: buf_simps)
      with "1.IH" [OF True] True show ?thesis
        using Some by (simp add: put_u8_def)
    qed
    also have "\<dots> = ser_write ([padding] @ replicate (alignment - Suc n) padding) s"
      by (rule ser_write_append)
    finally show ?thesis
      using True by (simp add: Suc_diff_Suc flip: replicate_Suc)
  next
    case False
    with "1.prems" show ?thesis by (simp add: pad_loop.simps [of alignment])
  qed
qed

text \<open>The number of padding bytes up to the next multiple of the alignment.\<close>

definition pad_len :: "nat \<Rightarrow> nat \<Rightarrow> nat" where
  "pad_len alignment n = (if n mod alignment = 0 then 0 else alignment - n mod alignment)"

lemma pad_len_dvd: "0 < a \<Longrightarrow> a dvd n + pad_len a n"
proof (cases "n mod a = 0")
  case True
  then show ?thesis by (simp add: pad_len_def mod_eq_0_iff_dvd)
next
  case False
  assume "0 < a"
  then have "n mod a < a" by simp
  moreover have "n = n div a * a + n mod a" by simp
  ultimately have "n + pad_len a n = n div a * a + a"
    using False unfolding pad_len_def by (simp only: if_False)
  then show ?thesis by simp
qed

lemma pad_len_less: "0 < a \<Longrightarrow> pad_len a n < a"
  by (simp add: pad_len_def)

lemma pad_len_0 [simp]: "a dvd n \<Longrightarrow> pad_len a n = 0"
  by (simp add: pad_len_def)

lemma pad_len_bound:
  assumes "0 < a" and "a dvd m" and "n \<le> m"
  shows "n + pad_len a n \<le> m"
proof -
  obtain k where k: "n + pad_len a n = a * k"
    using pad_len_dvd [OF assms(1)] by blast
  obtain j where j: "m = a * j" using assms(2) by blast
  have "a * k < a * j + a"
    using pad_len_less [OF assms(1), of n] k j assms(3) by linarith
  then have "a * k < a * Suc j" by simp
  then have "k \<le> j" using mult_less_cancel1 less_Suc_eq_le by blast
  with k j show ?thesis by simp
qed

lemma pad_align_write [ser_simps]:
  assumes "0 < a" and "ser_pos s \<le> length (ser_mem s)"
  shows "pad_align a padding s = ser_write (replicate (pad_len a (ser_pos s)) padding) s"
  using assms by (simp add: pad_align_def distance_def pad_len_def Let_def pad_loop_write less_imp_le)

lemma pos_align_advance [ser_simps]: "pos_align a s = advance (pad_len a (ser_pos s)) s"
  by (simp add: pos_align_def distance_def pad_len_def Let_def advance_def)

end
