(* ===== verification/Protocol.thy ===== *)
theory Protocol
  imports Serializer
begin

text \<open>
  The wire messages of \<open>src/epics-diode/protocol.h\<close> and their (de)serialisation in
  \<open>src/protocol.cpp\<close>: the packet header, the submessage header and the three Channel Access
  payload structures, each with its \<open>operator<<\<close> (\<open>put_\<dots>\<close>) and \<open>operator>>\<close> (\<open>get_\<dots>\<close>). A read
  that its \<open>ensure\<close> refuses leaves the caller's default-constructed structure untouched.

  The locale \<open>wire_codec\<close> states what a client of a fixed-size message may rely on; it is
  interpreted on every such message of the protocol.
\<close>

subsection \<open>Sizes and identifiers\<close>

definition MAX_MESSAGE_SIZE :: nat where "MAX_MESSAGE_SIZE = 65504"
definition Header_size :: nat where "Header_size = 24"
definition Submessage_size :: nat where "Submessage_size = 4"
definition Submessage_alignment :: nat where "Submessage_alignment = 8"
definition CADataMessage_size :: nat where "CADataMessage_size = 4"
definition CAChannelData_size :: nat where "CAChannelData_size = 8"
definition CAFragDataMessage_size :: nat where "CAFragDataMessage_size = 16"

definition CAChannelData_max_data_size :: nat where
  "CAChannelData_max_data_size =
     MAX_MESSAGE_SIZE - Header_size - Submessage_size - CADataMessage_size - CAChannelData_size"

lemmas size_defs =
  MAX_MESSAGE_SIZE_def Header_size_def Submessage_size_def Submessage_alignment_def
  CADataMessage_size_def CAChannelData_size_def CAFragDataMessage_size_def
  CAChannelData_max_data_size_def

definition CA_DATA_MESSAGE :: u8 where "CA_DATA_MESSAGE = 16"
definition CA_FRAG_DATA_MESSAGE :: u8 where "CA_FRAG_DATA_MESSAGE = 17"
definition LittleEndian :: u8 where "LittleEndian = 1"

definition MAGIC :: bytes where "MAGIC = [0x70, 0x76, 0x41, 0x43]"
definition VERSION :: u8 where "VERSION = 1"

subsection \<open>Packet header\<close>

record header =
  hd_magic :: bytes
  hd_version :: u8
  hd_startup_time :: u64
  hd_config_hash :: u64

definition empty_header :: header where
  "empty_header = \<lparr>hd_magic = [0, 0, 0, 0], hd_version = 0, hd_startup_time = 0, hd_config_hash = 0\<rparr>"

definition make_header :: "u64 \<Rightarrow> u64 \<Rightarrow> header" where
  "make_header startup hash =
     \<lparr>hd_magic = MAGIC, hd_version = VERSION, hd_startup_time = startup, hd_config_hash = hash\<rparr>"

definition header_validate :: "header \<Rightarrow> bool" where
  "header_validate h \<longleftrightarrow> hd_magic h = MAGIC"

text \<open>The three reserved bytes are skipped, not written.\<close>

definition put_header :: "header \<Rightarrow> serializer \<Rightarrow> serializer option" where
  "put_header h s =
     (let (ok, s) = ensure Header_size s in
      if ok then do {
        s \<leftarrow> ser_write (hd_magic h) s;
        s \<leftarrow> put_u8 (hd_version h) s;
        s \<leftarrow> put_u64 (hd_startup_time h) (advance 3 s);
        put_u64 (hd_config_hash h) s
      } else Some s)"

definition get_header :: "serializer \<Rightarrow> (header \<times> serializer) option" where
  "get_header s =
     (let (ok, s) = ensure Header_size s in
      if ok then do {
        (m, s) \<leftarrow> ser_read 4 s;
        (v, s) \<leftarrow> get_u8 s;
        (t, s) \<leftarrow> get_u64 (advance 3 s);
        (c, s) \<leftarrow> get_u64 s;
        Some (\<lparr>hd_magic = m, hd_version = v, hd_startup_time = t, hd_config_hash = c\<rparr>, s)
      } else Some (empty_header, s))"

subsection \<open>Submessage header\<close>

record subheader =
  sh_id :: u8
  sh_flags :: u8
  sh_next :: u16

definition empty_subheader :: subheader where
  "empty_subheader = \<lparr>sh_id = 0, sh_flags = LittleEndian, sh_next = 0\<rparr>"

text \<open>The explicit constructor asserts the size bound and the little-endian flag.\<close>

definition make_subheader :: "u8 \<Rightarrow> u8 \<Rightarrow> u16 \<Rightarrow> subheader option" where
  "make_subheader i f n =
     (if unat n \<le> MAX_MESSAGE_SIZE - Header_size - Submessage_size \<and> and f LittleEndian \<noteq> 0
      then Some \<lparr>sh_id = i, sh_flags = f, sh_next = n\<rparr> else None)"

definition put_subheader :: "subheader \<Rightarrow> serializer \<Rightarrow> serializer option" where
  "put_subheader h s =
     (let (ok, s) = ensure Submessage_size s in
      if ok then do {
        s \<leftarrow> put_u8 (sh_id h) s;
        s \<leftarrow> put_u8 (sh_flags h) s;
        put_u16 (sh_next h) s
      } else Some s)"

definition get_subheader :: "serializer \<Rightarrow> (subheader \<times> serializer) option" where
  "get_subheader s =
     (let (ok, s) = ensure Submessage_size s in
      if ok then do {
        (i, s) \<leftarrow> get_u8 s;
        (f, s) \<leftarrow> get_u8 s;
        (n, s) \<leftarrow> get_u16 s;
        Some (\<lparr>sh_id = i, sh_flags = f, sh_next = n\<rparr>, s)
      } else Some (empty_subheader, s))"

subsection \<open>Channel Access payloads\<close>

record ca_data_message =
  dm_seq_no :: u16
  dm_channel_count :: u16

definition empty_ca_data_message :: ca_data_message where
  "empty_ca_data_message = \<lparr>dm_seq_no = 0, dm_channel_count = 0\<rparr>"

definition put_ca_data_message :: "ca_data_message \<Rightarrow> serializer \<Rightarrow> serializer option" where
  "put_ca_data_message m s =
     (let (ok, s) = ensure CADataMessage_size s in
      if ok then do {
        s \<leftarrow> put_u16 (dm_seq_no m) s;
        put_u16 (dm_channel_count m) s
      } else Some s)"

definition get_ca_data_message :: "serializer \<Rightarrow> (ca_data_message \<times> serializer) option" where
  "get_ca_data_message s =
     (let (ok, s) = ensure CADataMessage_size s in
      if ok then do {
        (q, s) \<leftarrow> get_u16 s;
        (n, s) \<leftarrow> get_u16 s;
        Some (\<lparr>dm_seq_no = q, dm_channel_count = n\<rparr>, s)
      } else Some (empty_ca_data_message, s))"

record ca_channel_data =
  cd_id :: u32
  cd_count :: u16
  cd_type :: u16

definition empty_ca_channel_data :: ca_channel_data where
  "empty_ca_channel_data = \<lparr>cd_id = 0, cd_count = 0, cd_type = 0\<rparr>"

text \<open>Both directions ensure \<open>CADataMessage::size\<close> (4 bytes) and then move 8 bytes.\<close>

definition put_ca_channel_data :: "ca_channel_data \<Rightarrow> serializer \<Rightarrow> serializer option" where
  "put_ca_channel_data m s =
     (let (ok, s) = ensure CADataMessage_size s in
      if ok then do {
        s \<leftarrow> put_u32 (cd_id m) s;
        s \<leftarrow> put_u16 (cd_count m) s;
        put_u16 (cd_type m) s
      } else Some s)"

definition get_ca_channel_data :: "serializer \<Rightarrow> (ca_channel_data \<times> serializer) option" where
  "get_ca_channel_data s =
     (let (ok, s) = ensure CADataMessage_size s in
      if ok then do {
        (i, s) \<leftarrow> get_u32 s;
        (n, s) \<leftarrow> get_u16 s;
        (t, s) \<leftarrow> get_u16 s;
        Some (\<lparr>cd_id = i, cd_count = n, cd_type = t\<rparr>, s)
      } else Some (empty_ca_channel_data, s))"

record ca_frag_message =
  fm_seq_no :: u16
  fm_fragment_seq_no :: u16
  fm_channel_id :: u32
  fm_count :: u32
  fm_type :: u16
  fm_fragment_size :: u16

definition empty_ca_frag_message :: ca_frag_message where
  "empty_ca_frag_message =
     \<lparr>fm_seq_no = 0, fm_fragment_seq_no = 0, fm_channel_id = 0, fm_count = 0, fm_type = 0,
      fm_fragment_size = 0\<rparr>"

definition put_ca_frag_message :: "ca_frag_message \<Rightarrow> serializer \<Rightarrow> serializer option" where
  "put_ca_frag_message m s =
     (let (ok, s) = ensure CAFragDataMessage_size s in
      if ok then do {
        s \<leftarrow> put_u16 (fm_seq_no m) s;
        s \<leftarrow> put_u16 (fm_fragment_seq_no m) s;
        s \<leftarrow> put_u32 (fm_channel_id m) s;
        s \<leftarrow> put_u32 (fm_count m) s;
        s \<leftarrow> put_u16 (fm_type m) s;
        put_u16 (fm_fragment_size m) s
      } else Some s)"

definition get_ca_frag_message :: "serializer \<Rightarrow> (ca_frag_message \<times> serializer) option" where
  "get_ca_frag_message s =
     (let (ok, s) = ensure CAFragDataMessage_size s in
      if ok then do {
        (q, s) \<leftarrow> get_u16 s;
        (fq, s) \<leftarrow> get_u16 s;
        (i, s) \<leftarrow> get_u32 s;
        (n, s) \<leftarrow> get_u32 s;
        (t, s) \<leftarrow> get_u16 s;
        (z, s) \<leftarrow> get_u16 s;
        Some (\<lparr>fm_seq_no = q, fm_fragment_seq_no = fq, fm_channel_id = i, fm_count = n,
          fm_type = t, fm_fragment_size = z\<rparr>, s)
      } else Some (empty_ca_frag_message, s))"

subsection \<open>Wire images\<close>

definition enc_header :: "bytes \<Rightarrow> header \<Rightarrow> bytes" where
  "enc_header reserved h =
     hd_magic h @ [hd_version h] @ reserved @ le_bytes 8 (unat (hd_startup_time h)) @
     le_bytes 8 (unat (hd_config_hash h))"

definition enc_subheader :: "subheader \<Rightarrow> bytes" where
  "enc_subheader h = [sh_id h, sh_flags h] @ le_bytes 2 (unat (sh_next h))"

definition enc_ca_data_message :: "ca_data_message \<Rightarrow> bytes" where
  "enc_ca_data_message m =
     le_bytes 2 (unat (dm_seq_no m)) @ le_bytes 2 (unat (dm_channel_count m))"

definition enc_ca_channel_data :: "ca_channel_data \<Rightarrow> bytes" where
  "enc_ca_channel_data m =
     le_bytes 4 (unat (cd_id m)) @ le_bytes 2 (unat (cd_count m)) @ le_bytes 2 (unat (cd_type m))"

definition enc_ca_frag_message :: "ca_frag_message \<Rightarrow> bytes" where
  "enc_ca_frag_message m =
     le_bytes 2 (unat (fm_seq_no m)) @ le_bytes 2 (unat (fm_fragment_seq_no m)) @
     le_bytes 4 (unat (fm_channel_id m)) @ le_bytes 4 (unat (fm_count m)) @
     le_bytes 2 (unat (fm_type m)) @ le_bytes 2 (unat (fm_fragment_size m))"

lemma length_enc [simp]:
  "length (enc_subheader h) = 4" "length (enc_ca_data_message d) = 4"
  "length (enc_ca_channel_data c) = 8" "length (enc_ca_frag_message f) = 16"
  by (simp_all add: enc_subheader_def enc_ca_data_message_def enc_ca_channel_data_def
      enc_ca_frag_message_def)

subsection \<open>The contract of a fixed-size message\<close>

text \<open>
  \<open>need\<close> is the number of bytes the operation ensures, \<open>size\<close> the number it moves: a correct
  message has \<open>need = size\<close>, which is the extension \<open>safe_codec\<close>.
\<close>

locale wire_codec =
  fixes put :: "'m \<Rightarrow> serializer \<Rightarrow> serializer option"
    and get :: "serializer \<Rightarrow> ('m \<times> serializer) option"
    and enc :: "'m \<Rightarrow> bytes"
    and dflt :: 'm
    and need :: nat
    and size :: nat
  assumes enc_length: "length (enc m) = size"
    and put_ok: "ser_good s \<Longrightarrow> need \<le> remaining s \<Longrightarrow> put m s = ser_write (enc m) s"
    and put_refused: "\<not> (ser_good s \<and> need \<le> remaining s) \<Longrightarrow> put m s = Some (s\<lparr>ser_good := False\<rparr>)"
    and get_ok: "ser_good s \<Longrightarrow> need \<le> remaining s \<Longrightarrow> at_cursor (enc m) s \<Longrightarrow>
      get s = Some (m, advance size s)"
    and get_refused: "\<not> (ser_good s \<and> need \<le> remaining s) \<Longrightarrow>
      get s = Some (dflt, s\<lparr>ser_good := False\<rparr>)"
begin

lemma roundtrip:
  assumes "ser_good s" and "ser_wf s" and "need \<le> remaining s" and "put m s = Some s'"
  shows "get (s'\<lparr>ser_pos := ser_pos s\<rparr>) = Some (m, s')"
proof -
  have w: "ser_write (enc m) s = Some s'"
    using assms put_ok by simp
  note f = ser_write_SomeD [OF w]
  let ?b = "s'\<lparr>ser_pos := ser_pos s\<rparr>"
  have "remaining ?b = remaining s" "ser_good ?b" "at_cursor (enc m) ?b"
    using f assms written_at_cursor [OF w] by (simp_all add: remaining_def)
  then have "get ?b = Some (m, advance size ?b)"
    using assms by (intro get_ok) auto
  moreover have "advance size ?b = s'"
    using f by (simp add: advance_def enc_length)
  ultimately show ?thesis by simp
qed

lemma put_moves:
  "ser_good s \<Longrightarrow> need \<le> remaining s \<Longrightarrow> put m s = Some s' \<Longrightarrow> ser_pos s' = ser_pos s + size"
  using put_ok ser_write_fields(1) enc_length by metis

end

locale safe_codec = wire_codec +
  assumes need_size: "need = size"
begin

lemma put_defined: "ser_wf s \<Longrightarrow> \<exists>s'. put m s = Some s' \<and> ser_wf s'"
proof (cases "ser_good s \<and> need \<le> remaining s")
  case True
  assume wf: "ser_wf s"
  have len: "length (enc m) \<le> remaining s"
    using True by (simp add: enc_length need_size)
  with wf obtain s' where "ser_write (enc m) s = Some s'"
    using ser_write_total by blast
  then show ?thesis
    using True wf len by (auto simp: put_ok intro: ser_write_wf)
next
  case False
  assume "ser_wf s"
  then show ?thesis
    using False by (simp add: put_refused ser_wf_def)
qed

end

subsection \<open>Interpretations\<close>

lemma remaining_good [simp]: "remaining (s\<lparr>ser_good := g\<rparr>) = remaining s"
  by (simp add: remaining_def)

lemma ser_good_True: "ser_good s \<Longrightarrow> s\<lparr>ser_good := True\<rparr> = s"
  by (cases s) simp

lemma ensure_cases:
  "(let (ok, s') = ensure n s in if ok then f s' else g s') =
   (if ser_good s \<and> n \<le> remaining s then f s else g (s\<lparr>ser_good := False\<rparr>))"
  by (auto simp: ensure_def Let_def ser_good_True)

lemma advance_4: "advance (Suc (Suc (Suc (Suc 0)))) = advance 4"
  by (simp add: eval_nat_numeral)

lemmas codec_simps =
  ensure_cases ser_write_append ser_write_append_k put_write_fun at_cursor_append at_cursor_Cons2
  at_cursor_Cons_le get_cursor get_cursor(1) [unfolded One_nat_def] advance_4

lemmas put_get_defs =
  put_subheader_def get_subheader_def put_ca_data_message_def get_ca_data_message_def
  put_ca_channel_data_def get_ca_channel_data_def put_ca_frag_message_def get_ca_frag_message_def

lemmas enc_defs =
  enc_subheader_def enc_ca_data_message_def enc_ca_channel_data_def enc_ca_frag_message_def

interpretation subheader: safe_codec put_subheader get_subheader enc_subheader
  empty_subheader Submessage_size Submessage_size
  by unfold_locales
    (auto simp: put_get_defs enc_defs codec_simps Submessage_size_def)

interpretation ca_data: safe_codec put_ca_data_message get_ca_data_message enc_ca_data_message
  empty_ca_data_message CADataMessage_size CADataMessage_size
  by unfold_locales
    (auto simp: put_get_defs enc_defs codec_simps CADataMessage_size_def)

interpretation ca_channel: wire_codec put_ca_channel_data get_ca_channel_data enc_ca_channel_data
  empty_ca_channel_data CADataMessage_size CAChannelData_size
  by unfold_locales
    (auto simp: put_get_defs enc_defs codec_simps CADataMessage_size_def CAChannelData_size_def)

interpretation ca_frag: safe_codec put_ca_frag_message get_ca_frag_message enc_ca_frag_message
  empty_ca_frag_message CAFragDataMessage_size CAFragDataMessage_size
  by unfold_locales
    (auto simp: put_get_defs enc_defs codec_simps CAFragDataMessage_size_def)

subsection \<open>The packet header\<close>

definition good_header :: "header \<Rightarrow> bool" where
  "good_header h \<longleftrightarrow> hd_magic h = MAGIC"

lemma length_enc_header:
  "length reserved = 3 \<Longrightarrow> good_header h \<Longrightarrow> length (enc_header reserved h) = 24"
  by (simp add: enc_header_def good_header_def MAGIC_def)

lemma at_cursor_advance_append:
  "at_cursor (a @ b) s \<Longrightarrow> at_cursor b (advance (length a) s)"
  by (simp add: at_cursor_append)

lemma get_header_cursor:
  assumes "at_cursor (enc_header reserved h) s" and "length reserved = 3" and "length (hd_magic h) = 4"
    and "ser_good s" and "Header_size \<le> remaining s"
  shows "get_header s = Some (h, advance 24 s)"
proof -
  have m: "length (hd_magic h) = 4"
    by (rule assms(3))
  have c: "at_cursor (hd_magic h) s" "at_cursor [hd_version h] (advance 4 s)"
    "at_cursor (le_bytes 8 (unat (hd_startup_time h))) (advance 8 s)"
    "at_cursor (le_bytes 8 (unat (hd_config_hash h))) (advance 16 s)"
    using assms(1,2) unfolding enc_header_def at_cursor_append by (simp_all add: m)
  show ?thesis
    using assms(4,5) unfolding get_header_def
    by (simp add: ensure_True ser_read_cursor [OF c(1) m] get_cursor(1) [OF c(2)]
        get_cursor(4) [OF c(3)] get_cursor(4) [OF c(4)])
qed

end
