(* ===== verification/Support.thy ===== *)
theory Support
  imports Diode_Prelude
begin

text \<open>
  The logger's levels (\<open>src/epics-diode/logger.h\<close>) and the value hash (\<open>src/utils.cpp\<close>). Writing a
  log line goes to the standard output: the model gives the text of the line and when it is written.
\<close>

subsection \<open>Log levels\<close>

text \<open>An enumeration over \<open>uint32_t\<close>; any 32-bit value may be cast to it.\<close>

type_synonym log_level = u32

definition Trace :: log_level where "Trace = 0"
definition Debug :: log_level where "Debug = 1"
definition Config_level :: log_level where "Config_level = 2"
definition Info :: log_level where "Info = 3"
definition Warning :: log_level where "Warning = 4"
definition Error_level :: log_level where "Error_level = 5"

definition from_verbosity :: "int \<Rightarrow> log_level" where
  "from_verbosity debug_level = word_of_int (max (int (unat Trace)) (int (unat Info) - debug_level))"

text \<open>A logger keeps the default level of the moment of its construction.\<close>

record logger =
  lg_name :: string
  lg_level :: log_level

definition initial_log_level :: log_level where "initial_log_level = Info"

definition new_logger :: "log_level \<Rightarrow> string \<Rightarrow> logger" where
  "new_logger default_log_level name = \<lparr>lg_name = name, lg_level = default_log_level\<rparr>"

definition set_log_level :: "log_level \<Rightarrow> logger \<Rightarrow> logger" where
  "set_log_level level l = l\<lparr>lg_level := level\<rparr>"

definition set_default_log_level :: "log_level \<Rightarrow> log_level \<Rightarrow> log_level" where
  "set_default_log_level level default_log_level = level"

definition is_loggable :: "logger \<Rightarrow> log_level \<Rightarrow> bool" where
  "is_loggable l level \<longleftrightarrow> level \<ge> lg_level l"

text \<open>The line that is printed, if any; the time and the message are formatted by the libraries.\<close>

definition log_line :: "string \<Rightarrow> logger \<Rightarrow> log_level \<Rightarrow> string \<Rightarrow> string option" where
  "log_line time_text l level msg =
     (if is_loggable l level then Some (time_text @ '' ['' @ lg_name l @ ''] '' @ msg @ [CHR 10]) else None)"

text \<open>
  The loggers of the configuration parser and of the Channel Access callbacks are global objects:
  they exist before \<open>main\<close> reads the options.
\<close>

definition config_logger :: logger where
  "config_logger = new_logger initial_log_level ''config''"

definition sender_ca_logger :: logger where
  "sender_ca_logger = new_logger initial_log_level ''sender.ca''"

lemmas level_defs = Trace_def Debug_def Config_level_def Info_def Warning_def Error_level_def

lemma from_verbosity_cases:
  assumes "0 \<le> d"
  shows "from_verbosity d = (if d = 0 then 3 else if d = 1 then 2 else if d = 2 then 1 else 0)"
proof -
  consider "d = 0" | "d = 1" | "d = 2" | "3 \<le> d"
    using assms by linarith
  then show ?thesis
    by cases (auto simp: from_verbosity_def level_defs max_def)
qed

text \<open>
  With verbosity \<open>d\<close> a logger that is constructed after the options are read prints what is at most \<open>d\<close> below
  \<open>Info\<close>; the two global loggers print the same as without the option.
\<close>

lemma verbosity_decides:
  assumes "0 \<le> d"
  shows "is_loggable (new_logger (set_default_log_level (from_verbosity d) initial_log_level) name) level \<longleftrightarrow>
    uint Info - d \<le> uint level"
proof -
  have "3 - d \<le> uint level" if "3 \<le> d"
    using that uint_ge_0 [of level] by linarith
  with assms show ?thesis
    by (auto simp: is_loggable_def new_logger_def set_default_log_level_def from_verbosity_cases level_defs word_le_def)
qed

lemma global_loggers_keep_info:
  "is_loggable config_logger level \<longleftrightarrow> 3 \<le> unat level"
  "is_loggable sender_ca_logger level \<longleftrightarrow> 3 \<le> unat level"
  by (simp_all add: is_loggable_def config_logger_def sender_ca_logger_def new_logger_def initial_log_level_def
      level_defs word_le_nat_alt)

lemma verbose_message_lost:
  "log_line time (new_logger (set_default_log_level (from_verbosity 2) initial_log_level) ''sender'') Debug msg =
     Some (time @ '' [sender] '' @ msg @ [CHR 10])"
  "log_line time sender_ca_logger Debug msg = None"
  by (simp_all add: log_line_def verbosity_decides global_loggers_keep_info)
    (simp_all add: level_defs new_logger_def)

subsection \<open>Value hash\<close>

text \<open>
  \<open>value_hash(value, size)\<close> over the \<open>size\<close> bytes at \<open>value\<close>: the bytes themselves when they fit in
  64 bits, otherwise \<open>epicsMemHash\<close> of EPICS base (the parameter \<open>mem_hash\<close>). Reading more bytes than
  the object has is undefined.
\<close>

definition value_hash :: "(bytes \<Rightarrow> u32) \<Rightarrow> bytes \<Rightarrow> nat \<Rightarrow> u64 option" where
  "value_hash mem_hash val n =
     (if n > length val then None
      else if n \<le> 8 then Some (of_nat (le_nat (take n val)))
      else Some (ucast (mem_hash (take n val))))"

text \<open>Up to eight bytes the hash is injective: a changed value always changes its hash.\<close>

lemma value_hash_small_inj:
  assumes "length a = n" and "length b = n" and "n \<le> 8"
    and "value_hash mem_hash a n = value_hash mem_hash b n"
  shows "a = b"
proof -
  have bound: "le_nat x < 2 ^ 64" if "length x = n" for x
  proof -
    have "le_nat x < 256 ^ n"
      using le_nat_less [of x] that by simp
    also have "(256::nat) ^ n \<le> 256 ^ 8"
      using assms(3) by (rule power_increasing) simp
    finally show ?thesis by simp
  qed
  have "(of_nat (le_nat a) :: u64) = of_nat (le_nat b)"
    using assms by (simp add: value_hash_def)
  then have "unat (of_nat (le_nat a) :: u64) = unat (of_nat (le_nat b) :: u64)"
    by simp
  then have "le_nat a = le_nat b"
    using bound assms(1,2) by simp
  then show ?thesis
    using le_bytes_le_nat [of a] le_bytes_le_nat [of b] assms(1,2) by simp
qed

subsection \<open>EPICS base\<close>

text \<open>
  The parts of the EPICS base library the sender and the receiver compute with: the size of a DBR
  value, the memory hash and the map from a field type to its timestamped DBR type.
\<close>

record ca_env =
  env_dbr_size_n :: "i64 \<Rightarrow> i64 \<Rightarrow> u32"
  env_mem_hash :: "bytes \<Rightarrow> u32"
  env_dbr_time :: "i64 \<Rightarrow> i64"

end
