(* ===== verification/CA_Channels.thy ===== *)
theory CA_Channels
  imports Config_Model Protocol Support
begin

text \<open>
  The channels of the Channel Access sender (\<open>src/sender.cpp\<close>, \<open>struct Channel\<close> and
  \<open>struct ChannelGroup\<close>) and its FIFO of pending updates. A channel number is the position of the
  channel in the vector; a record's default channel and its fields form a group: the fields name the
  default channel as their parent. Only default channels enter the queue.

  Channel numbers are natural numbers here: the constructor of the sender asserts that they fit in
  32 bits. The library handles \<open>chid\<close> and \<open>evid\<close> are kept as the name the channel was created with
  and as a flag that a subscription exists.
\<close>

datatype ca_status = ECA_NORMAL | ECA_DISCONN | ECA_OTHER int

definition TYPENOTCONN :: i64 where "TYPENOTCONN = - 1"

record ca_channel =
  ch_index :: nat
  ch_parent_index :: nat
  ch_is_polled :: bool
  ch_channel_id :: "string option"
  ch_channel_type :: i64
  ch_event_id :: bool
  ch_status :: ca_status
  ch_type :: i64
  ch_count :: i64
  ch_value :: bytes
  ch_value_hash_initialized :: bool
  ch_value_hash :: u64
  ch_pending_update :: bool
  ch_updates_since_last_hb :: nat

definition new_ca_channel :: "nat \<Rightarrow> nat \<Rightarrow> bool \<Rightarrow> ca_channel" where
  "new_ca_channel i p polled =
     \<lparr>ch_index = i, ch_parent_index = p, ch_is_polled = polled, ch_channel_id = None,
      ch_channel_type = TYPENOTCONN, ch_event_id = False, ch_status = ECA_DISCONN,
      ch_type = TYPENOTCONN, ch_count = - 1, ch_value = [], ch_value_hash_initialized = False,
      ch_value_hash = 0, ch_pending_update = False, ch_updates_since_last_hb = 0\<rparr>"

definition is_channel :: "ca_channel \<Rightarrow> bool" where
  "is_channel c \<longleftrightarrow> ch_index c = ch_parent_index c"

definition is_field :: "ca_channel \<Rightarrow> bool" where
  "is_field c \<longleftrightarrow> \<not> is_channel c"

text \<open>Requests issued to the Channel Access library, in order.\<close>

datatype dbe = DBE_VALUE | DBE_ALARM

datatype ca_call =
    GetCallback nat i64
  | ClearSubscription nat
  | CreateSubscription nat i64 i64 "dbe list"

text \<open>
  The state of \<open>Sender::Impl\<close>. \<open>snd_sent\<close> is the trace of the packets handed to the transport and
  \<open>snd_ca_calls\<close> that of the requests issued to the Channel Access library.
\<close>

record ca_sender =
  snd_channels :: "ca_channel list"
  snd_deque :: "nat list"
  snd_seq_no :: u16
  snd_buffer :: bytes
  snd_iteration :: u64
  snd_pf_iterations :: u64
  snd_hb_iterations :: u64
  snd_update_period :: double
  snd_sent :: "bytes list"
  snd_ca_calls :: "ca_call list"

definition set_channel :: "nat \<Rightarrow> ca_channel \<Rightarrow> ca_sender \<Rightarrow> ca_sender" where
  "set_channel i c st = st\<lparr>snd_channels := (snd_channels st)[i := c]\<rparr>"

subsection \<open>The update queue\<close>

text \<open>
  The methods call themselves on the parent channel; \<open>None\<close> is an index outside the vector, a
  \<open>pop_front\<close> of an empty deque, or a parent chain that never ends.
\<close>

partial_function (option) mark_update :: "nat \<Rightarrow> ca_sender \<Rightarrow> ca_sender option" where
  "mark_update i st =
     (case vec_at (snd_channels st) i of
        None \<Rightarrow> None
      | Some c \<Rightarrow>
          if is_field c then mark_update (ch_parent_index c) st
          else if \<not> ch_pending_update c
          then Some ((set_channel i
                 (c\<lparr>ch_pending_update := True,
                    ch_updates_since_last_hb := ch_updates_since_last_hb c + 1\<rparr>) st)
                 \<lparr>snd_deque := snd_deque st @ [ch_parent_index c]\<rparr>)
          else Some st)"

definition reset_hb :: "nat \<Rightarrow> ca_sender \<Rightarrow> ca_sender" where
  "reset_hb i st = set_channel i ((snd_channels st ! i)\<lparr>ch_updates_since_last_hb := 0\<rparr>) st"

partial_function (option) mark_heartbeat_update :: "nat \<Rightarrow> ca_sender \<Rightarrow> (bool \<times> ca_sender) option" where
  "mark_heartbeat_update i st =
     (case vec_at (snd_channels st) i of
        None \<Rightarrow> None
      | Some c \<Rightarrow>
          if is_field c then mark_heartbeat_update (ch_parent_index c) st
          else let to_mark = (ch_updates_since_last_hb c = 0) in
            do { st' \<leftarrow> (if to_mark then mark_update i st else Some st);
                 Some (to_mark, reset_hb i st') })"

partial_function (option) clear_update :: "nat \<Rightarrow> ca_sender \<Rightarrow> ca_sender option" where
  "clear_update i st =
     (case vec_at (snd_channels st) i of
        None \<Rightarrow> None
      | Some c \<Rightarrow>
          if is_field c then clear_update (ch_parent_index c) st
          else case snd_deque st of
            [] \<Rightarrow> None
          | _ # q \<Rightarrow> Some ((set_channel i (c\<lparr>ch_pending_update := False\<rparr>) st)\<lparr>snd_deque := q\<rparr>))"

subsection \<open>Channel groups\<close>

function end_group_loop :: "ca_channel list \<Rightarrow> nat \<Rightarrow> nat" where
  "end_group_loop chs i =
     (if i < length chs - 1
      then if ch_parent_index (chs ! i) < ch_parent_index (chs ! (i + 1)) then i
           else end_group_loop chs (i + 1)
      else length chs - 1)"
  by pat_completeness auto
termination
  by (relation "measure (\<lambda>(chs, i). length chs - i)") auto

declare end_group_loop.simps [simp del]

definition start_group_id :: "ca_channel \<Rightarrow> nat" where
  "start_group_id c = ch_parent_index c"

definition end_group_id :: "ca_channel list \<Rightarrow> ca_channel \<Rightarrow> nat" where
  "end_group_id chs c = end_group_loop chs (ch_index c)"

definition group_members :: "ca_channel list \<Rightarrow> ca_channel \<Rightarrow> ca_channel list" where
  "group_members chs c = map ((!) chs) [start_group_id c ..< end_group_id chs c + 1]"

text \<open>Both sums are accumulated in a \<open>uint32_t\<close>.\<close>

definition group_value_size :: "ca_channel list \<Rightarrow> u32" where
  "group_value_size g = fold (\<lambda>c n. n + of_nat (length (ch_value c))) g 0"

definition aligned_step :: "nat \<Rightarrow> ca_channel \<Rightarrow> u32 \<Rightarrow> u32" where
  "aligned_step alignment c full =
     (let full = full + of_nat (CAChannelData_size + length (ch_value c));
          n = unat full mod alignment
      in if n > 0 then full + of_nat (alignment - n) else full)"

definition group_value_size_aligned :: "nat \<Rightarrow> ca_channel list \<Rightarrow> u32" where
  "group_value_size_aligned alignment g = fold (aligned_step alignment) g 0"

subsection \<open>Creating the channels\<close>

text \<open>
  \<open>create_channels\<close> walks the configuration with a running channel number; \<open>create_channel\<close> adds one
  channel and asks the library to connect it. The library's answer (\<open>None\<close> for success, otherwise
  the status) is the parameter \<open>ca_create\<close>.
\<close>

definition create_channel ::
  "(string \<Rightarrow> ca_status option) \<Rightarrow> string \<Rightarrow> nat \<Rightarrow> nat \<Rightarrow> bool \<Rightarrow> ca_channel list \<Rightarrow> ca_channel list" where
  "create_channel ca_create name num parent polled chs =
     (let c = new_ca_channel num parent polled in
      chs @ [case ca_create name of
               None \<Rightarrow> c\<lparr>ch_channel_id := Some name\<rparr>
             | Some e \<Rightarrow> c\<lparr>ch_status := e\<rparr>])"

definition create_fields ::
  "(string \<Rightarrow> ca_status option) \<Rightarrow> config_channel \<Rightarrow> nat \<Rightarrow> bool \<Rightarrow> string list \<Rightarrow>
   ca_channel list \<times> nat \<Rightarrow> ca_channel list \<times> nat" where
  "create_fields ca_create cc parent polled fs acc =
     fold (\<lambda>f (chs, num). (create_channel ca_create (field_name cc f) num parent polled chs, num + 1)) fs acc"

definition create_config_channel ::
  "(string \<Rightarrow> ca_status option) \<Rightarrow> config_channel \<Rightarrow> ca_channel list \<times> nat \<Rightarrow> ca_channel list \<times> nat" where
  "create_config_channel ca_create cc acc =
     (let (chs, num) = acc; parent = num;
          acc = (create_channel ca_create (cc_name cc) num parent False chs, num + 1);
          acc = create_fields ca_create cc parent False (cc_extra cc) acc
      in create_fields ca_create cc parent True (cc_polled cc) acc)"

text \<open>The assertion on the channel count is the \<open>None\<close> case.\<close>

definition create_channels :: "(string \<Rightarrow> ca_status option) \<Rightarrow> config \<Rightarrow> ca_channel list option" where
  "create_channels ca_create cfg =
     (if total_channel_count cfg \<le> 2 ^ 32 - 1
      then Some (fst (fold (create_config_channel ca_create) (cfg_channels cfg) ([], 0)))
      else None)"

end
