(* ===== verification/Update_Queue.thy ===== *)
theory Update_Queue
  imports Diode_Prelude
begin

text \<open>
  The contract both senders rely on for their FIFO of pending updates: marking a channel queues its
  root once, at the back; clearing the channel at the front removes it. The Channel Access and the
  pvAccess sender provide it with their own channels; the sending loops use only these laws.
\<close>

text \<open>What a sequence of marks does to a duplicate-free queue.\<close>

fun enq_new :: "'a list \<Rightarrow> 'a list \<Rightarrow> 'a list" where
  "enq_new q [] = q"
| "enq_new q (x # xs) = enq_new (if x \<in> set q then q else q @ [x]) xs"

lemma set_enq_new [simp]: "set (enq_new q xs) = set q \<union> set xs"
  by (induction q xs rule: enq_new.induct) auto

lemma distinct_enq_new: "distinct q \<Longrightarrow> distinct (enq_new q xs)"
  by (induction q xs rule: enq_new.induct) auto

lemma enq_new_prefix: "take (length q) (enq_new q xs) = q"
proof (induction q xs rule: enq_new.induct)
  case (2 q x xs)
  then show ?case
  proof (cases "x \<in> set q")
    case False
    with 2 have "take (Suc (length q)) (enq_new q (x # xs)) = q @ [x]" by simp
    then have "take (length q) (take (Suc (length q)) (enq_new q (x # xs))) = q" by simp
    then show ?thesis by (simp add: min_def)
  qed simp
qed simp

locale update_queue =
  fixes queue :: "'s \<Rightarrow> nat list"
    and root :: "'s \<Rightarrow> nat \<Rightarrow> nat"
    and valid :: "'s \<Rightarrow> nat \<Rightarrow> bool"
    and inv :: "'s \<Rightarrow> bool"
    and mark :: "nat \<Rightarrow> 's \<Rightarrow> 's option"
    and clear :: "nat \<Rightarrow> 's \<Rightarrow> 's option"
  assumes inv_distinct: "inv s \<Longrightarrow> distinct (queue s)"
    and queue_valid: "inv s \<Longrightarrow> q \<in> set (queue s) \<Longrightarrow> valid s q"
    and mark_ok: "inv s \<Longrightarrow> valid s i \<Longrightarrow>
      \<exists>s'. mark i s = Some s' \<and> inv s' \<and> root s' = root s \<and> valid s' = valid s \<and>
        queue s' = (if root s i \<in> set (queue s) then queue s else queue s @ [root s i])"
    and clear_ok: "inv s \<Longrightarrow> queue s = q # qs \<Longrightarrow>
      \<exists>s'. clear q s = Some s' \<and> inv s' \<and> root s' = root s \<and> valid s' = valid s \<and> queue s' = qs"
begin

text \<open>Marks in any order: every root is queued exactly once, in the order of its first mark.\<close>

lemma marks:
  assumes "inv s" and "\<forall>i \<in> set is. valid s i"
  shows "\<exists>s'. foldM mark is s = Some s' \<and> inv s' \<and> root s' = root s \<and> valid s' = valid s \<and>
    queue s' = enq_new (queue s) (map (root s) is)"
  using assms
proof (induction "is" arbitrary: s)
  case Nil
  then show ?case by simp
next
  case (Cons i "is")
  from Cons.prems mark_ok [of s i] obtain s1 where s1: "mark i s = Some s1" "inv s1"
    "root s1 = root s" "valid s1 = valid s"
    "queue s1 = (if root s i \<in> set (queue s) then queue s else queue s @ [root s i])"
    by auto
  with Cons.IH [of s1] Cons.prems show ?case by simp
qed

text \<open>Clearing from the front until the queue is empty never fails.\<close>

lemma drain:
  assumes "inv s" and "queue s = qs"
  shows "\<exists>s'. foldM clear qs s = Some s' \<and> inv s' \<and> queue s' = []"
  using assms
proof (induction qs arbitrary: s)
  case Nil
  then show ?case by simp
next
  case (Cons q qs)
  with clear_ok [of s q qs] obtain s1 where "clear q s = Some s1" "inv s1" "queue s1 = qs"
    by blast
  with Cons.IH [of s1] show ?case by simp
qed

lemma marked_is_queued:
  assumes "inv s" and "\<forall>i \<in> set is. valid s i" and "foldM mark is s = Some s'" and "i \<in> set is"
  shows "root s i \<in> set (queue s')"
  using marks [OF assms(1,2)] assms(3,4) by auto

end

end
