(* ===== verification/CA_Queue.thy ===== *)
theory CA_Queue
  imports CA_Channels Update_Queue
begin

text \<open>
  The well-formedness of the sender's channels and of its update queue, kept by every queue
  operation; the queue contract of \<open>Update_Queue\<close> holds for them.
\<close>

definition chans_wf :: "ca_channel list \<Rightarrow> bool" where
  "chans_wf chs \<longleftrightarrow>
     (\<forall>i < length chs. ch_index (chs ! i) = i \<and> ch_parent_index (chs ! i) \<le> i \<and>
        ch_parent_index (chs ! ch_parent_index (chs ! i)) = ch_parent_index (chs ! i)) \<and>
     (\<forall>i j. i \<le> j \<longrightarrow> j < length chs \<longrightarrow> ch_parent_index (chs ! i) \<le> ch_parent_index (chs ! j))"

definition pending_root :: "ca_channel list \<Rightarrow> nat \<Rightarrow> bool" where
  "pending_root chs i \<longleftrightarrow> i < length chs \<and> is_channel (chs ! i) \<and> ch_pending_update (chs ! i)"

definition queue_inv :: "ca_sender \<Rightarrow> bool" where
  "queue_inv st \<longleftrightarrow>
     chans_wf (snd_channels st) \<and> distinct (snd_deque st) \<and>
     set (snd_deque st) = {i. pending_root (snd_channels st) i}"

definition root_of :: "ca_sender \<Rightarrow> nat \<Rightarrow> nat" where
  "root_of st i = ch_parent_index (snd_channels st ! i)"

definition valid_index :: "ca_sender \<Rightarrow> nat \<Rightarrow> bool" where
  "valid_index st i \<longleftrightarrow> i < length (snd_channels st)"

lemma chans_wfD:
  assumes "chans_wf chs" and "i < length chs"
  shows "ch_index (chs ! i) = i" "ch_parent_index (chs ! i) \<le> i"
    "ch_parent_index (chs ! i) < length chs"
    "ch_parent_index (chs ! ch_parent_index (chs ! i)) = ch_parent_index (chs ! i)"
    "is_channel (chs ! i) \<longleftrightarrow> ch_parent_index (chs ! i) = i"
    "is_channel (chs ! ch_parent_index (chs ! i))"
proof -
  show a: "ch_index (chs ! i) = i" "ch_parent_index (chs ! i) \<le> i"
    "ch_parent_index (chs ! ch_parent_index (chs ! i)) = ch_parent_index (chs ! i)"
    using assms by (simp_all add: chans_wf_def)
  show l: "ch_parent_index (chs ! i) < length chs"
    using a(2) assms(2) by simp
  show "is_channel (chs ! i) \<longleftrightarrow> ch_parent_index (chs ! i) = i"
    using a(1) by (simp add: is_channel_def eq_commute)
  have "ch_index (chs ! ch_parent_index (chs ! i)) = ch_parent_index (chs ! i)"
    using assms(1) l by (simp add: chans_wf_def)
  then show "is_channel (chs ! ch_parent_index (chs ! i))"
    using a(3) by (simp add: is_channel_def)
qed

text \<open>Updates that keep the two numbers of a channel keep well-formedness.\<close>

lemma chans_wf_cong:
  assumes "length chs' = length chs" and "\<And>j. ch_index (chs' ! j) = ch_index (chs ! j)"
    and "\<And>j. ch_parent_index (chs' ! j) = ch_parent_index (chs ! j)"
  shows "chans_wf chs' = chans_wf chs"
  unfolding chans_wf_def assms ..

lemma list_update_field:
  "f c = f (xs ! i) \<Longrightarrow> f (xs[i := c] ! j) = f (xs ! j)"
  by (cases "i < length xs"; cases "j = i") (simp_all add: list_update_beyond not_less)

lemma chans_wf_update:
  assumes "chans_wf chs" and "ch_index c = ch_index (chs ! i)"
    and "ch_parent_index c = ch_parent_index (chs ! i)"
  shows "chans_wf (chs[i := c])"
  using assms chans_wf_cong [of "chs[i := c]" chs] by (simp add: list_update_field)

lemma set_channel_fields [simp]:
  "snd_channels (set_channel i c st) = (snd_channels st)[i := c]"
  "snd_deque (set_channel i c st) = snd_deque st"
  "snd_seq_no (set_channel i c st) = snd_seq_no st"
  "snd_buffer (set_channel i c st) = snd_buffer st"
  "snd_sent (set_channel i c st) = snd_sent st"
  by (simp_all add: set_channel_def)

subsection \<open>What the operations do on a well-formed sender\<close>

definition mark_root :: "nat \<Rightarrow> ca_sender \<Rightarrow> ca_sender" where
  "mark_root r st =
     (let c = snd_channels st ! r in
      if ch_pending_update c then st
      else (set_channel r (c\<lparr>ch_pending_update := True,
              ch_updates_since_last_hb := ch_updates_since_last_hb c + 1\<rparr>) st)
             \<lparr>snd_deque := snd_deque st @ [r]\<rparr>)"

definition clear_root :: "nat \<Rightarrow> ca_sender \<Rightarrow> ca_sender" where
  "clear_root r st =
     (set_channel r ((snd_channels st ! r)\<lparr>ch_pending_update := False\<rparr>) st)
       \<lparr>snd_deque := tl (snd_deque st)\<rparr>"

lemma mark_update_root:
  assumes wf: "chans_wf (snd_channels st)" and i: "i < length (snd_channels st)"
  shows "mark_update i st = Some (mark_root (root_of st i) st)"
proof -
  let ?r = "root_of st i"
  note d = chans_wfD [OF wf i]
  have r: "mark_update ?r st = Some (mark_root ?r st)"
    using d by (subst mark_update.simps)
      (simp add: root_of_def mark_root_def is_field_def Let_def)
  show ?thesis
  proof (cases "is_channel (snd_channels st ! i)")
    case True
    with d r show ?thesis by (simp add: root_of_def)
  next
    case False
    with i have "mark_update i st = mark_update ?r st"
      by (subst mark_update.simps) (simp add: is_field_def root_of_def)
    with r show ?thesis by simp
  qed
qed

lemma clear_update_root:
  assumes wf: "chans_wf (snd_channels st)" and i: "i < length (snd_channels st)"
    and ne: "snd_deque st \<noteq> []"
  shows "clear_update i st = Some (clear_root (root_of st i) st)"
proof -
  let ?r = "root_of st i"
  note d = chans_wfD [OF wf i]
  have r: "clear_update ?r st = Some (clear_root ?r st)"
    using d ne by (subst clear_update.simps)
      (auto simp: root_of_def clear_root_def is_field_def Let_def split: list.split)
  show ?thesis
  proof (cases "is_channel (snd_channels st ! i)")
    case True
    with d r show ?thesis by (simp add: root_of_def)
  next
    case False
    with i have "clear_update i st = clear_update ?r st"
      by (subst clear_update.simps) (simp add: is_field_def root_of_def)
    with r show ?thesis by simp
  qed
qed

lemma mark_root_chans_wf: "chans_wf (snd_channels st) \<Longrightarrow> chans_wf (snd_channels (mark_root r st))"
  by (auto simp: mark_root_def Let_def intro: chans_wf_update)

lemma clear_root_chans_wf: "chans_wf (snd_channels st) \<Longrightarrow> chans_wf (snd_channels (clear_root r st))"
  by (auto simp: clear_root_def intro: chans_wf_update)

lemma root_of_set_channel:
  assumes "ch_parent_index c = ch_parent_index (snd_channels st ! r)"
  shows "root_of (set_channel r c st) = root_of st"
  using assms by (simp add: root_of_def fun_eq_iff list_update_field)

lemma root_of_deque [simp]: "root_of (st\<lparr>snd_deque := q\<rparr>) = root_of st"
  by (simp add: root_of_def fun_eq_iff)

lemma mark_root_frame [simp]:
  "root_of (mark_root r st) = root_of st" "valid_index (mark_root r st) = valid_index st"
  by (auto simp: mark_root_def Let_def root_of_set_channel valid_index_def fun_eq_iff)

lemma clear_root_frame [simp]:
  "root_of (clear_root r st) = root_of st" "valid_index (clear_root r st) = valid_index st"
  by (auto simp: clear_root_def root_of_set_channel valid_index_def fun_eq_iff)

lemma queue_inv_mark:
  assumes inv: "queue_inv st" and i: "i < length (snd_channels st)"
  shows "queue_inv (mark_root (root_of st i) st)"
    and "snd_deque (mark_root (root_of st i) st) =
      (if root_of st i \<in> set (snd_deque st) then snd_deque st else snd_deque st @ [root_of st i])"
proof -
  let ?r = "root_of st i"
  from inv have wf: "chans_wf (snd_channels st)" by (simp add: queue_inv_def)
  note d = chans_wfD [OF wf i]
  have mem: "?r \<in> set (snd_deque st) \<longleftrightarrow> ch_pending_update (snd_channels st ! ?r)"
    using inv d by (simp add: queue_inv_def pending_root_def root_of_def)
  show dq: "snd_deque (mark_root ?r st) =
      (if ?r \<in> set (snd_deque st) then snd_deque st else snd_deque st @ [?r])"
    by (simp add: mark_root_def Let_def mem)
  have pr: "{j. pending_root (snd_channels (mark_root ?r st)) j} = insert ?r {j. pending_root (snd_channels st) j}"
    using d by (auto simp: mark_root_def Let_def pending_root_def root_of_def is_channel_def
        nth_list_update split: if_splits)
  have "distinct (snd_deque st)" "set (snd_deque st) = {j. pending_root (snd_channels st) j}"
    using inv by (simp_all add: queue_inv_def)
  with pr wf show "queue_inv (mark_root ?r st)"
    by (auto simp: queue_inv_def mark_root_chans_wf dq)
qed

lemma queue_inv_clear:
  assumes inv: "queue_inv st" and q: "snd_deque st = q # qs"
  shows "queue_inv (clear_root q st)" and "snd_deque (clear_root q st) = qs"
    and "clear_update q st = Some (clear_root q st)"
proof -
  from inv have wf: "chans_wf (snd_channels st)" by (simp add: queue_inv_def)
  have qp: "pending_root (snd_channels st) q"
    using inv q by (auto simp: queue_inv_def)
  then have ql: "q < length (snd_channels st)" and rq: "root_of st q = q"
    using chans_wfD [OF wf] by (auto simp: pending_root_def root_of_def)
  show "snd_deque (clear_root q st) = qs"
    using q by (simp add: clear_root_def)
  show "clear_update q st = Some (clear_root q st)"
    using clear_update_root [OF wf ql] q rq by simp
  have pr: "{j. pending_root (snd_channels (clear_root q st)) j} = {j. pending_root (snd_channels st) j} - {q}"
    using ql by (auto simp: clear_root_def pending_root_def is_channel_def nth_list_update split: if_splits)
  have "distinct (snd_deque st)" "set (snd_deque st) = {j. pending_root (snd_channels st) j}"
    using inv by (simp_all add: queue_inv_def)
  then have "distinct qs" "set qs = {j. pending_root (snd_channels st) j} - {q}"
    using q by auto
  with pr wf show "queue_inv (clear_root q st)"
    by (simp add: queue_inv_def clear_root_chans_wf \<open>snd_deque (clear_root q st) = qs\<close>)
qed

interpretation ca_queue: update_queue snd_deque root_of valid_index queue_inv mark_update clear_update
proof unfold_locales
  fix s q assume "queue_inv s" "q \<in> set (snd_deque s)"
  then show "valid_index s q" by (auto simp: queue_inv_def pending_root_def valid_index_def)
next
  fix s i assume a: "queue_inv s" "valid_index s i"
  then have wf: "chans_wf (snd_channels s)" and i: "i < length (snd_channels s)"
    by (simp_all add: queue_inv_def valid_index_def)
  show "\<exists>s'. mark_update i s = Some s' \<and> queue_inv s' \<and> root_of s' = root_of s \<and>
      valid_index s' = valid_index s \<and>
      snd_deque s' = (if root_of s i \<in> set (snd_deque s) then snd_deque s else snd_deque s @ [root_of s i])"
    using mark_update_root [OF wf i] queue_inv_mark [OF a(1) i] by simp
next
  fix s q qs assume "queue_inv s" "snd_deque s = q # qs"
  then show "\<exists>s'. clear_update q s = Some s' \<and> queue_inv s' \<and> root_of s' = root_of s \<and>
      valid_index s' = valid_index s \<and> snd_deque s' = qs"
    using queue_inv_clear by fastforce
qed (simp add: queue_inv_def)

end
