(* ===== verification/CA_Sender.thy ===== *)
theory CA_Sender
  imports CA_Queue
begin

text \<open>
  The Channel Access sender (\<open>Sender::Impl\<close> of \<open>src/sender.cpp\<close>): the callbacks of the library, the
  periodic work of the run loop, and the assembly of data and fragment packets in the send buffer.
\<close>

subsection \<open>Construction\<close>

definition MIN_UPDATE_PERIOD :: double where "MIN_UPDATE_PERIOD = 0x3F9999999999999A"
definition MIN_POLLED_PERIOD :: double where "MIN_POLLED_PERIOD = 0x4008000000000000"
definition MIN_HB_PERIOD :: double where "MIN_HB_PERIOD = 0x3FB999999999999A"

definition iterations_per :: "double \<Rightarrow> double \<Rightarrow> u64" where
  "iterations_per period update_period =
     max 1 (word_of_int (cround (fdiv (dval period) (dval update_period))))"

text \<open>The static packet header is serialised once, at the start of the zeroed send buffer.\<close>

definition initial_buffer :: "u64 \<Rightarrow> u64 \<Rightarrow> bytes option" where
  "initial_buffer startup hash =
     do { s \<leftarrow> put_header (make_header startup hash) (ser_of (replicate MAX_MESSAGE_SIZE 0));
          Some (ser_mem s) }"

definition sender_init :: "(string \<Rightarrow> ca_status option) \<Rightarrow> config \<Rightarrow> u64 \<Rightarrow> ca_sender option" where
  "sender_init ca_create cfg startup =
     (let up = dmax (cfg_min_update_period cfg) MIN_UPDATE_PERIOD;
          pf = dmax (cfg_polled_fields_update_period cfg) MIN_POLLED_PERIOD;
          hb = dmax (cfg_heartbeat_period cfg) MIN_HB_PERIOD
      in do {
        buf \<leftarrow> initial_buffer startup (cfg_hash cfg);
        chs \<leftarrow> create_channels ca_create cfg;
        Some \<lparr>snd_channels = chs, snd_deque = [], snd_seq_no = 0, snd_buffer = buf,
          snd_iteration = 0, snd_pf_iterations = iterations_per pf up,
          snd_hb_iterations = iterations_per hb up, snd_update_period = up,
          snd_sent = [], snd_ca_calls = []\<rparr>
      })"

subsection \<open>Callbacks of the Channel Access library\<close>

record evargs =
  ev_status :: ca_status
  ev_type :: i64
  ev_count :: i64
  ev_dbr :: bytes

definition event_handler :: "ca_env \<Rightarrow> nat \<Rightarrow> evargs \<Rightarrow> ca_sender \<Rightarrow> ca_sender option" where
  "event_handler env i args st =
     do {
       c \<leftarrow> vec_at (snd_channels st) i;
       let c = c\<lparr>ch_status := ev_status args\<rparr>;
       if ev_status args = ECA_NORMAL then
         let c = c\<lparr>ch_count := ev_count args\<rparr>;
             n = unat (env_dbr_size_n env (ev_type args) (ch_count c));
             size_changed = (length (ch_value c) \<noteq> n)
         in if n > length (ev_dbr args) then None
            else let c = c\<lparr>ch_value := take n (ev_dbr args)\<rparr> in
              if ch_is_polled c then do {
                hash \<leftarrow> value_hash (env_mem_hash env) (ch_value c) n;
                if \<not> ch_value_hash_initialized c \<or> size_changed \<or> ch_value_hash c \<noteq> hash
                then mark_update i
                  (set_channel i (c\<lparr>ch_value_hash_initialized := True, ch_value_hash := hash\<rparr>) st)
                else Some (set_channel i c st)
              }
              else mark_update i (set_channel i c st)
       else Some (set_channel i c st)
     }"

text \<open>
  A connection event carries the answers the handler asks the library for: the native type and
  element count of the channel and the status of a new subscription (the event id is set when it
  succeeds).
\<close>

datatype conn_event =
    CONN_UP (cn_type: i64) (cn_count: i64) (cn_subscribe: ca_status)
  | CONN_DOWN
  | CONN_OTHER

definition connection_up :: "ca_env \<Rightarrow> nat \<Rightarrow> i64 \<Rightarrow> i64 \<Rightarrow> ca_status \<Rightarrow> ca_sender \<Rightarrow> ca_sender option" where
  "connection_up env i new_type new_count sub_status st =
     do {
       c \<leftarrow> vec_at (snd_channels st) i;
       name \<leftarrow> ch_channel_id c;
       let resub = (ch_event_id c \<and> ch_channel_type c \<noteq> new_type);
       let calls = (if resub \<and> \<not> ch_is_polled c then [ClearSubscription i] else []);
       let c = c\<lparr>ch_event_id := ch_event_id c \<and> \<not> resub, ch_channel_type := new_type\<rparr>;
       let is_fld = CHR ''.'' \<in> set name;
       let mask = (if is_fld then [DBE_VALUE] else [DBE_VALUE, DBE_ALARM]);
       let c = c\<lparr>ch_type := (if is_fld then ch_channel_type c else env_dbr_time env (ch_channel_type c))\<rparr>;
       if \<not> ch_is_polled c then
         if \<not> ch_event_id c then
           Some ((set_channel i (c\<lparr>ch_status := sub_status, ch_event_id := (sub_status = ECA_NORMAL)\<rparr>) st)
             \<lparr>snd_ca_calls := snd_ca_calls st @ calls @ [CreateSubscription i (ch_type c) new_count mask]\<rparr>)
         else Some ((set_channel i c st)\<lparr>snd_ca_calls := snd_ca_calls st @ calls\<rparr>)
       else Some ((set_channel i (c\<lparr>ch_status := ECA_NORMAL\<rparr>) st)
             \<lparr>snd_ca_calls := snd_ca_calls st @ calls\<rparr>)
     }"

definition connection_down :: "nat \<Rightarrow> ca_sender \<Rightarrow> ca_sender option" where
  "connection_down i st =
     do {
       c \<leftarrow> vec_at (snd_channels st) i;
       mark_update i
         (set_channel i (c\<lparr>ch_status := ECA_DISCONN, ch_count := - 1, ch_value := resize 0 0 (ch_value c)\<rparr>) st)
     }"

fun connection_handler :: "ca_env \<Rightarrow> nat \<Rightarrow> conn_event \<Rightarrow> ca_sender \<Rightarrow> ca_sender option" where
  "connection_handler env i (CONN_UP t n sub) st = connection_up env i t n sub st"
| "connection_handler env i CONN_DOWN st = connection_down i st"
| "connection_handler env i CONN_OTHER st = Some st"

datatype ca_event = ValueEvent nat evargs | ConnectionEvent nat conn_event

fun handle_ca_event :: "ca_env \<Rightarrow> ca_event \<Rightarrow> ca_sender \<Rightarrow> ca_sender option" where
  "handle_ca_event env (ValueEvent i args) st = event_handler env i args st"
| "handle_ca_event env (ConnectionEvent i e) st = connection_handler env i e st"

subsection \<open>Periodic work\<close>

text \<open>The address of a channel's first member stands for the channel in the request's user argument.\<close>

definition check_polled_fields :: "ca_sender \<Rightarrow> ca_sender" where
  "check_polled_fields st =
     st\<lparr>snd_ca_calls := snd_ca_calls st @
          map (\<lambda>c. GetCallback (ch_index c) (ch_channel_type c)) (filter ch_is_polled (snd_channels st))\<rparr>"

definition heartbeat_step :: "nat \<Rightarrow> ca_sender \<times> nat \<times> nat \<Rightarrow> (ca_sender \<times> nat \<times> nat) option" where
  "heartbeat_step i acc =
     (let (st, n_connected, n_marked) = acc in
      do {
        (marked, st) \<leftarrow> mark_heartbeat_update i st;
        c \<leftarrow> vec_at (snd_channels st) i;
        Some (st, if ch_status c \<noteq> ECA_DISCONN then n_connected + 1 else n_connected,
              if marked then n_marked + 1 else n_marked)
      })"

text \<open>The report divides by the number of channels: an empty configuration divides by zero.\<close>

definition mark_heartbeat_updates :: "ca_sender \<Rightarrow> (ca_sender \<times> nat \<times> nat) option" where
  "mark_heartbeat_updates st =
     (let n = length (snd_channels st) in
      do {
        (st, n_connected, n_marked) \<leftarrow> foldM heartbeat_step [0 ..< n] (st, 0, 0);
        if n = 0 then None
        else Some (st, 100 * n_connected div n, 100 * n_marked div n)
      })"

subsection \<open>Sending\<close>

definition udp_send :: "bytes \<Rightarrow> ca_sender \<Rightarrow> ca_sender" where
  "udp_send packet st = st\<lparr>snd_sent := snd_sent st @ [packet]\<rparr>"

definition has_updates :: "ca_sender \<Rightarrow> bool" where
  "has_updates st \<longleftrightarrow> snd_deque st \<noteq> []"

definition frag_header :: "ca_channel \<Rightarrow> u16 \<Rightarrow> u16 \<Rightarrow> u16 \<Rightarrow> ca_frag_message" where
  "frag_header c all_seq frag_seq sz =
     \<lparr>fm_seq_no = all_seq, fm_fragment_seq_no = frag_seq, fm_channel_id = of_nat (ch_index c),
      fm_count = ucast (ch_count c), fm_type = ucast (ch_type c), fm_fragment_size = sz\<rparr>"

text \<open>One turn of the fragment loop: the packet for the next fragment, and how much it carries.\<close>

definition send_fragment ::
  "ca_channel \<Rightarrow> u16 \<Rightarrow> u16 \<Rightarrow> bytes \<Rightarrow> ca_sender \<Rightarrow> (nat \<times> ca_sender) option" where
  "send_fragment c all_seq frag_seq rest st =
     do {
       let s = advance Header_size (ser_of (snd_buffer st));
       let (ok, s) = ensure (Submessage_size + CAFragDataMessage_size) s;
       sh \<leftarrow> make_subheader CA_FRAG_DATA_MESSAGE LittleEndian 0;
       s \<leftarrow> put_subheader sh s;
       let frag_size = (of_nat (min (length rest) (remaining s - CAFragDataMessage_size)) :: u16);
       s \<leftarrow> put_ca_frag_message (frag_header c all_seq frag_seq frag_size) s;
       s \<leftarrow> ser_write (take (unat frag_size) rest) s;
       s \<leftarrow> pad_align Submessage_alignment 0 s;
       Some (unat frag_size, udp_send (take (distance s) (ser_mem s)) (st\<lparr>snd_buffer := ser_mem s\<rparr>))
     }"

partial_function (option) fragment_loop ::
  "ca_channel \<Rightarrow> u16 \<Rightarrow> u16 \<Rightarrow> bytes \<Rightarrow> ca_sender \<Rightarrow> ca_sender option" where
  "fragment_loop c all_seq frag_seq rest st =
     (if rest = [] then Some st
      else Option.bind (send_fragment c all_seq frag_seq rest st)
        (\<lambda>(k, st'). fragment_loop c all_seq (frag_seq + 1) (drop k rest) st'))"

definition send_fragmented_update :: "ca_channel \<Rightarrow> ca_sender \<Rightarrow> ca_sender option" where
  "send_fragmented_update c st =
     fragment_loop c (snd_seq_no st) 0 (ch_value c) (st\<lparr>snd_seq_no := snd_seq_no st + 1\<rparr>)"

partial_function (option) send_fragmented_updates :: "ca_sender \<Rightarrow> ca_sender option" where
  "send_fragmented_updates st =
     (case snd_deque st of
        [] \<Rightarrow> Some st
      | q # _ \<Rightarrow> Option.bind (vec_at (snd_channels st) q)
          (\<lambda>c. if length (ch_value c) \<le> CAChannelData_max_data_size then Some st
               else Option.bind (send_fragmented_update c st)
                 (\<lambda>st'. Option.bind (clear_update q st') send_fragmented_updates)))"

definition channel_header :: "ca_channel \<Rightarrow> ca_channel_data" where
  "channel_header c =
     \<lparr>cd_id = of_nat (ch_index c), cd_count = ucast (ch_count c), cd_type = ucast (ch_type c)\<rparr>"

fun write_group :: "ca_channel list \<Rightarrow> serializer \<times> u16 \<Rightarrow> (serializer \<times> u16) option" where
  "write_group [] acc = Some acc"
| "write_group (c # cs) (s, n) =
     do {
       s \<leftarrow> put_ca_channel_data (channel_header c) s;
       s \<leftarrow> ser_write (ch_value c) s;
       s \<leftarrow> pad_align Submessage_alignment 0 s;
       write_group cs (s, n + 1)
     }"

text \<open>
  The inner loop of \<open>send_updates\<close>: take groups from the queue while they fit. The result tells
  whether the loop stopped at a group that needs fragmentation.
\<close>

partial_function (option) fill_updates ::
  "ca_sender \<Rightarrow> serializer \<times> u16 \<Rightarrow> (bool \<times> ca_sender \<times> serializer \<times> u16) option" where
  "fill_updates st acc =
     (case snd_deque st of
        [] \<Rightarrow> Some (False, st, acc)
      | q # _ \<Rightarrow> Option.bind (vec_at (snd_channels st) q)
          (\<lambda>c. let g = group_members (snd_channels st) c in
               if unat (group_value_size g) > CAChannelData_max_data_size then Some (True, st, acc)
               else let (ok, s) = ensure (unat (group_value_size_aligned Submessage_alignment g)) (fst acc) in
                 if ok then Option.bind (write_group g (s, snd acc))
                   (\<lambda>acc'. Option.bind (clear_update q st) (\<lambda>st'. fill_updates st' acc'))
                 else Some (False, st, s, snd acc)))"

text \<open>The body of the outer loop: one data packet, then the fragmented updates if asked for.\<close>

definition send_packet :: "ca_sender \<Rightarrow> (bool \<times> ca_sender) option" where
  "send_packet st =
     do {
       let s = advance Header_size (ser_of (snd_buffer st));
       let (ok, s) = ensure (Submessage_size + CADataMessage_size) s;
       sh \<leftarrow> make_subheader CA_DATA_MESSAGE LittleEndian 0;
       s \<leftarrow> put_subheader sh s;
       s \<leftarrow> put_ca_data_message \<lparr>dm_seq_no = snd_seq_no st, dm_channel_count = 0\<rparr> s;
       let st = st\<lparr>snd_seq_no := snd_seq_no st + 1\<rparr>;
       let count_pos = ser_pos s - 2;
       (process_fragmented, st, s, count) \<leftarrow> fill_updates st (s, 0);
       let bytes_to_send = distance s;
       s \<leftarrow> set_position count_pos s;
       s \<leftarrow> put_u16 count s;
       Some (process_fragmented,
         udp_send (take bytes_to_send (ser_mem s)) (st\<lparr>snd_buffer := ser_mem s\<rparr>))
     }"

definition send_step :: "ca_sender \<Rightarrow> ca_sender option" where
  "send_step st =
     do { (process_fragmented, st) \<leftarrow> send_packet st;
          if process_fragmented then send_fragmented_updates st else Some st }"

partial_function (option) send_updates :: "ca_sender \<Rightarrow> ca_sender option" where
  "send_updates st = (if has_updates st then Option.bind (send_step st) send_updates else Some st)"

subsection \<open>The run loop\<close>

text \<open>
  Each turn first lets the library deliver the pending callbacks (the list of events) for one update
  period.
\<close>

definition run_iteration :: "ca_env \<Rightarrow> ca_event list \<Rightarrow> ca_sender \<Rightarrow> ca_sender option" where
  "run_iteration env evs st =
     do {
       st \<leftarrow> foldM (handle_ca_event env) evs st;
       let st = st\<lparr>snd_iteration := snd_iteration st + 1\<rparr>;
       let st = (if snd_iteration st mod snd_pf_iterations st = 0 then check_polled_fields st else st);
       st \<leftarrow> (if snd_iteration st mod snd_hb_iterations st = 0
              then map_option fst (mark_heartbeat_updates st) else Some st);
       send_updates st
     }"

text \<open>The result says whether the loop left by its runtime check or ran out of supplied turns.\<close>

fun run_loop :: "ca_env \<Rightarrow> bool \<Rightarrow> u64 \<Rightarrow> ca_event list list \<Rightarrow> ca_sender \<Rightarrow> (bool \<times> ca_sender) option" where
  "run_loop env limited iterations [] st = Some (False, st)"
| "run_loop env limited iterations (evs # turns) st =
     do { st \<leftarrow> run_iteration env evs st;
          if limited \<and> snd_iteration st \<ge> iterations then Some (True, st)
          else run_loop env limited iterations turns st }"

definition sender_run :: "ca_env \<Rightarrow> double \<Rightarrow> ca_event list list \<Rightarrow> ca_sender \<Rightarrow> (bool \<times> ca_sender) option" where
  "sender_run env runtime turns st =
     run_loop env (dval runtime > 0)
       (word_of_int (cround (fdiv (dval runtime) (dval (snd_update_period st))))) turns st"

end
