(* ===== verification/CA_Sending.thy ===== *)
theory CA_Sending
  imports CA_Sender
begin

text \<open>
  What the sending loops put on the wire, as functions of the queued channels: the bytes of one
  channel update, of a group, of a data packet and of a fragment.
\<close>

subsection \<open>The bytes of an update\<close>

type_synonym payload = "ca_channel_data \<times> bytes"

definition payload :: "ca_channel \<Rightarrow> payload" where
  "payload c = (channel_header c, ch_value c)"

definition entry_bytes :: "payload \<Rightarrow> bytes" where
  "entry_bytes p = enc_ca_channel_data (fst p) @ snd p @ replicate (pad_len 8 (length (snd p))) 0"

definition entry_len :: "payload \<Rightarrow> nat" where
  "entry_len p = 8 + length (snd p) + pad_len 8 (length (snd p))"

definition group_bytes :: "payload list \<Rightarrow> bytes" where
  "group_bytes g = concat (map entry_bytes g)"

definition group_len :: "payload list \<Rightarrow> nat" where
  "group_len g = sum_list (map entry_len g)"

definition group_values :: "payload list \<Rightarrow> nat" where
  "group_values g = sum_list (map (length \<circ> snd) g)"

lemma payload_fields [simp]: "fst (payload c) = channel_header c" "snd (payload c) = ch_value c"
  by (simp_all add: payload_def)

lemma length_entry_bytes [simp]: "length (entry_bytes p) = entry_len p"
  by (simp add: entry_bytes_def entry_len_def)

lemma length_group_bytes [simp]: "length (group_bytes g) = group_len g"
  by (induction g) (simp_all add: group_bytes_def group_len_def)

lemma group_simps [simp]:
  "group_bytes [] = []" "group_len [] = 0" "group_values [] = 0"
  "group_bytes (p # g) = entry_bytes p @ group_bytes g" "group_len (p # g) = entry_len p + group_len g"
  "group_values (p # g) = length (snd p) + group_values g"
  by (simp_all add: group_bytes_def group_len_def group_values_def)

lemma group_bytes_append [simp]: "group_bytes (g @ h) = group_bytes g @ group_bytes h"
  by (simp add: group_bytes_def)

lemma group_len_append [simp]: "group_len (g @ h) = group_len g + group_len h"
  by (simp add: group_len_def)

lemma entry_len_dvd: "8 dvd entry_len p"
  using pad_len_dvd [of 8 "length (snd p)"] by (simp add: entry_len_def add.assoc)

lemma group_len_dvd: "8 dvd group_len g"
  by (induction g) (simp_all add: entry_len_dvd dvd_add)

lemma group_len_lower: "8 * length g + group_values g \<le> group_len g"
  by (induction g) (auto simp: entry_len_def)

subsection \<open>The 32-bit sums\<close>

lemma fold_value_size:
  "fold (\<lambda>c n. n + of_nat (length (ch_value c))) g (of_nat k :: u32) = of_nat (k + group_values (map payload g))"
proof (induction g arbitrary: k)
  case Nil
  then show ?case by simp
next
  case (Cons c g)
  have "fold (\<lambda>c n. n + of_nat (length (ch_value c))) (c # g) (of_nat k :: u32) =
      fold (\<lambda>c n. n + of_nat (length (ch_value c))) g (of_nat (k + length (ch_value c)))"
    by simp
  also have "\<dots> = of_nat (k + length (ch_value c) + group_values (map payload g))"
    by (rule Cons)
  finally show ?case by (simp add: add.assoc)
qed

lemma group_value_size_nat:
  "group_values (map payload g) < 2 ^ 32 \<Longrightarrow> unat (group_value_size g) = group_values (map payload g)"
  using fold_value_size [of g 0] by (simp add: group_value_size_def)

lemma aligned_step_nat:
  assumes "8 dvd k" and "k + entry_len (payload c) < 2 ^ 32"
  shows "aligned_step 8 c (of_nat k) = of_nat (k + entry_len (payload c))"
proof -
  let ?l = "length (ch_value c)"
  have lt: "k + (8 + ?l) < 2 ^ 32"
    using assms(2) by (simp add: entry_len_def)
  then have u: "unat (of_nat (k + (8 + ?l)) :: u32) = k + (8 + ?l)"
    by (intro unat_word_of_nat_small) simp
  have m: "(k + (8 + ?l)) mod 8 = ?l mod 8"
  proof -
    obtain j where "k = 8 * j" using assms(1) by blast
    then have "k + (8 + ?l) = ?l + 8 * (j + 1)" by simp
    then show ?thesis by (simp only: mod_mult_self2)
  qed
  have full: "of_nat k + of_nat (CAChannelData_size + ?l) = (of_nat (k + (8 + ?l)) :: u32)"
    by (simp add: CAChannelData_size_def)
  have "aligned_step 8 c (of_nat k) = of_nat (k + (8 + ?l) + pad_len 8 ?l)"
    unfolding aligned_step_def full Let_def u m pad_len_def
    by (cases "?l mod 8 = 0") (simp_all only: of_nat_add [symmetric] if_True if_False, simp_all)
  then show ?thesis
    by (simp add: entry_len_def add.assoc)
qed

lemma fold_aligned_size:
  "8 dvd k \<Longrightarrow> k + group_len (map payload g) < 2 ^ 32 \<Longrightarrow>
   fold (aligned_step 8) g (of_nat k) = of_nat (k + group_len (map payload g))"
proof (induction g arbitrary: k)
  case Nil
  then show ?case by simp
next
  case (Cons c g)
  have "aligned_step 8 c (of_nat k) = of_nat (k + entry_len (payload c))"
    using Cons.prems by (intro aligned_step_nat) auto
  moreover have "8 dvd k + entry_len (payload c)"
    using Cons.prems(1) entry_len_dvd by (rule dvd_add)
  ultimately show ?case
    using Cons.IH [of "k + entry_len (payload c)"] Cons.prems(2) by (simp add: add.assoc)
qed

lemma group_aligned_nat:
  "group_len (map payload g) < 2 ^ 32 \<Longrightarrow>
   unat (group_value_size_aligned Submessage_alignment g) = group_len (map payload g)"
  using fold_aligned_size [of 0 g] by (simp add: group_value_size_aligned_def Submessage_alignment_def)

subsection \<open>Writing a group\<close>

lemma pad_len_shift: "8 dvd k \<Longrightarrow> pad_len 8 (k + n) = pad_len 8 n"
  by (simp add: pad_len_def mod_add_eq [symmetric, of k] dvd_imp_mod_0 mod_simps)

lemma write_entry:
  assumes "ser_good s" and "ser_wf s" and "8 dvd ser_pos s" and "entry_len (payload c) \<le> remaining s"
  shows "Option.bind (put_ca_channel_data (channel_header c) s)
      (\<lambda>s. Option.bind (ser_write (ch_value c) s) (pad_align Submessage_alignment 0)) =
    Some (written (entry_bytes (payload c)) s)"
proof -
  let ?e = "enc_ca_channel_data (channel_header c)"
  let ?p = "replicate (pad_len 8 (length (ch_value c))) (0 :: u8)"
  have len: "ser_pos s + (8 + length (ch_value c) + pad_len 8 (length (ch_value c))) \<le> length (ser_mem s)"
    using assms(2,4) by (auto simp: remaining_wf ser_wf_def entry_len_def)
  have rem: "CADataMessage_size \<le> remaining s"
    using assms(4) by (simp add: entry_len_def CADataMessage_size_def)
  have put: "put_ca_channel_data (channel_header c) s = Some (written ?e s)"
    using ca_channel.put_ok [OF assms(1) rem] len by (simp add: ser_write_fits)
  let ?s2 = "written (ch_value c) (written ?e s)"
  have w2: "ser_write (ch_value c) (written ?e s) = Some ?s2"
    using len by (intro ser_write_fits) (simp add: ser_fields)
  have pos2: "ser_pos ?s2 = ser_pos s + 8 + length (ch_value c)"
    by (simp add: ser_fields)
  have mem2: "length (ser_mem ?s2) = length (ser_mem s)"
    using len by (simp add: ser_fields)
  have pl: "pad_len 8 (ser_pos ?s2) = pad_len 8 (length (ch_value c))"
    using assms(3) by (simp add: pos2 pad_len_shift)
  have le2: "ser_pos ?s2 \<le> length (ser_mem ?s2)"
    using len by (simp add: mem2 pos2)
  have "pad_align Submessage_alignment 0 ?s2 = ser_write ?p ?s2"
    unfolding Submessage_alignment_def pad_align_write [OF zero_less_numeral le2] pl ..
  also have "\<dots> = Some (written ?p ?s2)"
    using len by (intro ser_write_fits) (simp add: mem2 pos2)
  also have "written ?p ?s2 = written (entry_bytes (payload c)) s"
    using len by (simp add: written_append entry_bytes_def ser_fields)
  finally show ?thesis
    by (simp add: put w2)
qed

lemma write_group_written:
  assumes "ser_good s" and "ser_wf s" and "8 dvd ser_pos s" and "group_len (map payload g) \<le> remaining s"
  shows "write_group g (s, n) = Some (written (group_bytes (map payload g)) s, n + of_nat (length g))"
  using assms
proof (induction g arbitrary: s n)
  case Nil
  then show ?case by simp
next
  case (Cons c g)
  let ?e = "entry_bytes (payload c)"
  let ?s = "written ?e s"
  from Cons.prems have fit: "length ?e \<le> remaining s" by simp
  note wf = written_wf [OF Cons.prems(2) fit]
  have e: "Option.bind (put_ca_channel_data (channel_header c) s)
      (\<lambda>s. Option.bind (ser_write (ch_value c) s) (pad_align Submessage_alignment 0)) = Some ?s"
    using Cons.prems by (intro write_entry) auto
  have "write_group (c # g) (s, n) = Option.bind (Option.bind (put_ca_channel_data (channel_header c) s)
      (\<lambda>s. Option.bind (ser_write (ch_value c) s) (pad_align Submessage_alignment 0)))
      (\<lambda>s. write_group g (s, n + 1))"
    by (simp add: bind_assoc)
  also have "\<dots> = write_group g (?s, n + 1)"
    by (simp add: e)
  also have "\<dots> = Some (written (group_bytes (map payload g)) ?s, n + 1 + of_nat (length g))"
    using Cons.prems wf entry_len_dvd [of "payload c"]
    by (intro Cons.IH) (simp_all add: ser_fields)
  also have "written (group_bytes (map payload g)) ?s = written (group_bytes (map payload (c # g))) s"
  proof -
    have "ser_pos s + length ?e + length (group_bytes (map payload g)) \<le> length (ser_mem s)"
      using Cons.prems by (auto simp: remaining_wf ser_wf_def)
    then show ?thesis by (simp add: written_append)
  qed
  finally show ?case by (simp add: add.assoc)
qed

end
