(* ===== verification/CA_Packets.thy ===== *)
theory CA_Packets
  imports CA_Sending
begin

text \<open>
  The data packets of the Channel Access sender: which queued groups a packet takes, its exact bytes,
  and the state the sender is left in.
\<close>

subsection \<open>The queued groups\<close>

definition group_payload :: "ca_channel list \<Rightarrow> nat \<Rightarrow> payload list" where
  "group_payload chs q = map payload (group_members chs (chs ! q))"

text \<open>The greedy choice of the sender: how many groups fit, and whether a group asks for fragmentation.\<close>

fun take_fit :: "nat \<Rightarrow> payload list list \<Rightarrow> nat \<times> bool" where
  "take_fit room [] = (0, False)"
| "take_fit room (g # gs) =
     (if group_values g > CAChannelData_max_data_size then (0, True)
      else if group_len g \<le> room
      then let (k, f) = take_fit (room - group_len g) gs in (Suc k, f)
      else (0, False))"

lemma take_fit_le: "fst (take_fit room gs) \<le> length gs"
  by (induction room gs rule: take_fit.induct) (auto split: prod.split)

lemma take_fit_room: "sum_list (map group_len (take (fst (take_fit room gs)) gs)) \<le> room"
proof (induction room gs rule: take_fit.induct)
  case (2 room g gs)
  then show ?case
    by (cases "take_fit (room - group_len g) gs") (auto split: if_splits)
qed simp

definition clear_front :: "nat \<Rightarrow> ca_sender \<Rightarrow> ca_sender" where
  "clear_front k st = fold clear_root (take k (snd_deque st)) st"

lemma clear_front_0 [simp]: "clear_front 0 st = st"
  by (simp add: clear_front_def)

lemma clear_root_fields [simp]:
  "snd_seq_no (clear_root q st) = snd_seq_no st" "snd_buffer (clear_root q st) = snd_buffer st"
  "snd_sent (clear_root q st) = snd_sent st" "snd_deque (clear_root q st) = tl (snd_deque st)"
  by (simp_all add: clear_root_def)

lemma clear_front_Suc:
  "snd_deque st = q # qs \<Longrightarrow> clear_front (Suc k) st = clear_front k (clear_root q st)"
  by (simp add: clear_front_def)

lemma clear_front_fields [simp]:
  "snd_seq_no (clear_front k st) = snd_seq_no st" "snd_buffer (clear_front k st) = snd_buffer st"
  "snd_sent (clear_front k st) = snd_sent st" "snd_deque (clear_front k st) = drop k (snd_deque st)"
proof -
  have "snd_seq_no (fold clear_root qs st) = snd_seq_no st \<and> snd_buffer (fold clear_root qs st) = snd_buffer st
      \<and> snd_sent (fold clear_root qs st) = snd_sent st
      \<and> snd_deque (fold clear_root qs st) = drop (length qs) (snd_deque st)" for qs
    by (induction qs arbitrary: st) (simp_all add: drop_Suc)
  from this [of "take k (snd_deque st)"]
  show "snd_seq_no (clear_front k st) = snd_seq_no st" "snd_buffer (clear_front k st) = snd_buffer st"
    "snd_sent (clear_front k st) = snd_sent st" "snd_deque (clear_front k st) = drop k (snd_deque st)"
    by (simp_all add: clear_front_def min_def)
qed

lemma clear_front_inv: "queue_inv st \<Longrightarrow> queue_inv (clear_front k st)"
proof (induction k arbitrary: st)
  case (Suc k)
  show ?case
  proof (cases "snd_deque st")
    case Nil
    then show ?thesis using Suc.prems by (simp add: clear_front_def)
  next
    case (Cons q qs)
    then show ?thesis
      using Suc.IH [of "clear_root q st"] queue_inv_clear(1) [OF Suc.prems Cons]
      by (simp add: clear_front_Suc)
  qed
qed simp

text \<open>Clearing leaves the payload of every group alone.\<close>

lemma end_group_loop_cong:
  assumes "length chs' = length chs" and "\<And>j. ch_parent_index (chs' ! j) = ch_parent_index (chs ! j)"
  shows "end_group_loop chs' i = end_group_loop chs i"
  using assms
proof (induction chs i rule: end_group_loop.induct)
  case (1 chs i)
  then show ?case
    by (subst (1 2) end_group_loop.simps) simp
qed

lemma group_payload_update:
  assumes "payload c = payload (chs ! i)" "ch_index c = ch_index (chs ! i)"
    "ch_parent_index c = ch_parent_index (chs ! i)"
  shows "group_payload (chs[i := c]) q = group_payload chs q"
proof -
  have f: "payload (chs[i := c] ! j) = payload (chs ! j)" "ch_index (chs[i := c] ! j) = ch_index (chs ! j)"
    "ch_parent_index (chs[i := c] ! j) = ch_parent_index (chs ! j)" for j
    using assms by (simp_all only: list_update_field)
  have "end_group_loop (chs[i := c]) j = end_group_loop chs j" for j
    by (rule end_group_loop_cong) (simp_all add: f)
  then show ?thesis
    by (simp add: group_payload_def group_members_def comp_def end_group_id_def start_group_id_def f)
qed

lemma group_payload_clear [simp]: 
  "group_payload (snd_channels (clear_root r st)) q = group_payload (snd_channels st) q"
  by (simp add: clear_root_def group_payload_update payload_def channel_header_def)

lemma group_payload_clear_front [simp]: 
  "group_payload (snd_channels (clear_front k st)) q = group_payload (snd_channels st) q"
proof -
  have "group_payload (snd_channels (fold clear_root qs st)) q = group_payload (snd_channels st) q" for qs
    by (induction qs arbitrary: st) simp_all
  then show ?thesis by (simp add: clear_front_def)
qed

definition queued_groups :: "ca_sender \<Rightarrow> payload list list" where
  "queued_groups st = map (group_payload (snd_channels st)) (snd_deque st)"

lemma queued_groups_clear: 
  "snd_deque st = q # qs \<Longrightarrow>
   queued_groups st = group_payload (snd_channels st) q # queued_groups (clear_root q st)"
  by (simp add: queued_groups_def)

lemma queued_groups_clear_front: "queued_groups (clear_front k st) = drop k (queued_groups st)"
  by (simp add: queued_groups_def drop_map)

subsection \<open>Filling a packet\<close>

definition groups_bytes :: "payload list list \<Rightarrow> bytes" where
  "groups_bytes gs = concat (map group_bytes gs)"

lemma groups_bytes_simps [simp]:
  "groups_bytes [] = []" "groups_bytes (g # gs) = group_bytes g @ groups_bytes gs"
  by (simp_all add: groups_bytes_def)

lemma length_groups_bytes: "length (groups_bytes gs) = sum_list (map group_len gs)"
  by (induction gs) simp_all

lemma fill_updates_spec:
  assumes "queue_inv st" "ser_good s" "ser_wf s" "8 dvd ser_pos s"
    and "\<forall>g \<in> set (queued_groups st). group_len g < 2 ^ 32"
    and "take_fit (remaining s) (queued_groups st) = (k, f)"
  shows "\<exists>g. fill_updates st (s, n) =
    Some (f, clear_front k st,
      (written (groups_bytes (take k (queued_groups st))) s)\<lparr>ser_good := g\<rparr>,
      n + of_nat (length (concat (take k (queued_groups st)))))"
  using assms
proof (induction "snd_deque st" arbitrary: st s n k)
  case Nil
  then have "queued_groups st = []" by (simp add: queued_groups_def)
  with Nil show ?case
    by (subst fill_updates.simps) (auto simp: ser_good_True intro!: exI [of _ True])
next
  case (Cons q qs)
  note dq = Cons.hyps(2) [symmetric]
  let ?g = "group_payload (snd_channels st) q"
  let ?m = "group_members (snd_channels st) (snd_channels st ! q)"
  have ql: "q < length (snd_channels st)"
    using Cons.prems(1) dq by (auto simp: queue_inv_def pending_root_def)
  have g: "?g = map payload ?m"
    by (simp add: group_payload_def)
  note qg = queued_groups_clear [OF dq]
  have small: "group_len ?g < 2 ^ 32"
    using Cons.prems(5) by (simp add: qg)
  then have vs: "unat (group_value_size ?m) = group_values ?g"
    using group_len_lower [of ?g] by (simp add: g group_value_size_nat)
  have al: "unat (group_value_size_aligned Submessage_alignment ?m) = group_len ?g"
    using small by (simp add: g group_aligned_nat)
  consider (frag) "group_values ?g > CAChannelData_max_data_size"
    | (full) "group_values ?g \<le> CAChannelData_max_data_size" "remaining s < group_len ?g"
    | (fits) "group_values ?g \<le> CAChannelData_max_data_size" "group_len ?g \<le> remaining s"
    by linarith
  then show ?case
  proof cases
    case frag
    with Cons.prems show ?thesis
      by (subst fill_updates.simps) (auto simp: dq ql vs qg ser_good_True intro!: exI [of _ True])
  next
    case full
    with Cons.prems show ?thesis
      by (subst fill_updates.simps)
        (auto simp: dq ql vs al qg ensure_False ser_good_True intro!: exI [of _ False])
  next
    case fits
    obtain k' f' where tf: "take_fit (remaining s - group_len ?g) (queued_groups (clear_root q st)) = (k', f')"
      by fastforce
    have kf: "k = Suc k'" "f = f'"
      using Cons.prems(6) fits tf by (simp_all add: qg)
    let ?s = "written (group_bytes ?g) s"
    have wg: "write_group ?m (s, n) = Some (?s, n + of_nat (length ?g))"
      using write_group_written [OF Cons.prems(2-4), of ?m n] fits by (simp add: g)
    note cl = queue_inv_clear [OF Cons.prems(1) dq]
    have fit: "length (group_bytes ?g) \<le> remaining s"
      using fits by simp
    note wf = written_wf [OF Cons.prems(3) fit]
    have step: "fill_updates st (s, n) = fill_updates (clear_root q st) (?s, n + of_nat (length ?g))"
      using fits Cons.prems(2)
      by (subst fill_updates.simps) (simp add: dq ql vs al ensure_True wg cl(3))
    have "8 dvd ser_pos ?s"
      using Cons.prems(4) group_len_dvd by (simp add: ser_fields dvd_add)
    then obtain gd where ih: "fill_updates (clear_root q st) (?s, n + of_nat (length ?g)) =
        Some (f', clear_front k' (clear_root q st),
          (written (groups_bytes (take k' (queued_groups (clear_root q st)))) ?s)\<lparr>ser_good := gd\<rparr>,
          n + of_nat (length ?g) + of_nat (length (concat (take k' (queued_groups (clear_root q st))))))"
      using Cons.hyps(1) [of "clear_root q st" ?s k' "n + of_nat (length ?g)"] cl(1,2) wf Cons.prems tf
      by (auto simp: qg kf(2) ser_fields)
    have "sum_list (map group_len (take k' (queued_groups (clear_root q st)))) \<le> remaining s - group_len ?g"
      using take_fit_room [of "remaining s - group_len ?g" "queued_groups (clear_root q st)"] tf by simp
    then have "ser_pos s + length (group_bytes ?g) +
        length (groups_bytes (take k' (queued_groups (clear_root q st)))) \<le> length (ser_mem s)"
      using fits Cons.prems(3) by (auto simp: length_groups_bytes remaining_wf ser_wf_def)
    then have "written (groups_bytes (take k' (queued_groups (clear_root q st)))) ?s =
        written (groups_bytes (take k (queued_groups st))) s"
      by (simp add: written_append qg kf)
    with ih step show ?thesis
      by (auto simp: kf qg clear_front_Suc [OF dq] add.assoc)
  qed
qed

subsection \<open>The packet\<close>

lemma patch_inside:
  assumes "length b' = length b" and "p + length (a @ b @ c) \<le> length m"
  shows "patch (p + length a) b' (patch p (a @ b @ c) m) = patch p (a @ b' @ c) m"
  using assms by (simp add: patch_def add.assoc)

text \<open>The send buffer is the full message size and starts with the fixed packet header.\<close>

definition buffer_wf :: "ca_sender \<Rightarrow> bool" where
  "buffer_wf st \<longleftrightarrow> length (snd_buffer st) = MAX_MESSAGE_SIZE"

definition data_room :: nat where
  "data_room = MAX_MESSAGE_SIZE - Header_size - Submessage_size - CADataMessage_size"

definition data_packet :: "bytes \<Rightarrow> u16 \<Rightarrow> payload list list \<Rightarrow> bytes" where
  "data_packet hdr seq gs =
     hdr @ enc_subheader \<lparr>sh_id = CA_DATA_MESSAGE, sh_flags = LittleEndian, sh_next = 0\<rparr> @
     enc_ca_data_message \<lparr>dm_seq_no = seq, dm_channel_count = of_nat (length (concat gs))\<rparr> @
     groups_bytes gs"

lemma length_data_packet: "length (data_packet hdr seq gs) = length hdr + 8 + sum_list (map group_len gs)"
  by (simp add: data_packet_def length_groups_bytes)

lemma sendable_small:
  assumes "\<forall>g \<in> set gs. group_len g < 2 ^ 32" shows "\<forall>g \<in> set (take k gs). group_len g < 2 ^ 32"
  using assms by (meson in_set_takeD)

definition data_frame :: "u16 \<Rightarrow> u16 \<Rightarrow> payload list list \<Rightarrow> bytes" where
  "data_frame seq count gs =
     (enc_subheader \<lparr>sh_id = CA_DATA_MESSAGE, sh_flags = LittleEndian, sh_next = 0\<rparr> @ le_bytes 2 (unat seq)) @
     le_bytes 2 (unat count) @ groups_bytes gs"

lemma length_data_frame: "length (data_frame seq count gs) = 8 + sum_list (map group_len gs)"
  by (simp add: data_frame_def length_groups_bytes)

lemma make_subheader_0 [simp]:
  "make_subheader i LittleEndian 0 = Some \<lparr>sh_id = i, sh_flags = LittleEndian, sh_next = 0\<rparr>"
  by (simp add: make_subheader_def LittleEndian_def)

text \<open>What one turn of the outer loop of \<open>send_updates\<close> does before the fragments.\<close>

lemma send_packet_spec:
  fixes st :: ca_sender
  defines "gs \<equiv> queued_groups st"
  assumes inv: "queue_inv st" and buf: "buffer_wf st"
    and small: "\<forall>g \<in> set gs. group_len g < 2 ^ 32"
    and tf: "take_fit data_room gs = (k, f)"
  shows "\<exists>buf'. length buf' = MAX_MESSAGE_SIZE \<and> take Header_size buf' = take Header_size (snd_buffer st) \<and>
    send_packet st = Some (f, (clear_front k (st\<lparr>snd_seq_no := snd_seq_no st + 1\<rparr>))
      \<lparr>snd_buffer := buf', snd_sent := snd_sent st @
         [data_packet (take Header_size (snd_buffer st)) (snd_seq_no st) (take k gs)]\<rparr>)"
proof -
  let ?B = "snd_buffer st"
  let ?s = "advance Header_size (ser_of ?B)"
  let ?sh = "\<lparr>sh_id = CA_DATA_MESSAGE, sh_flags = LittleEndian, sh_next = 0\<rparr>"
  let ?dm = "\<lparr>dm_seq_no = snd_seq_no st, dm_channel_count = 0\<rparr>"
  let ?st = "st\<lparr>snd_seq_no := snd_seq_no st + 1\<rparr>"
  let ?s2 = "written (enc_subheader ?sh @ enc_ca_data_message ?dm) ?s"
  let ?X = "groups_bytes (take k gs)"
  let ?n = "of_nat (length (concat (take k gs))) :: u16"
  have len: "length ?B = 65504" using buf by (simp add: buffer_wf_def MAX_MESSAGE_SIZE_def)
  have wf: "ser_wf ?s" and good: "ser_good ?s" and rem: "remaining ?s = 65480"
    by (simp_all add: ser_wf_def remaining_def ser_fields len Header_size_def)
  have en: "ensure (Submessage_size + CADataMessage_size) ?s = (True, ?s)"
    by (simp add: ensure_True good rem Submessage_size_def CADataMessage_size_def)
  have p1: "put_subheader ?sh ?s = Some (written (enc_subheader ?sh) ?s)"
    using subheader.put_ok [OF good] rem wf by (simp add: Submessage_size_def ser_write_wf_fits)
  have w1: "ser_wf (written (enc_subheader ?sh) ?s)" "remaining (written (enc_subheader ?sh) ?s) = 65476"
    using written_wf [OF wf] rem by simp_all
  have p2: "put_ca_data_message ?dm (written (enc_subheader ?sh) ?s) = Some ?s2"
  proof -
    have "put_ca_data_message ?dm (written (enc_subheader ?sh) ?s) =
        Some (written (enc_ca_data_message ?dm) (written (enc_subheader ?sh) ?s))"
      using ca_data.put_ok [of "written (enc_subheader ?sh) ?s"] good w1
      by (simp add: CADataMessage_size_def ser_write_wf_fits ser_fields)
    also have "written (enc_ca_data_message ?dm) (written (enc_subheader ?sh) ?s) = ?s2"
      by (rule written_append) (simp add: ser_fields len Header_size_def)
    finally show ?thesis .
  qed
  have w2: "ser_wf ?s2" "remaining ?s2 = data_room"
    using written_wf [OF wf] rem by (simp_all add: data_room_def size_defs)
  have g2: "ser_good ?s2" "ser_pos ?s2 = 32" "ser_limit ?s2 = 65504"
    by (simp_all add: ser_fields len Header_size_def)
  have qg: "queued_groups ?st = gs"
    by (simp add: gs_def queued_groups_def)
  have "queue_inv ?st"
    using inv by (simp add: queue_inv_def)
  then obtain gd where fl: "fill_updates ?st (?s2, 0) =
      Some (f, clear_front k ?st, (written ?X ?s2)\<lparr>ser_good := gd\<rparr>, ?n)"
    using fill_updates_spec [of ?st ?s2 k f 0] w2 g2 small tf by (auto simp: qg)
  have room: "length ?X \<le> 65472"
    using take_fit_room [of data_room gs] tf by (simp add: length_groups_bytes data_room_def size_defs)
  have X: "written ?X ?s2 = written (data_frame (snd_seq_no st) 0 (take k gs)) ?s"
  proof -
    have "written ?X ?s2 = written ((enc_subheader ?sh @ enc_ca_data_message ?dm) @ ?X) ?s"
      using room by (intro written_append) (simp add: ser_fields len Header_size_def)
    then show ?thesis
      by (simp add: data_frame_def enc_ca_data_message_def)
  qed
  let ?F = "data_frame (snd_seq_no st) 0 (take k gs)"
  let ?F' = "data_frame (snd_seq_no st) ?n (take k gs)"
  let ?s3 = "(written ?X ?s2)\<lparr>ser_good := gd\<rparr>"
  have mem3: "ser_mem (written ?X ?s2) = patch 24 ?F ?B"
    unfolding X by (simp add: written_def ser_fields Header_size_def)
  have pos3: "ser_pos ?s3 = 32 + length ?X"
    by (simp add: ser_fields Header_size_def)
  have lim3: "ser_limit ?s3 = 65504"
    by (simp add: ser_fields len)
  have lF: "24 + length ?F \<le> 65504" "length ?F' = length ?F"
    using room by (simp_all add: length_data_frame length_groups_bytes)
  have pat: "patch 30 (le_bytes 2 (unat ?n)) (patch 24 ?F ?B) = patch 24 ?F' ?B"
    using patch_inside [of "le_bytes 2 (unat ?n)" "le_bytes 2 (unat (0::u16))" 24
        "enc_subheader ?sh @ le_bytes 2 (unat (snd_seq_no st))" ?X ?B] lF(1) len
    by (simp add: data_frame_def)
  have p3: "set_position 30 ?s3 = Some (?s3\<lparr>ser_pos := 30\<rparr>)"
    by (simp add: set_position_def lim3)
  have p4: "put_u16 ?n (?s3\<lparr>ser_pos := 30\<rparr>) =
      Some (?s3\<lparr>ser_pos := 32, ser_mem := patch 24 ?F' ?B\<rparr>)"
    using lF len by (simp add: put_write ser_write_def mem3 pat length_patch)
  let ?P = "data_packet (take Header_size ?B) (snd_seq_no st) (take k gs)"
  have tk: "take (32 + length ?X) (patch 24 ?F' ?B) = ?P"
  proof -
    have "32 + length ?X = 24 + length ?F'"
      by (simp add: length_data_frame length_groups_bytes)
    then show ?thesis
      using take_patch [of 24 ?F' ?B] lF len
      by (simp add: data_packet_def data_frame_def enc_ca_data_message_def Header_size_def)
  qed
  let ?st' = "(clear_front k ?st)\<lparr>snd_buffer := patch 24 ?F' ?B, snd_sent := snd_sent st @ [?P]\<rparr>"
  have "send_packet st = Some (f, ?st')"
    unfolding send_packet_def
    by (simp add: en p1 p2 fl g2 p3 p4 distance_def pos3 tk udp_send_def)
  moreover have "length (patch 24 ?F' ?B) = MAX_MESSAGE_SIZE"
    using lF len by (simp add: length_patch MAX_MESSAGE_SIZE_def)
  moreover have "take Header_size (patch 24 ?F' ?B) = take Header_size ?B"
    using lF len by (simp add: take_patch_before Header_size_def)
  ultimately show ?thesis by blast
qed

end
