(* ===== verification/CA_Fragments.thy ===== *)
theory CA_Fragments
  imports CA_Packets
begin

text \<open>
  Values too large for one packet: how they are cut into fragments, the exact fragment packets, and
  which queued channels \<open>send_fragmented_updates\<close> takes.
\<close>

subsection \<open>Chunks\<close>

function chunks :: "nat \<Rightarrow> 'a list \<Rightarrow> 'a list list" where
  "chunks n xs = (if xs = [] \<or> n = 0 then [] else take n xs # chunks n (drop n xs))"
  by pat_completeness auto
termination
  by (relation "measure (\<lambda>(n, xs). length xs)") auto

declare chunks.simps [simp del]

lemma chunks_Nil [simp]: "chunks n [] = []"
  by (simp add: chunks.simps)

lemma chunks_Cons: "xs \<noteq> [] \<Longrightarrow> 0 < n \<Longrightarrow> chunks n xs = take n xs # chunks n (drop n xs)"
  by (simp add: chunks.simps [of n xs])

lemma concat_chunks: "0 < n \<Longrightarrow> concat (chunks n xs) = xs"
proof (induction n xs rule: chunks.induct)
  case (1 n xs)
  then show ?case
    by (cases "xs = []") (simp_all add: chunks_Cons)
qed

lemma chunks_bound: "c \<in> set (chunks n xs) \<Longrightarrow> c \<noteq> [] \<and> length c \<le> n"
proof (induction n xs rule: chunks.induct)
  case (1 n xs)
  then show ?case
    by (cases "xs = [] \<or> n = 0") (auto simp: chunks_Cons chunks.simps [of 0])
qed

subsection \<open>Fragment packets\<close>

definition frag_room :: nat where
  "frag_room = MAX_MESSAGE_SIZE - Header_size - Submessage_size - CAFragDataMessage_size"

text \<open>The header fields all fragments of a value share.\<close>

definition frag_template :: "ca_channel \<Rightarrow> ca_frag_message" where
  "frag_template c = frag_header c 0 0 0"

definition frag_msg :: "ca_frag_message \<Rightarrow> u16 \<Rightarrow> u16 \<Rightarrow> nat \<Rightarrow> ca_frag_message" where
  "frag_msg t all_seq frag_seq n =
     t\<lparr>fm_seq_no := all_seq, fm_fragment_seq_no := frag_seq, fm_fragment_size := of_nat n\<rparr>"

definition frag_packet :: "bytes \<Rightarrow> ca_frag_message \<Rightarrow> u16 \<Rightarrow> u16 \<Rightarrow> bytes \<Rightarrow> bytes" where
  "frag_packet hdr t all_seq frag_seq ck =
     hdr @ enc_subheader \<lparr>sh_id = CA_FRAG_DATA_MESSAGE, sh_flags = LittleEndian, sh_next = 0\<rparr> @
     enc_ca_frag_message (frag_msg t all_seq frag_seq (length ck)) @ ck @
     replicate (pad_len Submessage_alignment (length hdr + 20 + length ck)) 0"

fun frag_packets :: "bytes \<Rightarrow> ca_frag_message \<Rightarrow> u16 \<Rightarrow> u16 \<Rightarrow> bytes list \<Rightarrow> bytes list" where
  "frag_packets hdr t all_seq frag_seq [] = []"
| "frag_packets hdr t all_seq frag_seq (ck # cks) =
     frag_packet hdr t all_seq frag_seq ck # frag_packets hdr t all_seq (frag_seq + 1) cks"

lemma length_frag_packets [simp]: "length (frag_packets hdr t a f cks) = length cks"
  by (induction cks arbitrary: f) simp_all

lemma frag_header_msg: "frag_header c a f (of_nat n) = frag_msg (frag_template c) a f n"
  by (simp add: frag_header_def frag_template_def frag_msg_def)

lemma send_fragment_spec:
  fixes st :: ca_sender
  defines "B \<equiv> snd_buffer st"
  assumes buf: "buffer_wf st"
  shows "\<exists>buf'. length buf' = MAX_MESSAGE_SIZE \<and> take Header_size buf' = take Header_size B \<and>
    send_fragment c a f rest st =
      Some (length (take frag_room rest), st\<lparr>snd_buffer := buf', snd_sent := snd_sent st @
        [frag_packet (take Header_size B) (frag_template c) a f (take frag_room rest)]\<rparr>)"
proof -
  let ?s = "advance Header_size (ser_of B)"
  let ?sh = "\<lparr>sh_id = CA_FRAG_DATA_MESSAGE, sh_flags = LittleEndian, sh_next = 0\<rparr>"
  let ?n = "min (length rest) 65460"
  let ?ck = "take 65460 rest"
  let ?m = "frag_header c a f (of_nat ?n)"
  let ?p = "replicate (pad_len 8 (24 + 20 + ?n)) (0 :: u8)"
  have len: "length B = 65504" using buf by (simp add: buffer_wf_def B_def MAX_MESSAGE_SIZE_def)
  have wf: "ser_wf ?s" and good: "ser_good ?s" and rem: "remaining ?s = 65480"
    by (simp_all add: ser_wf_def remaining_def ser_fields len Header_size_def)
  have en: "ensure (Submessage_size + CAFragDataMessage_size) ?s = (True, ?s)"
    by (simp add: ensure_True good rem Submessage_size_def CAFragDataMessage_size_def)
  let ?s1 = "written (enc_subheader ?sh) ?s"
  have p1: "put_subheader ?sh ?s = Some ?s1"
    using subheader.put_ok [OF good] rem wf by (simp add: Submessage_size_def ser_write_wf_fits)
  have w1: "ser_wf ?s1" "remaining ?s1 = 65476"
    using written_wf [OF wf] rem by simp_all
  have fs: "unat (of_nat (min (length rest) (65476 - CAFragDataMessage_size)) :: u16) = ?n"
    "(of_nat (min (length rest) (65476 - CAFragDataMessage_size)) :: u16) = of_nat ?n"
    by (simp_all add: CAFragDataMessage_size_def)
  let ?s2 = "written (enc_ca_frag_message ?m) ?s1"
  have p2: "put_ca_frag_message ?m ?s1 = Some ?s2"
    using ca_frag.put_ok [of ?s1 ?m] good w1
    by (simp add: CAFragDataMessage_size_def ser_write_wf_fits ser_fields)
  have w2: "ser_wf ?s2" "remaining ?s2 = 65460"
    using written_wf [OF w1(1), of "enc_ca_frag_message ?m"] w1 by simp_all
  let ?s3 = "written ?ck ?s2"
  have lc: "length ?ck = ?n" by (simp add: min.commute)
  have un: "unat (of_nat ?n :: u16) = ?n"
    by (rule unat_word_of_nat_small) simp
  have tk: "take ?n rest = ?ck"
    by (simp add: min_def)
  have p3: "ser_write ?ck ?s2 = Some ?s3"
    using w2 lc by (intro ser_write_wf_fits) simp_all
  have w3: "ser_wf ?s3" "remaining ?s3 = 65460 - ?n"
    using written_wf [OF w2(1), of ?ck] w2 lc by simp_all
  have pos3: "ser_pos ?s3 = 24 + 20 + ?n"
    using lc by (simp add: ser_fields Header_size_def)
  have pb: "24 + 20 + ?n + pad_len 8 (24 + 20 + ?n) \<le> 65504"
    by (rule pad_len_bound) simp_all
  let ?s4 = "written ?p ?s3"
  have le3: "ser_pos ?s3 \<le> length (ser_mem ?s3)"
    using w3(1) unfolding ser_wf_def by linarith
  have "pad_align Submessage_alignment 0 ?s3 = ser_write ?p ?s3"
    unfolding Submessage_alignment_def pad_align_write [OF zero_less_numeral le3] pos3 ..
  then have p4: "pad_align Submessage_alignment 0 ?s3 = Some ?s4"
    using w3 pb by (simp add: ser_write_wf_fits)
  let ?F = "enc_subheader ?sh @ enc_ca_frag_message ?m @ ?ck @ ?p"
  have lF: "24 + length ?F \<le> 65504"
    using pb lc by simp
  have s4: "?s4 = written ?F ?s"
  proof -
    have "ser_pos ?s + length (enc_subheader ?sh) + length (enc_ca_frag_message ?m @ ?ck @ ?p) \<le> length (ser_mem ?s)"
      using lF len by (simp add: ser_fields Header_size_def)
    then have "?s4 = written ?p (written ?ck (written (enc_subheader ?sh @ enc_ca_frag_message ?m) ?s))"
      by (simp add: written_append)
    also have "\<dots> = written ?p (written (enc_subheader ?sh @ enc_ca_frag_message ?m @ ?ck) ?s)"
      using lF len by (subst written_append) (simp_all add: ser_fields Header_size_def)
    also have "\<dots> = written ?F ?s"
      using lF len by (subst written_append) (simp_all add: ser_fields Header_size_def)
    finally show ?thesis .
  qed
  have mem4: "ser_mem ?s4 = patch 24 ?F B"
    unfolding s4 by (simp add: written_def ser_fields Header_size_def)
  have pos4: "ser_pos ?s4 = 24 + length ?F"
    unfolding s4 by (simp add: ser_fields Header_size_def)
  have "take (24 + length ?F) (patch 24 ?F B) = take 24 B @ ?F"
    using lF len by (intro take_patch) simp
  moreover have "frag_packet (take 24 B) (frag_template c) a f ?ck = take 24 B @ ?F"
    using len lc by (simp add: frag_packet_def frag_header_msg Submessage_alignment_def)
  ultimately have pkt: "take (distance ?s4) (ser_mem ?s4) = frag_packet (take 24 B) (frag_template c) a f ?ck"
    by (simp only: distance_def pos4 mem4)
  have rm: "frag_room = 65460"
    by (simp add: frag_room_def size_defs)
  have "send_fragment c a f rest st = Some (?n, udp_send (take (distance ?s4) (ser_mem ?s4))
      (st\<lparr>snd_buffer := ser_mem ?s4\<rparr>))"
    unfolding send_fragment_def B_def [symmetric]
    by (simp only: en Let_def prod.case make_subheader_0 Option.bind.bind_lunit p1 w1 fs un p2 tk p3 p4)
  then have "send_fragment c a f rest st = Some (length (take frag_room rest),
      st\<lparr>snd_buffer := patch 24 ?F B, snd_sent := snd_sent st @
        [frag_packet (take Header_size B) (frag_template c) a f (take frag_room rest)]\<rparr>)"
    unfolding pkt unfolding mem4 rm by (simp add: udp_send_def Header_size_def min.commute)
  moreover have "length (patch 24 ?F B) = MAX_MESSAGE_SIZE" "take Header_size (patch 24 ?F B) = take Header_size B"
    using lF len by (simp_all add: length_patch take_patch_before MAX_MESSAGE_SIZE_def Header_size_def)
  ultimately show ?thesis by blast
qed

subsection \<open>The fragment loop\<close>

text \<open>\<open>emits st pkts st'\<close>: the sender has handed out \<open>pkts\<close> and changed nothing else but its buffer.\<close>

definition emits :: "ca_sender \<Rightarrow> bytes list \<Rightarrow> ca_sender \<Rightarrow> bool" where
  "emits st pkts st' \<longleftrightarrow>
     buffer_wf st' \<and> take Header_size (snd_buffer st') = take Header_size (snd_buffer st) \<and>
     st' = st\<lparr>snd_buffer := snd_buffer st', snd_sent := snd_sent st @ pkts\<rparr>"

lemma emits_refl: "buffer_wf st \<Longrightarrow> emits st [] st"
  by (simp add: emits_def)

lemma emits_trans:
  assumes "emits st p st1" and "emits st1 q st2"
  shows "emits st (p @ q) st2"
proof -
  have e: "st1 = st\<lparr>snd_buffer := snd_buffer st1, snd_sent := snd_sent st @ p\<rparr>"
    "st2 = st1\<lparr>snd_buffer := snd_buffer st2, snd_sent := snd_sent st1 @ q\<rparr>"
    using assms by (simp_all add: emits_def)
  have "snd_sent st1 = snd_sent st @ p"
    by (subst e(1)) simp
  then have "st2 = st\<lparr>snd_buffer := snd_buffer st2, snd_sent := snd_sent st @ p @ q\<rparr>"
    by (subst e(2), subst e(1)) simp
  then show ?thesis using assms unfolding emits_def by simp
qed

lemma send_fragment_emits:
  assumes "buffer_wf st"
  shows "\<exists>st'. send_fragment c a f rest st = Some (length (take frag_room rest), st') \<and>
    emits st [frag_packet (take Header_size (snd_buffer st)) (frag_template c) a f (take frag_room rest)] st'"
  using send_fragment_spec [OF assms, of c a f rest]
  by (fastforce simp: emits_def buffer_wf_def)

lemma frag_room_pos: "0 < frag_room"
  by (simp add: frag_room_def size_defs)

lemma fragment_loop_spec:
  assumes "buffer_wf st"
  shows "\<exists>st'. fragment_loop c a f rest st = Some st' \<and>
    emits st (frag_packets (take Header_size (snd_buffer st)) (frag_template c) a f (chunks frag_room rest)) st'"
  using assms
proof (induction "length rest" arbitrary: f rest st rule: less_induct)
  case less
  show ?case
  proof (cases "rest = []")
    case True
    with less.prems show ?thesis
      by (subst fragment_loop.simps) (simp add: emits_refl)
  next
    case False
    let ?hdr = "take Header_size (snd_buffer st)"
    obtain st1 where s1: "send_fragment c a f rest st = Some (length (take frag_room rest), st1)"
      and e1: "emits st [frag_packet ?hdr (frag_template c) a f (take frag_room rest)] st1"
      using send_fragment_emits [OF less.prems] by blast
    then have h: "take Header_size (snd_buffer st1) = ?hdr" "buffer_wf st1"
      by (simp_all add: emits_def)
    have d: "drop (min (length rest) frag_room) rest = drop frag_room rest"
      by (cases "length rest \<le> frag_room") simp_all
    have "length (drop frag_room rest) < length rest"
      using False frag_room_pos by simp
    from less.hyps [OF this h(2)] obtain st2 where
      s2: "fragment_loop c a (f + 1) (drop frag_room rest) st1 = Some st2"
      and e2: "emits st1 (frag_packets ?hdr (frag_template c) a (f + 1) (chunks frag_room (drop frag_room rest))) st2"
      by (auto simp: h)
    have "fragment_loop c a f rest st = Some st2"
      using False s1 s2 by (subst fragment_loop.simps) (simp add: d)
    with emits_trans [OF e1 e2] show ?thesis
      using False frag_room_pos by (simp add: chunks_Cons)
  qed
qed

subsection \<open>What is on the wire\<close>

text \<open>One item per sequence number: a data packet, or all the fragments of one value.\<close>

datatype wire_item =
    DataItem (item_seq: u16) "payload list list"
  | FragItem (item_seq: u16) ca_frag_message bytes

datatype content = GroupUpdate "payload list" | BigUpdate ca_frag_message bytes

fun item_packets :: "bytes \<Rightarrow> wire_item \<Rightarrow> bytes list" where
  "item_packets hdr (DataItem s gs) = [data_packet hdr s gs]"
| "item_packets hdr (FragItem s t v) = frag_packets hdr t s 0 (chunks frag_room v)"

fun item_contents :: "wire_item \<Rightarrow> content list" where
  "item_contents (DataItem s gs) = map GroupUpdate gs"
| "item_contents (FragItem s t v) = [BigUpdate t v]"

fun item_fits :: "wire_item \<Rightarrow> bool" where
  "item_fits (DataItem s gs) \<longleftrightarrow> sum_list (map group_len gs) \<le> data_room"
| "item_fits (FragItem s t v) \<longleftrightarrow> True"

fun seqs_from :: "u16 \<Rightarrow> wire_item list \<Rightarrow> bool" where
  "seqs_from s [] \<longleftrightarrow> True"
| "seqs_from s (i # is) \<longleftrightarrow> item_seq i = s \<and> seqs_from (s + 1) is"

lemma seqs_from_append:
  "seqs_from s (is @ js) \<longleftrightarrow> seqs_from s is \<and> seqs_from (s + of_nat (length is)) js"
  by (induction "is" arbitrary: s) (simp_all add: add.assoc)

definition needs_fragments :: "ca_channel \<Rightarrow> bool" where
  "needs_fragments c \<longleftrightarrow> length (ch_value c) > CAChannelData_max_data_size"

definition queued_content :: "ca_channel list \<Rightarrow> nat \<Rightarrow> content" where
  "queued_content chs q =
     (if needs_fragments (chs ! q) then BigUpdate (frag_template (chs ! q)) (ch_value (chs ! q))
      else GroupUpdate (group_payload chs q))"

text \<open>
  \<open>sent_items st is st'\<close>: from \<open>st\<close> the sender has taken a prefix of the queue, sent its content as
  the items \<open>is\<close> under consecutive sequence numbers, and is well-formed in \<open>st'\<close>.
\<close>

definition sent_items :: "ca_sender \<Rightarrow> wire_item list \<Rightarrow> ca_sender \<Rightarrow> bool" where
  "sent_items st is st' \<longleftrightarrow>
     buffer_wf st' \<and> queue_inv st' \<and> take Header_size (snd_buffer st') = take Header_size (snd_buffer st) \<and>
     snd_sent st' = snd_sent st @ concat (map (item_packets (take Header_size (snd_buffer st))) is) \<and>
     (\<forall>i \<in> set is. item_fits i) \<and>
     seqs_from (snd_seq_no st) is \<and> snd_seq_no st' = snd_seq_no st + of_nat (length is) \<and>
     (\<forall>q. queued_content (snd_channels st') q = queued_content (snd_channels st) q \<and>
          group_payload (snd_channels st') q = group_payload (snd_channels st) q) \<and>
     (\<exists>k. snd_deque st' = drop k (snd_deque st) \<and>
       concat (map item_contents is) = map (queued_content (snd_channels st)) (take k (snd_deque st)))"

lemma sent_items_refl: "buffer_wf st \<Longrightarrow> queue_inv st \<Longrightarrow> sent_items st [] st"
  by (auto simp: sent_items_def intro: exI [of _ 0])

lemma sent_items_trans:
  assumes "sent_items st is st1" and "sent_items st1 js st2"
  shows "sent_items st (is @ js) st2"
proof -
  obtain k where k: "snd_deque st1 = drop k (snd_deque st)"
    "concat (map item_contents is) = map (queued_content (snd_channels st)) (take k (snd_deque st))"
    using assms(1) by (auto simp: sent_items_def)
  obtain j where j: "snd_deque st2 = drop j (snd_deque st1)"
    "concat (map item_contents js) = map (queued_content (snd_channels st1)) (take j (snd_deque st1))"
    using assms(2) by (auto simp: sent_items_def)
  have qc: "queued_content (snd_channels st1) = queued_content (snd_channels st)"
    using assms(1) by (auto simp: sent_items_def)
  have "snd_deque st2 = drop (k + j) (snd_deque st)"
    using j(1) k(1) by (simp add: add.commute)
  moreover have "concat (map item_contents (is @ js)) =
      map (queued_content (snd_channels st)) (take (k + j) (snd_deque st))"
    using j(2) k by (simp add: qc take_add)
  moreover have "snd_seq_no st2 = snd_seq_no st + of_nat (length (is @ js))"
    using assms by (simp add: sent_items_def add.assoc)
  moreover have "seqs_from (snd_seq_no st) (is @ js)"
    using assms by (simp add: sent_items_def seqs_from_append)
  ultimately show ?thesis
    using assms unfolding sent_items_def by auto
qed

end
