(* ===== verification/CA_Drain.thy ===== *)
theory CA_Drain
  imports CA_Fragments
begin

text \<open>
  \<open>send_updates\<close> as a whole: when every queued group can be sent it empties the queue, and what it
  sends is the queue's content in order, under consecutive sequence numbers; a group that can never
  be sent makes it repeat the same turn forever.
\<close>

subsection \<open>Fragmented updates\<close>

lemma clear_root_content [simp]:
  "queued_content (snd_channels (clear_root r st)) q = queued_content (snd_channels st) q"
proof -
  have "ch_value (snd_channels (clear_root r st) ! q) = ch_value (snd_channels st ! q)"
    "ch_index (snd_channels (clear_root r st) ! q) = ch_index (snd_channels st ! q)"
    "ch_count (snd_channels (clear_root r st) ! q) = ch_count (snd_channels st ! q)"
    "ch_type (snd_channels (clear_root r st) ! q) = ch_type (snd_channels st ! q)"
    by (simp_all add: clear_root_def list_update_field)
  then show ?thesis
    by (simp add: queued_content_def needs_fragments_def frag_template_def frag_header_def)
qed

lemma clear_front_content [simp]:
  "queued_content (snd_channels (clear_front k st)) q = queued_content (snd_channels st) q"
proof -
  have "queued_content (snd_channels (fold clear_root qs st)) q = queued_content (snd_channels st) q" for qs
    by (induction qs arbitrary: st) simp_all
  then show ?thesis by (simp add: clear_front_def)
qed

lemma send_fragmented_update_spec:
  assumes "buffer_wf st"
  shows "\<exists>st'. send_fragmented_update c st = Some st' \<and>
    emits (st\<lparr>snd_seq_no := snd_seq_no st + 1\<rparr>)
      (item_packets (take Header_size (snd_buffer st)) (FragItem (snd_seq_no st) (frag_template c) (ch_value c))) st'"
  using fragment_loop_spec [of "st\<lparr>snd_seq_no := snd_seq_no st + 1\<rparr>" c "snd_seq_no st" 0 "ch_value c"] assms
  by (simp add: send_fragmented_update_def buffer_wf_def)

lemma emits_fields:
  assumes "emits st pkts st'"
  shows "snd_channels st' = snd_channels st" "snd_deque st' = snd_deque st" "snd_seq_no st' = snd_seq_no st"
    "snd_sent st' = snd_sent st @ pkts" "buffer_wf st'"
    "take Header_size (snd_buffer st') = take Header_size (snd_buffer st)"
proof -
  have e: "st' = st\<lparr>snd_buffer := snd_buffer st', snd_sent := snd_sent st @ pkts\<rparr>"
    using assms by (simp add: emits_def)
  show "snd_channels st' = snd_channels st" "snd_deque st' = snd_deque st" "snd_seq_no st' = snd_seq_no st"
    "snd_sent st' = snd_sent st @ pkts"
    by (subst e, simp)+
  show "buffer_wf st'" "take Header_size (snd_buffer st') = take Header_size (snd_buffer st)"
    using assms by (simp_all add: emits_def)
qed

text \<open>One fragmented update and the removal of its channel from the queue.\<close>

lemma fragmented_step:
  assumes inv: "queue_inv st" and buf: "buffer_wf st" and dq: "snd_deque st = q # qs"
    and nf: "needs_fragments (snd_channels st ! q)"
  shows "\<exists>i st1 st2. send_fragmented_update (snd_channels st ! q) st = Some st1 \<and>
    clear_update q st1 = Some st2 \<and> sent_items st [i] st2 \<and> snd_deque st2 = qs \<and> item_contents i \<noteq> []"
proof -
  let ?c = "snd_channels st ! q"
  let ?i = "FragItem (snd_seq_no st) (frag_template ?c) (ch_value ?c)"
  obtain st1 where s1: "send_fragmented_update ?c st = Some st1"
    and e: "emits (st\<lparr>snd_seq_no := snd_seq_no st + 1\<rparr>) (item_packets (take Header_size (snd_buffer st)) ?i) st1"
    using send_fragmented_update_spec [OF buf] by blast
  note f = emits_fields [OF e]
  have inv1: "queue_inv st1" and dq1: "snd_deque st1 = q # qs"
    using inv dq f by (simp_all add: queue_inv_def)
  note cl = queue_inv_clear [OF inv1 dq1]
  have gp: "group_payload (snd_channels (clear_root q st1)) = group_payload (snd_channels st)"
    and qc: "queued_content (snd_channels (clear_root q st1)) = queued_content (snd_channels st)"
    by (simp_all add: fun_eq_iff f)
  have "sent_items st [?i] (clear_root q st1)"
    unfolding sent_items_def gp qc
    using cl f buf dq nf
    by (auto simp: buffer_wf_def queued_content_def intro: exI [of _ 1])
  moreover have "item_contents ?i \<noteq> []" by simp
  ultimately show ?thesis using s1 cl by blast
qed

text \<open>Every fragmented update takes a channel off the queue, and so does every turn: few packets are empty.\<close>

definition few_items :: "nat \<Rightarrow> wire_item list \<Rightarrow> bool" where
  "few_items k is \<longleftrightarrow> length is \<le> k * length (concat (map item_contents is))"

lemma few_items_Nil [simp]: "few_items k []"
  by (simp add: few_items_def)

lemma few_items_append: "few_items k is \<Longrightarrow> few_items k js \<Longrightarrow> few_items k (is @ js)"
  by (simp add: few_items_def add_mult_distrib2)

lemma few_items_Cons: "item_contents i \<noteq> [] \<Longrightarrow> few_items 1 is \<Longrightarrow> few_items 1 (i # is)"
  by (cases "item_contents i") (simp_all add: few_items_def)

lemma send_fragmented_updates_spec:
  assumes "queue_inv st" and "buffer_wf st"
  shows "\<exists>is st'. send_fragmented_updates st = Some st' \<and> sent_items st is st' \<and> few_items 1 is \<and>
    (\<forall>q qs. snd_deque st = q # qs \<longrightarrow> needs_fragments (snd_channels st ! q) \<longrightarrow>
       length (snd_deque st') < length (snd_deque st))"
  using assms
proof (induction "snd_deque st" arbitrary: st)
  case Nil
  then show ?case
    by (subst send_fragmented_updates.simps) (auto intro: exI [of _ "[]"] sent_items_refl)
next
  case (Cons q qs)
  note dq = Cons.hyps(2) [symmetric]
  have ql: "q < length (snd_channels st)"
    using Cons.prems(1) dq by (auto simp: queue_inv_def pending_root_def)
  show ?case
  proof (cases "needs_fragments (snd_channels st ! q)")
    case False
    with Cons.prems dq ql show ?thesis
      by (subst send_fragmented_updates.simps)
        (auto simp: needs_fragments_def intro: exI [of _ "[]"] sent_items_refl)
  next
    case True
    obtain i st1 st2 where s: "send_fragmented_update (snd_channels st ! q) st = Some st1"
      "clear_update q st1 = Some st2" "sent_items st [i] st2" "snd_deque st2 = qs" "item_contents i \<noteq> []"
      using fragmented_step [OF Cons.prems dq True] by blast
    then have "queue_inv st2" "buffer_wf st2"
      by (simp_all add: sent_items_def)
    with Cons.hyps(1) [of st2] s(4) obtain "is" st' where
      r: "send_fragmented_updates st2 = Some st'" "sent_items st2 is st'" "few_items 1 is"
      by blast
    have "send_fragmented_updates st = Some st'"
      using True dq ql s r
      by (subst send_fragmented_updates.simps) (simp add: needs_fragments_def not_le)
    moreover note sent_items_trans [OF s(3) r(2)] few_items_Cons [OF s(5) r(3)]
    moreover have "length (snd_deque st') < length (snd_deque st)"
    proof -
      obtain k where "snd_deque st' = drop k (snd_deque st2)"
        using r(2) by (auto simp: sent_items_def)
      then show ?thesis using s(4) dq by simp
    qed
    ultimately show ?thesis by auto
  qed
qed

subsection \<open>One turn of the outer loop\<close>

text \<open>A queued group can be sent when its root value is fragmented or the whole group fits a packet.\<close>

definition sendable :: "ca_channel list \<Rightarrow> nat \<Rightarrow> bool" where
  "sendable chs q \<longleftrightarrow>
     group_len (group_payload chs q) < 2 ^ 32 \<and>
     (needs_fragments (chs ! q) \<or> group_len (group_payload chs q) \<le> data_room)"

lemma end_group_loop_bounds:
  "i < length chs \<Longrightarrow> i \<le> end_group_loop chs i \<and> end_group_loop chs i < length chs"
proof (induction chs i rule: end_group_loop.induct)
  case (1 chs i)
  then show ?case
    by (subst (1 2) end_group_loop.simps) (auto; fastforce)
qed

lemma group_payload_root:
  assumes "chans_wf chs" and "q < length chs" and "is_channel (chs ! q)"
  shows "\<exists>g. group_payload chs q = payload (chs ! q) # g"
proof -
  have "start_group_id (chs ! q) = q" "ch_index (chs ! q) = q"
    using assms chans_wfD [OF assms(1,2)] by (simp_all add: start_group_id_def)
  moreover have "q < end_group_loop chs q + 1"
    using end_group_loop_bounds [OF assms(2)] by simp
  ultimately show ?thesis
    by (simp add: group_payload_def group_members_def end_group_id_def upt_conv_Cons del: upt_Suc)
qed

lemma take_fit_contents:
  assumes "take_fit room gs = (k, f)"
  shows "\<forall>g \<in> set (take k gs). group_values g \<le> CAChannelData_max_data_size"
  using assms
  by (induction room gs arbitrary: k rule: take_fit.induct) (auto split: if_splits prod.splits)

lemma take_fit_stop:
  "take_fit room (g # gs) = (0, f) \<Longrightarrow>
   (f \<and> group_values g > CAChannelData_max_data_size) \<or>
   (\<not> f \<and> room < group_len g \<and> group_values g \<le> CAChannelData_max_data_size)"
  by (auto split: if_splits prod.splits)

lemma queued_root:
  assumes "queue_inv st" and "q \<in> set (snd_deque st)"
  shows "q < length (snd_channels st)" and "\<exists>g. group_payload (snd_channels st) q = payload (snd_channels st ! q) # g"
proof -
  have p: "pending_root (snd_channels st) q" and wf: "chans_wf (snd_channels st)"
    using assms by (auto simp: queue_inv_def)
  then show ql: "q < length (snd_channels st)"
    by (simp add: pending_root_def)
  show "\<exists>g. group_payload (snd_channels st) q = payload (snd_channels st ! q) # g"
    using p by (intro group_payload_root [OF wf ql]) (simp add: pending_root_def)
qed

lemma send_packet_items:
  assumes inv: "queue_inv st" and buf: "buffer_wf st"
    and ok: "\<forall>q \<in> set (snd_deque st). sendable (snd_channels st) q"
  shows "\<exists>f k i st'. send_packet st = Some (f, st') \<and> sent_items st [i] st' \<and>
    snd_deque st' = drop k (snd_deque st) \<and> take_fit data_room (queued_groups st) = (k, f)"
proof -
  obtain k f where tf: "take_fit data_room (queued_groups st) = (k, f)"
    by fastforce
  have small: "\<forall>g \<in> set (queued_groups st). group_len g < 2 ^ 32"
    using ok by (auto simp: queued_groups_def sendable_def)
  let ?gs = "take k (queued_groups st)"
  let ?hdr = "take Header_size (snd_buffer st)"
  let ?st1 = "st\<lparr>snd_seq_no := snd_seq_no st + 1\<rparr>"
  obtain buf' where b: "length buf' = MAX_MESSAGE_SIZE" "take Header_size buf' = ?hdr"
    and s: "send_packet st = Some (f, (clear_front k ?st1)
      \<lparr>snd_buffer := buf', snd_sent := snd_sent st @ [data_packet ?hdr (snd_seq_no st) ?gs]\<rparr>)"
    using send_packet_spec [OF inv buf small tf] by blast
  let ?st' = "(clear_front k ?st1)
      \<lparr>snd_buffer := buf', snd_sent := snd_sent st @ [data_packet ?hdr (snd_seq_no st) ?gs]\<rparr>"
  have cont: "map GroupUpdate ?gs = map (queued_content (snd_channels st)) (take k (snd_deque st))"
  proof -
    have "GroupUpdate (group_payload (snd_channels st) q) = queued_content (snd_channels st) q"
      if "q \<in> set (take k (snd_deque st))" for q
    proof -
      from that have qd: "q \<in> set (snd_deque st)" by (rule in_set_takeD)
      from that have "group_values (group_payload (snd_channels st) q) \<le> CAChannelData_max_data_size"
        using take_fit_contents [OF tf] by (auto simp: queued_groups_def take_map)
      moreover obtain g where "group_payload (snd_channels st) q = payload (snd_channels st ! q) # g"
        using queued_root(2) [OF inv qd] by blast
      ultimately show ?thesis
        by (simp add: queued_content_def needs_fragments_def)
    qed
    then show ?thesis
      by (simp add: queued_groups_def take_map)
  qed
  have "queue_inv ?st1"
    using inv by (simp add: queue_inv_def)
  from clear_front_inv [OF this] have "queue_inv ?st'"
    by (simp add: queue_inv_def)
  then have "sent_items st [DataItem (snd_seq_no st) ?gs] ?st'"
    using b cont take_fit_room [of data_room "queued_groups st"] tf
    by (auto simp: sent_items_def buffer_wf_def)
  moreover have "snd_deque ?st' = drop k (snd_deque st)" by simp
  ultimately show ?thesis using s tf by blast
qed

lemma send_step_spec:
  assumes inv: "queue_inv st" and buf: "buffer_wf st" and ne: "snd_deque st \<noteq> []"
    and ok: "\<forall>q \<in> set (snd_deque st). sendable (snd_channels st) q"
  shows "\<exists>is st'. send_step st = Some st' \<and> sent_items st is st' \<and> few_items 2 is \<and>
    length (snd_deque st') < length (snd_deque st)"
proof -
  obtain f k i st1 where s1: "send_packet st = Some (f, st1)" "sent_items st [i] st1"
    and d1: "snd_deque st1 = drop k (snd_deque st)" and tf: "take_fit data_room (queued_groups st) = (k, f)"
    using send_packet_items [OF inv buf ok] by blast
  have wf1: "queue_inv st1" "buffer_wf st1"
    using s1(2) by (simp_all add: sent_items_def)
  obtain q qs where dq: "snd_deque st = q # qs"
    using ne by (cases "snd_deque st") auto
  have zero: "f \<and> needs_fragments (snd_channels st ! q)" if "k = 0"
  proof -
    have gs: "queued_groups st = group_payload (snd_channels st) q # map (group_payload (snd_channels st)) qs"
      by (simp add: queued_groups_def dq)
    have sq: "sendable (snd_channels st) q"
      using ok dq by simp
    have "group_values (group_payload (snd_channels st) q) + 8 \<le> group_len (group_payload (snd_channels st) q)"
      "length (ch_value (snd_channels st ! q)) \<le> group_values (group_payload (snd_channels st) q)"
      using group_len_lower [of "group_payload (snd_channels st) q"] queued_root(2) [OF inv, of q] dq by auto
    then show ?thesis
      using take_fit_stop [OF tf [unfolded that gs]] sq
      by (auto simp: sendable_def data_room_def size_defs needs_fragments_def)
  qed
  have consumed: "length (concat (map item_contents is)) = length (snd_deque s) - length (snd_deque s')"
    if "sent_items s is s'" for s s' "is"
    using that by (auto simp: sent_items_def)
  show ?thesis
  proof (cases f)
    case False
    with zero have "k \<noteq> 0" by blast
    then have "few_items 2 [i]" using consumed [OF s1(2)] d1 by (simp add: few_items_def dq)
    with False s1 d1 ne \<open>k \<noteq> 0\<close> show ?thesis
      by (intro exI [of _ "[i]"] exI [of _ st1]) (simp add: send_step_def)
  next
    case True
    obtain "is" st2 where s2: "send_fragmented_updates st1 = Some st2" "sent_items st1 is st2" "few_items 1 is"
      and less: "\<And>q qs. snd_deque st1 = q # qs \<Longrightarrow> needs_fragments (snd_channels st1 ! q) \<Longrightarrow>
        length (snd_deque st2) < length (snd_deque st1)"
      using send_fragmented_updates_spec [OF wf1] by metis
    have le: "length (snd_deque st2) \<le> length (snd_deque st1)"
      using s2(2) by (auto simp: sent_items_def)
    have "length (snd_deque st2) < length (snd_deque st)"
    proof (cases "k = 0")
      case False
      then have "length (snd_deque st1) < length (snd_deque st)"
        using d1 ne by simp
      with le show ?thesis by simp
    next
      case True
      have "queued_content (snd_channels st1) q = queued_content (snd_channels st) q"
        using s1(2) by (simp add: sent_items_def)
      then have "needs_fragments (snd_channels st1 ! q)"
        using zero [OF True] by (auto simp: queued_content_def split: if_splits)
      with less [of q qs] d1 True dq show ?thesis by simp
    qed
    moreover from this have "few_items 2 (i # is)"
      using s2(3) consumed [OF sent_items_trans [OF s1(2) s2(2)]] le d1 by (simp add: few_items_def)
    ultimately show ?thesis
      using True s1 s2(1) sent_items_trans [OF s1(2) s2(2)] by (auto simp: send_step_def)
  qed
qed

subsection \<open>Draining the queue\<close>

lemma sendable_preserved:
  assumes "sent_items st is st'" and "\<forall>q \<in> set (snd_deque st). sendable (snd_channels st) q"
  shows "\<forall>q \<in> set (snd_deque st'). sendable (snd_channels st') q"
proof
  fix q assume q: "q \<in> set (snd_deque st')"
  obtain k where "snd_deque st' = drop k (snd_deque st)"
    using assms(1) by (auto simp: sent_items_def)
  with q have "sendable (snd_channels st) q"
    using assms(2) by (auto dest: in_set_dropD)
  moreover have "queued_content (snd_channels st') q = queued_content (snd_channels st) q"
    "group_payload (snd_channels st') q = group_payload (snd_channels st) q"
    using assms(1) by (simp_all add: sent_items_def)
  moreover from this(1) have "needs_fragments (snd_channels st' ! q) = needs_fragments (snd_channels st ! q)"
    by (auto simp: queued_content_def split: if_splits)
  ultimately show "sendable (snd_channels st') q"
    by (simp add: sendable_def)
qed

lemma send_updates_drains:
  assumes "queue_inv st" and "buffer_wf st" and "\<forall>q \<in> set (snd_deque st). sendable (snd_channels st) q"
  shows "\<exists>is st'. send_updates st = Some st' \<and> sent_items st is st' \<and> snd_deque st' = [] \<and> few_items 2 is"
  using assms
proof (induction "length (snd_deque st)" arbitrary: st rule: less_induct)
  case less
  show ?case
  proof (cases "snd_deque st = []")
    case True
    with less.prems show ?thesis
      by (subst send_updates.simps) (auto simp: has_updates_def intro: exI [of _ "[]"] sent_items_refl)
  next
    case False
    obtain "is" st1 where s1: "send_step st = Some st1" "sent_items st is st1" "few_items 2 is"
      and lt: "length (snd_deque st1) < length (snd_deque st)"
      using send_step_spec [OF less.prems(1,2) False less.prems(3)] by blast
    have "queue_inv st1" "buffer_wf st1"
      using s1(2) by (simp_all add: sent_items_def)
    from less.hyps [OF lt this sendable_preserved [OF s1(2) less.prems(3)]]
    obtain js st2 where s2: "send_updates st1 = Some st2" "sent_items st1 js st2" "snd_deque st2 = []" "few_items 2 js"
      by blast
    have "send_updates st = Some st2"
      using False s1 s2 by (subst send_updates.simps) (simp add: has_updates_def)
    with sent_items_trans [OF s1(2) s2(2)] s2(3) few_items_append [OF s1(3) s2(4)] show ?thesis by blast
  qed
qed

text \<open>Read off: the whole queue, in its order.\<close>

lemma sent_items_all:
  assumes "sent_items st is st'" and "snd_deque st' = []"
  shows "concat (map item_contents is) = map (queued_content (snd_channels st)) (snd_deque st)"
  using assms by (auto simp: sent_items_def)

subsection \<open>Groups that can never be sent\<close>

text \<open>
  The group at the front has either a total value size in range whose padded size exceeds a packet,
  or a total value size out of range although its root value alone is in range. Then a turn sends an
  empty data packet and leaves queue and channels as they are.
\<close>

definition stuck :: "ca_sender \<Rightarrow> bool" where
  "stuck st \<longleftrightarrow>
     queue_inv st \<and> buffer_wf st \<and> (\<forall>g \<in> set (queued_groups st). group_len g < 2 ^ 32) \<and>
     (\<exists>q qs. snd_deque st = q # qs \<and> \<not> needs_fragments (snd_channels st ! q) \<and>
       group_len (group_payload (snd_channels st) q) > data_room)"

lemma stuck_step:
  assumes "stuck st"
  shows "\<exists>st'. send_step st = Some st' \<and> stuck st' \<and> snd_deque st' = snd_deque st \<and>
    snd_channels st' = snd_channels st \<and>
    snd_sent st' = snd_sent st @ [data_packet (take Header_size (snd_buffer st)) (snd_seq_no st) []]"
proof -
  obtain q qs where dq: "snd_deque st = q # qs" and nf: "\<not> needs_fragments (snd_channels st ! q)"
    and big: "group_len (group_payload (snd_channels st) q) > data_room"
    and wf: "queue_inv st" "buffer_wf st" "\<forall>g \<in> set (queued_groups st). group_len g < 2 ^ 32"
    using assms unfolding stuck_def by blast
  have ql: "q < length (snd_channels st)"
    using queued_root(1) [OF wf(1)] dq by simp
  obtain f where tf: "take_fit data_room (queued_groups st) = (0, f)"
    using big by (cases "CAChannelData_max_data_size < group_values (group_payload (snd_channels st) q)")
      (simp_all add: queued_groups_def dq)
  let ?st1 = "st\<lparr>snd_seq_no := snd_seq_no st + 1\<rparr>"
  obtain buf' where b: "length buf' = MAX_MESSAGE_SIZE" "take Header_size buf' = take Header_size (snd_buffer st)"
    and s: "send_packet st = Some (f, ?st1\<lparr>snd_buffer := buf', snd_sent := snd_sent st @
      [data_packet (take Header_size (snd_buffer st)) (snd_seq_no st) []]\<rparr>)"
    using send_packet_spec [OF wf tf] by auto
  let ?st2 = "?st1\<lparr>snd_buffer := buf', snd_sent := snd_sent st @
      [data_packet (take Header_size (snd_buffer st)) (snd_seq_no st) []]\<rparr>"
  have "send_fragmented_updates ?st2 = Some ?st2"
    using ql nf by (subst send_fragmented_updates.simps) (simp add: dq needs_fragments_def)
  then have "send_step st = Some ?st2"
    using s by (simp add: send_step_def)
  moreover have "stuck ?st2"
    using wf b dq nf big by (auto simp: stuck_def queue_inv_def buffer_wf_def queued_groups_def)
  ultimately show ?thesis by auto
qed

lemma stuck_send_updates:
  assumes "stuck st"
  shows "\<exists>st'. send_updates st = send_updates st' \<and> stuck st' \<and> snd_sent st' \<noteq> snd_sent st \<and> 
    snd_deque st' = snd_deque st"
proof -
  obtain st' where s: "send_step st = Some st'" "stuck st'" "snd_deque st' = snd_deque st"
    "snd_sent st' = snd_sent st @ [data_packet (take Header_size (snd_buffer st)) (snd_seq_no st) []]"
    using stuck_step [OF assms] by blast
  moreover have "snd_deque st \<noteq> []"
    using assms by (auto simp: stuck_def)
  ultimately have "send_updates st = send_updates st'"
    by (subst send_updates.simps) (simp add: has_updates_def)
  with s show ?thesis by auto
qed

end
