(* ===== verification/CA_Receiver.thy ===== *)
theory CA_Receiver
  imports Protocol Support Config_Model
begin

text \<open>
  The Channel Access receiver (\<open>Receiver::Impl\<close> of \<open>src/receiver.cpp\<close>): acceptance of packets by
  configuration, sender and order, dispatch of the submessages, reassembly of fragments, and the
  detection of channels without updates. Times are nanoseconds of the steady clock.

  \<open>rc_calls\<close> is the trace of the invocations of the user's callback. The callback gets a pointer;
  the trace keeps the bytes from there to the end of the vector it points into. An exception of the
  callback is caught by the code and changes nothing here.
\<close>

record rx_channel =
  rx_id :: nat
  rx_name :: string
  rx_disconnected :: bool
  rx_last_update :: int

record rx_call =
  cb_id :: u32
  cb_type :: u16
  cb_count :: u32
  cb_value :: "bytes option"

record ca_receiver =
  rc_config_hash :: u64
  rc_heartbeat_period :: double
  rc_buffer :: bytes
  rc_fragment :: serializer
  rc_last_seq_no :: u16
  rc_active_fragment_seq_no :: u16
  rc_last_fragment_seq_no :: u16
  rc_last_startup_time :: u64
  rc_channels :: "rx_channel list"
  rc_now :: int
  rc_last_heartbeat :: int
  rc_calls :: "rx_call list"

subsection \<open>Construction\<close>

definition MAX_CA_DATA_SIZE :: nat where "MAX_CA_DATA_SIZE = 16 * 1024 * 1024"

definition new_rx_channel :: "nat \<Rightarrow> string \<Rightarrow> rx_channel" where
  "new_rx_channel i n = \<lparr>rx_id = i, rx_name = n, rx_disconnected = False, rx_last_update = 0\<rparr>"

definition rx_add :: "string \<Rightarrow> rx_channel list \<times> nat \<Rightarrow> rx_channel list \<times> nat" where
  "rx_add n acc = (fst acc @ [new_rx_channel (snd acc) n], snd acc + 1)"

definition rx_create_channel :: "config_channel \<Rightarrow> rx_channel list \<times> nat \<Rightarrow> rx_channel list \<times> nat" where
  "rx_create_channel cc acc =
     (let acc = rx_add (cc_name cc) acc;
          acc = fold (\<lambda>f. rx_add (field_name cc f)) (cc_extra cc) acc
      in fold (\<lambda>f. rx_add (field_name cc f)) (cc_polled cc) acc)"

definition rx_create_channels :: "config \<Rightarrow> rx_channel list option" where
  "rx_create_channels cfg =
     (if total_channel_count cfg \<le> 2 ^ 32 - 1
      then Some (fst (fold rx_create_channel (cfg_channels cfg) ([], 0))) else None)"

definition receiver_init :: "config \<Rightarrow> int \<Rightarrow> ca_receiver option" where
  "receiver_init cfg now =
     map_option (\<lambda>chs.
       \<lparr>rc_config_hash = cfg_hash cfg, rc_heartbeat_period = cfg_heartbeat_period cfg,
        rc_buffer = replicate MAX_MESSAGE_SIZE 0,
        rc_fragment = ser_make (replicate MAX_CA_DATA_SIZE 0) 0,
        rc_last_seq_no = - 1, rc_active_fragment_seq_no = - 1, rc_last_fragment_seq_no = - 1,
        rc_last_startup_time = 0, rc_channels = chs, rc_now = 0, rc_last_heartbeat = now,
        rc_calls = []\<rparr>) (rx_create_channels cfg)"

subsection \<open>Acceptance\<close>

text \<open>The state these checks read and write is three sequence numbers and the startup time.\<close>

definition validate_order :: "u16 \<Rightarrow> ca_receiver \<Rightarrow> bool \<times> ca_receiver" where
  "validate_order seq_no rc =
     (let diff = seq_no - rc_last_seq_no rc in
      (diff < of_nat (65535 div 2), rc\<lparr>rc_last_seq_no := seq_no\<rparr>))"

definition validate_fragment_order :: "u16 \<Rightarrow> u16 \<Rightarrow> ca_receiver \<Rightarrow> bool \<times> ca_receiver" where
  "validate_fragment_order seq_no fragment_seq_no rc =
     (if fragment_seq_no = 0 then
        let (ok, rc) = validate_order seq_no rc in
        if \<not> ok then (False, rc)
        else (True, rc\<lparr>rc_active_fragment_seq_no := seq_no, rc_last_fragment_seq_no := 0\<rparr>)
      else if rc_active_fragment_seq_no rc \<noteq> seq_no
      then (False, rc\<lparr>rc_active_fragment_seq_no := - 1\<rparr>)
      else
        let rc = rc\<lparr>rc_last_fragment_seq_no := rc_last_fragment_seq_no rc + 1\<rparr> in
        if rc_last_fragment_seq_no rc = fragment_seq_no then (True, rc)
        else (False, rc\<lparr>rc_active_fragment_seq_no := - 1\<rparr>))"

definition validate_sender :: "u64 \<Rightarrow> ca_receiver \<Rightarrow> bool \<times> ca_receiver" where
  "validate_sender startup_time rc =
     (if startup_time = rc_last_startup_time rc then (True, rc)
      else if startup_time > rc_last_startup_time rc
      then (True, rc\<lparr>rc_last_startup_time := startup_time, rc_last_seq_no := - 1\<rparr>)
      else (False, rc))"

subsection \<open>Data messages\<close>

definition call_back :: "u32 \<Rightarrow> u16 \<Rightarrow> u32 \<Rightarrow> bytes option \<Rightarrow> ca_receiver \<Rightarrow> ca_receiver" where
  "call_back i t n v rc = rc\<lparr>rc_calls := rc_calls rc @ [\<lparr>cb_id = i, cb_type = t, cb_count = n, cb_value = v\<rparr>]\<rparr>"

definition rx_value_size :: "ca_env \<Rightarrow> u16 \<Rightarrow> u32 \<Rightarrow> nat" where
  "rx_value_size env t n = unat (env_dbr_size_n env (ucast t) (ucast n))"

text \<open>One channel entry of a data message.\<close>

definition channel_update :: "ca_channel_data \<Rightarrow> bytes \<Rightarrow> ca_receiver \<Rightarrow> ca_receiver" where
  "channel_update cd val rc =
     (let disconnected = (cd_count cd = - 1); i = unat (cd_id cd) in
      if i < length (rc_channels rc)
      then call_back (cd_id cd) (cd_type cd) (if disconnected then - 1 else ucast (cd_count cd)) (Some val)
        (rc\<lparr>rc_channels := (rc_channels rc)[i := (rc_channels rc ! i)
             \<lparr>rx_disconnected := disconnected, rx_last_update := rc_now rc\<rparr>]\<rparr>)
      else rc)"

definition channel_entry :: "ca_env \<Rightarrow> serializer \<Rightarrow> ca_receiver \<Rightarrow> (serializer \<times> ca_receiver) option" where
  "channel_entry env s rc =
     do {
       (cd, s) \<leftarrow> get_ca_channel_data s;
       let rc = channel_update cd (drop (ser_pos s) (ser_mem s)) rc;
       let s = (if cd_count cd \<noteq> - 1
                then advance (rx_value_size env (cd_type cd) (ucast (cd_count cd))) s else s);
       Some (pos_align Submessage_alignment s, rc)
     }"

fun channel_entries :: "ca_env \<Rightarrow> nat \<Rightarrow> serializer \<Rightarrow> ca_receiver \<Rightarrow> (serializer \<times> ca_receiver) option" where
  "channel_entries env 0 s rc = Some (s, rc)"
| "channel_entries env (Suc n) s rc =
     (let (ok, s) = ensure CAChannelData_size s in
      if ok then Option.bind (channel_entry env s rc) (\<lambda>(s, rc). channel_entries env n s rc)
      else channel_entries env n s rc)"

definition data_message :: "ca_env \<Rightarrow> serializer \<Rightarrow> ca_receiver \<Rightarrow> (serializer \<times> ca_receiver) option" where
  "data_message env s rc =
     (let (ok, s) = ensure CADataMessage_size s in
      if ok then do {
        (m, s) \<leftarrow> get_ca_data_message s;
        let (valid, rc) = validate_order (dm_seq_no m) rc;
        if valid then channel_entries env (unat (dm_channel_count m)) s rc else Some (s, rc)
      } else Some (s, rc))"

subsection \<open>Fragments\<close>

text \<open>
  The debug line of the first fragment indexes the channel vector with the received number, whether
  or not the line is written.
\<close>

definition start_fragment :: "ca_env \<Rightarrow> ca_frag_message \<Rightarrow> ca_receiver \<Rightarrow> ca_receiver option" where
  "start_fragment env m rc =
     (let total = rx_value_size env (fm_type m) (fm_count m) in
      Option.bind (vec_at (rc_channels rc) (unat (fm_channel_id m)))
        (\<lambda>_. Some (rc\<lparr>rc_fragment := ser_make (resize total 0 (ser_mem (rc_fragment rc))) total\<rparr>)))"

definition copy_fragment :: "ca_frag_message \<Rightarrow> serializer \<Rightarrow> ca_receiver \<Rightarrow> ca_receiver option" where
  "copy_fragment m s rc =
     (if remaining (rc_fragment rc) \<ge> unat (fm_fragment_size m) then do {
        (bs, s') \<leftarrow> ser_read (unat (fm_fragment_size m)) s;
        frag \<leftarrow> ser_write bs (rc_fragment rc);
        let rc = rc\<lparr>rc_fragment := frag\<rparr>;
        Some (if remaining frag = 0
              then call_back (fm_channel_id m) (fm_type m) (fm_count m) (Some (ser_mem frag)) rc else rc)
      } else Some rc)"

definition fragment_message :: "ca_env \<Rightarrow> serializer \<Rightarrow> ca_receiver \<Rightarrow> (serializer \<times> ca_receiver) option" where
  "fragment_message env s rc =
     (let (ok, s) = ensure CAFragDataMessage_size s in
      if ok then do {
        (m, s) \<leftarrow> get_ca_frag_message s;
        let (valid, rc) = validate_fragment_order (fm_seq_no m) (fm_fragment_seq_no m) rc;
        if valid then do {
          rc \<leftarrow> (if fm_fragment_seq_no m = 0 then start_fragment env m rc else Some rc);
          rc \<leftarrow> copy_fragment m s rc;
          Some (s, rc)
        } else Some (s, rc)
      } else Some (s, rc))"

subsection \<open>Submessages\<close>

text \<open>
  The body of the submessage loop; the first component tells whether the loop goes on. The code
  leaves the loop when \<open>try_position\<close> succeeds and goes on at the current position when it fails.
\<close>

definition dispatch ::
  "ca_env \<Rightarrow> subheader \<Rightarrow> serializer \<Rightarrow> ca_receiver \<Rightarrow> (serializer \<times> ca_receiver) option" where
  "dispatch env sh s rc =
     (if sh_id sh = CA_DATA_MESSAGE then data_message env s rc
      else if sh_id sh = CA_FRAG_DATA_MESSAGE then fragment_message env s rc
      else Some (s, rc))"

definition submessage ::
  "ca_env \<Rightarrow> serializer \<Rightarrow> ca_receiver \<Rightarrow> (bool \<times> serializer \<times> ca_receiver) option" where
  "submessage env s rc =
     do {
       (sh, s) \<leftarrow> get_subheader s;
       if and (sh_flags sh) LittleEndian = 0 then Some (False, s, rc)
       else do {
         let payload_pos = ser_pos s;
         (s, rc) \<leftarrow> dispatch env sh s rc;
         if sh_next sh = 0 then Some (False, s, rc)
         else let (positioned, s) = try_position (payload_pos + unat (sh_next sh)) s in
           if positioned then Some (False, s, rc) else Some (True, s, rc)
       }
     }"

text \<open>Reading moves the cursor forward and leaves the packet alone.\<close>

definition forward :: "serializer \<Rightarrow> serializer \<Rightarrow> bool" where
  "forward s s' \<longleftrightarrow> ser_mem s' = ser_mem s \<and> ser_limit s' = ser_limit s \<and> ser_pos s \<le> ser_pos s'"

lemma forward_refl [simp]: "forward s s"
  by (simp add: forward_def)

lemma forward_trans: "forward s s1 \<Longrightarrow> forward s1 s2 \<Longrightarrow> forward s s2"
  by (auto simp: forward_def)

lemma forward_good [simp]: "forward (s\<lparr>ser_good := g\<rparr>) s' = forward s s'"
  "forward s (s'\<lparr>ser_good := g\<rparr>) = forward s s'"
  by (simp_all add: forward_def)

lemma forward_advance [simp]: "forward s (advance n s)"
  by (simp add: forward_def advance_def)

lemma forward_align [simp]: "forward s (pos_align a s)"
  by (simp add: pos_align_advance)

lemma forward_read: "ser_read n s = Some (b, s') \<Longrightarrow> forward s s'"
  by (auto simp: ser_read_def forward_def split: if_splits)

lemma forward_get:
  "get_u8 s = Some (a, s') \<Longrightarrow> forward s s'" "get_u16 s = Some (b, s') \<Longrightarrow> forward s s'"
  "get_u32 s = Some (c, s') \<Longrightarrow> forward s s'" "get_u64 s = Some (d, s') \<Longrightarrow> forward s s'"
  by (auto simp: get_u8_def get_u16_def get_u32_def get_u64_def bind_eq_Some_conv dest: forward_read)

lemma forward_ensure: "ensure n s = (ok, s') \<Longrightarrow> forward s s'"
  by (auto simp: ensure_def Let_def)

lemmas forward_steps = forward_get forward_ensure

lemma forward_ca_channel: "get_ca_channel_data s = Some (m, s') \<Longrightarrow> forward s s'"
  by (auto simp: get_ca_channel_data_def bind_eq_Some_conv split: prod.splits if_splits
      dest!: forward_steps simp: forward_def)

lemma forward_ca_data: "get_ca_data_message s = Some (m, s') \<Longrightarrow> forward s s'"
  by (auto simp: get_ca_data_message_def bind_eq_Some_conv split: prod.splits if_splits
      dest!: forward_steps simp: forward_def)

lemma forward_ca_frag: "get_ca_frag_message s = Some (m, s') \<Longrightarrow> forward s s'"
  by (auto simp: get_ca_frag_message_def bind_eq_Some_conv split: prod.splits if_splits
      dest!: forward_steps simp: forward_def)

lemma forward_subheader: "get_subheader s = Some (m, s') \<Longrightarrow> forward s s'"
  by (auto simp: get_subheader_def bind_eq_Some_conv split: prod.splits if_splits
      dest!: forward_steps simp: forward_def)

lemma get_subheader_progress:
  assumes "get_subheader s = Some (m, s')" and "ser_good s" and "Submessage_size \<le> remaining s"
  shows "ser_pos s < ser_pos s'" and "ser_pos s < length (ser_mem s)"
  using assms
  by (auto simp: get_subheader_def ensure_True get_u8_def get_u16_def ser_read_def bind_eq_Some_conv
      split: if_splits)

lemma forward_entry:
  assumes "channel_entry env s rc = Some (s', rc')" shows "forward s s'"
proof -
  obtain cd s1 where g: "get_ca_channel_data s = Some (cd, s1)"
    and s': "s' = pos_align Submessage_alignment
      (if cd_count cd \<noteq> - 1 then advance (rx_value_size env (cd_type cd) (ucast (cd_count cd))) s1 else s1)"
    using assms by (auto simp: channel_entry_def bind_eq_Some_conv Let_def)
  have "forward s1 s'"
    unfolding s' by (simp add: pos_align_advance)
  then show ?thesis
    using forward_ca_channel [OF g] by (rule forward_trans [rotated])
qed

lemma forward_entries: "channel_entries env n s rc = Some (s', rc') \<Longrightarrow> forward s s'"
proof (induction n arbitrary: s rc)
  case (Suc n)
  obtain ok s1 where e: "ensure CAChannelData_size s = (ok, s1)" by fastforce
  show ?case
  proof (cases ok)
    case True
    with Suc.prems e obtain s2 rc2 where "channel_entry env s1 rc = Some (s2, rc2)"
      "channel_entries env n s2 rc2 = Some (s', rc')"
      by (auto simp: bind_eq_Some_conv)
    then show ?thesis
      using forward_ensure [OF e] forward_entry Suc.IH by (meson forward_trans)
  next
    case False
    with Suc e show ?thesis
      by (auto dest: forward_ensure intro: forward_trans)
  qed
qed simp

lemma forward_data_message:
  assumes "data_message env s rc = Some (s', rc')" shows "forward s s'"
proof -
  obtain ok s1 where e: "ensure CADataMessage_size s = (ok, s1)" by fastforce
  show ?thesis
  proof (cases ok)
    case True
    with assms e obtain m s2 where g: "get_ca_data_message s1 = Some (m, s2)"
      and r: "(let (valid, rc) = validate_order (dm_seq_no m) rc in
        if valid then channel_entries env (unat (dm_channel_count m)) s2 rc else Some (s2, rc)) = Some (s', rc')"
      by (auto simp: data_message_def bind_eq_Some_conv)
    obtain valid rc2 where "validate_order (dm_seq_no m) rc = (valid, rc2)" by fastforce
    with r have "forward s2 s'"
      by (auto split: if_splits dest: forward_entries)
    then show ?thesis
      using forward_ensure [OF e] forward_ca_data [OF g] by (meson forward_trans)
  next
    case False
    with assms e show ?thesis
      by (auto simp: data_message_def dest: forward_ensure)
  qed
qed

lemma forward_fragment_message:
  assumes "fragment_message env s rc = Some (s', rc')" shows "forward s s'"
proof -
  obtain ok s1 where e: "ensure CAFragDataMessage_size s = (ok, s1)" by fastforce
  show ?thesis
  proof (cases ok)
    case True
    with assms e obtain m where "get_ca_frag_message s1 = Some (m, s')"
      by (auto simp: fragment_message_def bind_eq_Some_conv case_prod_beta Let_def split: if_splits)
    then show ?thesis
      using forward_ensure [OF e] forward_ca_frag by (meson forward_trans)
  next
    case False
    with assms e show ?thesis
      by (auto simp: fragment_message_def dest: forward_ensure)
  qed
qed

lemma forward_dispatch: "dispatch env sh s rc = Some (s', rc') \<Longrightarrow> forward s s'"
  by (auto simp: dispatch_def split: if_splits dest: forward_data_message forward_fragment_message)

lemma submessage_progress:
  assumes "submessage env s rc = Some (True, s', rc')" and "ser_good s" and "Submessage_size \<le> remaining s"
  shows "ser_mem s' = ser_mem s" and "ser_pos s < ser_pos s'" and "ser_pos s < length (ser_mem s)"
proof -
  from assms(1) obtain sh s1 s2 where g: "get_subheader s = Some (sh, s1)"
    and d: "dispatch env sh s1 rc = Some (s2, rc')" and "s' = s2"
    by (auto simp: submessage_def try_position_def bind_eq_Some_conv Let_def split: if_splits prod.splits)
  moreover note get_subheader_progress [OF g assms(2,3)] forward_subheader [OF g] forward_dispatch [OF d]
  ultimately show "ser_mem s' = ser_mem s" "ser_pos s < ser_pos s'" "ser_pos s < length (ser_mem s)"
    by (simp_all add: forward_def)
qed

function submessages :: "ca_env \<Rightarrow> serializer \<Rightarrow> ca_receiver \<Rightarrow> (serializer \<times> ca_receiver) option" where
  "submessages env s rc =
     (if ser_good s \<and> Submessage_size \<le> remaining s
      then case submessage env s rc of
             None \<Rightarrow> None
           | Some (go, s', rc') \<Rightarrow> if go then submessages env s' rc' else Some (s', rc')
      else Some (s\<lparr>ser_good := False\<rparr>, rc))"
  by pat_completeness auto
termination
proof (relation "measure (\<lambda>(env, s, rc). length (ser_mem s) - ser_pos s)")
  fix env s rc x go y s' rc'
  assume a: "ser_good s \<and> Submessage_size \<le> remaining s" "submessage env s rc = Some x"
    "(go, y) = x" "(s', rc') = y" go
  then have "submessage env s rc = Some (True, s', rc')" by auto
  from submessage_progress [OF this] a(1)
  show "((env, s', rc'), env, s, rc) \<in> measure (\<lambda>(env, s, rc). length (ser_mem s) - ser_pos s)"
    by simp
qed simp

declare submessages.simps [simp del]

subsection \<open>A packet\<close>

text \<open>A datagram fills the start of the receive buffer; what does not fit is cut off.\<close>

definition accept_header :: "serializer \<Rightarrow> ca_receiver \<Rightarrow> (bool \<times> serializer \<times> ca_receiver) option" where
  "accept_header s rc =
     (let (ok, s) = ensure Header_size s in
      if ok then do {
        (h, s) \<leftarrow> get_header s;
        if \<not> header_validate h then Some (False, s, rc)
        else if hd_config_hash h \<noteq> rc_config_hash rc then Some (False, s, rc)
        else let (valid, rc) = validate_sender (hd_startup_time h) rc in Some (valid, s, rc)
      } else Some (True, s, rc))"

definition receive_packet :: "ca_env \<Rightarrow> bytes \<Rightarrow> ca_receiver \<Rightarrow> ca_receiver option" where
  "receive_packet env pkt rc =
     (let pkt = take (length (rc_buffer rc)) pkt;
          rc = rc\<lparr>rc_buffer := patch 0 pkt (rc_buffer rc)\<rparr>
      in do {
        (valid, s, rc) \<leftarrow> accept_header (ser_make (rc_buffer rc) (length pkt)) rc;
        if valid then map_option snd (submessages env s rc) else Some rc
      })"

text \<open>\<open>receive_updates\<close>: the datagram received, or nothing (timeout or error).\<close>

definition receive_updates :: "ca_env \<Rightarrow> bytes option \<Rightarrow> ca_receiver \<Rightarrow> (bool \<times> ca_receiver) option" where
  "receive_updates env recv rc =
     (case recv of
        None \<Rightarrow> Some (False, rc)
      | Some pkt \<Rightarrow> if pkt = [] then Some (False, rc)
                    else map_option (Pair True) (receive_packet env pkt rc))"

subsection \<open>The run loop\<close>

definition SEC :: int where "SEC = 10 ^ 9"

text \<open>\<open>duration_cast<seconds>\<close> truncates towards zero.\<close>

definition in_secs :: "int \<Rightarrow> rat" where
  "in_secs d = of_int (sgn d * (\<bar>d\<bar> div SEC))"

definition invalidate_channel :: "nat \<Rightarrow> ca_receiver \<Rightarrow> ca_receiver" where
  "invalidate_channel i rc =
     (let c = rc_channels rc ! i in
      if \<not> rx_disconnected c \<and>
         in_secs (rc_now rc - rx_last_update c) \<ge> 2 * dval (rc_heartbeat_period rc)
      then call_back (of_nat (rx_id c)) 0 (- 1) None
             (rc\<lparr>rc_channels := (rc_channels rc)[i := c\<lparr>rx_disconnected := True\<rparr>]\<rparr>)
      else rc)"

definition check_no_updates :: "ca_receiver \<Rightarrow> ca_receiver" where
  "check_no_updates rc =
     (if in_secs (rc_now rc - rc_last_heartbeat rc) \<ge> dval (rc_heartbeat_period rc)
      then (fold invalidate_channel [0 ..< length (rc_channels rc)] rc)\<lparr>rc_last_heartbeat := rc_now rc\<rparr>
      else rc)"

definition MAX_PACKETS_AT_ONCE :: nat where "MAX_PACKETS_AT_ONCE = 100"

text \<open>
  The socket delivers a finite list of results here; the loop takes from its front. A batch ends
  when nothing was received or after 100 packets.
\<close>

fun receive_batch ::
  "ca_env \<Rightarrow> nat \<Rightarrow> bytes option list \<Rightarrow> ca_receiver \<Rightarrow> (bytes option list \<times> ca_receiver) option" where
  "receive_batch env 0 rs rc = Some (rs, rc)"
| "receive_batch env (Suc n) [] rc = Some ([], rc)"
| "receive_batch env (Suc n) (r # rs) rc =
     do { (more, rc) \<leftarrow> receive_updates env r rc;
          if more then receive_batch env n rs rc else Some (rs, rc) }"

text \<open>The clock readings of the turns are given; the flag says the loop left by its runtime check.\<close>

fun receiver_loop ::
  "ca_env \<Rightarrow> double \<Rightarrow> int \<Rightarrow> int list \<Rightarrow> bytes option list \<Rightarrow> ca_receiver \<Rightarrow> (bool \<times> ca_receiver) option" where
  "receiver_loop env runtime start [] rs rc = Some (False, rc)"
| "receiver_loop env runtime start (now # nows) rs rc =
     do {
       (rs, rc) \<leftarrow> receive_batch env MAX_PACKETS_AT_ONCE rs rc;
       let rc = check_no_updates (rc\<lparr>rc_now := now\<rparr>);
       if dval runtime > 0 \<and> in_secs (now - start) \<ge> dval runtime then Some (True, rc)
       else receiver_loop env runtime start nows rs rc
     }"

end
