(* ===== verification/CA_Link.thy ===== *)
theory CA_Link
  imports CA_Drain CA_Receiver
begin

text \<open>
  The two ends of the Channel Access link together: what the receiver's callback sees when the
  packets of the sender arrive in order.
\<close>

subsection \<open>The entries of a data message\<close>

text \<open>The receiver recovers the extent of a value from its type and element count.\<close>

definition wf_payload :: "ca_env \<Rightarrow> nat \<Rightarrow> payload \<Rightarrow> bool" where
  "wf_payload env n p \<longleftrightarrow>
     unat (cd_id (fst p)) < n \<and>
     (if cd_count (fst p) = - 1 then snd p = []
      else rx_value_size env (cd_type (fst p)) (ucast (cd_count (fst p))) = length (snd p))"

type_synonym rx_view = "u32 \<times> u16 \<times> u32 \<times> bytes option"

text \<open>What a callback may look at: the value's bytes, none for a disconnect.\<close>

definition call_view :: "ca_env \<Rightarrow> rx_call \<Rightarrow> rx_view" where
  "call_view env c =
     (cb_id c, cb_type c, cb_count c,
      map_option (take (if cb_count c = - 1 then 0 else rx_value_size env (cb_type c) (cb_count c))) (cb_value c))"

definition expected_call :: "payload \<Rightarrow> rx_view" where
  "expected_call p =
     (cd_id (fst p), cd_type (fst p), if cd_count (fst p) = - 1 then - 1 else ucast (cd_count (fst p)), Some (snd p))"

definition touch :: "int \<Rightarrow> payload \<Rightarrow> rx_channel list \<Rightarrow> rx_channel list" where
  "touch now p chs =
     (let i = unat (cd_id (fst p)) in
      chs[i := (chs ! i)\<lparr>rx_disconnected := (cd_count (fst p) = - 1), rx_last_update := now\<rparr>])"

lemma length_touch [simp]: "length (touch now p chs) = length chs"
  by (simp add: touch_def Let_def)

lemma length_fold_touch [simp]: "length (fold (touch now) ps chs) = length chs"
  by (induction ps arbitrary: chs) simp_all

lemma ucast_count_not_m1: "(c :: u16) \<noteq> - 1 \<Longrightarrow> (ucast c :: u32) \<noteq> - 1"
proof
  assume "(ucast c :: u32) = - 1"
  then have "unat (ucast c :: u32) = unat (- 1 :: u32)" by simp
  moreover have "unat (ucast c :: u32) < 65536"
    using unat_bound(2) [of c] by (simp add: unsigned_ucast_eq take_bit_nat_eq_self)
  moreover have "unat (- 1 :: u32) = 4294967295"
    by (simp add: unsigned_minus_1_eq_mask mask_eq_exp_minus_1)
  ultimately show False by simp
qed

lemma channel_update_view:
  assumes "wf_payload env (length (rc_channels rc)) p" and "take (length (snd p)) val = snd p"
  shows "map (call_view env) (rc_calls (channel_update (fst p) val rc)) =
      map (call_view env) (rc_calls rc) @ [expected_call p]"
    and "rc_channels (channel_update (fst p) val rc) = touch (rc_now rc) p (rc_channels rc)"
    and "channel_update (fst p) val rc = rc\<lparr>rc_calls := rc_calls (channel_update (fst p) val rc),
      rc_channels := touch (rc_now rc) p (rc_channels rc)\<rparr>"
  using assms
  by (auto simp: channel_update_def wf_payload_def call_back_def call_view_def expected_call_def
      touch_def Let_def ucast_count_not_m1 split: if_splits)

lemma channel_entry_payload:
  assumes cur: "at_cursor (entry_bytes p) s" and good: "ser_good s" and room: "8 \<le> remaining s"
    and al: "8 dvd ser_pos s" and wf: "wf_payload env n p"
  shows "channel_entry env s rc = Some (advance (entry_len p) s,
      channel_update (fst p) (drop (ser_pos s + 8) (ser_mem s)) rc)"
    and "take (length (snd p)) (drop (ser_pos s + 8) (ser_mem s)) = snd p"
proof -
  have c: "at_cursor (enc_ca_channel_data (fst p)) s" "at_cursor (snd p) (advance 8 s)"
    using cur by (simp_all add: entry_bytes_def at_cursor_append)
  have g: "get_ca_channel_data s = Some (fst p, advance 8 s)"
    using ca_channel.get_ok [OF good _ c(1)] room
    by (simp add: CADataMessage_size_def CAChannelData_size_def)
  have pl: "pad_len 8 (ser_pos s + 8 + length (snd p)) = pad_len 8 (length (snd p))"
    using pad_len_shift [of "ser_pos s + 8" "length (snd p)"] al by simp
  show "channel_entry env s rc = Some (advance (entry_len p) s,
      channel_update (fst p) (drop (ser_pos s + 8) (ser_mem s)) rc)"
    using wf al pl
    by (auto simp: channel_entry_def g wf_payload_def Let_def pos_align_advance ser_fields
        Submessage_alignment_def entry_len_def add.assoc split: if_splits)
  show "take (length (snd p)) (drop (ser_pos s + 8) (ser_mem s)) = snd p"
    using c(2) by (simp add: at_cursor_def ser_fields segment_def)
qed

lemma remaining_advance:
  "ser_wf s \<Longrightarrow> n \<le> remaining s \<Longrightarrow> ser_wf (advance n s) \<and> remaining (advance n s) = remaining s - n"
  by (auto simp: remaining_wf ser_wf_def ser_fields)

lemma channel_entries_payloads:
  assumes "at_cursor (group_bytes ps) s" and "ser_good s" and "ser_wf s" and "group_len ps \<le> remaining s"
    and "8 dvd ser_pos s" and "\<forall>p \<in> set ps. wf_payload env (length (rc_channels rc)) p"
  shows "\<exists>calls. channel_entries env (length ps) s rc =
      Some (advance (group_len ps) s,
        rc\<lparr>rc_calls := calls, rc_channels := fold (touch (rc_now rc)) ps (rc_channels rc)\<rparr>) \<and>
    map (call_view env) calls = map (call_view env) (rc_calls rc) @ map expected_call ps"
  using assms
proof (induction ps arbitrary: s rc)
  case Nil
  show ?case by (rule exI [of _ "rc_calls rc"]) simp
next
  case (Cons p ps)
  have c: "at_cursor (entry_bytes p) s" "at_cursor (group_bytes ps) (advance (entry_len p) s)"
    using Cons.prems(1) by (simp_all add: at_cursor_append)
  have room: "8 \<le> remaining s" "entry_len p \<le> remaining s"
    using Cons.prems(4) by (simp_all add: entry_len_def)
  have wf: "wf_payload env (length (rc_channels rc)) p"
    using Cons.prems(6) by simp
  note e = channel_entry_payload [OF c(1) Cons.prems(2) room(1) Cons.prems(5) wf]
  let ?rc = "channel_update (fst p) (drop (ser_pos s + 8) (ser_mem s)) rc"
  note u = channel_update_view [OF wf e(2)]
  note a = remaining_advance [OF Cons.prems(3) room(2)]
  have now: "rc_now ?rc = rc_now rc"
    by (subst u(3)) simp
  have step: "channel_entries env (length (p # ps)) s rc =
      channel_entries env (length ps) (advance (entry_len p) s) ?rc"
    using Cons.prems(2) room by (simp add: ensure_True CAChannelData_size_def e)
  have al: "8 dvd ser_pos (advance (entry_len p) s)"
    using Cons.prems(5) entry_len_dvd by (simp add: ser_fields dvd_add)
  have good: "ser_good (advance (entry_len p) s)"
    using Cons.prems(2) by (simp add: ser_fields)
  have fits: "group_len ps \<le> remaining (advance (entry_len p) s)"
    using Cons.prems(4) a by simp
  have wfs: "\<forall>p \<in> set ps. wf_payload env (length (rc_channels ?rc)) p"
    using Cons.prems(6) u(2) by simp
  obtain calls where ih: "channel_entries env (length ps) (advance (entry_len p) s) ?rc =
      Some (advance (group_len ps) (advance (entry_len p) s),
        ?rc\<lparr>rc_calls := calls, rc_channels := fold (touch (rc_now ?rc)) ps (rc_channels ?rc)\<rparr>)"
    "map (call_view env) calls = map (call_view env) (rc_calls ?rc) @ map expected_call ps"
    using Cons.IH [OF c(2) good _ fits al wfs] a by blast
  have "?rc\<lparr>rc_calls := calls, rc_channels := fold (touch (rc_now ?rc)) ps (rc_channels ?rc)\<rparr> =
      rc\<lparr>rc_calls := calls, rc_channels := fold (touch (rc_now rc)) (p # ps) (rc_channels rc)\<rparr>"
    unfolding now u(2) by (subst u(3)) simp
  with step ih u(1) show ?case
    by (auto simp: add.commute)
qed

subsection \<open>A packet with one submessage\<close>

definition link_ready :: "header \<Rightarrow> bytes \<Rightarrow> ca_receiver \<Rightarrow> bool" where
  "link_ready h reserved rc \<longleftrightarrow>
     good_header h \<and> length reserved = 3 \<and> hd_config_hash h = rc_config_hash rc \<and>
     rc_last_startup_time rc \<le> hd_startup_time h \<and> length (rc_buffer rc) = MAX_MESSAGE_SIZE"

definition admit :: "header \<Rightarrow> ca_receiver \<Rightarrow> ca_receiver" where
  "admit h rc = snd (validate_sender (hd_startup_time h) rc)"

definition packet_cursor :: "bytes \<Rightarrow> ca_receiver \<Rightarrow> serializer" where
  "packet_cursor pkt rc = advance 28 (ser_make (patch 0 pkt (rc_buffer rc)) (length pkt))"

lemma submessages_last:
  assumes "ser_good s" "Submessage_size \<le> remaining s"
    and "at_cursor (enc_subheader \<lparr>sh_id = i, sh_flags = LittleEndian, sh_next = 0\<rparr>) s"
  shows "submessages env s rc =
    dispatch env \<lparr>sh_id = i, sh_flags = LittleEndian, sh_next = 0\<rparr> (advance 4 s) rc"
proof -
  have "get_subheader s = Some (\<lparr>sh_id = i, sh_flags = LittleEndian, sh_next = 0\<rparr>, advance 4 s)"
    using subheader.get_ok [OF assms(1-3)] by (simp add: Submessage_size_def)
  then have "submessage env s rc = map_option (\<lambda>x. (False, x))
      (dispatch env \<lparr>sh_id = i, sh_flags = LittleEndian, sh_next = 0\<rparr> (advance 4 s) rc)"
    by (cases "dispatch env \<lparr>sh_id = i, sh_flags = LittleEndian, sh_next = 0\<rparr> (advance 4 s) rc")
      (auto simp: submessage_def LittleEndian_def)
  with assms(1,2) show ?thesis
    by (subst submessages.simps) (auto split: option.split)
qed

lemma receive_packet_single:
  fixes body :: bytes
  assumes pkt: "pkt = enc_header reserved h @
      enc_subheader \<lparr>sh_id = i, sh_flags = LittleEndian, sh_next = 0\<rparr> @ body"
    and ready: "link_ready h reserved rc" and len: "length pkt \<le> MAX_MESSAGE_SIZE"
  shows "receive_packet env pkt rc = map_option snd (dispatch env
      \<lparr>sh_id = i, sh_flags = LittleEndian, sh_next = 0\<rparr> (packet_cursor pkt rc)
      (admit h (rc\<lparr>rc_buffer := patch 0 pkt (rc_buffer rc)\<rparr>)))"
    and "at_cursor body (packet_cursor pkt rc)" "ser_wf (packet_cursor pkt rc)"
    "ser_good (packet_cursor pkt rc)" "remaining (packet_cursor pkt rc) = length body"
    "ser_pos (packet_cursor pkt rc) = 28"
proof -
  let ?B = "rc_buffer rc"
  let ?m = "patch 0 pkt ?B"
  let ?s = "ser_make ?m (length pkt)"
  let ?rc = "rc\<lparr>rc_buffer := ?m\<rparr>"
  have lB: "length ?B = 65504" and lr: "length reserved = 3" and gh: "good_header h"
    using ready by (simp_all add: link_ready_def MAX_MESSAGE_SIZE_def)
  have lh: "length (enc_header reserved h) = 24"
    using lr gh by (rule length_enc_header)
  then have lp: "length pkt = 28 + length body" by (simp add: pkt)
  have lm: "length ?m = 65504"
    using len lB by (simp add: length_patch MAX_MESSAGE_SIZE_def)
  have wf: "ser_wf ?s"
    using len lm by (simp add: MAX_MESSAGE_SIZE_def)
  have rem: "remaining ?s = 28 + length body"
    using remaining_wf [OF wf] lp by (simp add: ser_fields)
  have cur: "at_cursor pkt ?s"
    using len lB segment_patch [of 0 pkt ?B] by (simp add: at_cursor_def ser_fields length_patch MAX_MESSAGE_SIZE_def)
  have c: "at_cursor (enc_header reserved h) ?s"
    "at_cursor (enc_subheader \<lparr>sh_id = i, sh_flags = LittleEndian, sh_next = 0\<rparr>) (advance 24 ?s)"
    "at_cursor body (advance 28 ?s)"
    using cur unfolding pkt at_cursor_append lh by simp_all
  have good: "ser_good ?s" by (simp add: ser_fields)
  have gh': "get_header ?s = Some (h, advance 24 ?s)"
    using get_header_cursor [OF c(1) lr _ good] gh rem by (simp add: Header_size_def good_header_def MAGIC_def)
  have valid: "validate_sender (hd_startup_time h) ?rc = (True, admit h ?rc)"
    using ready by (auto simp: validate_sender_def admit_def link_ready_def)
  have acc: "accept_header ?s ?rc = Some (True, advance 24 ?s, admit h ?rc)"
    using ready rem good
    by (simp add: accept_header_def ensure_True Header_size_def gh' valid link_ready_def header_validate_def
        good_header_def)
  note a24 = remaining_advance [OF wf, of 24] and a28 = remaining_advance [OF wf, of 28]
  have sub: "submessages env (advance 24 ?s) (admit h ?rc) = dispatch env
      \<lparr>sh_id = i, sh_flags = LittleEndian, sh_next = 0\<rparr> (advance 28 ?s) (admit h ?rc)"
    using submessages_last [OF _ _ c(2), of env "admit h ?rc"] a24 rem good
    by (simp add: ser_fields Submessage_size_def)
  have tk: "take (length ?B) pkt = pkt"
    using len lB by (simp add: MAX_MESSAGE_SIZE_def)
  show "receive_packet env pkt rc = map_option snd (dispatch env
      \<lparr>sh_id = i, sh_flags = LittleEndian, sh_next = 0\<rparr> (packet_cursor pkt rc) (admit h ?rc))"
    by (simp add: receive_packet_def tk acc sub packet_cursor_def)
  show "at_cursor body (packet_cursor pkt rc)" "ser_wf (packet_cursor pkt rc)"
    "ser_good (packet_cursor pkt rc)" "remaining (packet_cursor pkt rc) = length body"
    "ser_pos (packet_cursor pkt rc) = 28"
    using c(3) a28 rem good by (simp_all add: packet_cursor_def ser_fields)
qed

lemma admit_fields [simp]:
  "rc_channels (admit h rc) = rc_channels rc" "rc_calls (admit h rc) = rc_calls rc" "rc_now (admit h rc) = rc_now rc"
  "rc_buffer (admit h rc) = rc_buffer rc" "rc_fragment (admit h rc) = rc_fragment rc"
  "rc_config_hash (admit h rc) = rc_config_hash rc"
  "rc_active_fragment_seq_no (admit h rc) = rc_active_fragment_seq_no rc"
  "rc_last_fragment_seq_no (admit h rc) = rc_last_fragment_seq_no rc"
  by (simp_all add: admit_def validate_sender_def)

lemma admit_again: "hd_startup_time h = rc_last_startup_time rc \<Longrightarrow> admit h rc = rc"
  by (simp add: admit_def validate_sender_def)

lemma admit_startup: "rc_last_startup_time rc \<le> hd_startup_time h \<Longrightarrow> rc_last_startup_time (admit h rc) = hd_startup_time h"
  by (auto simp: admit_def validate_sender_def)

lemma validate_order_fields [simp]:
  "fst (validate_order q rc) = (q - rc_last_seq_no rc < 32767)"
  "snd (validate_order q rc) = rc\<lparr>rc_last_seq_no := q\<rparr>"
  by (simp_all add: validate_order_def)

subsection \<open>A data packet\<close>

text \<open>\<open>in_order q rc\<close>: the receiver takes sequence number \<open>q\<close> next.\<close>

definition in_order :: "u16 \<Rightarrow> ca_receiver \<Rightarrow> bool" where
  "in_order q rc \<longleftrightarrow> q - rc_last_seq_no rc < 32767"

lemma receive_data_packet:
  assumes ready: "link_ready h reserved rc"
    and len: "length (data_packet (enc_header reserved h) q gs) \<le> MAX_MESSAGE_SIZE"
    and ord: "in_order q (admit h rc)"
    and wf: "\<forall>p \<in> set (concat gs). wf_payload env (length (rc_channels rc)) p"
  shows "\<exists>calls. receive_packet env (data_packet (enc_header reserved h) q gs) rc =
      Some ((admit h rc)\<lparr>rc_buffer := patch 0 (data_packet (enc_header reserved h) q gs) (rc_buffer rc),
        rc_last_seq_no := q, rc_calls := calls,
        rc_channels := fold (touch (rc_now rc)) (concat gs) (rc_channels rc)\<rparr>) \<and>
    map (call_view env) calls = map (call_view env) (rc_calls rc) @ map expected_call (concat gs)"
proof -
  let ?pkt = "data_packet (enc_header reserved h) q gs"
  let ?dm = "\<lparr>dm_seq_no = q, dm_channel_count = of_nat (length (concat gs))\<rparr>"
  let ?body = "enc_ca_data_message ?dm @ group_bytes (concat gs)"
  let ?rc = "admit h (rc\<lparr>rc_buffer := patch 0 ?pkt (rc_buffer rc)\<rparr>)"
  let ?s = "packet_cursor ?pkt rc"
  have gb: "groups_bytes gs = group_bytes (concat gs)"
    by (induction gs) simp_all
  have pkt: "?pkt = enc_header reserved h @
      enc_subheader \<lparr>sh_id = CA_DATA_MESSAGE, sh_flags = LittleEndian, sh_next = 0\<rparr> @ ?body"
    by (simp add: data_packet_def gb)
  note r = receive_packet_single [OF pkt ready len]
  have c: "at_cursor (enc_ca_data_message ?dm) ?s" "at_cursor (group_bytes (concat gs)) (advance 4 ?s)"
    using r(2) by (simp_all add: at_cursor_append)
  have rem: "remaining ?s = 4 + group_len (concat gs)"
    using r(5) by simp
  have g: "get_ca_data_message ?s = Some (?dm, advance 4 ?s)"
    using ca_data.get_ok [OF r(4) _ c(1)] rem by (simp add: CADataMessage_size_def)
  have cnt: "length (concat gs) < 65536"
    using group_len_lower [of "concat gs"] r(3,5) len ready
    by (simp add: pkt length_enc_header link_ready_def MAX_MESSAGE_SIZE_def)
  have admit_buf: "?rc = (admit h rc)\<lparr>rc_buffer := patch 0 ?pkt (rc_buffer rc)\<rparr>"
    by (simp add: admit_def validate_sender_def)
  have vo: "validate_order q ?rc = (True, ?rc\<lparr>rc_last_seq_no := q\<rparr>)"
    using ord unfolding admit_buf by (simp add: validate_order_def in_order_def)
  have a: "ser_wf (advance 4 ?s)" "remaining (advance 4 ?s) = group_len (concat gs)"
    using remaining_advance [OF r(3), of 4] rem by simp_all
  have "data_message env ?s ?rc =
      channel_entries env (length (concat gs)) (advance 4 ?s) (?rc\<lparr>rc_last_seq_no := q\<rparr>)"
    using r(4) rem cnt by (simp add: data_message_def ensure_True CADataMessage_size_def g vo)
  moreover obtain calls where "channel_entries env (length (concat gs)) (advance 4 ?s) (?rc\<lparr>rc_last_seq_no := q\<rparr>) =
      Some (advance (group_len (concat gs)) (advance 4 ?s), (?rc\<lparr>rc_last_seq_no := q\<rparr>)\<lparr>rc_calls := calls,
        rc_channels := fold (touch (rc_now rc)) (concat gs) (rc_channels rc)\<rparr>)"
    "map (call_view env) calls = map (call_view env) (rc_calls rc) @ map expected_call (concat gs)"
    using channel_entries_payloads [OF c(2) _ a(1), where rc = "?rc\<lparr>rc_last_seq_no := q\<rparr>" and env = env] a(2) r(4,6) wf
    by (auto simp: ser_fields)
  ultimately show ?thesis
    using r(1) unfolding admit_buf by (auto simp: dispatch_def)
qed

end
