(* ===== verification/CA_Reassembly.thy ===== *)
theory CA_Reassembly
  imports CA_Link
begin

text \<open>
  Fragmented values across the link: the receiver reassembles the fragments the sender cut, and the
  whole trace of a drained queue reaches the callback.
\<close>

subsection \<open>The fragment buffer\<close>

definition frag_holds :: "bytes \<Rightarrow> nat \<Rightarrow> serializer \<Rightarrow> bool" where
  "frag_holds dn tot fs \<longleftrightarrow>
     ser_limit fs = tot \<and> length (ser_mem fs) = tot \<and> ser_pos fs = length dn \<and> length dn \<le> tot \<and>
     take (length dn) (ser_mem fs) = dn \<and> tot < 2 ^ 64"

lemma frag_holds_remaining: "frag_holds dn tot fs \<Longrightarrow> remaining fs = tot - length dn"
  by (simp add: frag_holds_def remaining_wf ser_wf_def)

lemma frag_holds_start: "tot < 2 ^ 64 \<Longrightarrow> frag_holds [] tot (ser_make (resize tot x m) tot)"
  by (simp add: frag_holds_def ser_fields)

lemma frag_holds_written:
  assumes "frag_holds dn tot fs" and "length dn + length ck \<le> tot"
  shows "frag_holds (dn @ ck) tot (written ck fs)"
proof -
  have le: "ser_pos fs + length ck \<le> length (ser_mem fs)"
    using assms by (simp add: frag_holds_def)
  show ?thesis
    using assms written_mem [OF le] by (simp add: frag_holds_def ser_fields)
qed

lemma frag_holds_full: "frag_holds dn (length dn) fs \<Longrightarrow> ser_mem fs = dn"
  by (auto simp: frag_holds_def)

lemma copy_fragment_spec:
  assumes fs: "frag_holds dn tot (rc_fragment rc)" and le: "length dn + length ck \<le> tot"
    and sz: "unat (fm_fragment_size m) = length ck" and cur: "at_cursor ck s"
  shows "copy_fragment m s rc = Some (let rc' = rc\<lparr>rc_fragment := written ck (rc_fragment rc)\<rparr> in
      if length dn + length ck = tot
      then call_back (fm_channel_id m) (fm_type m) (fm_count m) (Some (dn @ ck)) rc' else rc')"
proof -
  have rd: "ser_read (length ck) s = Some (ck, advance (length ck) s)"
    using ser_read_cursor [OF cur refl] .
  have wr: "ser_write ck (rc_fragment rc) = Some (written ck (rc_fragment rc))"
    using fs le by (intro ser_write_fits) (simp add: frag_holds_def)
  note h = frag_holds_written [OF fs le]
  have rem: "remaining (written ck (rc_fragment rc)) = tot - (length dn + length ck)"
    using frag_holds_remaining [OF h] by simp
  have "length dn + length ck = tot \<Longrightarrow> ser_mem (written ck (rc_fragment rc)) = dn @ ck"
    using frag_holds_full [of "dn @ ck"] h by simp
  then show ?thesis
    using le frag_holds_remaining [OF fs] by (auto simp: copy_fragment_def sz rd wr rem Let_def)
qed

subsection \<open>One fragment packet\<close>

lemma frag_msg_fields [simp]:
  "fm_seq_no (frag_msg t a f n) = a" "fm_fragment_seq_no (frag_msg t a f n) = f"
  "fm_channel_id (frag_msg t a f n) = fm_channel_id t" "fm_count (frag_msg t a f n) = fm_count t"
  "fm_type (frag_msg t a f n) = fm_type t" "fm_fragment_size (frag_msg t a f n) = of_nat n"
  by (simp_all add: frag_msg_def)

lemma length_frag_packet:
  assumes "length hdr = 24" and "length ck \<le> frag_room"
  shows "length (frag_packet hdr t a f ck) \<le> MAX_MESSAGE_SIZE"
proof -
  have "length ck \<le> 65460" using assms(2) by (simp add: frag_room_def size_defs)
  then have "24 + 20 + length ck + pad_len 8 (24 + 20 + length ck) \<le> 65504"
    by (intro pad_len_bound) simp_all
  then show ?thesis
    using assms(1) by (simp add: frag_packet_def Submessage_alignment_def MAX_MESSAGE_SIZE_def)
qed

lemma snd_bind_copy:
  "map_option snd (Option.bind x (\<lambda>r. Option.bind (copy_fragment m s r) (\<lambda>r. Some (s, r)))) =
   Option.bind x (copy_fragment m s)"
proof (cases x)
  case (Some r)
  then show ?thesis by (cases "copy_fragment m s r") simp_all
qed simp

lemma receive_frag_packet:
  assumes ready: "link_ready h reserved rc" and ck: "length ck \<le> frag_room"
  shows "\<exists>s. at_cursor ck s \<and>
    receive_packet env (frag_packet (enc_header reserved h) t a f ck) rc =
      (let rc1 = admit h (rc\<lparr>rc_buffer := patch 0 (frag_packet (enc_header reserved h) t a f ck) (rc_buffer rc)\<rparr>);
           (valid, rc2) = validate_fragment_order a f rc1; m = frag_msg t a f (length ck)
       in if valid
          then Option.bind (if f = 0 then start_fragment env m rc2 else Some rc2) (copy_fragment m s)
          else Some rc2)"
proof -
  let ?hdr = "enc_header reserved h"
  let ?pkt = "frag_packet ?hdr t a f ck"
  let ?m = "frag_msg t a f (length ck)"
  let ?p = "replicate (pad_len Submessage_alignment (length ?hdr + 20 + length ck)) (0 :: u8)"
  let ?s = "packet_cursor ?pkt rc"
  have lh: "length ?hdr = 24"
    using ready by (simp add: link_ready_def length_enc_header)
  have pkt: "?pkt = ?hdr @
      enc_subheader \<lparr>sh_id = CA_FRAG_DATA_MESSAGE, sh_flags = LittleEndian, sh_next = 0\<rparr> @
      (enc_ca_frag_message ?m @ ck @ ?p)"
    by (simp add: frag_packet_def)
  note r = receive_packet_single [OF pkt ready length_frag_packet [OF lh ck]]
  have c: "at_cursor (enc_ca_frag_message ?m) ?s" "at_cursor ck (advance 16 ?s)"
    using r(2) by (simp_all add: at_cursor_append)
  have rem: "16 \<le> remaining ?s"
    using r(5) by simp
  have g: "get_ca_frag_message ?s = Some (?m, advance 16 ?s)"
    using ca_frag.get_ok [OF r(4) _ c(1)] rem by (simp add: CAFragDataMessage_size_def)
  let ?rc1 = "admit h (rc\<lparr>rc_buffer := patch 0 ?pkt (rc_buffer rc)\<rparr>)"
  obtain valid rc2 where v: "validate_fragment_order a f ?rc1 = (valid, rc2)" by fastforce
  have "map_option snd (fragment_message env ?s ?rc1) =
      (if valid then Option.bind (if f = 0 then start_fragment env ?m rc2 else Some rc2) (copy_fragment ?m (advance 16 ?s))
       else Some rc2)"
    using r(4) rem
    by (simp add: fragment_message_def ensure_True CAFragDataMessage_size_def g v snd_bind_copy)
  moreover have "receive_packet env ?pkt rc = map_option snd (fragment_message env ?s ?rc1)"
    using r(1) [of env] by (simp add: dispatch_def CA_FRAG_DATA_MESSAGE_def CA_DATA_MESSAGE_def)
  ultimately show ?thesis
    using c(2) by (intro exI [of _ "advance 16 ?s"]) (simp add: v Let_def)
qed

subsection \<open>All fragments of a value\<close>

definition big_call :: "ca_frag_message \<Rightarrow> bytes \<Rightarrow> rx_call" where
  "big_call t v = \<lparr>cb_id = fm_channel_id t, cb_type = fm_type t, cb_count = fm_count t, cb_value = Some v\<rparr>"

text \<open>\<open>assembling\<close>: fragments up to number \<open>j\<close> of sequence \<open>a\<close> have arrived, with the bytes \<open>dn\<close>.\<close>

definition assembling :: "u16 \<Rightarrow> nat \<Rightarrow> bytes \<Rightarrow> nat \<Rightarrow> ca_receiver \<Rightarrow> bool" where
  "assembling a j dn tot rc \<longleftrightarrow>
     rc_active_fragment_seq_no rc = a \<and> rc_last_fragment_seq_no rc = of_nat j \<and>
     frag_holds dn tot (rc_fragment rc)"

text \<open>\<open>synced h reserved q rc\<close>: the receiver follows the sender \<open>h\<close> and has last seen number \<open>q\<close>.\<close>

definition synced :: "header \<Rightarrow> bytes \<Rightarrow> u16 \<Rightarrow> ca_receiver \<Rightarrow> bool" where
  "synced h reserved q rc \<longleftrightarrow>
     link_ready h reserved rc \<and> rc_last_startup_time rc = hd_startup_time h \<and> rc_last_seq_no rc = q"

lemma synced_update:
  "synced h reserved q rc \<Longrightarrow> length buf = MAX_MESSAGE_SIZE \<Longrightarrow> synced h reserved q (rc\<lparr>rc_buffer := buf\<rparr>)"
  by (simp add: synced_def link_ready_def)

definition same_channels :: "ca_receiver \<Rightarrow> ca_receiver \<Rightarrow> bool" where
  "same_channels rc rc' \<longleftrightarrow> rc_channels rc' = rc_channels rc \<and> rc_now rc' = rc_now rc"

lemma patched_buffer:
  assumes "link_ready h reserved rc" and "length pkt \<le> MAX_MESSAGE_SIZE"
  shows "length (patch 0 pkt (rc_buffer rc)) = MAX_MESSAGE_SIZE"
  using assms by (simp add: link_ready_def length_patch)

lemma next_fragment:
  assumes sy: "synced h reserved q rc" and asm: "assembling a j dn tot rc"
    and ck: "length ck \<le> frag_room" and le: "length dn + length ck \<le> tot" and j: "Suc j < 65536"
  shows "\<exists>rc'. receive_packet env (frag_packet (enc_header reserved h) t a (of_nat (Suc j)) ck) rc = Some rc' \<and>
    synced h reserved q rc' \<and> assembling a (Suc j) (dn @ ck) tot rc' \<and> same_channels rc rc' \<and>
    rc_calls rc' = rc_calls rc @ (if length dn + length ck = tot then [big_call t (dn @ ck)] else [])"
proof -
  let ?pkt = "frag_packet (enc_header reserved h) t a (of_nat (Suc j)) ck"
  have ready: "link_ready h reserved rc" using sy by (simp add: synced_def)
  have lh: "length (enc_header reserved h) = 24"
    using ready by (simp add: link_ready_def length_enc_header)
  let ?rc1 = "rc\<lparr>rc_buffer := patch 0 ?pkt (rc_buffer rc)\<rparr>"
  let ?rc2 = "?rc1\<lparr>rc_last_fragment_seq_no := of_nat (Suc j)\<rparr>"
  have ad: "admit h ?rc1 = ?rc1"
    using sy by (intro admit_again) (simp add: synced_def)
  have nz: "(of_nat (Suc j) :: u16) \<noteq> 0"
  proof
    assume "(of_nat (Suc j) :: u16) = 0"
    then have "unat (of_nat (Suc j) :: u16) = 0" by simp
    with j show False by (subst (asm) unat_word_of_nat_small) simp_all
  qed
  have v: "validate_fragment_order a (of_nat (Suc j)) ?rc1 = (True, ?rc2)"
    using asm nz by (simp add: validate_fragment_order_def assembling_def add.commute)
  obtain s where cur: "at_cursor ck s" and rp: "receive_packet env ?pkt rc =
      copy_fragment (frag_msg t a (of_nat (Suc j)) (length ck)) s ?rc2"
    using receive_frag_packet [OF ready ck, of env t a "of_nat (Suc j)"] v nz unfolding ad by auto
  have fs: "frag_holds dn tot (rc_fragment ?rc2)"
    using asm by (simp add: assembling_def)
  have sz: "unat (fm_fragment_size (frag_msg t a (of_nat (Suc j)) (length ck))) = length ck"
    using ck by (simp add: frag_room_def size_defs)
  have buf: "length (patch 0 ?pkt (rc_buffer rc)) = MAX_MESSAGE_SIZE"
    by (rule patched_buffer [OF ready length_frag_packet [OF lh ck]])
  show ?thesis
    unfolding rp copy_fragment_spec [OF fs le sz cur]
    using frag_holds_written [OF fs le] sy asm buf
    by (simp add: Let_def synced_def link_ready_def assembling_def same_channels_def call_back_def big_call_def)
qed

lemma rest_fragments:
  assumes "synced h reserved q rc" and "assembling a j dn tot rc" and "\<forall>ck \<in> set cks. ck \<noteq> [] \<and> length ck \<le> frag_room"
    and "length dn + length (concat cks) = tot" and "j + length cks < 65536" and "cks \<noteq> []"
  shows "\<exists>rc'. foldM (receive_packet env) (frag_packets (enc_header reserved h) t a (of_nat (Suc j)) cks) rc = Some rc' \<and>
    synced h reserved q rc' \<and> same_channels rc rc' \<and> rc_active_fragment_seq_no rc' = a \<and>
    rc_calls rc' = rc_calls rc @ [big_call t (dn @ concat cks)]"
  using assms
proof (induction cks arbitrary: j dn rc)
  case (Cons ck cks)
  have ck: "length ck \<le> frag_room" "length dn + length ck \<le> tot" "Suc j < 65536"
    using Cons.prems by auto
  obtain rc1 where r1: "receive_packet env (frag_packet (enc_header reserved h) t a (of_nat (Suc j)) ck) rc = Some rc1"
    "synced h reserved q rc1" "assembling a (Suc j) (dn @ ck) tot rc1" "same_channels rc rc1"
    "rc_calls rc1 = rc_calls rc @ (if length dn + length ck = tot then [big_call t (dn @ ck)] else [])"
    using next_fragment [OF Cons.prems(1,2) ck] by blast
  show ?case
  proof (cases "cks = []")
    case True
    with r1 Cons.prems(4) show ?thesis by (simp add: assembling_def)
  next
    case False
    then have "length (concat cks) > 0"
      using Cons.prems(3) by (cases cks) auto
    then have "length dn + length ck \<noteq> tot"
      using Cons.prems(4) unfolding concat.simps length_append by linarith
    then have "rc_calls rc1 = rc_calls rc"
      using r1(5) by simp
    moreover obtain rc' where "foldM (receive_packet env)
        (frag_packets (enc_header reserved h) t a (of_nat (Suc (Suc j))) cks) rc1 = Some rc'"
      "synced h reserved q rc'" "same_channels rc1 rc'" "rc_active_fragment_seq_no rc' = a"
      "rc_calls rc' = rc_calls rc1 @ [big_call t ((dn @ ck) @ concat cks)]"
      using Cons.IH [OF r1(2,3)] Cons.prems(3-5) False by auto
    ultimately show ?thesis
      using r1 by (auto simp: same_channels_def add.commute add.left_commute)
  qed
qed simp

text \<open>A value the receiver can reassemble: its size is that of its type and count.\<close>

definition wf_big :: "ca_env \<Rightarrow> nat \<Rightarrow> ca_frag_message \<Rightarrow> bytes \<Rightarrow> bool" where
  "wf_big env n t v \<longleftrightarrow>
     unat (fm_channel_id t) < n \<and> rx_value_size env (fm_type t) (fm_count t) = length v \<and>
     fm_count t \<noteq> - 1 \<and> v \<noteq> [] \<and> length (chunks frag_room v) \<le> 65536"

lemma first_fragment:
  assumes ready: "link_ready h reserved rc" and ord: "in_order a (admit h rc)"
    and wf: "wf_big env (length (rc_channels rc)) t v" and ck: "length ck \<le> frag_room" "length ck \<le> length v"
  shows "\<exists>rc'. receive_packet env (frag_packet (enc_header reserved h) t a 0 ck) rc = Some rc' \<and>
    synced h reserved a rc' \<and> assembling a 0 ck (length v) rc' \<and> same_channels rc rc' \<and>
    rc_calls rc' = rc_calls rc @ (if length ck = length v then [big_call t ck] else [])"
proof -
  have tot: "rx_value_size env (fm_type t) (fm_count t) = length v"
    and id: "unat (fm_channel_id t) < length (rc_channels rc)"
    using wf by (simp_all add: wf_big_def)
  have lh: "length (enc_header reserved h) = 24"
    using ready by (simp add: link_ready_def length_enc_header)
  let ?pkt = "frag_packet (enc_header reserved h) t a 0 ck"
  let ?rc1 = "admit h (rc\<lparr>rc_buffer := patch 0 ?pkt (rc_buffer rc)\<rparr>)"
  let ?rc2 = "?rc1\<lparr>rc_last_seq_no := a, rc_active_fragment_seq_no := a, rc_last_fragment_seq_no := 0\<rparr>"
  have ab: "?rc1 = (admit h rc)\<lparr>rc_buffer := patch 0 ?pkt (rc_buffer rc)\<rparr>"
    by (simp add: admit_def validate_sender_def)
  have val: "validate_fragment_order a 0 ?rc1 = (True, ?rc2)"
    using ord unfolding ab by (simp add: validate_fragment_order_def validate_order_def in_order_def)
  let ?m = "frag_msg t a 0 (length ck)"
  let ?rc3 = "?rc2\<lparr>rc_fragment := ser_make (resize (length v) 0 (ser_mem (rc_fragment rc))) (length v)\<rparr>"
  have st: "start_fragment env ?m ?rc2 = Some ?rc3"
    using id by (simp add: start_fragment_def tot Let_def)
  obtain s where cur: "at_cursor ck s" and rp: "receive_packet env ?pkt rc = copy_fragment ?m s ?rc3"
    using receive_frag_packet [OF ready ck(1), of env t a 0] val st by auto
  have small: "length v < 2 ^ 64"
    using tot unat_bound(3) [of "env_dbr_size_n env (ucast (fm_type t)) (ucast (fm_count t))"]
    by (simp add: rx_value_size_def)
  have fs: "frag_holds [] (length v) (rc_fragment ?rc3)"
    using small by (simp add: frag_holds_start)
  have le: "length ([] :: bytes) + length ck \<le> length v" using ck(2) by simp
  have sz: "unat (fm_fragment_size ?m) = length ck"
    using ck(1) by (simp add: frag_room_def size_defs)
  have buf: "length (patch 0 ?pkt (rc_buffer rc)) = MAX_MESSAGE_SIZE"
    by (rule patched_buffer [OF ready length_frag_packet [OF lh ck(1)]])
  have st': "rc_last_startup_time (admit h rc) = hd_startup_time h"
    using ready by (intro admit_startup) (simp add: link_ready_def)
  show ?thesis
    unfolding rp copy_fragment_spec [OF fs le sz cur] unfolding ab Let_def
    using frag_holds_written [OF fs le] ready buf st'
    by (cases "length ck = length v")
      (simp_all add: synced_def link_ready_def assembling_def same_channels_def call_back_def big_call_def)
qed

lemma receive_fragments:
  assumes ready: "link_ready h reserved rc" and ord: "in_order a (admit h rc)"
    and wf: "wf_big env (length (rc_channels rc)) t v"
  shows "\<exists>rc'. foldM (receive_packet env)
      (frag_packets (enc_header reserved h) t a 0 (chunks frag_room v)) rc = Some rc' \<and>
    synced h reserved a rc' \<and> same_channels rc rc' \<and> rc_active_fragment_seq_no rc' = a \<and>
    rc_calls rc' = rc_calls rc @ [big_call t v]"
proof -
  let ?ck = "take frag_room v" and ?cks = "chunks frag_room (drop frag_room v)"
  have v: "v \<noteq> []" and n: "length (chunks frag_room v) \<le> 65536"
    using wf by (simp_all add: wf_big_def)
  have cks: "chunks frag_room v = ?ck # ?cks"
    using v frag_room_pos by (rule chunks_Cons)
  obtain rc4 where r4: "receive_packet env (frag_packet (enc_header reserved h) t a 0 ?ck) rc = Some rc4"
    "synced h reserved a rc4" "assembling a 0 ?ck (length v) rc4" "same_channels rc rc4"
    "rc_calls rc4 = rc_calls rc @ (if length ?ck = length v then [big_call t ?ck] else [])"
    using first_fragment [OF ready ord wf, of ?ck] by auto
  show ?thesis
  proof (cases "?cks = []")
    case True
    then have "?ck = v"
      using concat_chunks [OF frag_room_pos, of v] cks by simp
    with True r4 show ?thesis by (simp add: cks assembling_def)
  next
    case False
    have dr: "drop frag_room v \<noteq> []" using False by auto
    have b: "\<forall>c \<in> set ?cks. c \<noteq> [] \<and> length c \<le> frag_room"
      using chunks_bound by blast
    have cat: "concat ?cks = drop frag_room v"
      by (rule concat_chunks [OF frag_room_pos])
    obtain rc' where "foldM (receive_packet env) (frag_packets (enc_header reserved h) t a (of_nat (Suc 0)) ?cks) rc4 = Some rc'"
      "synced h reserved a rc'" "same_channels rc4 rc'" "rc_active_fragment_seq_no rc' = a"
      "rc_calls rc' = rc_calls rc4 @ [big_call t (?ck @ concat ?cks)]"
      using rest_fragments [OF r4(2,3) b _ _ False] n cks cat by fastforce
    with r4 dr cat show ?thesis
      by (auto simp: cks same_channels_def)
  qed
qed

subsection \<open>Everything the sender sends\<close>

fun expected_calls :: "content \<Rightarrow> rx_view list" where
  "expected_calls (GroupUpdate g) = map expected_call g"
| "expected_calls (BigUpdate t v) = [(fm_channel_id t, fm_type t, fm_count t, Some v)]"

fun wf_content :: "ca_env \<Rightarrow> nat \<Rightarrow> content \<Rightarrow> bool" where
  "wf_content env n (GroupUpdate g) \<longleftrightarrow> (\<forall>p \<in> set g. wf_payload env n p)"
| "wf_content env n (BigUpdate t v) \<longleftrightarrow> wf_big env n t v"

definition calls_extend :: "ca_env \<Rightarrow> ca_receiver \<Rightarrow> rx_view list \<Rightarrow> ca_receiver \<Rightarrow> bool" where
  "calls_extend env rc vs rc' \<longleftrightarrow>
     length (rc_channels rc') = length (rc_channels rc) \<and>
     map (call_view env) (rc_calls rc') = map (call_view env) (rc_calls rc) @ vs"

lemma calls_extend_trans:
  "calls_extend env rc vs rc1 \<Longrightarrow> calls_extend env rc1 ws rc2 \<Longrightarrow> calls_extend env rc (vs @ ws) rc2"
  by (simp add: calls_extend_def)

lemma call_view_big:
  "wf_big env n t v \<Longrightarrow> call_view env (big_call t v) = (fm_channel_id t, fm_type t, fm_count t, Some v)"
  by (simp add: call_view_def big_call_def wf_big_def)

lemma receive_item:
  assumes ready: "link_ready h reserved rc" and ord: "in_order (item_seq i) (admit h rc)" and fits: "item_fits i"
    and wf: "\<forall>c \<in> set (item_contents i). wf_content env (length (rc_channels rc)) c"
  shows "\<exists>rc'. foldM (receive_packet env) (item_packets (enc_header reserved h) i) rc = Some rc' \<and>
    synced h reserved (item_seq i) rc' \<and>
    rc_active_fragment_seq_no rc' \<in> {rc_active_fragment_seq_no rc, item_seq i} \<and>
    calls_extend env rc (concat (map expected_calls (item_contents i))) rc'"
proof (cases i)
  case (DataItem q gs)
  let ?pkt = "data_packet (enc_header reserved h) q gs"
  have len: "length ?pkt \<le> MAX_MESSAGE_SIZE"
    using fits ready DataItem
    by (simp add: length_data_packet link_ready_def length_enc_header data_room_def size_defs)
  have wfs: "\<forall>p \<in> set (concat gs). wf_payload env (length (rc_channels rc)) p"
    using wf DataItem by auto
  have st: "rc_last_startup_time (admit h rc) = hd_startup_time h"
    using ready by (intro admit_startup) (simp add: link_ready_def)
  have views: "concat (map expected_calls (map GroupUpdate gs)) = map expected_call (concat gs)"
    by (induction gs) simp_all
  obtain calls where "receive_packet env ?pkt rc =
      Some ((admit h rc)\<lparr>rc_buffer := patch 0 ?pkt (rc_buffer rc), rc_last_seq_no := q, rc_calls := calls,
        rc_channels := fold (touch (rc_now rc)) (concat gs) (rc_channels rc)\<rparr>)"
    "map (call_view env) calls = map (call_view env) (rc_calls rc) @ map expected_call (concat gs)"
    using receive_data_packet [OF ready len _ wfs] ord DataItem by auto
  then show ?thesis
    using DataItem ready st patched_buffer [OF ready len] views
    by (simp add: synced_def link_ready_def calls_extend_def)
next
  case (FragItem q t v)
  have wfb: "wf_big env (length (rc_channels rc)) t v"
    using wf FragItem by simp
  obtain rc' where "foldM (receive_packet env) (frag_packets (enc_header reserved h) t q 0 (chunks frag_room v)) rc = Some rc'"
    "synced h reserved q rc'" "same_channels rc rc'" "rc_active_fragment_seq_no rc' = q"
    "rc_calls rc' = rc_calls rc @ [big_call t v]"
    using receive_fragments [OF ready _ wfb] ord FragItem by auto
  then show ?thesis
    using FragItem call_view_big [OF wfb] by (simp add: calls_extend_def same_channels_def)
qed

lemma synced_ready: "synced h reserved q rc \<Longrightarrow> link_ready h reserved rc \<and> in_order (q + 1) (admit h rc)"
  by (simp add: synced_def admit_again in_order_def)

lemma receive_items:
  assumes "link_ready h reserved rc" and "in_order q (admit h rc)" and "seqs_from q is"
    and "\<forall>i \<in> set is. item_fits i"
    and "\<forall>c \<in> set (concat (map item_contents is)). wf_content env (length (rc_channels rc)) c"
  shows "\<exists>rc'. foldM (receive_packet env) (concat (map (item_packets (enc_header reserved h)) is)) rc = Some rc' \<and>
    calls_extend env rc (concat (map expected_calls (concat (map item_contents is)))) rc' \<and>
    link_ready h reserved rc' \<and> in_order (q + of_nat (length is)) (admit h rc')"
  using assms
proof (induction "is" arbitrary: q rc)
  case Nil
  then show ?case by (simp add: calls_extend_def)
next
  case (Cons i "is")
  obtain rc1 where r1: "foldM (receive_packet env) (item_packets (enc_header reserved h) i) rc = Some rc1"
    "synced h reserved q rc1" "calls_extend env rc (concat (map expected_calls (item_contents i))) rc1"
    using receive_item [OF Cons.prems(1), of i env] Cons.prems by auto
  have n: "length (rc_channels rc1) = length (rc_channels rc)"
    using r1(3) by (simp add: calls_extend_def)
  obtain rc2 where r2: "foldM (receive_packet env) (concat (map (item_packets (enc_header reserved h)) is)) rc1 = Some rc2"
    "calls_extend env rc1 (concat (map expected_calls (concat (map item_contents is)))) rc2"
    "link_ready h reserved rc2" "in_order (q + 1 + of_nat (length is)) (admit h rc2)"
    using Cons.IH [of rc1 "q + 1"] synced_ready [OF r1(2)] Cons.prems(3-5) n by auto
  show ?case
    using r1(1) r2(1,3,4) calls_extend_trans [OF r1(3) r2(2)] by (simp add: foldM_append add.assoc)
qed

text \<open>The link: the queued updates reach the callback once each, complete and in the queue's order.\<close>

lemma link_step:
  assumes snd: "queue_inv st" "buffer_wf st" "\<forall>q \<in> set (snd_deque st). sendable (snd_channels st) q"
    and hdr: "take Header_size (snd_buffer st) = enc_header reserved h"
    and rcv: "link_ready h reserved rc" "in_order (snd_seq_no st) (admit h rc)"
    and wf: "\<forall>q \<in> set (snd_deque st). wf_content env (length (rc_channels rc)) (queued_content (snd_channels st) q)"
  shows "\<exists>is st' pkts rc'. send_updates st = Some st' \<and> sent_items st is st' \<and> snd_deque st' = [] \<and>
    snd_sent st' = snd_sent st @ pkts \<and> foldM (receive_packet env) pkts rc = Some rc' \<and>
    calls_extend env rc (concat (map (expected_calls \<circ> queued_content (snd_channels st)) (snd_deque st))) rc' \<and>
    link_ready h reserved rc' \<and> in_order (snd_seq_no st') (admit h rc')"
proof -
  obtain "is" st' where s: "send_updates st = Some st'" "sent_items st is st'" "snd_deque st' = []"
    using send_updates_drains [OF snd] by blast
  note all = sent_items_all [OF s(2,3)]
  have "\<forall>c \<in> set (concat (map item_contents is)). wf_content env (length (rc_channels rc)) c"
    unfolding all using wf by simp
  then obtain rc' where "foldM (receive_packet env) (concat (map (item_packets (enc_header reserved h)) is)) rc = Some rc'"
    "calls_extend env rc (concat (map expected_calls (concat (map item_contents is)))) rc'"
    "link_ready h reserved rc'" "in_order (snd_seq_no st + of_nat (length is)) (admit h rc')"
    using receive_items [OF rcv, of "is" env] s(2) by (auto simp: sent_items_def)
  moreover have "snd_seq_no st' = snd_seq_no st + of_nat (length is)"
    using s(2) by (simp add: sent_items_def)
  ultimately show ?thesis
    using s hdr unfolding all by (auto simp: sent_items_def)
qed

lemma link_delivers:
  assumes "queue_inv st" "buffer_wf st" "\<forall>q \<in> set (snd_deque st). sendable (snd_channels st) q"
    and "take Header_size (snd_buffer st) = enc_header reserved h"
    and "link_ready h reserved rc" "in_order (snd_seq_no st) (admit h rc)"
    and "\<forall>q \<in> set (snd_deque st). wf_content env (length (rc_channels rc)) (queued_content (snd_channels st) q)"
  shows "\<exists>st' pkts rc'. send_updates st = Some st' \<and> snd_deque st' = [] \<and> snd_sent st' = snd_sent st @ pkts \<and>
    foldM (receive_packet env) pkts rc = Some rc' \<and>
    calls_extend env rc (concat (map (expected_calls \<circ> queued_content (snd_channels st)) (snd_deque st))) rc'"
  using link_step [OF assms] by blast

end
