(* ===== verification/CA_Setup.thy ===== *)
theory CA_Setup
  imports CA_Reassembly
begin

text \<open>
  What the two constructors set up from one configuration: both ends, and the name vector of the
  configuration, number the channels alike; the sender starts with well-formed channels, an empty
  queue and the preset packet header, and the receiver accepts that header.
\<close>

subsection \<open>The flat numbering\<close>

lemma total_channel_count_flat: "total_channel_count cfg = length (flat_channel_names cfg)"
proof -
  have "fold (\<lambda>ch n. n + channel_width ch) cs k = k + length (concat (map channel_names cs))" for cs k
    by (induction cs arbitrary: k) (simp_all add: channel_width_def channel_names_def)
  then show ?thesis
    by (simp add: total_channel_count_def flat_channel_names_def)
qed

text \<open>The number of the first name of the \<open>j\<close>-th configured channel.\<close>

definition group_base :: "config \<Rightarrow> nat \<Rightarrow> nat" where
  "group_base cfg j = sum_list (map channel_width (take j (cfg_channels cfg)))"

lemma length_channel_names: "length (channel_names c) = channel_width c"
  by (simp add: channel_names_def channel_width_def)

lemma flat_name_at:
  assumes "j < length (cfg_channels cfg)" and "k < channel_width (cfg_channels cfg ! j)"
  shows "group_base cfg j + k < length (flat_channel_names cfg)"
    and "flat_channel_names cfg ! (group_base cfg j + k) = channel_names (cfg_channels cfg ! j) ! k"
proof -
  have len: "length (concat (map channel_names cs)) = sum_list (map channel_width cs)" for cs
    by (induction cs) (simp_all add: length_channel_names)
  have split: "cfg_channels cfg = take j (cfg_channels cfg) @ cfg_channels cfg ! j # drop (Suc j) (cfg_channels cfg)"
    using assms(1) by (rule id_take_nth_drop)
  have "flat_channel_names cfg = concat (map channel_names (take j (cfg_channels cfg))) @
      channel_names (cfg_channels cfg ! j) @ concat (map channel_names (drop (Suc j) (cfg_channels cfg)))"
    unfolding flat_channel_names_def by (subst split) simp
  moreover have "length (concat (map channel_names (take j (cfg_channels cfg)))) = group_base cfg j"
    by (simp add: len group_base_def)
  ultimately show "group_base cfg j + k < length (flat_channel_names cfg)"
    "flat_channel_names cfg ! (group_base cfg j + k) = channel_names (cfg_channels cfg ! j) ! k"
    using assms(2) by (simp_all add: nth_append length_channel_names)
qed

subsection \<open>The sender's channels\<close>

text \<open>One more channel at the end: a root, or a member of the group of the last root \<open>p\<close>.\<close>

definition extendable :: "ca_channel list \<Rightarrow> nat \<Rightarrow> bool" where
  "extendable chs p \<longleftrightarrow>
     chans_wf chs \<and> p < length chs \<and> ch_parent_index (chs ! p) = p \<and> (\<forall>i < length chs. ch_parent_index (chs ! i) \<le> p)"

lemma extend_root:
  assumes "chans_wf chs" and "ch_index c = length chs" and "ch_parent_index c = length chs"
  shows "extendable (chs @ [c]) (length chs)"
proof -
  have "ch_parent_index (chs ! i) \<le> i" "ch_parent_index (chs ! i) < length chs" if "i < length chs" for i
    using chans_wfD(2,3) [OF assms(1) that] by simp_all
  moreover have "ch_parent_index (chs ! i) \<le> length chs" if "i < length chs" for i
    using calculation that by (meson less_imp_le)
  ultimately show ?thesis
    using assms unfolding extendable_def chans_wf_def
    by (auto simp: nth_append less_Suc_eq le_less_Suc_eq)
qed

lemma extend_member:
  assumes "extendable chs p" and "ch_index c = length chs" and "ch_parent_index c = p"
  shows "extendable (chs @ [c]) p"
proof -
  have "ch_parent_index (chs ! i) < length chs" if "i < length chs" for i
    using chans_wfD(3) assms(1) that by (auto simp: extendable_def)
  then show ?thesis
    using assms unfolding extendable_def chans_wf_def
    by (auto simp: nth_append less_Suc_eq le_less_Suc_eq)
qed

definition created_name :: "(string \<Rightarrow> ca_status option) \<Rightarrow> string \<Rightarrow> string option" where
  "created_name ca n = (if ca n = None then Some n else None)"

definition fresh :: "ca_channel \<Rightarrow> bool" where
  "fresh c \<longleftrightarrow> \<not> ch_pending_update c \<and> ch_value c = [] \<and> ch_count c = - 1 \<and> ch_status c \<noteq> ECA_NORMAL \<and>
     ch_type c = TYPENOTCONN \<and> \<not> ch_value_hash_initialized c \<and>
     ch_updates_since_last_hb c = 0 \<and> \<not> ch_event_id c"

definition ca_refuses :: "(string \<Rightarrow> ca_status option) \<Rightarrow> bool" where
  "ca_refuses ca \<longleftrightarrow> (\<forall>n. ca n \<noteq> Some ECA_NORMAL)"

lemma create_channel_fields:
  shows "length (create_channel ca n num p polled chs) = Suc (length chs)"
    and "map ch_channel_id (create_channel ca n num p polled chs) = map ch_channel_id chs @ [created_name ca n]"
    and "map ch_is_polled (create_channel ca n num p polled chs) = map ch_is_polled chs @ [polled]"
    and "map ch_parent_index (create_channel ca n num p polled chs) = map ch_parent_index chs @ [p]"
  by (simp_all add: create_channel_def Let_def new_ca_channel_def created_name_def split: option.split)

lemma create_channel_new:
  "\<exists>c. create_channel ca n num p polled chs = chs @ [c] \<and> ch_index c = num \<and> ch_parent_index c = p \<and>
     (ca_refuses ca \<longrightarrow> fresh c)"
  by (auto simp: create_channel_def Let_def new_ca_channel_def fresh_def ca_refuses_def split: option.split)

lemma create_fields_spec:
  assumes "extendable chs p"
  shows "\<exists>chs'. create_fields ca cc p polled fs (chs, length chs) = (chs', length chs') \<and> extendable chs' p \<and>
    map ch_channel_id chs' = map ch_channel_id chs @ map (created_name ca \<circ> field_name cc) fs \<and>
    map ch_is_polled chs' = map ch_is_polled chs @ replicate (length fs) polled \<and>
    map ch_parent_index chs' = map ch_parent_index chs @ replicate (length fs) p \<and>
    (ca_refuses ca \<longrightarrow> (\<forall>c \<in> set chs. fresh c) \<longrightarrow> (\<forall>c \<in> set chs'. fresh c))"
  using assms
proof (induction fs arbitrary: chs)
  case Nil
  then show ?case by (simp add: create_fields_def)
next
  case (Cons f fs)
  let ?chs = "create_channel ca (field_name cc f) (length chs) p polled chs"
  obtain c where c: "?chs = chs @ [c]" "ch_index c = length chs" "ch_parent_index c = p" "ca_refuses ca \<longrightarrow> fresh c"
    using create_channel_new by blast
  have "extendable ?chs p"
    using extend_member [OF Cons.prems c(2,3)] c(1) by simp
  from Cons.IH [OF this] obtain chs' where
    r: "create_fields ca cc p polled fs (?chs, length ?chs) = (chs', length chs')" "extendable chs' p"
    "map ch_channel_id chs' = map ch_channel_id ?chs @ map (created_name ca \<circ> field_name cc) fs"
    "map ch_is_polled chs' = map ch_is_polled ?chs @ replicate (length fs) polled"
    "map ch_parent_index chs' = map ch_parent_index ?chs @ replicate (length fs) p"
    "ca_refuses ca \<longrightarrow> (\<forall>c \<in> set ?chs. fresh c) \<longrightarrow> (\<forall>c \<in> set chs'. fresh c)"
    by (elim exE conjE) (rule that)
  note f = create_channel_fields [of ca "field_name cc f" "length chs" p polled chs]
  show ?case
  proof (intro exI [of _ chs'] conjI)
    show "create_fields ca cc p polled (f # fs) (chs, length chs) = (chs', length chs')"
      using r(1) f(1) by (simp add: create_fields_def)
    show "extendable chs' p" by (rule r(2))
    show "map ch_channel_id chs' = map ch_channel_id chs @ map (created_name ca \<circ> field_name cc) (f # fs)"
      by (simp only: r(3) f(2) append_assoc append.simps list.map comp_def)
    show "map ch_is_polled chs' = map ch_is_polled chs @ replicate (length (f # fs)) polled"
      by (simp only: r(4) f(3) append_assoc append.simps list.size add_Suc_right add_0_right replicate_Suc)
    show "map ch_parent_index chs' = map ch_parent_index chs @ replicate (length (f # fs)) p"
      by (simp only: r(5) f(4) append_assoc append.simps list.size add_Suc_right add_0_right replicate_Suc)
    show "ca_refuses ca \<longrightarrow> (\<forall>c \<in> set chs. fresh c) \<longrightarrow> (\<forall>c \<in> set chs'. fresh c)"
      using r(6) c(4) unfolding c(1) by simp
  qed
qed

text \<open>Which names are polled, and which number is the parent of which.\<close>

definition polled_flags :: "config_channel \<Rightarrow> bool list" where
  "polled_flags cc = False # replicate (length (cc_extra cc)) False @ replicate (length (cc_polled cc)) True"

lemma create_config_channel_spec:
  assumes "chans_wf chs"
  shows "\<exists>chs'. create_config_channel ca cc (chs, length chs) = (chs', length chs') \<and> chans_wf chs' \<and>
    map ch_channel_id chs' = map ch_channel_id chs @ map (created_name ca) (channel_names cc) \<and>
    map ch_is_polled chs' = map ch_is_polled chs @ polled_flags cc \<and>
    map ch_parent_index chs' = map ch_parent_index chs @ replicate (channel_width cc) (length chs) \<and>
    (ca_refuses ca \<longrightarrow> (\<forall>c \<in> set chs. fresh c) \<longrightarrow> (\<forall>c \<in> set chs'. fresh c))"
proof -
  let ?p = "length chs"
  let ?chs0 = "create_channel ca (cc_name cc) ?p ?p False chs"
  obtain c where c: "?chs0 = chs @ [c]" "ch_index c = ?p" "ch_parent_index c = ?p" "ca_refuses ca \<longrightarrow> fresh c"
    using create_channel_new by blast
  have e0: "extendable ?chs0 ?p"
    using extend_root [OF assms c(2,3)] c(1) by simp
  obtain chs1 where c1: "create_fields ca cc ?p False (cc_extra cc) (?chs0, length ?chs0) = (chs1, length chs1)"
    and e1: "extendable chs1 ?p"
    and n1: "map ch_channel_id chs1 = map ch_channel_id ?chs0 @ map (created_name ca \<circ> field_name cc) (cc_extra cc)"
    and p1: "map ch_is_polled chs1 = map ch_is_polled ?chs0 @ replicate (length (cc_extra cc)) False"
    and i1: "map ch_parent_index chs1 = map ch_parent_index ?chs0 @ replicate (length (cc_extra cc)) ?p"
    and f1: "ca_refuses ca \<longrightarrow> (\<forall>c \<in> set ?chs0. fresh c) \<longrightarrow> (\<forall>c \<in> set chs1. fresh c)"
    using create_fields_spec [OF e0, of ca cc False "cc_extra cc"] by (elim exE conjE) (rule that)
  obtain chs2 where c2: "create_fields ca cc ?p True (cc_polled cc) (chs1, length chs1) = (chs2, length chs2)"
    and e2: "extendable chs2 ?p"
    and n2: "map ch_channel_id chs2 = map ch_channel_id chs1 @ map (created_name ca \<circ> field_name cc) (cc_polled cc)"
    and p2: "map ch_is_polled chs2 = map ch_is_polled chs1 @ replicate (length (cc_polled cc)) True"
    and i2: "map ch_parent_index chs2 = map ch_parent_index chs1 @ replicate (length (cc_polled cc)) ?p"
    and f2: "ca_refuses ca \<longrightarrow> (\<forall>c \<in> set chs1. fresh c) \<longrightarrow> (\<forall>c \<in> set chs2. fresh c)"
    using create_fields_spec [OF e1, of ca cc True "cc_polled cc"] by (elim exE conjE) (rule that)
  note f0 = create_channel_fields [of ca "cc_name cc" ?p ?p False chs]
  show ?thesis
  proof (intro exI [of _ chs2] conjI)
    show "create_config_channel ca cc (chs, ?p) = (chs2, length chs2)"
      using c1 c2 f0(1) by (simp add: create_config_channel_def)
    show "chans_wf chs2"
      using e2 by (simp add: extendable_def)
    show "map ch_channel_id chs2 = map ch_channel_id chs @ map (created_name ca) (channel_names cc)"
      by (simp add: n1 n2 f0(2) channel_names_def)
    show "map ch_is_polled chs2 = map ch_is_polled chs @ polled_flags cc"
      by (simp add: p1 p2 f0(3) polled_flags_def)
    show "map ch_parent_index chs2 = map ch_parent_index chs @ replicate (channel_width cc) ?p"
      by (simp add: i1 i2 f0(4) channel_width_def replicate_add)
    show "ca_refuses ca \<longrightarrow> (\<forall>c \<in> set chs. fresh c) \<longrightarrow> (\<forall>c \<in> set chs2. fresh c)"
      using f1 f2 c(4) unfolding c(1) by simp
  qed
qed

text \<open>The number of the default channel of each channel's record; \<open>n\<close> is the first number.\<close>

fun layout_roots :: "nat \<Rightarrow> config_channel list \<Rightarrow> nat list" where
  "layout_roots n [] = []"
| "layout_roots n (c # cs) = replicate (channel_width c) n @ layout_roots (n + channel_width c) cs"

lemma create_all_spec:
  assumes "chans_wf chs"
  shows "\<exists>chs'. fold (create_config_channel ca) ccs (chs, length chs) = (chs', length chs') \<and> chans_wf chs' \<and>
    map ch_channel_id chs' = map ch_channel_id chs @ map (created_name ca) (concat (map channel_names ccs)) \<and>
    map ch_is_polled chs' = map ch_is_polled chs @ concat (map polled_flags ccs) \<and>
    map ch_parent_index chs' = map ch_parent_index chs @ layout_roots (length chs) ccs \<and>
    (ca_refuses ca \<longrightarrow> (\<forall>c \<in> set chs. fresh c) \<longrightarrow> (\<forall>c \<in> set chs'. fresh c))"
  using assms
proof (induction ccs arbitrary: chs)
  case Nil
  then show ?case by simp
next
  case (Cons cc ccs)
  obtain chs1 where c1: "create_config_channel ca cc (chs, length chs) = (chs1, length chs1)" and w1: "chans_wf chs1"
    and n1: "map ch_channel_id chs1 = map ch_channel_id chs @ map (created_name ca) (channel_names cc)"
    and p1: "map ch_is_polled chs1 = map ch_is_polled chs @ polled_flags cc"
    and i1: "map ch_parent_index chs1 = map ch_parent_index chs @ replicate (channel_width cc) (length chs)"
    and f1: "ca_refuses ca \<longrightarrow> (\<forall>c \<in> set chs. fresh c) \<longrightarrow> (\<forall>c \<in> set chs1. fresh c)"
    using create_config_channel_spec [OF Cons.prems, of ca cc] by (elim exE conjE) (rule that)
  obtain chs2 where c2: "fold (create_config_channel ca) ccs (chs1, length chs1) = (chs2, length chs2)" and w2: "chans_wf chs2"
    and n2: "map ch_channel_id chs2 = map ch_channel_id chs1 @ map (created_name ca) (concat (map channel_names ccs))"
    and p2: "map ch_is_polled chs2 = map ch_is_polled chs1 @ concat (map polled_flags ccs)"
    and i2: "map ch_parent_index chs2 = map ch_parent_index chs1 @ layout_roots (length chs1) ccs"
    and f2: "ca_refuses ca \<longrightarrow> (\<forall>c \<in> set chs1. fresh c) \<longrightarrow> (\<forall>c \<in> set chs2. fresh c)"
    using Cons.IH [OF w1] by (elim exE conjE) (rule that)
  show ?case
  proof (intro exI [of _ chs2] conjI)
    show "fold (create_config_channel ca) (cc # ccs) (chs, length chs) = (chs2, length chs2)"
      by (simp add: c1 c2)
    show "chans_wf chs2" by (rule w2)
    show "map ch_channel_id chs2 = map ch_channel_id chs @ map (created_name ca) (concat (map channel_names (cc # ccs)))"
      by (simp add: n1 n2)
    show "map ch_is_polled chs2 = map ch_is_polled chs @ concat (map polled_flags (cc # ccs))"
      by (simp add: p1 p2)
    have "length chs1 = length chs + channel_width cc"
      using arg_cong [OF i1, of length] by simp
    then show "map ch_parent_index chs2 = map ch_parent_index chs @ layout_roots (length chs) (cc # ccs)"
      by (simp add: i1 i2)
    show "ca_refuses ca \<longrightarrow> (\<forall>c \<in> set chs. fresh c) \<longrightarrow> (\<forall>c \<in> set chs2. fresh c)"
      using f1 f2 by blast
  qed
qed

lemma create_channels_spec:
  assumes "create_channels ca cfg = Some chs"
  shows "chans_wf chs" and "map ch_channel_id chs = map (created_name ca) (flat_channel_names cfg)"
    and "map ch_is_polled chs = concat (map polled_flags (cfg_channels cfg))"
    and "ca_refuses ca \<Longrightarrow> \<forall>c \<in> set chs. fresh c"
    and "length chs = total_channel_count cfg"
    and "map ch_parent_index chs = layout_roots 0 (cfg_channels cfg)"
proof -
  have w0: "chans_wf []" by (simp add: chans_wf_def)
  have e: "chs = fst (fold (create_config_channel ca) (cfg_channels cfg) ([], 0))"
    using assms by (simp add: create_channels_def split: if_splits)
  obtain chs' where r: "fold (create_config_channel ca) (cfg_channels cfg) ([], 0) = (chs', length chs')" "chans_wf chs'"
    "map ch_channel_id chs' = map (created_name ca) (flat_channel_names cfg)"
    "map ch_is_polled chs' = concat (map polled_flags (cfg_channels cfg))"
    "map ch_parent_index chs' = layout_roots 0 (cfg_channels cfg)"
    "ca_refuses ca \<longrightarrow> (\<forall>c \<in> set chs'. fresh c)"
    using create_all_spec [OF w0, of ca "cfg_channels cfg"] by (auto simp: flat_channel_names_def)
  with e have "chs = chs'" by simp
  with r show "chans_wf chs" "map ch_channel_id chs = map (created_name ca) (flat_channel_names cfg)"
    "map ch_is_polled chs = concat (map polled_flags (cfg_channels cfg))"
    "map ch_parent_index chs = layout_roots 0 (cfg_channels cfg)"
    "ca_refuses ca \<Longrightarrow> \<forall>c \<in> set chs. fresh c"
    by simp_all
  then have "length (map ch_channel_id chs) = length (flat_channel_names cfg)" by simp
  then show "length chs = total_channel_count cfg"
    by (simp add: total_channel_count_flat)
qed

subsection \<open>The receiver's channels\<close>

definition rx_block :: "nat \<Rightarrow> string list \<Rightarrow> rx_channel list" where
  "rx_block n names = map (\<lambda>(i, s). new_rx_channel i s) (zip [n ..< n + length names] names)"

lemma rx_block_Cons: "rx_block n (s # ss) = new_rx_channel n s # rx_block (Suc n) ss"
  by (simp add: rx_block_def upt_conv_Cons del: upt_Suc)

lemma rx_block_append: "rx_block n (xs @ ys) = rx_block n xs @ rx_block (n + length xs) ys"
  by (induction xs arbitrary: n) (simp_all add: rx_block_Cons, simp add: rx_block_def)

lemma fold_rx_add: "fold (\<lambda>f. rx_add (g f)) fs (chs, n) = (chs @ rx_block n (map g fs), n + length fs)"
  by (induction fs arbitrary: chs n) (simp_all add: rx_add_def rx_block_Cons, simp add: rx_block_def)

lemma rx_create_channel_block:
  "rx_create_channel cc (chs, n) = (chs @ rx_block n (channel_names cc), n + channel_width cc)"
  by (simp add: rx_create_channel_def Let_def rx_add_def fold_rx_add channel_names_def rx_block_append
      rx_block_Cons channel_width_def)

lemma rx_create_channels_spec:
  assumes "rx_create_channels cfg = Some chs"
  shows "chs = rx_block 0 (flat_channel_names cfg)"
proof -
  have "fold rx_create_channel ccs (chs, n) =
      (chs @ rx_block n (concat (map channel_names ccs)), n + sum_list (map channel_width ccs))" for ccs chs n
    by (induction ccs arbitrary: chs n)
      (simp_all add: rx_create_channel_block rx_block_append length_channel_names, simp add: rx_block_def)
  then show ?thesis
    using assms by (simp add: rx_create_channels_def flat_channel_names_def split: if_splits)
qed

lemma rx_block_fields: "map rx_name (rx_block n ss) = ss" "map rx_id (rx_block n ss) = [n ..< n + length ss]"
  by (induction ss arbitrary: n)
    (simp_all add: rx_block_Cons new_rx_channel_def upt_conv_Cons del: upt_Suc, simp_all add: rx_block_def)

subsection \<open>Initial states\<close>

lemma put_header_write:
  assumes "ser_good s" and "ser_wf s" and "24 \<le> remaining s"
    and z: "segment (ser_pos s + 5) 3 (ser_mem s) = [0, 0, 0]"
  shows "put_header (make_header t c) s = Some (written (enc_header [0, 0, 0] (make_header t c)) s)"
proof -
  let ?p = "ser_pos s" and ?m = "ser_mem s"
  let ?a = "MAGIC @ [VERSION]" and ?b = "le_bytes 8 (unat t) @ le_bytes 8 (unat c)"
  have le: "?p + 24 \<le> length ?m"
    using assms(2,3) by (auto simp: remaining_wf ser_wf_def)
  let ?s1 = "written ?a s"
  have s1: "Option.bind (ser_write MAGIC s) (put_u8 VERSION) = Some ?s1"
    unfolding put_write_fun ser_write_append using le by (intro ser_write_fits) (simp add: MAGIC_def)
  let ?s2 = "advance 3 ?s1"
  have l1: "length (ser_mem ?s1) = length ?m"
    using le by (intro written_mem) (simp add: MAGIC_def)
  have "Option.bind (put_u64 t ?s2) (put_u64 c) = ser_write ?b ?s2"
    by (simp add: put_write_fun ser_write_append)
  also have "\<dots> = Some (written ?b ?s2)"
    using le l1 by (intro ser_write_fits) (simp add: ser_fields MAGIC_def)
  finally have s3: "Option.bind (put_u64 t ?s2) (put_u64 c) = Some (written ?b ?s2)" .
  have "put_header (make_header t c) s =
      Option.bind (Option.bind (ser_write MAGIC s) (put_u8 VERSION))
        (\<lambda>s. Option.bind (put_u64 t (advance 3 s)) (put_u64 c))"
    using assms(1,3)
    by (simp add: put_header_def ensure_True Header_size_def make_header_def bind_assoc)
  also have "\<dots> = Some (written ?b ?s2)"
    by (simp add: s1 s3)
  also have "written ?b ?s2 = written (enc_header [0, 0, 0] (make_header t c)) s"
  proof -
    have "patch (?p + 8) ?b (patch ?p ?a ?m) = patch ?p (?a @ [0, 0, 0] @ ?b) ?m"
    proof -
      have "take (?p + 8) (patch ?p ?a ?m) = take ?p ?m @ ?a @ segment (?p + 5) 3 ?m"
        using le by (simp add: patch_def MAGIC_def segment_def eval_nat_numeral(3) [of "Num.Bit0 Num.One"] add.commute [of 5] numeral_eq_Suc)
      moreover have "drop (?p + 24) (patch ?p ?a ?m) = drop (?p + 24) ?m"
        using le by (simp add: drop_patch_after MAGIC_def)
      ultimately show ?thesis
        unfolding patch_def [of "?p + 8"] patch_def [of ?p "?a @ [0, 0, 0] @ ?b"]
        by (simp add: z MAGIC_def add.commute)
    qed
    then show ?thesis
      by (simp add: written_def advance_def enc_header_def make_header_def MAGIC_def add.commute)
  qed
  finally show ?thesis .
qed

lemma initial_buffer_spec:
  "\<exists>buf. initial_buffer t c = Some buf \<and> length buf = MAX_MESSAGE_SIZE \<and>
    take Header_size buf = enc_header [0, 0, 0] (make_header t c)"
proof -
  let ?m = "replicate MAX_MESSAGE_SIZE (0 :: u8)"
  let ?e = "enc_header [0, 0, 0] (make_header t c)"
  have l: "length ?m = 65504" by (simp add: MAX_MESSAGE_SIZE_def)
  have wf: "ser_wf (ser_of ?m)" by (intro ser_wf_of) (simp only: l, simp)
  have rem: "remaining (ser_of ?m) = 65504"
    using remaining_wf [OF wf] by (simp add: ser_fields MAX_MESSAGE_SIZE_def)
  have e: "length ?e = 24"
    by (simp add: length_enc_header good_header_def make_header_def)
  have z: "segment (ser_pos (ser_of ?m) + 5) 3 (ser_mem (ser_of ?m)) = [0, 0, 0]"
    by (simp add: ser_fields segment_def MAX_MESSAGE_SIZE_def numeral_3_eq_3)
  have "put_header (make_header t c) (ser_of ?m) = Some (written ?e (ser_of ?m))"
    using rem by (intro put_header_write [OF _ wf _ z]) (simp_all add: ser_fields)
  then have "initial_buffer t c = Some (patch 0 ?e ?m)"
    by (simp add: initial_buffer_def written_def ser_fields)
  moreover have "length (patch 0 ?e ?m) = MAX_MESSAGE_SIZE"
    using e l by (simp add: length_patch)
  moreover have "take Header_size (patch 0 ?e ?m) = ?e"
    using e l by (simp add: patch_def Header_size_def)
  ultimately show ?thesis by blast
qed

lemma sender_init_spec:
  assumes "sender_init ca cfg t = Some st" and "ca_refuses ca"
  shows "queue_inv st" "buffer_wf st" "snd_deque st = []" "snd_seq_no st = 0" "snd_sent st = []"
    "take Header_size (snd_buffer st) = enc_header [0, 0, 0] (make_header t (cfg_hash cfg))"
    "create_channels ca cfg = Some (snd_channels st)"
proof -
  obtain buf where b: "initial_buffer t (cfg_hash cfg) = Some buf" "length buf = MAX_MESSAGE_SIZE"
    "take Header_size buf = enc_header [0, 0, 0] (make_header t (cfg_hash cfg))"
    using initial_buffer_spec by blast
  obtain chs where c: "create_channels ca cfg = Some chs"
    using assms(1) b(1) by (auto simp: sender_init_def Let_def bind_eq_Some_conv)
  have st: "snd_channels st = chs" "snd_buffer st = buf" "snd_deque st = []" "snd_seq_no st = 0" "snd_sent st = []"
    using assms(1) b(1) c by (auto simp: sender_init_def Let_def)
  note s = create_channels_spec [OF c]
  have "\<not> pending_root chs i" for i
    using s(4) [OF assms(2)] by (auto simp: pending_root_def fresh_def)
  then show "queue_inv st"
    using s(1) st by (simp add: queue_inv_def)
  show "buffer_wf st" "snd_deque st = []" "snd_seq_no st = 0" "snd_sent st = []"
    "take Header_size (snd_buffer st) = enc_header [0, 0, 0] (make_header t (cfg_hash cfg))"
    "create_channels ca cfg = Some (snd_channels st)"
    using st b c by (simp_all add: buffer_wf_def)
qed

lemma receiver_init_spec:
  assumes "receiver_init cfg now = Some rc"
  shows "link_ready (make_header t (cfg_hash cfg)) [0, 0, 0] rc"
    and "in_order 0 (admit (make_header t (cfg_hash cfg)) rc)"
    and "rc_channels rc = rx_block 0 (flat_channel_names cfg)" and "rc_calls rc = []"
proof -
  obtain chs where c: "rx_create_channels cfg = Some chs" and rc: "rc_channels rc = chs" "rc_config_hash rc = cfg_hash cfg"
    "rc_buffer rc = replicate MAX_MESSAGE_SIZE 0" "rc_last_startup_time rc = 0" "rc_last_seq_no rc = - 1" "rc_calls rc = []"
    using assms by (auto simp: receiver_init_def)
  show "link_ready (make_header t (cfg_hash cfg)) [0, 0, 0] rc"
    by (simp add: link_ready_def rc good_header_def make_header_def)
  show "in_order 0 (admit (make_header t (cfg_hash cfg)) rc)"
    by (simp add: in_order_def admit_def validate_sender_def rc)
  show "rc_channels rc = rx_block 0 (flat_channel_names cfg)" "rc_calls rc = []"
    using rc rx_create_channels_spec [OF c] by simp_all
qed

end
