(* ===== verification/CA_Events.thy ===== *)
theory CA_Events
  imports CA_Setup
begin

text \<open>
  The callbacks and the periodic work of the Channel Access sender: they keep the sender well-formed,
  queue the right channels and send nothing themselves; what a heartbeat covers.
\<close>

subsection \<open>Changing one channel\<close>

text \<open>Changes of a channel that leave its place in the groups and in the queue alone.\<close>

definition same_place :: "ca_channel \<Rightarrow> ca_channel \<Rightarrow> bool" where
  "same_place c c' \<longleftrightarrow> ch_index c' = ch_index c \<and> ch_parent_index c' = ch_parent_index c \<and>
     ch_pending_update c' = ch_pending_update c"

lemma pending_root_set:
  assumes "same_place (snd_channels st ! i) c"
  shows "pending_root (snd_channels (set_channel i c st)) = pending_root (snd_channels st)"
proof
  fix j
  show "pending_root (snd_channels (set_channel i c st)) j = pending_root (snd_channels st) j"
    using assms by (cases "j = i") (auto simp: pending_root_def same_place_def is_channel_def nth_list_update)
qed

lemma queue_inv_set:
  assumes "queue_inv st" and "same_place (snd_channels st ! i) c"
  shows "queue_inv (set_channel i c st)"
proof -
  have "chans_wf (snd_channels (set_channel i c st))"
    using assms by (auto simp: queue_inv_def same_place_def intro: chans_wf_update)
  then show ?thesis
    using assms by (simp add: queue_inv_def pending_root_set [OF assms(2)] del: set_channel_fields(1))
qed

lemma root_of_set:
  "same_place (snd_channels st ! i) c \<Longrightarrow> root_of (set_channel i c st) = root_of st"
  by (intro root_of_set_channel) (simp add: same_place_def)

definition mark_queue :: "nat \<Rightarrow> nat list \<Rightarrow> nat list" where
  "mark_queue r q = (if r \<in> set q then q else q @ [r])"

text \<open>\<open>stays\<close>: the fields a callback or the heartbeat never touches.\<close>

definition stays :: "ca_sender \<Rightarrow> ca_sender \<Rightarrow> bool" where
  "stays st st' \<longleftrightarrow>
     snd_seq_no st' = snd_seq_no st \<and> snd_buffer st' = snd_buffer st \<and> snd_sent st' = snd_sent st \<and>
     snd_iteration st' = snd_iteration st \<and> length (snd_channels st') = length (snd_channels st) \<and>
     root_of st' = root_of st"

lemma stays_refl [simp]: "stays st st"
  by (simp add: stays_def)

lemma stays_trans: "stays st st1 \<Longrightarrow> stays st1 st2 \<Longrightarrow> stays st st2"
  by (simp add: stays_def)

lemma mark_root_stays: "stays st (mark_root r st)"
  by (simp add: stays_def mark_root_def Let_def set_channel_def) (simp add: root_of_def fun_eq_iff list_update_field)

lemma set_channel_stays:
  "same_place (snd_channels st ! i) c \<Longrightarrow> stays st (set_channel i c st)"
  by (simp add: stays_def root_of_set) (simp add: set_channel_def)

lemma set_then_mark:
  assumes inv: "queue_inv st" and i: "i < length (snd_channels st)" and c: "same_place (snd_channels st ! i) c"
  shows "\<exists>st'. mark_update i (set_channel i c st) = Some st' \<and> queue_inv st' \<and> stays st st' \<and>
    snd_deque st' = mark_queue (root_of st i) (snd_deque st)"
proof -
  let ?st = "set_channel i c st"
  have inv': "queue_inv ?st" and i': "i < length (snd_channels ?st)"
    using queue_inv_set [OF inv c] i by simp_all
  then have "mark_update i ?st = Some (mark_root (root_of ?st i) ?st)"
    by (intro mark_update_root) (simp_all add: queue_inv_def)
  moreover note queue_inv_mark [OF inv' i']
  moreover have "stays st (mark_root (root_of ?st i) ?st)"
    using stays_trans [OF set_channel_stays [OF c] mark_root_stays] .
  ultimately show ?thesis
    by (simp add: root_of_set [OF c] mark_queue_def)
qed

subsection \<open>Value events\<close>

text \<open>The event carries a value the handler copies completely.\<close>

definition wf_event :: "ca_env \<Rightarrow> evargs \<Rightarrow> bool" where
  "wf_event env args \<longleftrightarrow> unat (env_dbr_size_n env (ev_type args) (ev_count args)) \<le> length (ev_dbr args)"

definition event_value :: "ca_env \<Rightarrow> evargs \<Rightarrow> bytes" where
  "event_value env args = take (unat (env_dbr_size_n env (ev_type args) (ev_count args))) (ev_dbr args)"

text \<open>Whether the handler queues the channel: always, but for a polled one only if its value is new.\<close>

definition event_marks :: "ca_env \<Rightarrow> ca_channel \<Rightarrow> evargs \<Rightarrow> bool" where
  "event_marks env c args \<longleftrightarrow>
     ev_status args = ECA_NORMAL \<and>
     (ch_is_polled c \<longrightarrow> \<not> ch_value_hash_initialized c \<or> length (ch_value c) \<noteq> length (event_value env args) \<or>
        value_hash (env_mem_hash env) (event_value env args) (length (event_value env args)) \<noteq> Some (ch_value_hash c))"

lemma event_handler_spec:
  assumes inv: "queue_inv st" and i: "i < length (snd_channels st)" and wf: "wf_event env args"
  shows "\<exists>st'. event_handler env i args st = Some st' \<and> queue_inv st' \<and> stays st st' \<and>
    snd_deque st' = (if event_marks env (snd_channels st ! i) args
      then mark_queue (root_of st i) (snd_deque st) else snd_deque st)"
proof -
  let ?c = "snd_channels st ! i"
  let ?n = "unat (env_dbr_size_n env (ev_type args) (ev_count args))"
  let ?v = "event_value env args"
  have len: "length ?v = ?n" and v: "take ?n (ev_dbr args) = ?v"
    using wf by (simp_all add: event_value_def wf_event_def)
  show ?thesis
  proof (cases "ev_status args = ECA_NORMAL")
    case False
    let ?c1 = "?c\<lparr>ch_status := ev_status args\<rparr>"
    have "same_place ?c ?c1" by (simp add: same_place_def)
    with False i show ?thesis
      using queue_inv_set [OF inv, of i ?c1] set_channel_stays [of st i ?c1]
      by (simp add: event_handler_def Let_def event_marks_def)
  next
    case ok: True
    let ?c1 = "?c\<lparr>ch_status := ECA_NORMAL, ch_count := ev_count args, ch_value := ?v\<rparr>"
    obtain hash where hash: "value_hash (env_mem_hash env) ?v ?n = Some hash"
      using len by (cases "value_hash (env_mem_hash env) ?v ?n") (auto simp: value_hash_def split: if_splits)
    let ?c2 = "?c1\<lparr>ch_value_hash_initialized := True, ch_value_hash := hash\<rparr>"
    have sp: "same_place ?c ?c1" "same_place ?c ?c2" by (simp_all add: same_place_def)
    have eh: "event_handler env i args st =
        (if ch_is_polled ?c then
           if \<not> ch_value_hash_initialized ?c \<or> length (ch_value ?c) \<noteq> ?n \<or> ch_value_hash ?c \<noteq> hash
           then mark_update i (set_channel i ?c2 st) else Some (set_channel i ?c1 st)
         else mark_update i (set_channel i ?c1 st))"
      using ok i wf by (simp add: event_handler_def Let_def v hash wf_event_def not_less)
    show ?thesis
      unfolding eh
      using set_then_mark [OF inv i sp(1)] set_then_mark [OF inv i sp(2)]
        queue_inv_set [OF inv sp(1)] set_channel_stays [OF sp(1)] ok hash len
      by (auto simp: event_marks_def)
  qed
qed

subsection \<open>Connection events\<close>

lemma connection_up_spec:
  assumes inv: "queue_inv st" and i: "i < length (snd_channels st)"
    and name: "ch_channel_id (snd_channels st ! i) = Some n"
  shows "\<exists>st'. connection_up env i t cnt sub st = Some st' \<and> queue_inv st' \<and> stays st st' \<and>
    snd_deque st' = snd_deque st"
proof -
  let ?c = "snd_channels st ! i"
  have q: "queue_inv (s\<lparr>snd_ca_calls := x\<rparr>) = queue_inv s" "stays st (s\<lparr>snd_ca_calls := x\<rparr>) = stays st s" for s x
    by (simp_all add: queue_inv_def stays_def root_of_def fun_eq_iff)
  have sp: "same_place ?c c \<Longrightarrow> queue_inv (set_channel i c st) \<and> stays st (set_channel i c st)" for c
    using queue_inv_set [OF inv] set_channel_stays by blast
  show ?thesis
    using i name by (auto simp: connection_up_def Let_def q intro!: sp simp: same_place_def)
qed

lemma connection_down_spec:
  assumes inv: "queue_inv st" and i: "i < length (snd_channels st)"
  shows "\<exists>st'. connection_down i st = Some st' \<and> queue_inv st' \<and> stays st st' \<and>
    snd_deque st' = mark_queue (root_of st i) (snd_deque st)"
  using i set_then_mark [OF inv i, of "(snd_channels st ! i)
      \<lparr>ch_status := ECA_DISCONN, ch_count := - 1, ch_value := []\<rparr>"]
  by (simp add: connection_down_def same_place_def)

text \<open>A connection event is well-formed when the channel of a connection was created.\<close>

fun wf_ca_event :: "ca_env \<Rightarrow> ca_sender \<Rightarrow> ca_event \<Rightarrow> bool" where
  "wf_ca_event env st (ValueEvent i args) \<longleftrightarrow> i < length (snd_channels st) \<and> wf_event env args"
| "wf_ca_event env st (ConnectionEvent i e) \<longleftrightarrow> i < length (snd_channels st) \<and>
     (\<exists>n. ch_channel_id (snd_channels st ! i) = Some n)"

fun ca_event_marks :: "ca_env \<Rightarrow> ca_sender \<Rightarrow> ca_event \<Rightarrow> bool" where
  "ca_event_marks env st (ValueEvent i args) \<longleftrightarrow> event_marks env (snd_channels st ! i) args"
| "ca_event_marks env st (ConnectionEvent i e) \<longleftrightarrow> (e = CONN_DOWN)"

fun ca_event_channel :: "ca_event \<Rightarrow> nat" where
  "ca_event_channel (ValueEvent i args) = i"
| "ca_event_channel (ConnectionEvent i e) = i"

lemma handle_ca_event_spec:
  assumes inv: "queue_inv st" and wf: "wf_ca_event env st e"
  shows "\<exists>st'. handle_ca_event env e st = Some st' \<and> queue_inv st' \<and> stays st st' \<and>
    snd_deque st' = (if ca_event_marks env st e
      then mark_queue (root_of st (ca_event_channel e)) (snd_deque st) else snd_deque st)"
proof (cases e)
  case (ValueEvent i args)
  then show ?thesis
    using event_handler_spec [OF inv, of i env args] wf by auto
next
  case (ConnectionEvent i ce)
  show ?thesis
  proof (cases ce)
    case (CONN_UP t n sub)
    then show ?thesis
      using connection_up_spec [OF inv, of i] wf ConnectionEvent by fastforce
  next
    case CONN_DOWN
    then show ?thesis
      using connection_down_spec [OF inv, of i] wf ConnectionEvent by simp
  next
    case CONN_OTHER
    then show ?thesis
      using inv ConnectionEvent by simp
  qed
qed

subsection \<open>Heartbeat\<close>

text \<open>What one heartbeat call does to the root of the channel: queue it when nothing was sent for it
  since its counter was reset, and reset the counter.\<close>

definition idle :: "ca_sender \<Rightarrow> nat \<Rightarrow> bool" where
  "idle st r \<longleftrightarrow> ch_updates_since_last_hb (snd_channels st ! r) = 0"

definition hb_root :: "nat \<Rightarrow> ca_sender \<Rightarrow> ca_sender" where
  "hb_root r st = reset_hb r (if idle st r then mark_root r st else st)"

lemma reset_hb_stays: "queue_inv st \<Longrightarrow> queue_inv (reset_hb r st) \<and> stays st (reset_hb r st) \<and> snd_deque (reset_hb r st) = snd_deque st"
  unfolding reset_hb_def
  by (intro conjI queue_inv_set set_channel_stays) (simp_all add: same_place_def)

lemma mark_heartbeat_root:
  assumes inv: "queue_inv st" and i: "i < length (snd_channels st)"
  shows "mark_heartbeat_update i st = Some (idle st (root_of st i), hb_root (root_of st i) st)"
proof -
  let ?r = "root_of st i"
  have wf: "chans_wf (snd_channels st)" using inv by (simp add: queue_inv_def)
  note d = chans_wfD [OF wf i]
  have rl: "?r < length (snd_channels st)" and rr: "root_of st ?r = ?r"
    using d by (simp_all add: root_of_def)
  have m: "mark_update ?r st = Some (mark_root ?r st)"
    using mark_update_root [OF wf rl] rr by simp
  have r: "mark_heartbeat_update ?r st = Some (idle st ?r, hb_root ?r st)"
    using d rl m by (subst mark_heartbeat_update.simps)
      (auto simp: root_of_def is_field_def idle_def hb_root_def Let_def)
  show ?thesis
  proof (cases "is_channel (snd_channels st ! i)")
    case True
    with d r show ?thesis by (simp add: root_of_def)
  next
    case False
    with i have "mark_heartbeat_update i st = mark_heartbeat_update ?r st"
      by (subst mark_heartbeat_update.simps) (simp add: is_field_def root_of_def)
    with r show ?thesis by simp
  qed
qed

lemma hb_root_spec:
  assumes inv: "queue_inv st" and r: "r < length (snd_channels st)" "root_of st r = r"
  shows "queue_inv (hb_root r st)" "stays st (hb_root r st)"
    "snd_deque (hb_root r st) = (if idle st r then mark_queue r (snd_deque st) else snd_deque st)"
    "idle (hb_root r st) j \<longleftrightarrow> j = r \<or> idle st j"
proof -
  note m = queue_inv_mark [OF inv r(1), unfolded r(2)]
  have s: "stays st (mark_root r st)" by (rule mark_root_stays)
  show "queue_inv (hb_root r st)" "stays st (hb_root r st)"
    "snd_deque (hb_root r st) = (if idle st r then mark_queue r (snd_deque st) else snd_deque st)"
    using reset_hb_stays [OF m(1), of r] reset_hb_stays [OF inv, of r] m(2) stays_trans [OF s]
    by (simp_all add: hb_root_def mark_queue_def)
  show "idle (hb_root r st) j \<longleftrightarrow> j = r \<or> idle st j"
    using r(1) by (auto simp: hb_root_def idle_def reset_hb_def mark_root_def Let_def nth_list_update)
qed

text \<open>
  The heartbeat visits every channel, so a root is visited once for itself and once more for each
  field of its group. \<open>hb_run\<close> is the queue after the visits to the roots \<open>rs\<close>.
\<close>

fun hb_run :: "(nat \<Rightarrow> bool) \<Rightarrow> nat list \<Rightarrow> nat list \<Rightarrow> nat list" where
  "hb_run idle_now q [] = q"
| "hb_run idle_now q (r # rs) =
     hb_run (\<lambda>j. j = r \<or> idle_now j) (if idle_now r then mark_queue r q else q) rs"

lemma heartbeat_fold:
  assumes "queue_inv st" and "\<forall>i \<in> set is. i < length (snd_channels st)"
  shows "\<exists>st' m k. foldM heartbeat_step is (st, a, b) = Some (st', m, k) \<and> queue_inv st' \<and> stays st st' \<and>
    snd_deque st' = hb_run (idle st) (snd_deque st) (map (root_of st) is) \<and>
    (\<forall>j. idle st' j \<longleftrightarrow> idle st j \<or> j \<in> root_of st ` set is)"
  using assms
proof (induction "is" arbitrary: st a b)
  case Nil
  then show ?case by simp
next
  case (Cons i "is")
  let ?r = "root_of st i" and ?st = "hb_root (root_of st i) st"
  have i: "i < length (snd_channels st)" using Cons.prems by simp
  have wf: "chans_wf (snd_channels st)" using Cons.prems(1) by (simp add: queue_inv_def)
  have r: "?r < length (snd_channels st)" "root_of st ?r = ?r"
    using chans_wfD [OF wf i] by (simp_all add: root_of_def)
  note h = hb_root_spec [OF Cons.prems(1) r]
  have il: "i < length (snd_channels ?st)"
    using h(2) i by (simp add: stays_def)
  obtain a' b' where step: "heartbeat_step i (st, a, b) = Some (?st, a', b')"
    using mark_heartbeat_root [OF Cons.prems(1) i] il by (simp add: heartbeat_step_def)
  have valid: "\<forall>i \<in> set is. i < length (snd_channels ?st)"
    using h(2) Cons.prems(2) by (simp add: stays_def)
  obtain st' m k where ih: "foldM heartbeat_step is (?st, a', b') = Some (st', m, k)" "queue_inv st'" "stays ?st st'"
    "snd_deque st' = hb_run (idle ?st) (snd_deque ?st) (map (root_of ?st) is)"
    "\<forall>j. idle st' j \<longleftrightarrow> idle ?st j \<or> j \<in> root_of ?st ` set is"
    using Cons.IH [OF h(1) valid, of a' b'] by (elim exE conjE) (rule that)
  have ro: "root_of ?st = root_of st"
    using h(2) by (simp add: stays_def)
  have idle: "idle ?st = (\<lambda>j. j = ?r \<or> idle st j)"
    using h(4) by (simp add: fun_eq_iff)
  show ?case
  proof (intro exI conjI)
    show "foldM heartbeat_step (i # is) (st, a, b) = Some (st', m, k)"
      by (simp add: step ih(1))
    show "snd_deque st' = hb_run (idle st) (snd_deque st) (map (root_of st) (i # is))"
      using ih(4) h(3) by (simp add: ro idle)
    show "\<forall>j. idle st' j \<longleftrightarrow> idle st j \<or> j \<in> root_of st ` set (i # is)"
      using ih(5) by (auto simp: ro idle)
  qed (use ih(2,3) stays_trans [OF h(2)] in blast)+
qed

lemma set_hb_run:
  "r \<in> set (hb_run idl q rs) \<longleftrightarrow> r \<in> set q \<or> (r \<in> set rs \<and> (idl r \<or> 2 \<le> count_list rs r))"
proof (induction idl q rs rule: hb_run.induct)
  case (2 idl q x rs)
  have "Suc 0 \<le> count_list rs r \<longleftrightarrow> r \<in> set rs"
    by (metis One_nat_def Suc_le_eq count_list_0_iff gr0I less_numeral_extra(3))
  then show ?case
    using 2 by (auto simp: mark_queue_def)
qed simp

text \<open>The members of the group of a root: the channels whose root it is.\<close>

definition members :: "ca_sender \<Rightarrow> nat \<Rightarrow> nat set" where
  "members st r = {i. i < length (snd_channels st) \<and> root_of st i = r}"

lemma count_members: "count_list (map (root_of st) [0 ..< length (snd_channels st)]) r = card (members st r)"
proof -
  have "count_list (map f [0 ..< n]) r = card {i. i < n \<and> f i = r}" for f :: "nat \<Rightarrow> nat" and n
  proof (induction n)
    case (Suc n)
    have "{i. i < Suc n \<and> f i = r} = (if f n = r then insert n {i. i < n \<and> f i = r} else {i. i < n \<and> f i = r})"
      by (auto simp: less_Suc_eq)
    with Suc show ?case by simp
  qed simp
  then show ?thesis by (simp add: members_def)
qed

lemma heartbeat_spec:
  assumes inv: "queue_inv st" and ne: "snd_channels st \<noteq> []"
  shows "\<exists>st' pc pm. mark_heartbeat_updates st = Some (st', pc, pm) \<and> queue_inv st' \<and> stays st st' \<and>
    (\<forall>r. r \<in> set (snd_deque st') \<longleftrightarrow>
       r \<in> set (snd_deque st) \<or> (members st r \<noteq> {} \<and> (idle st r \<or> 2 \<le> card (members st r)))) \<and>
    (\<forall>i < length (snd_channels st). idle st' (root_of st i))"
proof -
  let ?is = "[0 ..< length (snd_channels st)]"
  obtain st' m k where f: "foldM heartbeat_step ?is (st, 0, 0) = Some (st', m, k)" "queue_inv st'" "stays st st'"
    "snd_deque st' = hb_run (idle st) (snd_deque st) (map (root_of st) ?is)"
    "\<forall>j. idle st' j \<longleftrightarrow> idle st j \<or> j \<in> root_of st ` set ?is"
    using heartbeat_fold [OF inv, of ?is 0 0] by auto
  have mem: "r \<in> set (map (root_of st) ?is) \<longleftrightarrow> members st r \<noteq> {}" for r
    by (auto simp: members_def)
  have "mark_heartbeat_updates st = Some (st', 100 * m div length (snd_channels st), 100 * k div length (snd_channels st))"
    using f(1) ne by (simp add: mark_heartbeat_updates_def Let_def)
  moreover have "r \<in> set (snd_deque st') \<longleftrightarrow>
       r \<in> set (snd_deque st) \<or> (members st r \<noteq> {} \<and> (idle st r \<or> 2 \<le> card (members st r)))" for r
    unfolding f(4) set_hb_run count_members mem ..
  moreover have "\<forall>i < length (snd_channels st). idle st' (root_of st i)"
    using f(5) by auto
  ultimately show ?thesis
    using f(2,3) by blast
qed

end
