(* ===== verification/CA_Run.thy ===== *)
theory CA_Run
  imports CA_Drain CA_Events
begin

text \<open>
  The run loop of the sender: what a sequence of library callbacks does to the queue, that the
  heartbeat leaves the values alone, and that every turn of the loop ends with an empty queue.
\<close>

subsection \<open>A sequence of callbacks\<close>

fun events_ok :: "ca_env \<Rightarrow> ca_sender \<Rightarrow> ca_event list \<Rightarrow> bool" where
  "events_ok env st [] \<longleftrightarrow> True"
| "events_ok env st (e # es) \<longleftrightarrow> wf_ca_event env st e \<and>
     (case handle_ca_event env e st of Some st' \<Rightarrow> events_ok env st' es | None \<Rightarrow> True)"

text \<open>The channels whose event asked for an update, in order.\<close>

fun marked_by :: "ca_env \<Rightarrow> ca_sender \<Rightarrow> ca_event list \<Rightarrow> nat list" where
  "marked_by env st [] = []"
| "marked_by env st (e # es) =
     (if ca_event_marks env st e then [ca_event_channel e] else []) @
     (case handle_ca_event env e st of Some st' \<Rightarrow> marked_by env st' es | None \<Rightarrow> [])"

lemma events_run:
  assumes "queue_inv st" and "events_ok env st evs"
  shows "\<exists>st'. foldM (handle_ca_event env) evs st = Some st' \<and> queue_inv st' \<and> stays st st' \<and>
    snd_deque st' = enq_new (snd_deque st) (map (root_of st) (marked_by env st evs))"
  using assms
proof (induction evs arbitrary: st)
  case Nil
  then show ?case by simp
next
  case (Cons e es)
  obtain st1 where s1: "handle_ca_event env e st = Some st1" "queue_inv st1" "stays st st1"
    "snd_deque st1 = (if ca_event_marks env st e
      then mark_queue (root_of st (ca_event_channel e)) (snd_deque st) else snd_deque st)"
    using handle_ca_event_spec [OF Cons.prems(1), of env e] Cons.prems(2) by auto
  have ok: "events_ok env st1 es"
    using Cons.prems(2) s1(1) by simp
  from Cons.IH [OF s1(2) ok] obtain st2 where s2: "foldM (handle_ca_event env) es st1 = Some st2"
    "queue_inv st2" "stays st1 st2"
    "snd_deque st2 = enq_new (snd_deque st1) (map (root_of st1) (marked_by env st1 es))"
    by (elim exE conjE) (rule that)
  have ro: "root_of st1 = root_of st"
    using s1(3) by (simp add: stays_def)
  have "snd_deque st2 = enq_new (snd_deque st) (map (root_of st) (marked_by env st (e # es)))"
    using s2(4) s1(1,4) by (simp add: ro mark_queue_def)
  then show ?case
    using s1(1) s2(1,2) stays_trans [OF s1(3) s2(3)] by simp
qed

subsection \<open>Operations that keep the values\<close>

definition same_data :: "ca_channel list \<Rightarrow> ca_channel list \<Rightarrow> bool" where
  "same_data chs chs' \<longleftrightarrow> length chs' = length chs \<and>
     (\<forall>j. payload (chs' ! j) = payload (chs ! j) \<and> ch_index (chs' ! j) = ch_index (chs ! j) \<and>
       ch_parent_index (chs' ! j) = ch_parent_index (chs ! j) \<and>
       frag_template (chs' ! j) = frag_template (chs ! j))"

lemma same_data_refl [simp]: "same_data chs chs"
  by (simp add: same_data_def)

lemma same_data_trans: "same_data a b \<Longrightarrow> same_data b c \<Longrightarrow> same_data a c"
  by (simp add: same_data_def)

lemma same_data_update:
  assumes "payload c = payload (chs ! i)" "ch_index c = ch_index (chs ! i)"
    "ch_parent_index c = ch_parent_index (chs ! i)" "frag_template c = frag_template (chs ! i)"
  shows "same_data chs (chs[i := c])"
  unfolding same_data_def using assms by (simp add: list_update_field)

lemma same_data_content:
  assumes "same_data chs chs'"
  shows "group_payload chs' q = group_payload chs q" "needs_fragments (chs' ! q) = needs_fragments (chs ! q)"
    "queued_content chs' q = queued_content chs q" "sendable chs' q = sendable chs q"
proof -
  have len: "length chs' = length chs" and
    f: "\<And>j. payload (chs' ! j) = payload (chs ! j)" "\<And>j. ch_index (chs' ! j) = ch_index (chs ! j)"
    "\<And>j. ch_parent_index (chs' ! j) = ch_parent_index (chs ! j)"
    "\<And>j. frag_template (chs' ! j) = frag_template (chs ! j)"
    using assms unfolding same_data_def by blast+
  have v: "ch_value (chs' ! j) = ch_value (chs ! j)" for j
    using f(1) [of j] by (simp add: payload_def)
  have e: "end_group_loop chs' j = end_group_loop chs j" for j
    by (rule end_group_loop_cong) (simp_all add: f len)
  show g: "group_payload chs' q = group_payload chs q"
    by (simp add: group_payload_def group_members_def comp_def end_group_id_def start_group_id_def f e)
  show n: "needs_fragments (chs' ! q) = needs_fragments (chs ! q)"
    by (simp add: needs_fragments_def v)
  show "queued_content chs' q = queued_content chs q" "sendable chs' q = sendable chs q"
    by (simp_all add: queued_content_def sendable_def g n f v)
qed

lemma mark_root_data: "same_data (snd_channels st) (snd_channels (mark_root r st))"
  by (auto simp: mark_root_def Let_def payload_def channel_header_def frag_template_def frag_header_def intro!: same_data_update)

lemma reset_hb_data: "same_data (snd_channels st) (snd_channels (reset_hb r st))"
  by (auto simp: reset_hb_def payload_def channel_header_def frag_template_def frag_header_def intro!: same_data_update)

lemma hb_root_data: "same_data (snd_channels st) (snd_channels (hb_root r st))"
  using same_data_trans [OF mark_root_data reset_hb_data] reset_hb_data by (simp add: hb_root_def)

lemma heartbeat_fold_data:
  assumes "queue_inv st" and "\<forall>i \<in> set is. i < length (snd_channels st)"
  shows "\<exists>r. foldM heartbeat_step is (st, a, b) = Some r \<and> queue_inv (fst r) \<and> stays st (fst r) \<and>
    same_data (snd_channels st) (snd_channels (fst r))"
proof (rule exE [OF foldM_inv [where P = "\<lambda>r. queue_inv (fst r) \<and> stays st (fst r) \<and>
    same_data (snd_channels st) (snd_channels (fst r))" and s = "(st, a, b)"]])
  fix i and r :: "ca_sender \<times> nat \<times> nat"
  assume i: "i \<in> set is"
    and p: "queue_inv (fst r) \<and> stays st (fst r) \<and> same_data (snd_channels st) (snd_channels (fst r))"
  obtain s m k where r: "r = (s, m, k)" by (cases r)
  have inv: "queue_inv s" and il: "i < length (snd_channels s)"
    using p assms(2) i by (auto simp: r stays_def)
  have wf: "chans_wf (snd_channels s)" using inv by (simp add: queue_inv_def)
  have rt: "root_of s i < length (snd_channels s)" "root_of s (root_of s i) = root_of s i"
    using chans_wfD [OF wf il] by (simp_all add: root_of_def)
  note h = hb_root_spec [OF inv rt]
  have "i < length (snd_channels (hb_root (root_of s i) s))"
    using h(2) il by (simp add: stays_def)
  then obtain m' k' where step: "heartbeat_step i r = Some (hb_root (root_of s i) s, m', k')"
    using mark_heartbeat_root [OF inv il] by (simp add: heartbeat_step_def r)
  show "\<exists>r'. heartbeat_step i r = Some r' \<and> queue_inv (fst r') \<and> stays st (fst r') \<and>
      same_data (snd_channels st) (snd_channels (fst r'))"
    using h(1,2) p step stays_trans [of st s] same_data_trans [OF _ hb_root_data, of "snd_channels st" s]
    by (intro exI [of _ "(hb_root (root_of s i) s, m', k')"]) (simp add: r)
qed (use assms in auto)

lemma heartbeat_data:
  assumes inv: "queue_inv st" and ne: "snd_channels st \<noteq> []"
  shows "\<exists>st' pc pm. mark_heartbeat_updates st = Some (st', pc, pm) \<and> queue_inv st' \<and> stays st st' \<and>
    same_data (snd_channels st) (snd_channels st')"
proof -
  obtain st' m k where "foldM heartbeat_step [0 ..< length (snd_channels st)] (st, 0, 0) = Some (st', m, k)"
    "queue_inv st'" "stays st st'" "same_data (snd_channels st) (snd_channels st')"
    using heartbeat_fold_data [OF inv, of "[0 ..< length (snd_channels st)]" 0 0] by fastforce
  then show ?thesis
    using ne by (simp add: mark_heartbeat_updates_def Let_def)
qed

subsection \<open>A turn of the loop\<close>

text \<open>The work of a turn between the callbacks and the sending.\<close>

definition periodic_work :: "ca_sender \<Rightarrow> ca_sender option" where
  "periodic_work st =
     (let st = st\<lparr>snd_iteration := snd_iteration st + 1\<rparr>;
          st = (if snd_iteration st mod snd_pf_iterations st = 0 then check_polled_fields st else st)
      in if snd_iteration st mod snd_hb_iterations st = 0
         then map_option fst (mark_heartbeat_updates st) else Some st)"

lemma run_iteration_parts:
  "run_iteration env evs st =
     Option.bind (foldM (handle_ca_event env) evs st) (\<lambda>st. Option.bind (periodic_work st) send_updates)"
  by (simp add: run_iteration_def periodic_work_def Let_def)

lemma queue_inv_frame [simp]:
  "queue_inv (st\<lparr>snd_iteration := n\<rparr>) = queue_inv st" "queue_inv (check_polled_fields st) = queue_inv st"
  by (simp_all add: queue_inv_def check_polled_fields_def)

lemma periodic_work_spec:
  assumes inv: "queue_inv st" and ne: "snd_channels st \<noteq> []"
  shows "\<exists>st'. periodic_work st = Some st' \<and> queue_inv st' \<and> snd_buffer st' = snd_buffer st \<and>
    snd_seq_no st' = snd_seq_no st \<and> snd_sent st' = snd_sent st \<and> snd_iteration st' = snd_iteration st + 1 \<and>
    same_data (snd_channels st) (snd_channels st')"
proof -
  let ?st1 = "st\<lparr>snd_iteration := snd_iteration st + 1\<rparr>"
  define st2 where "st2 = (if snd_iteration ?st1 mod snd_pf_iterations ?st1 = 0 then check_polled_fields ?st1 else ?st1)"
  have s2: "queue_inv st2" "snd_channels st2 = snd_channels st" "snd_buffer st2 = snd_buffer st"
    "snd_seq_no st2 = snd_seq_no st" "snd_sent st2 = snd_sent st" "snd_iteration st2 = snd_iteration st + 1"
    using inv by (simp_all add: st2_def) (simp_all add: check_polled_fields_def)
  have eq: "periodic_work st = (if snd_iteration st2 mod snd_hb_iterations st2 = 0
      then map_option fst (mark_heartbeat_updates st2) else Some st2)"
    unfolding periodic_work_def Let_def st2_def ..
  obtain st3 pc pm where h: "mark_heartbeat_updates st2 = Some (st3, pc, pm)" "queue_inv st3" "stays st2 st3"
    "same_data (snd_channels st2) (snd_channels st3)"
    using heartbeat_data [of st2] s2 ne by auto
  show ?thesis
    using h s2 by (simp add: eq stays_def)
qed

text \<open>What sending leaves alone: the counters of the loop and the number of channels.\<close>

definition loop_data :: "ca_sender \<Rightarrow> u64 \<times> u64 \<times> u64 \<times> double \<times> nat" where
  "loop_data st = (snd_iteration st, snd_pf_iterations st, snd_hb_iterations st, snd_update_period st,
     length (snd_channels st))"

lemma set_channel_loop [simp]: "loop_data (set_channel i c st) = loop_data st"
  by (simp add: set_channel_def loop_data_def)

lemma loop_data_frame [simp]:
  "loop_data (st\<lparr>snd_deque := q\<rparr>) = loop_data st" "loop_data (st\<lparr>snd_buffer := b\<rparr>) = loop_data st"
  "loop_data (st\<lparr>snd_seq_no := n\<rparr>) = loop_data st" "loop_data (udp_send p st) = loop_data st"
  by (simp_all add: loop_data_def udp_send_def)

lemma clear_update_loop: "clear_update i st = Some st' \<Longrightarrow> loop_data st' = loop_data st"
  by (rule clear_update.raw_induct [where P = "\<lambda>i st st'. loop_data st' = loop_data st", rotated], assumption)
    (auto split: option.splits if_splits list.splits)

lemma fill_updates_loop: "fill_updates st acc = Some r \<Longrightarrow> loop_data (fst (snd r)) = loop_data st"
  by (rule fill_updates.raw_induct [where P = "\<lambda>st acc r. loop_data (fst (snd r)) = loop_data st", rotated], assumption)
    (auto simp: Let_def case_prod_beta bind_eq_Some_conv split: list.splits if_splits dest!: clear_update_loop)

lemma send_fragment_loop: "send_fragment c q f r st = Some (k, st') \<Longrightarrow> loop_data st' = loop_data st"
  by (auto simp: send_fragment_def Let_def case_prod_beta bind_eq_Some_conv)

lemma fragment_loop_loop: "fragment_loop c q f r st = Some st' \<Longrightarrow> loop_data st' = loop_data st"
  by (rule fragment_loop.raw_induct [where P = "\<lambda>c q f r st st'. loop_data st' = loop_data st", rotated], assumption)
    (auto simp: bind_eq_Some_conv split: if_splits dest!: send_fragment_loop)

lemma send_fragmented_updates_loop: "send_fragmented_updates st = Some st' \<Longrightarrow> loop_data st' = loop_data st"
  by (rule send_fragmented_updates.raw_induct [where P = "\<lambda>st st'. loop_data st' = loop_data st", rotated], assumption)
    (auto simp: bind_eq_Some_conv send_fragmented_update_def split: if_splits list.splits dest!: clear_update_loop fragment_loop_loop)

lemma send_packet_loop: "send_packet st = Some (b, st') \<Longrightarrow> loop_data st' = loop_data st"
  by (auto simp: send_packet_def Let_def case_prod_beta bind_eq_Some_conv dest!: fill_updates_loop)

lemma send_updates_loop: "send_updates st = Some st' \<Longrightarrow> loop_data st' = loop_data st"
  by (rule send_updates.raw_induct [where P = "\<lambda>st st'. loop_data st' = loop_data st", rotated], assumption)
    (auto simp: bind_eq_Some_conv send_step_def split: if_splits prod.splits dest!: send_packet_loop send_fragmented_updates_loop)

subsection \<open>Turns\<close>

text \<open>What a turn keeps from one to the next.\<close>

definition sender_ok :: "ca_sender \<Rightarrow> bool" where
  "sender_ok st \<longleftrightarrow> queue_inv st \<and> buffer_wf st \<and> snd_channels st \<noteq> []"

lemma sent_items_empty:
  assumes "sent_items st is st'" and "snd_deque st' = []"
  shows "queue_inv st'" "buffer_wf st'" "take Header_size (snd_buffer st') = take Header_size (snd_buffer st)"
  using assms by (simp_all add: sent_items_def)

lemma send_updates_turn:
  assumes "queue_inv st" "buffer_wf st" "\<forall>q \<in> set (snd_deque st). sendable (snd_channels st) q"
  shows "\<exists>st'. send_updates st = Some st' \<and> queue_inv st' \<and> buffer_wf st' \<and> snd_deque st' = [] \<and>
    loop_data st' = loop_data st"
  using send_updates_drains [OF assms] send_updates_loop sent_items_empty(1,2) by blast

lemma run_iteration_drains:
  assumes st: "sender_ok st" and ok: "events_ok env st evs"
    and run: "foldM (handle_ca_event env) evs st = Some st1"
    and fit: "\<forall>q < length (snd_channels st1). sendable (snd_channels st1) q"
  shows "\<exists>st'. run_iteration env evs st = Some st' \<and> queue_inv st' \<and> buffer_wf st' \<and> snd_deque st' = [] \<and>
    snd_iteration st' = snd_iteration st + 1"
proof -
  have s1: "queue_inv st1" "stays st st1"
    using events_run [of st env evs] st ok run by (auto simp: sender_ok_def)
  then have "snd_channels st1 \<noteq> []" and buf: "snd_buffer st1 = snd_buffer st"
    and it: "snd_iteration st1 = snd_iteration st"
    using st by (auto simp: stays_def sender_ok_def)
  with periodic_work_spec [OF s1(1)] obtain st2 where s2: "periodic_work st1 = Some st2" "queue_inv st2"
    "snd_buffer st2 = snd_buffer st1" "snd_iteration st2 = snd_iteration st1 + 1"
    "same_data (snd_channels st1) (snd_channels st2)"
    by auto
  have "buffer_wf st2"
    using st buf s2(3) by (simp add: buffer_wf_def sender_ok_def)
  moreover have "sendable (snd_channels st2) q" if "q \<in> set (snd_deque st2)" for q
  proof -
    have "q < length (snd_channels st1)"
      using that s2(2,5) by (auto simp: queue_inv_def pending_root_def same_data_def)
    then show ?thesis
      using fit same_data_content(4) [OF s2(5)] by simp
  qed
  ultimately obtain st' where s': "send_updates st2 = Some st'" "queue_inv st'" "buffer_wf st'"
    "snd_deque st' = []" "loop_data st' = loop_data st2"
    using send_updates_turn [OF s2(2)] by blast
  then show ?thesis
    using run s2(1,4) it by (simp add: run_iteration_parts loop_data_def)
qed

text \<open>Every turn adds one to the iteration count.\<close>

lemma mark_update_loop: "mark_update i st = Some st' \<Longrightarrow> loop_data st' = loop_data st"
  by (rule mark_update.raw_induct [where P = "\<lambda>i st st'. loop_data st' = loop_data st", rotated], assumption)
    (auto split: option.splits if_splits)

lemma mark_heartbeat_update_loop:
  "mark_heartbeat_update i st = Some r \<Longrightarrow> loop_data (snd r) = loop_data st"
  by (rule mark_heartbeat_update.raw_induct [where P = "\<lambda>i st r. loop_data (snd r) = loop_data st", rotated], assumption)
    (auto simp: Let_def bind_eq_Some_conv reset_hb_def split: option.splits if_splits dest!: mark_update_loop)

lemma event_handler_loop: "event_handler env i args st = Some st' \<Longrightarrow> loop_data st' = loop_data st"
  by (auto simp: event_handler_def Let_def bind_eq_Some_conv split: if_splits dest!: mark_update_loop)

lemma ca_calls_loop [simp]: "loop_data (st\<lparr>snd_ca_calls := cs\<rparr>) = loop_data st"
  by (simp add: loop_data_def)

lemma if_SomeE: "(if b then x else y) = Some z \<Longrightarrow> (x = Some z \<Longrightarrow> P) \<Longrightarrow> (y = Some z \<Longrightarrow> P) \<Longrightarrow> P"
  by (cases b) simp_all

lemma connection_up_loop: "connection_up env i t n sub st = Some st' \<Longrightarrow> loop_data st' = loop_data st"
  unfolding connection_up_def Let_def bind_eq_Some_conv
  by (elim exE conjE if_SomeE; simp only: option.inject; hypsubst; simp)

lemma connection_down_loop: "connection_down i st = Some st' \<Longrightarrow> loop_data st' = loop_data st"
  by (auto simp: connection_down_def bind_eq_Some_conv dest!: mark_update_loop)

lemma handle_ca_event_loop: "handle_ca_event env e st = Some st' \<Longrightarrow> loop_data st' = loop_data st"
proof (cases e)
  case (ConnectionEvent i c)
  assume "handle_ca_event env e st = Some st'"
  with ConnectionEvent show ?thesis
    by (cases c) (auto dest: connection_up_loop connection_down_loop)
qed (simp add: event_handler_loop)

lemma foldM_frame:
  assumes "foldM f xs s = Some s'" and "\<And>x s s'. f x s = Some s' \<Longrightarrow> g s' = g s"
  shows "g s' = g s"
  using assms(1)
proof (induction xs arbitrary: s)
  case (Cons x xs)
  then obtain s1 where "f x s = Some s1" "foldM f xs s1 = Some s'"
    by (auto simp: bind_eq_Some_conv)
  with Cons.IH assms(2) show ?case by metis
qed simp

lemma heartbeat_step_loop: "heartbeat_step i r = Some r' \<Longrightarrow> loop_data (fst r') = loop_data (fst r)"
  by (cases r) (auto simp: heartbeat_step_def bind_eq_Some_conv dest!: mark_heartbeat_update_loop)

lemma mark_heartbeat_updates_loop: "mark_heartbeat_updates st = Some r \<Longrightarrow> loop_data (fst r) = loop_data st"
proof -
  assume "mark_heartbeat_updates st = Some r"
  then obtain q where "foldM heartbeat_step [0 ..< length (snd_channels st)] (st, 0, 0) = Some q" "fst r = fst q"
    by (auto simp: mark_heartbeat_updates_def Let_def bind_eq_Some_conv split: if_splits)
  with foldM_frame [of heartbeat_step _ _ q "\<lambda>r. loop_data (fst r)", OF _ heartbeat_step_loop] show ?thesis
    by simp
qed

lemma periodic_work_count: "periodic_work st = Some st' \<Longrightarrow> snd_iteration st' = snd_iteration st + 1"
proof -
  assume p: "periodic_work st = Some st'"
  let ?st1 = "st\<lparr>snd_iteration := snd_iteration st + 1\<rparr>"
  define st2 where "st2 = (if snd_iteration ?st1 mod snd_pf_iterations ?st1 = 0 then check_polled_fields ?st1 else ?st1)"
  have it: "snd_iteration st2 = snd_iteration st + 1"
    by (simp add: st2_def check_polled_fields_def)
  have "(if snd_iteration st2 mod snd_hb_iterations st2 = 0
      then map_option fst (mark_heartbeat_updates st2) else Some st2) = Some st'"
    using p unfolding periodic_work_def Let_def st2_def .
  then consider r where "mark_heartbeat_updates st2 = Some r" "st' = fst r" | "st' = st2"
    by (auto split: if_splits)
  then show ?thesis
    by cases (use it mark_heartbeat_updates_loop [of st2] in \<open>auto simp: loop_data_def\<close>)
qed

lemma run_iteration_count: "run_iteration env evs st = Some st' \<Longrightarrow> snd_iteration st' = snd_iteration st + 1"
proof -
  assume "run_iteration env evs st = Some st'"
  then obtain s1 s2 where s: "foldM (handle_ca_event env) evs st = Some s1" "periodic_work s1 = Some s2"
    "send_updates s2 = Some st'"
    by (auto simp: run_iteration_parts bind_eq_Some_conv)
  have "loop_data s1 = loop_data st"
    using foldM_frame [OF s(1), of loop_data] handle_ca_event_loop by blast
  moreover have "snd_iteration s2 = snd_iteration s1 + 1"
    by (rule periodic_work_count [OF s(2)])
  ultimately show ?thesis
    using send_updates_loop [OF s(3)] by (simp add: loop_data_def)
qed

lemma run_loop_unlimited: "run_loop env False n turns st = Some (left, st') \<Longrightarrow> \<not> left"
  by (induction turns arbitrary: st) (auto simp: bind_eq_Some_conv)

text \<open>The loop leaves by its runtime check in turn \<open>max 1 n\<close> when it is given so many turns.\<close>

lemma run_loop_count:
  assumes "run_loop env True n turns st = Some (left, st')" and "turns \<noteq> []"
    and "unat (snd_iteration st) + length turns < 2 ^ 64" and "snd_iteration st < n \<or> snd_iteration st = 0"
  shows "left \<longleftrightarrow> max 1 (unat n) \<le> unat (snd_iteration st) + length turns"
  using assms(1-4)
proof (induction turns arbitrary: st)
  case (Cons evs turns)
  obtain s1 where s1: "run_iteration env evs st = Some s1"
    and rest: "(if n \<le> snd_iteration s1 then Some (True, s1) else run_loop env True n turns s1) = Some (left, st')"
    using Cons.prems(1) by (auto simp: bind_eq_Some_conv)
  have it: "unat (snd_iteration s1) = unat (snd_iteration st) + 1"
    using run_iteration_count [OF s1] Cons.prems(3) by (simp add: unat_word_ariths)
  have cmp: "n \<le> snd_iteration s1 \<longleftrightarrow> unat n \<le> unat (snd_iteration st) + 1"
    by (simp add: word_le_nat_alt it)
  show ?case
  proof (cases "n \<le> snd_iteration s1")
    case True
    with rest cmp show ?thesis by auto
  next
    case False
    with rest have r: "run_loop env True n turns s1 = Some (left, st')" by simp
    show ?thesis
    proof (cases "turns = []")
      case True
      with r False cmp show ?thesis by auto
    next
      case ne: False
      from Cons.IH [OF r ne] False cmp it Cons.prems(3) show ?thesis
        by (auto simp: not_le)
    qed
  qed
qed simp

end
