(* ===== verification/CA_Reception.thy ===== *)
theory CA_Reception
  imports CA_Receiver
begin

text \<open>
  The receiver on its own: which packets it accepts, when it processes a further submessage, and
  when it reports a channel as disconnected.
\<close>

subsection \<open>Order\<close>

text \<open>What a sequence of order checks answers, starting after number \<open>prev\<close>.\<close>

fun order_run :: "u16 \<Rightarrow> u16 list \<Rightarrow> bool list" where
  "order_run prev [] = []"
| "order_run prev (q # qs) = (q - prev < 32767) # order_run q qs"

fun run_validate_order :: "u16 list \<Rightarrow> ca_receiver \<Rightarrow> bool list \<times> ca_receiver" where
  "run_validate_order [] rc = ([], rc)"
| "run_validate_order (q # qs) rc =
     (let (b, rc) = validate_order q rc; (bs, rc) = run_validate_order qs rc in (b # bs, rc))"

lemma run_validate_order_run: "fst (run_validate_order qs rc) = order_run (rc_last_seq_no rc) qs"
  by (induction qs arbitrary: rc) (simp_all add: validate_order_def Let_def case_prod_beta)

text \<open>
  A stream of (sequence, fragment) numbers: the receiver after checking it, and the numbers it took.
\<close>

fun run_fragments :: "(u16 \<times> u16) list \<Rightarrow> ca_receiver \<Rightarrow> (u16 \<times> u16) list \<times> ca_receiver" where
  "run_fragments [] rc = ([], rc)"
| "run_fragments ((q, f) # qs) rc =
     (let (b, rc) = validate_fragment_order q f rc; (taken, rc) = run_fragments qs rc
      in (if b then (q, f) # taken else taken, rc))"

lemma run_fragments_snoc:
  "run_fragments (xs @ [(q, f)]) rc =
     (let (taken, rc1) = run_fragments xs rc; (b, rc2) = validate_fragment_order q f rc1
      in (if b then taken @ [(q, f)] else taken, rc2))"
proof (induction xs arbitrary: rc)
  case Nil
  then show ?case by (simp add: Let_def case_prod_beta)
next
  case (Cons x xs)
  then show ?case by (cases x) (simp add: Let_def case_prod_beta)
qed

definition fragments_upto :: "u16 \<Rightarrow> u16 \<Rightarrow> (u16 \<times> u16) list" where
  "fragments_upto q f = map (\<lambda>k. (q, of_nat k)) [0 ..< Suc (unat f)]"

lemma fragments_upto_0: "fragments_upto q 0 = [(q, 0)]"
  by (simp add: fragments_upto_def)

lemma fragments_upto_Suc:
  assumes "f + 1 \<noteq> 0"
  shows "fragments_upto q (f + 1) = fragments_upto q f @ [(q, f + 1)]"
proof -
  have "unat (f + 1) = Suc (unat f)"
    using assms by (metis add.commute unatSuc)
  then show ?thesis
    by (simp add: fragments_upto_def)
qed

text \<open>
  The invariant behind reassembly: while a sequence is active (the reset value apart), the numbers
  taken last are its fragments from 0 to the last one.
\<close>

definition frag_inv :: "(u16 \<times> u16) list \<Rightarrow> ca_receiver \<Rightarrow> bool" where
  "frag_inv taken rc \<longleftrightarrow>
     rc_active_fragment_seq_no rc = - 1 \<or>
     (\<exists>pre. taken = pre @ fragments_upto (rc_active_fragment_seq_no rc) (rc_last_fragment_seq_no rc))"

lemma frag_inv_step:
  assumes inv: "frag_inv taken rc" and q: "q \<noteq> - 1" and v: "validate_fragment_order q f rc = (b, rc')"
  shows "frag_inv (if b then taken @ [(q, f)] else taken) rc'"
    and "b \<Longrightarrow> \<exists>pre. taken @ [(q, f)] = pre @ fragments_upto q f"
proof -
  have ok: "rc_active_fragment_seq_no rc' = q \<and> rc_last_fragment_seq_no rc' = f \<and>
      (\<exists>pre. taken @ [(q, f)] = pre @ fragments_upto q f)" if b
  proof (cases "f = 0")
    case True
    then show ?thesis
      using v that by (auto simp: validate_fragment_order_def fragments_upto_0 split: prod.splits if_splits)
  next
    case False
    then have a: "rc_active_fragment_seq_no rc = q" "rc_last_fragment_seq_no rc + 1 = f"
      "rc' = rc\<lparr>rc_last_fragment_seq_no := f\<rparr>"
      using v that by (auto simp: validate_fragment_order_def Let_def split: if_splits)
    then obtain pre where "taken = pre @ fragments_upto q (rc_last_fragment_seq_no rc)"
      using inv q by (auto simp: frag_inv_def)
    with a False show ?thesis
      using fragments_upto_Suc [of "rc_last_fragment_seq_no rc" q] by auto
  qed
  then show "b \<Longrightarrow> \<exists>pre. taken @ [(q, f)] = pre @ fragments_upto q f" by blast
  show "frag_inv (if b then taken @ [(q, f)] else taken) rc'"
  proof (cases b)
    case True
    with ok show ?thesis by (auto simp: frag_inv_def)
  next
    case False
    then have "rc_active_fragment_seq_no rc' = - 1 \<or>
        (rc_active_fragment_seq_no rc' = rc_active_fragment_seq_no rc \<and>
         rc_last_fragment_seq_no rc' = rc_last_fragment_seq_no rc)"
      using v by (auto simp: validate_fragment_order_def validate_order_def Let_def split: if_splits)
    with inv False show ?thesis by (auto simp: frag_inv_def)
  qed
qed

lemma frag_inv_run:
  assumes "rc_active_fragment_seq_no rc = - 1" and "\<forall>x \<in> set xs. fst x \<noteq> - 1"
    and "run_fragments xs rc = (taken, rc')"
  shows "frag_inv taken rc'"
  using assms(2,3)
proof (induction xs arbitrary: taken rc' rule: rev_induct)
  case Nil
  then show ?case using assms(1) by (simp add: frag_inv_def)
next
  case (snoc x xs)
  obtain q f where x: "x = (q, f)" by fastforce
  obtain taken1 rc1 where r1: "run_fragments xs rc = (taken1, rc1)" by fastforce
  obtain b rc2 where v: "validate_fragment_order q f rc1 = (b, rc2)" by fastforce
  have "frag_inv taken1 rc1"
    using snoc.IH [OF _ r1] snoc.prems(1) by simp
  moreover have "q \<noteq> - 1"
    using snoc.prems(1) x by simp
  moreover have "taken = (if b then taken1 @ [(q, f)] else taken1)" "rc' = rc2"
    using snoc.prems(2) by (simp_all add: x run_fragments_snoc r1 v)
  ultimately show ?case
    using frag_inv_step(1) v by blast
qed

lemma fragments_taken_in_sequence:
  assumes "rc_active_fragment_seq_no rc = - 1" and "\<forall>x \<in> set xs. fst x \<noteq> - 1" and "q \<noteq> - 1"
    and "run_fragments xs rc = (taken, rc1)" and "fst (validate_fragment_order q f rc1)"
  shows "\<exists>pre. taken @ [(q, f)] = pre @ fragments_upto q f"
  using frag_inv_step(2) [OF frag_inv_run [OF assms(1,2,4)] assms(3) prod.collapse [symmetric]] assms(5)
  by blast

subsection \<open>Rejected packets\<close>

text \<open>What of the receiver a packet can change without being accepted: its buffer.\<close>

definition only_buffer :: "ca_receiver \<Rightarrow> ca_receiver \<Rightarrow> bool" where
  "only_buffer rc rc' \<longleftrightarrow> rc' = rc\<lparr>rc_buffer := rc_buffer rc'\<rparr>"

definition header_accepted :: "header \<Rightarrow> ca_receiver \<Rightarrow> bool" where
  "header_accepted h rc \<longleftrightarrow>
     header_validate h \<and> hd_config_hash h = rc_config_hash rc \<and> rc_last_startup_time rc \<le> hd_startup_time h"

lemma receive_packet_rejects:
  assumes pkt: "pkt = enc_header reserved h @ body" "length reserved = 3" "length (hd_magic h) = 4"
    and len: "length pkt \<le> length (rc_buffer rc)" "length (rc_buffer rc) < 2 ^ 64"
    and bad: "\<not> header_accepted h rc"
  shows "\<exists>rc'. receive_packet env pkt rc = Some rc' \<and> only_buffer rc rc'"
proof -
  let ?m = "patch 0 pkt (rc_buffer rc)"
  let ?s = "ser_make ?m (length pkt)"
  let ?rc = "rc\<lparr>rc_buffer := ?m\<rparr>"
  have lh: "length (enc_header reserved h) = 24"
    using pkt(2,3) by (simp add: enc_header_def)
  have wf: "ser_wf ?s"
    using len by (intro ser_wf_make) (simp_all add: length_patch)
  have rem: "24 \<le> remaining ?s"
    using remaining_wf [OF wf] lh by (simp add: ser_fields pkt(1))
  have "at_cursor pkt ?s"
    using len segment_patch [of 0 pkt "rc_buffer rc"] by (simp add: at_cursor_def ser_fields length_patch)
  then have "at_cursor (enc_header reserved h) ?s"
    unfolding pkt(1) at_cursor_append by simp
  then have g: "get_header ?s = Some (h, advance 24 ?s)"
    using get_header_cursor [OF _ pkt(2,3)] rem by (simp add: ser_fields Header_size_def)
  have "accept_header ?s ?rc = Some (False, advance 24 ?s, ?rc)"
    using bad rem unfolding accept_header_def
    by (auto simp: ensure_True ser_fields Header_size_def g header_accepted_def validate_sender_def)
  then show ?thesis
    using len(1) by (simp add: receive_packet_def only_buffer_def)
qed

subsection \<open>Further submessages\<close>

text \<open>
  A submessage with an in-bounds pointer to its successor ends the processing of the packet: the
  successor is never looked at.
\<close>

lemma successor_skipped:
  assumes "ser_good s" "Submessage_size \<le> remaining s" "get_subheader s = Some (sh, s1)"
    and "and (sh_flags sh) LittleEndian \<noteq> 0" "dispatch env sh s1 rc = Some (s2, rc')"
    and "ser_pos s1 + unat (sh_next sh) \<le> ser_limit s"
  shows "map_option snd (submessages env s rc) = Some rc'"
proof -
  have "ser_limit s2 = ser_limit s"
    using forward_subheader [OF assms(3)] forward_dispatch [OF assms(5)] by (simp add: forward_def)
  then have "\<exists>s3. submessage env s rc = Some (False, s3, rc')"
    using assms(3-6) by (simp add: submessage_def try_position_def Let_def)
  with assms(1,2) show ?thesis
    by (subst submessages.simps) auto
qed

subsection \<open>Channels without updates\<close>

definition stale :: "ca_receiver \<Rightarrow> rx_channel \<Rightarrow> bool" where
  "stale rc c \<longleftrightarrow> \<not> rx_disconnected c \<and> in_secs (rc_now rc - rx_last_update c) \<ge> 2 * dval (rc_heartbeat_period rc)"

definition disconnect_call :: "rx_channel \<Rightarrow> rx_call" where
  "disconnect_call c = \<lparr>cb_id = of_nat (rx_id c), cb_type = 0, cb_count = - 1, cb_value = None\<rparr>"

definition check_due :: "ca_receiver \<Rightarrow> bool" where
  "check_due rc \<longleftrightarrow> in_secs (rc_now rc - rc_last_heartbeat rc) \<ge> dval (rc_heartbeat_period rc)"

lemma invalidate_channel_stale:
  "invalidate_channel i rc =
     (if stale rc (rc_channels rc ! i)
      then rc\<lparr>rc_channels := (rc_channels rc)[i := (rc_channels rc ! i)\<lparr>rx_disconnected := True\<rparr>],
             rc_calls := rc_calls rc @ [disconnect_call (rc_channels rc ! i)]\<rparr>
      else rc)"
  by (simp add: invalidate_channel_def stale_def call_back_def disconnect_call_def Let_def)

lemma fold_invalidate:
  assumes "n \<le> length (rc_channels rc)"
  shows "fold invalidate_channel [0 ..< n] rc =
    rc\<lparr>rc_channels := map (\<lambda>c. if stale rc c then c\<lparr>rx_disconnected := True\<rparr> else c) (take n (rc_channels rc))
          @ drop n (rc_channels rc),
       rc_calls := rc_calls rc @ map disconnect_call (filter (stale rc) (take n (rc_channels rc)))\<rparr>"
  using assms
proof (induction n)
  case 0
  then show ?case by simp
next
  case (Suc n)
  let ?f = "\<lambda>c. if stale rc c then c\<lparr>rx_disconnected := True\<rparr> else c"
  let ?chs = "rc_channels rc"
  let ?rc = "rc\<lparr>rc_channels := map ?f (take n ?chs) @ drop n ?chs,
       rc_calls := rc_calls rc @ map disconnect_call (filter (stale rc) (take n ?chs))\<rparr>"
  have n: "n < length ?chs" using Suc.prems by simp
  have at: "(map ?f (take n ?chs) @ drop n ?chs) ! n = ?chs ! n"
    using n by (simp add: nth_append)
  have dr: "drop n ?chs = ?chs ! n # drop (Suc n) ?chs"
    using n by (simp add: Cons_nth_drop_Suc)
  have tk: "take (Suc n) ?chs = take n ?chs @ [?chs ! n]"
    using n by (simp add: take_Suc_conv_app_nth)
  have st: "stale ?rc = stale rc"
    by (simp add: stale_def fun_eq_iff)
  have up: "(map ?f (take n ?chs) @ drop n ?chs)[n := c] = map ?f (take n ?chs) @ c # drop (Suc n) ?chs" for c
    using n by (subst dr) (simp add: list_update_append)
  have "fold invalidate_channel [0 ..< Suc n] rc = invalidate_channel n ?rc"
    using Suc by simp
  also have "\<dots> = rc\<lparr>rc_channels := map ?f (take (Suc n) ?chs) @ drop (Suc n) ?chs,
       rc_calls := rc_calls rc @ map disconnect_call (filter (stale rc) (take (Suc n) ?chs))\<rparr>"
    unfolding invalidate_channel_stale st by (simp add: at up tk) (simp add: dr)
  finally show ?case .
qed

lemma check_no_updates_spec:
  "check_no_updates rc =
     (if check_due rc
      then rc\<lparr>rc_channels := map (\<lambda>c. if stale rc c then c\<lparr>rx_disconnected := True\<rparr> else c) (rc_channels rc),
              rc_calls := rc_calls rc @ map disconnect_call (filter (stale rc) (rc_channels rc)),
              rc_last_heartbeat := rc_now rc\<rparr>
      else rc)"
  by (simp add: check_no_updates_def check_due_def fold_invalidate)

text \<open>A reported channel stays quiet: no later check reports it again until an update arrives.\<close>

lemma checked_not_stale:
  "check_due rc \<Longrightarrow> c \<in> set (rc_channels (check_no_updates rc)) \<Longrightarrow> \<not> stale ((check_no_updates rc)\<lparr>rc_now := t\<rparr>) c \<or>
    (\<not> rx_disconnected c \<and> \<not> stale rc c)"
  by (auto simp: check_no_updates_spec stale_def split: if_splits)

subsection \<open>A batch\<close>

lemma receive_batch_bound:
  assumes "receive_batch env n rs rc = Some (rest, rc')"
  shows "\<exists>used. rs = used @ rest \<and> length used \<le> n"
  using assms
proof (induction env n rs rc rule: receive_batch.induct)
  case (3 env n r rs rc)
  obtain more rc1 where r: "receive_updates env r rc = Some (more, rc1)"
    using "3.prems" by (auto simp: bind_eq_Some_conv)
  show ?case
  proof (cases more)
    case True
    with "3.prems" r have "receive_batch env n rs rc1 = Some (rest, rc')" by simp
    then obtain used where "rs = used @ rest" "length used \<le> n"
      using "3.IH" r True by blast
    then show ?thesis by (intro exI [of _ "r # used"]) simp
  next
    case False
    with "3.prems" r show ?thesis by (intro exI [of _ "[r]"]) simp
  qed
qed auto

end
