(* ===== verification/Transport.thy ===== *)
theory Transport
  imports Diode_Prelude
begin

text \<open>
  The UDP transport (\<open>src/transport.cpp\<close>): parsing an address list, the rate limit of the sender and
  the construction of the receiving socket. Sockets, the clock and the address parser of EPICS base
  (\<open>aToIPAddr\<close>) are parameters.
\<close>

definition EPICS_DIODE_DEFAULT_PORT :: int where "EPICS_DIODE_DEFAULT_PORT = 5080"

definition EPICS_PVADIODE_DEFAULT_PORT :: int where "EPICS_PVADIODE_DEFAULT_PORT = 5081"

definition EPICS_DIODE_DEFAULT_LISTENING_ADDRESS :: string where
  "EPICS_DIODE_DEFAULT_LISTENING_ADDRESS = ''0.0.0.0''"

subsection \<open>Address lists\<close>

definition isspace :: "char \<Rightarrow> bool" where
  "isspace c \<longleftrightarrow> c \<in> {CHR '' '', CHR 0x09, CHR 0x0A, CHR 0x0B, CHR 0x0C, CHR 0x0D}"

text \<open>The set of separators the parser skips after a blank: no form feed.\<close>

definition skipped :: "char \<Rightarrow> bool" where
  "skipped c \<longleftrightarrow> c \<in> {CHR '' '', CHR 0x09, CHR 0x0D, CHR 0x0A, CHR 0x0B}"

text \<open>\<open>std::string::find\<close> and \<open>find_first_not_of\<close> from a position; \<open>None\<close> is \<open>npos\<close>.\<close>

definition find_from :: "(char \<Rightarrow> bool) \<Rightarrow> string \<Rightarrow> nat \<Rightarrow> nat option" where
  "find_from p s i =
     (let n = i + length (takeWhile (\<lambda>c. \<not> p c) (drop i s)) in if n < length s then Some n else None)"

lemma find_from_SomeD:
  assumes "find_from p s i = Some n"
  shows "i \<le> n" "n < length s" "p (s ! n)"
proof -
  let ?t = "takeWhile (\<lambda>c. \<not> p c) (drop i s)"
  have n: "n = i + length ?t" "n < length s"
    using assms by (auto simp: find_from_def Let_def split: if_splits)
  then show "i \<le> n" "n < length s" by simp_all
  have "length ?t < length (drop i s)"
    using n by simp
  then have "p (drop i s ! length ?t)"
    using nth_length_takeWhile by fastforce
  then show "p (s ! n)"
    using n by simp
qed

definition parse_one :: "(string \<Rightarrow> int \<Rightarrow> 'a option) \<Rightarrow> int \<Rightarrow> string \<Rightarrow> 'a list" where
  "parse_one aToIPAddr port s = (case aToIPAddr s port of Some a \<Rightarrow> [a] | None \<Rightarrow> [])"

function parse_loop ::
  "(string \<Rightarrow> int \<Rightarrow> 'a option) \<Rightarrow> int \<Rightarrow> string \<Rightarrow> nat option \<Rightarrow> 'a list \<Rightarrow> nat option \<times> 'a list" where
  "parse_loop aToIPAddr port s start addresses =
     (case start of
        None \<Rightarrow> (None, addresses)
      | Some i \<Rightarrow>
          (case find_from ((=) (CHR '' '')) s i of
             None \<Rightarrow> (Some i, addresses)
           | Some e \<Rightarrow> parse_loop aToIPAddr port s (find_from (\<lambda>c. \<not> skipped c) s e)
               (addresses @ parse_one aToIPAddr port (segment i (e - i) s))))"
  by pat_completeness auto
termination
proof (relation "measure (\<lambda>(_, _, s, start, _). case start of None \<Rightarrow> 0 | Some i \<Rightarrow> Suc (length s) - i)", goal_cases)
  case (2 f port s start addresses i e)
  then have e: "i \<le> e" "e < length s" "s ! e = CHR '' ''"
    using find_from_SomeD [of "(=) (CHR '' '')" s i e] by auto
  have "e < n" if "find_from (\<lambda>c. \<not> skipped c) s e = Some n" for n
    using find_from_SomeD [OF that] e(3) by (metis insertI1 le_neq_implies_less skipped_def)
  then show ?case
    using 2 e by (auto split: option.split dest: find_from_SomeD)
qed simp

declare parse_loop.simps [simp del]

definition parse_socket_address_list :: "(string \<Rightarrow> int \<Rightarrow> 'a option) \<Rightarrow> string \<Rightarrow> int \<Rightarrow> 'a list" where
  "parse_socket_address_list aToIPAddr s port =
     (case parse_loop aToIPAddr port s (Some (length (takeWhile isspace s))) [] of
        (Some i, addresses) \<Rightarrow>
          if i < length s then addresses @ parse_one aToIPAddr port (drop i s) else addresses
      | (None, addresses) \<Rightarrow> addresses)"

text \<open>A word has no blank and starts with none of the separators.\<close>

definition is_word :: "string \<Rightarrow> bool" where
  "is_word w \<longleftrightarrow> w \<noteq> [] \<and> CHR '' '' \<notin> set w \<and> \<not> isspace (hd w)"

text \<open>A separator is a blank followed by any of the skipped characters.\<close>

definition is_gap :: "string \<Rightarrow> bool" where
  "is_gap g \<longleftrightarrow> g \<noteq> [] \<and> hd g = CHR '' '' \<and> (\<forall>c \<in> set g. skipped c)"

fun spaced :: "(string \<times> string) list \<Rightarrow> string \<Rightarrow> string" where
  "spaced [] w = w"
| "spaced ((v, g) # vs) w = v @ g @ spaced vs w"

lemma find_from_append:
  assumes "\<forall>c \<in> set a. \<not> p c" and "p b"
  shows "find_from p (pre @ a @ b # rest) (length pre) = Some (length pre + length a)"
proof -
  have "takeWhile (\<lambda>c. \<not> p c) (a @ b # rest) = a"
    using assms by (induction a) auto
  then show ?thesis by (simp add: find_from_def)
qed

lemma find_from_None:
  assumes "\<forall>c \<in> set a. \<not> p c"
  shows "find_from p (pre @ a) (length pre) = None"
proof -
  have t: "takeWhile (\<lambda>c. \<not> p c) a = a"
    using assms by (simp add: takeWhile_eq_all_conv)
  show ?thesis by (simp add: find_from_def t)
qed

lemma spaced_suffix: "\<exists>a. spaced vs w = a @ w"
proof (induction vs)
  case (Cons x vs)
  obtain v g where x: "x = (v, g)" by fastforce
  from Cons obtain a where "spaced vs w = a @ w" by blast
  then show ?case by (intro exI [of _ "v @ g @ a"]) (simp add: x)
qed simp

lemma spaced_head:
  assumes "\<forall>(v, g) \<in> set vs. is_word v \<and> is_gap g" and "w = [] \<or> is_word w" and "spaced vs w \<noteq> []"
  shows "\<exists>c rest. spaced vs w = c # rest \<and> \<not> isspace c"
proof (cases vs)
  case Nil
  then show ?thesis using assms by (cases w) (auto simp: is_word_def)
next
  case (Cons x xs)
  then show ?thesis using assms(1) by (cases x; cases "fst x") (auto simp: is_word_def)
qed

lemma parse_loop_words:
  assumes "\<forall>(v, g) \<in> set vs. is_word v \<and> is_gap g" and "w = [] \<or> is_word w"
  shows "parse_loop f port (pre @ spaced vs w) (Some (length pre)) addresses =
    (if w = [] \<and> vs \<noteq> [] then None else Some (length (pre @ spaced vs w) - length w),
     addresses @ concat (map (parse_one f port \<circ> fst) vs))"
  using assms
proof (induction vs arbitrary: pre addresses)
  case Nil
  then have "\<forall>c \<in> set w. CHR '' '' \<noteq> c" by (auto simp: is_word_def)
  then have "find_from ((=) (CHR '' '')) (pre @ w) (length pre) = None"
    by (intro find_from_None)
  then show ?case by (simp add: parse_loop.simps)
next
  case (Cons x vs)
  obtain v g where x: "x = (v, g)" by fastforce
  have v: "is_word v" and g: "is_gap g" using Cons.prems(1) x by auto
  obtain g' where g': "g = CHR '' '' # g'" using g by (cases g) (auto simp: is_gap_def)
  let ?s = "pre @ spaced (x # vs) w"
  have "\<forall>c \<in> set v. CHR '' '' \<noteq> c" using v by (auto simp: is_word_def)
  then have f1: "find_from ((=) (CHR '' '')) ?s (length pre) = Some (length pre + length v)"
    using find_from_append [of v "(=) (CHR '' '')" "CHR '' ''" pre "g' @ spaced vs w"] by (simp add: x g')
  have sk: "\<forall>c \<in> set g. \<not> \<not> skipped c" using g by (simp add: is_gap_def)
  have sg: "segment (length pre) (length v) ?s = v"
    by (simp add: segment_def x)
  have s': "?s = ((pre @ v) @ g) @ spaced vs w" by (simp add: x)
  show ?case
  proof (cases "spaced vs w = []")
    case True
    have vs: "vs = []"
    proof (rule ccontr)
      assume "vs \<noteq> []"
      then obtain y ys where "vs = y # ys" by (cases vs) auto
      with True Cons.prems(1) show False by (cases y) (auto simp: is_word_def)
    qed
    have "find_from (\<lambda>c. \<not> skipped c) ?s (length pre + length v) = None"
      using find_from_None [OF sk, of "pre @ v"] True by (simp add: x)
    then show ?thesis
      using f1 sg vs True by (subst parse_loop.simps) (simp add: parse_loop.simps [of _ _ _ None] x)
  next
    case False
    obtain c rest where c: "spaced vs w = c # rest" "\<not> isspace c"
      using spaced_head [OF _ Cons.prems(2) False] Cons.prems(1) by auto
    have nsk: "\<not> skipped c" using c(2) by (auto simp: isspace_def skipped_def)
    have f2: "find_from (\<lambda>c. \<not> skipped c) ?s (length pre + length v) = Some (length ((pre @ v) @ g))"
      using find_from_append [OF sk, of c "pre @ v" rest] nsk c(1) by (simp add: x)
    have "parse_loop f port ?s (Some (length pre)) addresses =
        parse_loop f port (((pre @ v) @ g) @ spaced vs w) (Some (length ((pre @ v) @ g)))
          (addresses @ parse_one f port v)"
      using f1 f2 sg by (subst parse_loop.simps) (simp add: s')
    also have "\<dots> = (if w = [] \<and> vs \<noteq> [] then None else Some (length (((pre @ v) @ g) @ spaced vs w) - length w),
        (addresses @ parse_one f port v) @ concat (map (parse_one f port \<circ> fst) vs))"
      using Cons.prems by (intro Cons.IH) auto
    finally show ?thesis
      using False by (auto simp: x comp_def)
  qed
qed

lemma parse_words:
  assumes "\<forall>c \<in> set lead. isspace c" and "\<forall>(v, g) \<in> set vs. is_word v \<and> is_gap g" and "w = [] \<or> is_word w"
  shows "parse_socket_address_list f (lead @ spaced vs w) port =
    concat (map (parse_one f port \<circ> fst) vs) @ (if w = [] then [] else parse_one f port w)"
proof -
  have "takeWhile isspace (lead @ spaced vs w) = lead"
  proof (cases "spaced vs w = []")
    case True
    then show ?thesis using assms(1) by (simp add: takeWhile_eq_all_conv)
  next
    case False
    then obtain c rest where "spaced vs w = c # rest" "\<not> isspace c"
      using spaced_head [OF assms(2,3)] by blast
    then show ?thesis using assms(1) by (simp add: takeWhile_append2)
  qed
  moreover obtain a where a: "spaced vs w = a @ w"
    using spaced_suffix by blast
  moreover have "parse_loop f port (lead @ spaced vs w) (Some (length lead)) [] =
      (if w = [] \<and> vs \<noteq> [] then None else Some (length lead + length a), concat (map (parse_one f port \<circ> fst) vs))"
    using parse_loop_words [OF assms(2,3), of f port lead "[]"] by (simp add: a)
  moreover have "w = [] \<Longrightarrow> vs = [] \<Longrightarrow> a = []"
    using a by simp
  ultimately show ?thesis
    by (auto simp: parse_socket_address_list_def)
qed

subsection \<open>The rate limit\<close>

record udp_sender =
  us_rate_limit_mbs :: u32
  us_last_sent_bytes :: u64
  us_last_sent_time :: int
  us_report_bytes :: u64
  us_report_period_us :: u64

definition MIN_RATE_REPORT_PERIOD_US :: u64 where "MIN_RATE_REPORT_PERIOD_US = 3000000"

definition udp_sender_init :: "u32 \<Rightarrow> udp_sender" where
  "udp_sender_init rate =
     \<lparr>us_rate_limit_mbs = rate, us_last_sent_bytes = 0, us_last_sent_time = 0, us_report_bytes = 0,
      us_report_period_us = 0\<rparr>"

text \<open>\<open>duration_cast<microseconds>\<close> of a difference of clock readings in nanoseconds.\<close>

definition in_us :: "int \<Rightarrow> int" where
  "in_us d = sgn d * (\<bar>d\<bar> div 1000)"

definition calculated_period_us :: "udp_sender \<Rightarrow> int" where
  "calculated_period_us u = int (unat (us_last_sent_bytes u) div unat (us_rate_limit_mbs u))"

text \<open>
  The rate-limiting block: the microseconds slept (zero for none) and the new state, from the clock
  reading at its start.
\<close>

definition rate_limit :: "int \<Rightarrow> udp_sender \<Rightarrow> int \<times> udp_sender" where
  "rate_limit now u =
     (if us_rate_limit_mbs u > 0 then
        let elapsed_us = in_us (now - us_last_sent_time u);
            diff = calculated_period_us u - elapsed_us;
            bytes = us_report_bytes u + us_last_sent_bytes u;
            period = us_report_period_us u + word_of_int elapsed_us;
            u = (if period \<ge> MIN_RATE_REPORT_PERIOD_US
                 then u\<lparr>us_report_bytes := 0, us_report_period_us := 0\<rparr>
                 else u\<lparr>us_report_bytes := bytes, us_report_period_us := period\<rparr>)
        in (if diff > 0 then diff else 0, u)
      else (0, u))"

text \<open>The loop over the addresses: what \<open>sendto\<close> returned and the clock reading after it.\<close>

definition sendto_result :: "int \<times> int \<Rightarrow> udp_sender \<Rightarrow> udp_sender" where
  "sendto_result r u =
     (if fst r < 0 then u else u\<lparr>us_last_sent_bytes := word_of_int (fst r), us_last_sent_time := snd r\<rparr>)"

definition udp_sender_send :: "int \<Rightarrow> (int \<times> int) list \<Rightarrow> udp_sender \<Rightarrow> int \<times> udp_sender" where
  "udp_sender_send now results u = (let (slept, u) = rate_limit now u in (slept, fold sendto_result results u))"

lemma rate_limit_fields [simp]:
  "us_rate_limit_mbs (snd (rate_limit now u)) = us_rate_limit_mbs u"
  "us_last_sent_bytes (snd (rate_limit now u)) = us_last_sent_bytes u"
  "us_last_sent_time (snd (rate_limit now u)) = us_last_sent_time u"
  by (simp_all add: rate_limit_def Let_def)

text \<open>After the sleep at least the calculated period has passed since the previous packet.\<close>

lemma rate_limit_waits:
  assumes "us_rate_limit_mbs u > 0" and "us_last_sent_time u \<le> now"
  shows "now + 1000 * fst (rate_limit now u) \<ge> us_last_sent_time u + 1000 * calculated_period_us u"
proof -
  let ?d = "now - us_last_sent_time u"
  have "1000 * in_us ?d \<le> ?d"
    using assms(2) by (cases "?d = 0") (simp_all add: in_us_def)
  then show ?thesis
    using assms(1) by (auto simp: rate_limit_def Let_def)
qed

text \<open>
  A run of sends to one address: for each the clock reading at its start, the bytes sent and the
  reading after \<open>sendto\<close>, which comes after the sleep.
\<close>

fun timed_sends :: "(int \<times> nat \<times> int) list \<Rightarrow> udp_sender \<Rightarrow> bool" where
  "timed_sends [] u \<longleftrightarrow> True"
| "timed_sends ((now, n, done_at) # rs) u \<longleftrightarrow>
     us_last_sent_time u \<le> now \<and> n < 2 ^ 63 \<and> now + 1000 * fst (rate_limit now u) \<le> done_at \<and>
     timed_sends rs (snd (udp_sender_send now [(int n, done_at)] u))"

fun run_sends :: "(int \<times> nat \<times> int) list \<Rightarrow> udp_sender \<Rightarrow> udp_sender" where
  "run_sends [] u = u"
| "run_sends ((now, n, done_at) # rs) u = run_sends rs (snd (udp_sender_send now [(int n, done_at)] u))"

lemma udp_sender_send_one:
  "us_last_sent_bytes (snd (udp_sender_send now [(int n, t)] u)) = of_nat n"
  "us_last_sent_time (snd (udp_sender_send now [(int n, t)] u)) = t"
  "us_rate_limit_mbs (snd (udp_sender_send now [(int n, t)] u)) = us_rate_limit_mbs u"
  by (simp_all add: udp_sender_send_def sendto_result_def Let_def case_prod_beta)

text \<open>The time of the run is at least the sum of the periods of all packets but the last.\<close>

lemma run_sends_time:
  assumes "timed_sends rs u" and "us_rate_limit_mbs u > 0"
  shows "us_last_sent_time (run_sends rs u) \<ge> us_last_sent_time u +
    1000 * (\<Sum>n \<leftarrow> butlast (unat (us_last_sent_bytes u) # map (fst \<circ> snd) rs). int (n div unat (us_rate_limit_mbs u)))"
  using assms
proof (induction rs arbitrary: u)
  case Nil
  then show ?case by simp
next
  case (Cons r rs)
  obtain now n t where r: "r = (now, n, t)" by (cases r) auto
  let ?u = "snd (udp_sender_send now [(int n, t)] u)"
  note f = udp_sender_send_one [of now n t u]
  have p: "us_last_sent_time u \<le> now" "n < 2 ^ 63" "now + 1000 * fst (rate_limit now u) \<le> t" "timed_sends rs ?u"
    using Cons.prems(1) by (simp_all add: r)
  have "us_last_sent_time u + 1000 * calculated_period_us u \<le> t"
    using rate_limit_waits [OF Cons.prems(2) p(1)] p(3) by linarith
  moreover have "unat (of_nat n :: u64) = n"
    using p(2) by simp
  moreover have "us_last_sent_time (run_sends rs ?u) \<ge> us_last_sent_time ?u +
      1000 * (\<Sum>n \<leftarrow> butlast (unat (us_last_sent_bytes ?u) # map (fst \<circ> snd) rs). int (n div unat (us_rate_limit_mbs ?u)))"
    by (rule Cons.IH [OF p(4)]) (simp only: f(3) Cons.prems(2))
  ultimately show ?case
    by (cases "rs = []") (simp_all add: r f calculated_period_us_def comp_def)
qed

subsection \<open>The receiving socket\<close>

datatype transport_error = SocketFailed | InvalidBindAddress string | BindFailed | TimeoutFailed

text \<open>
  What the construction does to the socket: nothing created, created and destroyed again, or left
  open. The answers of the socket calls are the parameters.
\<close>

datatype socket_state = NoSocket | SocketClosed | SocketOpen

definition udp_receiver_init ::
  "(string \<Rightarrow> int \<Rightarrow> 'a option) \<Rightarrow> bool \<Rightarrow> ('a \<Rightarrow> bool) \<Rightarrow> bool \<Rightarrow> int \<Rightarrow> string \<Rightarrow>
   (transport_error + 'a) \<times> socket_state" where
  "udp_receiver_init aToIPAddr created bind_ok timeout_ok port listening_address =
     (if \<not> created then (Inl SocketFailed, NoSocket)
      else case parse_socket_address_list aToIPAddr listening_address port of
        [a] \<Rightarrow>
          if \<not> bind_ok a then (Inl BindFailed, SocketClosed)
          else if \<not> timeout_ok then (Inl TimeoutFailed, SocketClosed)
          else (Inr a, SocketOpen)
      | _ \<Rightarrow> (Inl (InvalidBindAddress listening_address), SocketOpen))"

text \<open>The socket survives exactly a successful construction and a refused listening address.\<close>

lemma udp_receiver_init_socket:
  "snd (udp_receiver_init f created bind_ok timeout_ok port s) = SocketOpen \<longleftrightarrow>
   created \<and> (length (parse_socket_address_list f s port) \<noteq> 1 \<or>
     (\<exists>a. fst (udp_receiver_init f created bind_ok timeout_ok port s) = Inr a))"
  by (auto simp: udp_receiver_init_def split: list.splits)

text \<open>\<open>UDPReceiver::receive\<close> and \<open>UDPSender\<close>'s constructor pass the library's answer on.\<close>

definition udp_sender_create :: "bool \<Rightarrow> u32 \<Rightarrow> transport_error + udp_sender" where
  "udp_sender_create created rate = (if created then Inr (udp_sender_init rate) else Inl SocketFailed)"

definition udp_receiver_receive :: "nat \<Rightarrow> bytes option \<Rightarrow> int \<times> bytes" where
  "udp_receiver_receive len datagram =
     (case datagram of None \<Rightarrow> (- 1, []) | Some d \<Rightarrow> (int (length (take len d)), take len d))"

subsection \<open>Properties\<close>

text \<open>
  An address list of words separated by gaps that begin with a blank, after leading white space,
  is read word by word in order; words the resolver refuses are skipped silently.
\<close>

theorem address_list_words:
  assumes "\<forall>c \<in> set lead. isspace c" and "\<forall>(v, g) \<in> set vs. is_word v \<and> is_gap g" and "w = [] \<or> is_word w"
  shows "parse_socket_address_list f (lead @ spaced vs w) port =
    concat (map (parse_one f port \<circ> fst) vs) @ (if w = [] then [] else parse_one f port w)"
  by (rule parse_words [OF assms])

theorem address_list_words_witness:
  "parse_socket_address_list (\<lambda>s p. if s = ''b'' then None else Some s) ([CHR 0x09] @ spaced [(''a'', ''  ''), (''b'', '' '')] ''c'') 5080 =
    [''a'', ''c'']"
  using address_list_words [of "[CHR 0x09]" "[(''a'', ''  ''), (''b'', '' '')]" "''c''" "\<lambda>s p. if s = ''b'' then None else Some s" 5080]
  by (simp add: isspace_def is_word_def is_gap_def skipped_def parse_one_def)



end
