(* ===== verification/CA_Construct.thy ===== *)
theory CA_Construct
  imports CA_Setup CA_Run CA_Reception Transport
begin

text \<open>
  Construction of the two ends of the Channel Access link with its failures (the constructors of
  \<open>Sender::Impl\<close> and \<open>Receiver::Impl\<close>): the transport first, then the library context, then the
  channels. What the operating system and the library answer are parameters.
\<close>

datatype construct_error =
    TransportFailed transport_error
  | ContextFailed ca_status
  | TooManyChannels  \<comment> \<open>the failed assertion on the channel count\<close>

definition sender_construct ::
  "bool \<Rightarrow> ca_status \<Rightarrow> (string \<Rightarrow> ca_status option) \<Rightarrow> config \<Rightarrow> u64 \<Rightarrow> construct_error + ca_sender \<times> udp_sender" where
  "sender_construct created context ca_create cfg startup =
     (case udp_sender_create created (cfg_rate_limit_mbs cfg) of
        Inl e \<Rightarrow> Inl (TransportFailed e)
      | Inr u \<Rightarrow>
          if context \<noteq> ECA_NORMAL then Inl (ContextFailed context)
          else (case sender_init ca_create cfg startup of
                  None \<Rightarrow> Inl TooManyChannels
                | Some st \<Rightarrow> Inr (st, u)))"

definition receiver_construct ::
  "(string \<Rightarrow> int \<Rightarrow> 'a option) \<Rightarrow> bool \<Rightarrow> ('a \<Rightarrow> bool) \<Rightarrow> bool \<Rightarrow> int \<Rightarrow> string \<Rightarrow> config \<Rightarrow> int \<Rightarrow>
   construct_error + ca_receiver \<times> 'a" where
  "receiver_construct aToIPAddr created bind_ok timeout_ok port listening_address cfg now =
     (case fst (udp_receiver_init aToIPAddr created bind_ok timeout_ok port listening_address) of
        Inl e \<Rightarrow> Inl (TransportFailed e)
      | Inr a \<Rightarrow>
          (case receiver_init cfg now of
             None \<Rightarrow> Inl TooManyChannels
           | Some rc \<Rightarrow> Inr (rc, a)))"

lemma sender_construct_Inr:
  "sender_construct created context ca cfg t = Inr (st, u) \<longleftrightarrow>
   created \<and> context = ECA_NORMAL \<and> u = udp_sender_init (cfg_rate_limit_mbs cfg) \<and> sender_init ca cfg t = Some st"
  by (auto simp: sender_construct_def udp_sender_create_def split: option.splits if_splits)

lemma receiver_construct_Inr:
  "receiver_construct f created ok tok port s cfg now = Inr (rc, a) \<longleftrightarrow>
   fst (udp_receiver_init f created ok tok port s) = Inr a \<and> receiver_init cfg now = Some rc"
  by (auto simp: receiver_construct_def split: sum.splits option.splits)

text \<open>What the two constructions of one configuration agree on.\<close>

lemma constructed_ready:
  assumes "sender_construct cr cx ca cfg t = Inr (st, u)"
    and "receiver_construct f created ok tok port s cfg now = Inr (rc, a)" and "ca_refuses ca"
  shows "queue_inv st" "buffer_wf st" "snd_deque st = []" "snd_seq_no st = 0" "snd_sent st = []"
    "take Header_size (snd_buffer st) = enc_header [0, 0, 0] (make_header t (cfg_hash cfg))"
    "link_ready (make_header t (cfg_hash cfg)) [0, 0, 0] rc"
    "in_order 0 (admit (make_header t (cfg_hash cfg)) rc)" "rc_calls rc = []"
    "length (rc_channels rc) = length (snd_channels st)"
proof -
  have s: "sender_init ca cfg t = Some st" and r: "receiver_init cfg now = Some rc"
    using assms(1,2) by (simp_all add: sender_construct_Inr receiver_construct_Inr)
  note s' = sender_init_spec [OF s assms(3)] and r' = receiver_init_spec [OF r]
  show "queue_inv st" "buffer_wf st" "snd_deque st = []" "snd_seq_no st = 0" "snd_sent st = []"
    "take Header_size (snd_buffer st) = enc_header [0, 0, 0] (make_header t (cfg_hash cfg))"
    "link_ready (make_header t (cfg_hash cfg)) [0, 0, 0] rc"
    "in_order 0 (admit (make_header t (cfg_hash cfg)) rc)" "rc_calls rc = []"
    using s' r' by simp_all
  have "length (rc_channels rc) = length (flat_channel_names cfg)"
    using r'(3) rx_block_fields(1) [of 0 "flat_channel_names cfg"] by (metis length_map)
  then show "length (rc_channels rc) = length (snd_channels st)"
    using create_channels_spec(5) [OF s'(7)] by (simp add: total_channel_count_flat)
qed

subsection \<open>A non-terminating queue\<close>

text \<open>While a group that can never be sent is at the front, \<open>send_updates\<close> does not return.\<close>

lemma stuck_no_result:
  assumes "send_updates st = Some r" and "stuck st" shows False
proof -
  have "stuck s \<longrightarrow> False" if "send_updates s = Some r" for s r
    using that
  proof (rule send_updates.raw_induct [where P = "\<lambda>s r. stuck s \<longrightarrow> False", rotated])
    fix f s r
    assume ih: "\<And>s r. f s = Some r \<Longrightarrow> stuck s \<longrightarrow> False"
      and eq: "(if has_updates s then Option.bind (send_step s) f else Some s) = Some r"
    show "stuck s \<longrightarrow> False"
    proof
      assume st: "stuck s"
      then have "has_updates s"
        by (auto simp: stuck_def has_updates_def)
      with eq stuck_step [OF st] ih show False
        by auto
    qed
  qed
  with assms show False by blast
qed

end
