(* ===== verification/CA_WholeRun.thy ===== *)
theory CA_WholeRun
  imports CA_Construct
begin

text \<open>
  The Channel Access link over a whole run: what a sender's run loop sends, turn after turn, and what
  the receiver's callback sees of it.
\<close>

subsection \<open>The content of a run\<close>

text \<open>A turn up to the sending: the library callbacks, then the polling and the heartbeat.\<close>

definition turn_prepared :: "ca_env \<Rightarrow> ca_event list \<Rightarrow> ca_sender \<Rightarrow> ca_sender option" where
  "turn_prepared env evs st = Option.bind (foldM (handle_ca_event env) evs st) periodic_work"

text \<open>The sender as it is at each turn when the sending starts.\<close>

fun turn_sends :: "ca_env \<Rightarrow> ca_event list list \<Rightarrow> ca_sender \<Rightarrow> ca_sender list" where
  "turn_sends env [] st = []"
| "turn_sends env (evs # turns) st =
     (case turn_prepared env evs st of
        None \<Rightarrow> []
      | Some st1 \<Rightarrow> st1 # (case send_updates st1 of None \<Rightarrow> [] | Some st2 \<Rightarrow> turn_sends env turns st2))"

definition queue_content :: "ca_sender \<Rightarrow> content list" where
  "queue_content st = map (queued_content (snd_channels st)) (snd_deque st)"

text \<open>
  The callbacks are well-formed and every group queued at a turn's end can be sent and read: what the
  receiver, with \<open>n\<close> channels, needs of the values.
\<close>

fun run_ok :: "ca_env \<Rightarrow> nat \<Rightarrow> ca_event list list \<Rightarrow> ca_sender \<Rightarrow> bool" where
  "run_ok env n [] st \<longleftrightarrow> True"
| "run_ok env n (evs # turns) st \<longleftrightarrow> events_ok env st evs \<and>
     (case turn_prepared env evs st of
        None \<Rightarrow> True
      | Some st1 \<Rightarrow>
          list_all (sendable (snd_channels st1)) (snd_deque st1) \<and> list_all (wf_content env n) (queue_content st1) \<and>
          (case send_updates st1 of None \<Rightarrow> True | Some st2 \<Rightarrow> run_ok env n turns st2))"

subsection \<open>A turn on the link\<close>

text \<open>A sender between two turns, and a receiver that has taken everything it sent.\<close>

definition linked :: "header \<Rightarrow> bytes \<Rightarrow> nat \<Rightarrow> ca_sender \<Rightarrow> ca_receiver \<Rightarrow> bool" where
  "linked h reserved n st rc \<longleftrightarrow>
     queue_inv st \<and> buffer_wf st \<and> length (snd_channels st) = n \<and> n \<noteq> 0 \<and> length (rc_channels rc) = n \<and>
     take Header_size (snd_buffer st) = enc_header reserved h \<and>
     link_ready h reserved rc \<and> in_order (snd_seq_no st) (admit h rc)"

text \<open>Polling and heartbeats only add to the queue.\<close>

lemma periodic_work_queue:
  assumes "periodic_work st = Some st'" and "queue_inv st" and "snd_channels st \<noteq> []"
  shows "set (snd_deque st) \<subseteq> set (snd_deque st')"
proof -
  define st2 where "st2 = (if (snd_iteration st + 1) mod snd_pf_iterations st = 0
      then check_polled_fields (st\<lparr>snd_iteration := snd_iteration st + 1\<rparr>) else st\<lparr>snd_iteration := snd_iteration st + 1\<rparr>)"
  have s2: "queue_inv st2" "snd_channels st2 \<noteq> []" "snd_deque st2 = snd_deque st"
    using assms(2,3) by (simp_all add: st2_def) (simp_all add: check_polled_fields_def)
  have "periodic_work st = (if snd_iteration st2 mod snd_hb_iterations st2 = 0
      then map_option fst (mark_heartbeat_updates st2) else Some st2)"
    unfolding periodic_work_def Let_def st2_def by simp
  with assms(1) heartbeat_spec [OF s2(1,2)] s2(3) show ?thesis
    by (auto split: if_splits)
qed

lemma turn_prepared_spec:
  assumes st: "queue_inv st" "buffer_wf st" "snd_channels st \<noteq> []" and ok: "events_ok env st evs"
  shows "\<exists>st1. turn_prepared env evs st = Some st1 \<and> queue_inv st1 \<and> buffer_wf st1 \<and>
    snd_buffer st1 = snd_buffer st \<and> snd_seq_no st1 = snd_seq_no st \<and> snd_sent st1 = snd_sent st \<and>
    length (snd_channels st1) = length (snd_channels st) \<and>
    set (map (root_of st) (marked_by env st evs)) \<subseteq> set (snd_deque st1)"
proof -
  obtain s where s: "foldM (handle_ca_event env) evs st = Some s" "queue_inv s" "stays st s"
    "snd_deque s = enq_new (snd_deque st) (map (root_of st) (marked_by env st evs))"
    using events_run [OF st(1) ok] by blast
  then have f: "snd_channels s \<noteq> []" "snd_buffer s = snd_buffer st" "snd_seq_no s = snd_seq_no st"
    "snd_sent s = snd_sent st" "length (snd_channels s) = length (snd_channels st)"
    using st(3) by (auto simp: stays_def)
  obtain st1 where st1: "periodic_work s = Some st1" "queue_inv st1" "snd_buffer st1 = snd_buffer s"
    "snd_seq_no st1 = snd_seq_no s" "snd_sent st1 = snd_sent s" "same_data (snd_channels s) (snd_channels st1)"
    using periodic_work_spec [OF s(2) f(1)] by blast
  then have "buffer_wf st1" "length (snd_channels st1) = length (snd_channels st)"
    using st(2) f(2,5) by (simp_all add: buffer_wf_def same_data_def)
  moreover have "set (map (root_of st) (marked_by env st evs)) \<subseteq> set (snd_deque st1)"
    using periodic_work_queue [OF st1(1) s(2) f(1)] unfolding s(4) set_enq_new by simp
  ultimately show ?thesis
    using s(1) st1 f by (simp add: turn_prepared_def)
qed

lemma run_iteration_prepared: "run_iteration env evs st = Option.bind (turn_prepared env evs st) send_updates"
  by (simp add: run_iteration_parts turn_prepared_def)

lemma turn_linked:
  assumes l: "linked h reserved n st rc" and ok: "run_ok env n (evs # turns) st"
  shows "\<exists>st1 st2 pkts rc'. turn_prepared env evs st = Some st1 \<and> send_updates st1 = Some st2 \<and>
    snd_sent st2 = snd_sent st @ pkts \<and> snd_deque st2 = [] \<and> foldM (receive_packet env) pkts rc = Some rc' \<and>
    calls_extend env rc (concat (map expected_calls (queue_content st1))) rc' \<and>
    linked h reserved n st2 rc' \<and> run_ok env n turns st2"
proof -
  have st: "queue_inv st" "buffer_wf st" "snd_channels st \<noteq> []" and ev: "events_ok env st evs"
    using l ok by (auto simp: linked_def)
  obtain st1 where s1: "turn_prepared env evs st = Some st1" "queue_inv st1" "buffer_wf st1"
    "snd_buffer st1 = snd_buffer st" "snd_seq_no st1 = snd_seq_no st" "snd_sent st1 = snd_sent st"
    "length (snd_channels st1) = length (snd_channels st)"
    "set (map (root_of st) (marked_by env st evs)) \<subseteq> set (snd_deque st1)"
    using turn_prepared_spec [OF st ev] by (elim exE conjE) (rule that)
  have rcv: "take Header_size (snd_buffer st1) = enc_header reserved h" "link_ready h reserved rc"
    "in_order (snd_seq_no st1) (admit h rc)" "length (rc_channels rc) = n"
    using l s1(4,5) by (simp_all add: linked_def)
  have q: "\<forall>q \<in> set (snd_deque st1). sendable (snd_channels st1) q"
    "\<forall>q \<in> set (snd_deque st1). wf_content env (length (rc_channels rc)) (queued_content (snd_channels st1) q)"
    using ok s1(1) rcv(4) by (simp_all add: list_all_iff queue_content_def)
  from link_step [OF s1(2,3) q(1) rcv(1,2,3) q(2)] obtain "is" st2 pkts rc' where
    s2: "send_updates st1 = Some st2" "sent_items st1 is st2" "snd_deque st2 = []" "snd_sent st2 = snd_sent st1 @ pkts"
    and r: "foldM (receive_packet env) pkts rc = Some rc'"
      "calls_extend env rc (concat (map (expected_calls \<circ> queued_content (snd_channels st1)) (snd_deque st1))) rc'"
      "link_ready h reserved rc'" "in_order (snd_seq_no st2) (admit h rc')"
    by (elim exE conjE) (rule that)
  have "length (snd_channels st2) = n" "n \<noteq> 0"
    using send_updates_loop [OF s2(1)] s1(7) l by (simp_all add: loop_data_def linked_def)
  moreover have "length (rc_channels rc') = n"
    using r(2) rcv(4) by (simp add: calls_extend_def)
  ultimately have "linked h reserved n st2 rc'"
    using sent_items_empty [OF s2(2,3)] r(3,4) rcv(1) by (simp add: linked_def)
  moreover have "run_ok env n turns st2"
    using ok s1(1) s2(1) by simp
  ultimately show ?thesis
    using s1(1,6) s2(1,3,4) r(1,2) by (auto simp: queue_content_def)
qed

subsection \<open>The run loop on the link\<close>

text \<open>
  The loop returns; the turns it has made are the first \<open>k\<close>, all of them unless the runtime check
  ended it; the receiver takes every packet and calls back with their content.
\<close>

lemma run_loop_linked:
  assumes "linked h reserved n st rc" and "run_ok env n turns st"
  shows "\<exists>left st' k pkts rc'. run_loop env limited m turns st = Some (left, st') \<and>
    k \<le> length turns \<and> (k = length turns \<or> left) \<and> (turns \<noteq> [] \<longrightarrow> snd_deque st' = []) \<and>
    snd_iteration st' = snd_iteration st + of_nat k \<and>
    snd_sent st' = snd_sent st @ pkts \<and> foldM (receive_packet env) pkts rc = Some rc' \<and>
    calls_extend env rc (concat (map expected_calls (concat (map queue_content (turn_sends env (take k turns) st))))) rc' \<and>
    linked h reserved n st' rc'"
  using assms
proof (induction turns arbitrary: st rc)
  case Nil
  then show ?case
    by (intro exI [of _ False] exI [of _ st] exI [of _ "0 :: nat"] exI [of _ "[] :: bytes list"] exI [of _ rc])
      (simp add: calls_extend_def)
next
  case (Cons evs turns)
  obtain st1 st2 pkts rc1 where t: "turn_prepared env evs st = Some st1" "send_updates st1 = Some st2"
    "snd_sent st2 = snd_sent st @ pkts" "snd_deque st2 = []" "foldM (receive_packet env) pkts rc = Some rc1"
    "calls_extend env rc (concat (map expected_calls (queue_content st1))) rc1"
    "linked h reserved n st2 rc1" "run_ok env n turns st2"
    using turn_linked [OF Cons.prems] by (elim exE conjE) (rule that)
  have step: "run_iteration env evs st = Some st2"
    using t(1,2) by (simp add: run_iteration_prepared)
  note count = run_iteration_count [OF step]
  show ?case
  proof (cases "limited \<and> m \<le> snd_iteration st2")
    case True
    with t step count show ?thesis
      by (intro exI [of _ True] exI [of _ st2] exI [of _ "1 :: nat"] exI [of _ pkts] exI [of _ rc1]) simp
  next
    case False
    obtain left st' k more rc' where r: "run_loop env limited m turns st2 = Some (left, st')"
      "k \<le> length turns" "k = length turns \<or> left" "turns \<noteq> [] \<longrightarrow> snd_deque st' = []"
      "snd_iteration st' = snd_iteration st2 + of_nat k"
      "snd_sent st' = snd_sent st2 @ more" "foldM (receive_packet env) more rc1 = Some rc'"
      "calls_extend env rc1 (concat (map expected_calls (concat (map queue_content (turn_sends env (take k turns) st2))))) rc'"
      "linked h reserved n st' rc'"
      using Cons.IH [OF t(7,8)] by (elim exE conjE) (rule that)
    have "run_loop env limited m (evs # turns) st = Some (left, st')"
      using step False r(1) by auto
    moreover have "foldM (receive_packet env) (pkts @ more) rc = Some rc'"
      using t(5) r(7) by (simp add: foldM_append)
    moreover have "calls_extend env rc (concat (map expected_calls 
        (concat (map queue_content (turn_sends env (take (Suc k) (evs # turns)) st))))) rc'"
      using calls_extend_trans [OF t(6) r(8)] t(1,2) by simp
    moreover have "snd_deque st' = []"
      using r(1,4) t(4) by (cases turns) simp_all
    ultimately show ?thesis
      using r(2,3,5,6,9) t(3) count
      by (intro exI [of _ left] exI [of _ st'] exI [of _ "Suc k"] exI [of _ "pkts @ more"] exI [of _ rc']) auto
  qed
qed

lemma constructed_linked:
  assumes "sender_construct cr cx ca cfg t = Inr (st, u)"
    and "receiver_construct f created ok tok port s cfg now = Inr (rc, a)"
    and "ca_refuses ca" and "flat_channel_names cfg \<noteq> []"
  shows "linked (make_header t (cfg_hash cfg)) [0, 0, 0] (length (snd_channels st)) st rc"
proof -
  note r = constructed_ready [OF assms(1-3)]
  have "create_channels ca cfg = Some (snd_channels st)"
    using sender_init_spec(7) [OF _ assms(3)] assms(1) unfolding sender_construct_Inr by blast
  then have "length (snd_channels st) = length (flat_channel_names cfg)"
    by (simp add: create_channels_spec(5) total_channel_count_flat)
  with r assms(4) show ?thesis by (simp add: linked_def)
qed

end
