(* ===== verification/CA_Spec.thy ===== *)
theory CA_Spec
  imports CA_WholeRun
begin

text \<open>
  What the Channel Access link is to do, without channels, queues, buffers or packets: the last reading
  of every channel, the records that have something to report in a turn, and the calls the receiver's
  user gets. The sender's run is shown to follow it.
\<close>

subsection \<open>The layout of a configuration\<close>

text \<open>The name of each channel number, the number of its record, and whether it is polled.\<close>

record ca_layout =
  lay_names :: "string list"
  lay_roots :: "nat list"
  lay_polled :: "bool list"

definition layout_of :: "config \<Rightarrow> ca_layout" where
  "layout_of cfg =
     \<lparr>lay_names = flat_channel_names cfg, lay_roots = layout_roots 0 (cfg_channels cfg),
      lay_polled = concat (map polled_flags (cfg_channels cfg))\<rparr>"

definition lay_members :: "ca_layout \<Rightarrow> nat \<Rightarrow> nat list" where
  "lay_members lay r = filter (\<lambda>i. lay_roots lay ! i = r) [0 ..< length (lay_roots lay)]"

definition has_fields :: "ca_layout \<Rightarrow> nat \<Rightarrow> bool" where
  "has_fields lay r \<longleftrightarrow> 2 \<le> count_list (lay_roots lay) r"

subsection \<open>Readings\<close>

text \<open>
  What a channel was last reported with. For a polled channel the hash of the last reading that was
  passed on tells whether the next one is news.
\<close>

record reading =
  rd_type :: i64
  rd_count :: i64
  rd_value :: bytes
  rd_reported :: "u64 option"

definition no_reading :: reading where
  "no_reading = \<lparr>rd_type = TYPENOTCONN, rd_count = - 1, rd_value = [], rd_reported = None\<rparr>"

text \<open>A library callback: the readings after it, and the channel it makes news of.\<close>

fun observe :: "ca_env \<Rightarrow> ca_layout \<Rightarrow> ca_event \<Rightarrow> reading list \<Rightarrow> reading list \<times> nat list" where
  "observe env lay (ValueEvent i args) rs =
     (if ev_status args \<noteq> ECA_NORMAL then (rs, [])
      else
        let v = event_value env args; h = value_hash (env_mem_hash env) v (length v);
            d = (rs ! i)\<lparr>rd_count := ev_count args, rd_value := v\<rparr>
        in if \<not> lay_polled lay ! i then (rs[i := d], [i])
           else if length (rd_value (rs ! i)) \<noteq> length v \<or> rd_reported (rs ! i) \<noteq> h
           then (rs[i := d\<lparr>rd_reported := h\<rparr>], [i])
           else (rs[i := d], []))"
| "observe env lay (ConnectionEvent i CONN_DOWN) rs = (rs[i := (rs ! i)\<lparr>rd_count := - 1, rd_value := []\<rparr>], [i])"
| "observe env lay (ConnectionEvent i (CONN_UP t n sub)) rs =
     (rs[i := (rs ! i)\<lparr>rd_type := if CHR ''.'' \<in> set (lay_names lay ! i) then t else env_dbr_time env t\<rparr>], [])"
| "observe env lay (ConnectionEvent i CONN_OTHER) rs = (rs, [])"

fun observe_all :: "ca_env \<Rightarrow> ca_layout \<Rightarrow> ca_event list \<Rightarrow> reading list \<Rightarrow> reading list \<times> nat list" where
  "observe_all env lay [] rs = (rs, [])"
| "observe_all env lay (e # es) rs =
     (let (rs, m) = observe env lay e rs; (rs, ms) = observe_all env lay es rs in (rs, m @ ms))"

text \<open>Before the first callback nothing is read; a heartbeat is due every so many turns.\<close>

definition nothing_read :: "config \<Rightarrow> reading list" where
  "nothing_read cfg = replicate (length (flat_channel_names cfg)) no_reading"

definition heartbeat_turns :: "config \<Rightarrow> u64" where
  "heartbeat_turns cfg =
     iterations_per (dmax (cfg_heartbeat_period cfg) MIN_HB_PERIOD) (dmax (cfg_min_update_period cfg) MIN_UPDATE_PERIOD)"

subsection \<open>Turns\<close>

text \<open>
  The records of a turn: those with news, in the order of their first news, and when a heartbeat is due
  those that had none since the last one and those with fields, in their order in the configuration
  (\<open>enq_new\<close> passes over what it has already).
\<close>

definition turn_news :: "ca_layout \<Rightarrow> nat list \<Rightarrow> nat list" where
  "turn_news lay ms = enq_new [] (map ((!) (lay_roots lay)) ms)"

definition turn_records :: "ca_layout \<Rightarrow> bool \<Rightarrow> nat set \<Rightarrow> nat list \<Rightarrow> nat list" where
  "turn_records lay due busy news =
     (if due then enq_new news (filter (\<lambda>r. r \<notin> busy \<union> set news \<or> has_fields lay r) (lay_roots lay)) else news)"

text \<open>What the receiver's user sees of a record: all its members as they were read last.\<close>

definition reading_view :: "nat \<Rightarrow> reading \<Rightarrow> rx_view" where
  "reading_view i d = (of_nat i, ucast (rd_type d), ucast (rd_count d), Some (rd_value d))"

definition record_view :: "ca_layout \<Rightarrow> reading list \<Rightarrow> nat \<Rightarrow> rx_view list" where
  "record_view lay rs r = map (\<lambda>i. reading_view i (rs ! i)) (lay_members lay r)"

text \<open>The calls of each turn. \<open>busy\<close> are the records with news since the last heartbeat.\<close>

fun spec_run :: "ca_env \<Rightarrow> ca_layout \<Rightarrow> u64 \<Rightarrow> u64 \<Rightarrow> ca_event list list \<Rightarrow> reading list \<Rightarrow> nat set \<Rightarrow> rx_view list list" where
  "spec_run env lay hb it [] rs busy = []"
| "spec_run env lay hb it (evs # turns) rs busy =
     (let (rs, ms) = observe_all env lay evs rs;
          due = ((it + 1) mod hb = 0);
          news = turn_news lay ms
      in concat (map (record_view lay rs) (turn_records lay due busy news)) #
         spec_run env lay hb (it + 1) turns rs (if due then {} else busy \<union> set news))"

text \<open>
  What this rests on: callbacks of channels that exist and carry what they announce, readings whose size
  the receiver can tell from type and count, and records that fit a packet or, when the value of a
  record itself does not, have no fields.
\<close>

fun callback_ok :: "ca_env \<Rightarrow> (string \<Rightarrow> ca_status option) \<Rightarrow> ca_layout \<Rightarrow> ca_event \<Rightarrow> bool" where
  "callback_ok env ca lay (ValueEvent i args) \<longleftrightarrow> i < length (lay_names lay) \<and> wf_event env args"
| "callback_ok env ca lay (ConnectionEvent i e) \<longleftrightarrow> i < length (lay_names lay) \<and> ca (lay_names lay ! i) = None"

definition big_reading :: "reading \<Rightarrow> bool" where
  "big_reading d \<longleftrightarrow> length (rd_value d) > CAChannelData_max_data_size"

definition reading_ok :: "ca_env \<Rightarrow> reading \<Rightarrow> bool" where
  "reading_ok env d \<longleftrightarrow>
     (if rd_count d = - 1 then rd_value d = []
      else unat (rd_count d) < (if big_reading d then 2 ^ 32 - 1 else 2 ^ 16 - 1) \<and>
        rx_value_size env (ucast (rd_type d)) (ucast (rd_count d)) = length (rd_value d) \<and>
        length (rd_value d) \<le> 65536 * frag_room)"

definition padded_len :: "reading \<Rightarrow> nat" where
  "padded_len d = 8 + length (rd_value d) + pad_len 8 (length (rd_value d))"

definition record_ok :: "ca_env \<Rightarrow> ca_layout \<Rightarrow> reading list \<Rightarrow> nat \<Rightarrow> bool" where
  "record_ok env lay rs r \<longleftrightarrow>
     list_all (\<lambda>i. reading_ok env (rs ! i)) (lay_members lay r) \<and>
     (if big_reading (rs ! r) then \<not> has_fields lay r
      else sum_list (map (\<lambda>i. padded_len (rs ! i)) (lay_members lay r)) \<le> data_room)"

fun spec_ok :: "ca_env \<Rightarrow> (string \<Rightarrow> ca_status option) \<Rightarrow> ca_layout \<Rightarrow> u64 \<Rightarrow> u64 \<Rightarrow> ca_event list list \<Rightarrow>
    reading list \<Rightarrow> nat set \<Rightarrow> bool" where
  "spec_ok env ca lay hb it [] rs busy \<longleftrightarrow> True"
| "spec_ok env ca lay hb it (evs # turns) rs busy \<longleftrightarrow>
     list_all (callback_ok env ca lay) evs \<and>
     (let (rs, ms) = observe_all env lay evs rs;
          due = ((it + 1) mod hb = 0);
          news = turn_news lay ms
      in list_all (record_ok env lay rs) (turn_records lay due busy news) \<and>
         spec_ok env ca lay hb (it + 1) turns rs (if due then {} else busy \<union> set news))"

end
