(* ===== verification/CA_Follow.thy ===== *)
theory CA_Follow
  imports CA_Spec
begin

text \<open>
  The sender follows the abstract link of \<open>CA_Spec\<close>: its channels hold the readings, its queue the
  records with news, its heartbeat counters tell which records had some; sending changes none of that.
\<close>

subsection \<open>The relation\<close>

definition reading_of :: "ca_channel \<Rightarrow> reading" where
  "reading_of c =
     \<lparr>rd_type = ch_type c, rd_count = ch_count c, rd_value = ch_value c,
      rd_reported = (if ch_value_hash_initialized c then Some (ch_value_hash c) else None)\<rparr>"

definition chan_view :: "ca_channel \<Rightarrow> string option \<times> nat \<times> bool \<times> reading" where
  "chan_view c = (ch_channel_id c, ch_parent_index c, ch_is_polled c, reading_of c)"

definition sender_view :: "ca_sender \<Rightarrow> (string option \<times> nat \<times> bool \<times> reading) list" where
  "sender_view st = map chan_view (snd_channels st)"

definition follows :: "(string \<Rightarrow> ca_status option) \<Rightarrow> ca_layout \<Rightarrow> reading list \<Rightarrow> ca_sender \<Rightarrow> bool" where
  "follows ca lay rs st \<longleftrightarrow>
     queue_inv st \<and> map fst (sender_view st) = map (created_name ca) (lay_names lay) \<and>
     map (fst \<circ> snd) (sender_view st) = lay_roots lay \<and> map (fst \<circ> snd \<circ> snd) (sender_view st) = lay_polled lay \<and>
     map (snd \<circ> snd \<circ> snd) (sender_view st) = rs"

lemma follows_view:
  "follows ca lay rs st \<Longrightarrow> sender_view st' = sender_view st \<Longrightarrow> queue_inv st' \<Longrightarrow> follows ca lay rs st'"
  by (simp add: follows_def)

lemma followsD:
  assumes "follows ca lay rs st"
  shows "queue_inv st" "length (snd_channels st) = length (lay_names lay)" "length (lay_roots lay) = length (lay_names lay)"
    "length rs = length (lay_names lay)" "map (root_of st) [0 ..< length (snd_channels st)] = lay_roots lay"
proof -
  show "queue_inv st" using assms by (simp add: follows_def)
  note m = assms [unfolded follows_def sender_view_def]
  show l: "length (snd_channels st) = length (lay_names lay)"
    using m by (metis length_map)
  show "length (lay_roots lay) = length (lay_names lay)" "length rs = length (lay_names lay)"
    using m l by (metis length_map)+
  have "lay_roots lay = map ch_parent_index (snd_channels st)"
    using m by (auto simp: chan_view_def comp_def)
  also have "\<dots> = map (root_of st) [0 ..< length (snd_channels st)]"
    by (rule nth_equalityI) (simp_all add: root_of_def)
  finally show "map (root_of st) [0 ..< length (snd_channels st)] = lay_roots lay" ..
qed

lemma follows_at:
  assumes f: "follows ca lay rs st" and i: "i < length (lay_names lay)"
  shows "ch_channel_id (snd_channels st ! i) = created_name ca (lay_names lay ! i)"
    and "root_of st i = lay_roots lay ! i"
    and "ch_is_polled (snd_channels st ! i) = lay_polled lay ! i"
    and "reading_of (snd_channels st ! i) = rs ! i"
proof -
  note len = followsD(2) [OF f]
  have c: "chan_view (snd_channels st ! i) = sender_view st ! i"
    using i len by (simp add: sender_view_def)
  have n: "i < length (sender_view st)"
    using i len by (simp add: sender_view_def)
  have "fst (sender_view st ! i) = map (created_name ca) (lay_names lay) ! i"
    "fst (snd (sender_view st ! i)) = lay_roots lay ! i" "fst (snd (snd (sender_view st ! i))) = lay_polled lay ! i"
    "snd (snd (snd (sender_view st ! i))) = rs ! i"
    using f n unfolding follows_def by (metis comp_apply nth_map)+
  then show "ch_channel_id (snd_channels st ! i) = created_name ca (lay_names lay ! i)"
    "root_of st i = lay_roots lay ! i" "ch_is_polled (snd_channels st ! i) = lay_polled lay ! i"
    "reading_of (snd_channels st ! i) = rs ! i"
    unfolding c [symmetric] using i by (simp_all add: chan_view_def root_of_def)
qed

lemma map_update_same: "f c = f (xs ! i) \<Longrightarrow> map f (xs[i := c]) = map f xs"
  by (cases "i < length xs") (simp_all add: map_update list_update_same_conv list_update_beyond)

lemma set_channel_view:
  "chan_view c = chan_view (snd_channels st ! i) \<Longrightarrow> sender_view (set_channel i c st) = sender_view st"
  by (simp add: sender_view_def map_update_same)

lemma view_frame [simp]:
  "sender_view (st\<lparr>snd_deque := q\<rparr>) = sender_view st" "sender_view (st\<lparr>snd_buffer := b\<rparr>) = sender_view st"
  "sender_view (st\<lparr>snd_seq_no := n\<rparr>) = sender_view st" "sender_view (udp_send p st) = sender_view st"
  "sender_view (st\<lparr>snd_ca_calls := cs\<rparr>) = sender_view st" "sender_view (st\<lparr>snd_iteration := k\<rparr>) = sender_view st"
  "sender_view (check_polled_fields st) = sender_view st"
  by (simp_all add: sender_view_def udp_send_def check_polled_fields_def)

lemma follows_set:
  assumes f: "follows ca lay rs st" and i: "i < length (lay_names lay)" and c: "same_place (snd_channels st ! i) c"
    and s: "ch_channel_id c = ch_channel_id (snd_channels st ! i)" "ch_is_polled c = ch_is_polled (snd_channels st ! i)"
  shows "follows ca lay (rs[i := reading_of c]) (set_channel i c st)"
proof -
  have v: "sender_view (set_channel i c st) = (sender_view st)[i := chan_view c]"
    by (simp add: sender_view_def map_update)
  have at: "sender_view st ! i = chan_view (snd_channels st ! i)"
    using i followsD(2) [OF f] by (simp add: sender_view_def)
  have p: "ch_parent_index c = ch_parent_index (snd_channels st ! i)"
    using c by (simp add: same_place_def)
  have "map (snd \<circ> snd \<circ> snd) ((sender_view st)[i := chan_view c]) = rs[i := reading_of c]"
    using f by (simp add: map_update follows_def chan_view_def)
  moreover have "queue_inv (set_channel i c st)"
    using queue_inv_set [OF followsD(1) [OF f] c] .
  moreover have "map fst ((sender_view st)[i := chan_view c]) = map fst (sender_view st)"
    "map (fst \<circ> snd) ((sender_view st)[i := chan_view c]) = map (fst \<circ> snd) (sender_view st)"
    "map (fst \<circ> snd \<circ> snd) ((sender_view st)[i := chan_view c]) = map (fst \<circ> snd \<circ> snd) (sender_view st)"
    by (rule map_update_same, simp add: at chan_view_def s p)+
  ultimately show ?thesis
    using f unfolding follows_def v by simp
qed

subsection \<open>Marks\<close>

text \<open>\<open>busy_is\<close>: the heartbeat counters of the records in \<open>busy\<close> are not zero.\<close>

definition busy_is :: "ca_layout \<Rightarrow> nat set \<Rightarrow> ca_sender \<Rightarrow> bool" where
  "busy_is lay busy st \<longleftrightarrow> (\<forall>r \<in> set (lay_roots lay). idle st r \<longleftrightarrow> r \<notin> busy)"

lemma mark_root_view: "sender_view (mark_root r st) = sender_view st"
  by (auto simp: mark_root_def Let_def chan_view_def reading_of_def intro: set_channel_view)

lemma mark_root_idle:
  assumes "queue_inv st" and "r < length (snd_channels st)" and "root_of st r = r"
  shows "idle (mark_root r st) j \<longleftrightarrow> idle st j \<and> (j = r \<longrightarrow> r \<in> set (snd_deque st))"
proof -
  have "r \<in> set (snd_deque st) \<longleftrightarrow> ch_pending_update (snd_channels st ! r)"
    using assms chans_wfD(5) [of "snd_channels st" r] by (auto simp: queue_inv_def pending_root_def root_of_def)
  then show ?thesis
    using assms(2) by (auto simp: idle_def mark_root_def Let_def nth_list_update)
qed

lemma set_channel_idle:
  "ch_updates_since_last_hb c = ch_updates_since_last_hb (snd_channels st ! i) \<Longrightarrow> idle (set_channel i c st) = idle st"
  by (auto simp: idle_def fun_eq_iff list_update_field)

text \<open>A channel changes and its record is marked.\<close>

lemma follows_mark:
  assumes f: "follows ca lay rs st" and b: "busy_is lay (busy \<union> set (snd_deque st)) st"
    and i: "i < length (lay_names lay)" and c: "same_place (snd_channels st ! i) c"
    and s: "ch_channel_id c = ch_channel_id (snd_channels st ! i)" "ch_is_polled c = ch_is_polled (snd_channels st ! i)"
      "ch_updates_since_last_hb c = ch_updates_since_last_hb (snd_channels st ! i)"
  shows "\<exists>st'. mark_update i (set_channel i c st) = Some st' \<and> follows ca lay (rs[i := reading_of c]) st' \<and>
    snd_deque st' = enq_new (snd_deque st) [lay_roots lay ! i] \<and> busy_is lay (busy \<union> set (snd_deque st')) st'"
proof -
  let ?st = "set_channel i c st" and ?r = "lay_roots lay ! i"
  have f1: "follows ca lay (rs[i := reading_of c]) ?st"
    using follows_set [OF f i c s(1,2)] .
  have inv: "queue_inv ?st" and il: "i < length (snd_channels ?st)" and wf: "chans_wf (snd_channels ?st)"
    using followsD(1,2) [OF f1] i by (auto simp: queue_inv_def)
  have r: "root_of ?st i = ?r"
    using follows_at(2) [OF f1 i] .
  have rr: "?r < length (snd_channels ?st)" "root_of ?st ?r = ?r"
    using chans_wfD [OF wf il] r by (simp_all add: root_of_def)
  have m: "mark_update i ?st = Some (mark_root ?r ?st)"
    using mark_update_root [OF wf il] r by simp
  note q = queue_inv_mark [OF inv il, unfolded r]
  have "follows ca lay (rs[i := reading_of c]) (mark_root ?r ?st)"
    using follows_view [OF f1 mark_root_view q(1)] .
  moreover have "busy_is lay (busy \<union> set (snd_deque (mark_root ?r ?st))) (mark_root ?r ?st)"
    using b unfolding busy_is_def mark_root_idle [OF inv rr] set_channel_idle [OF s(3)] q(2) by auto
  ultimately show ?thesis
    using m q(2) by auto
qed

subsection \<open>Callbacks\<close>

lemma value_observed:
  assumes f: "follows ca lay rs st" and b: "busy_is lay (busy \<union> set (snd_deque st)) st"
    and ok: "callback_ok env ca lay (ValueEvent i args)" and obs: "observe env lay (ValueEvent i args) rs = (rs', m)"
  shows "\<exists>st'. handle_ca_event env (ValueEvent i args) st = Some st' \<and> follows ca lay rs' st' \<and>
    snd_deque st' = enq_new (snd_deque st) (map ((!) (lay_roots lay)) m) \<and> busy_is lay (busy \<union> set (snd_deque st')) st'"
proof -
  let ?c = "snd_channels st ! i" and ?v = "event_value env args"
  let ?n = "unat (env_dbr_size_n env (ev_type args) (ev_count args))"
  have i: "i < length (lay_names lay)" "i < length (snd_channels st)" and wf: "wf_event env args"
    using ok followsD(2) [OF f] by simp_all
  have len: "length ?v = ?n" and v: "take ?n (ev_dbr args) = ?v"
    using wf by (simp_all add: event_value_def wf_event_def)
  have at: "ch_is_polled ?c = lay_polled lay ! i" "rs ! i = reading_of ?c"
    using follows_at [OF f i(1)] by simp_all
  show ?thesis
  proof (cases "ev_status args = ECA_NORMAL")
    case False
    let ?c1 = "?c\<lparr>ch_status := ev_status args\<rparr>"
    have sp: "same_place ?c ?c1" by (simp add: same_place_def)
    have "rs[i := reading_of ?c1] = rs"
      using at(2) by (simp add: reading_of_def list_update_same_conv followsD(4) [OF f] i)
    with follows_set [OF f i(1) sp] have "follows ca lay rs (set_channel i ?c1 st)" by simp
    with False i b obs show ?thesis
      by (simp add: event_handler_def Let_def busy_is_def set_channel_idle)
  next
    case True
    let ?c1 = "?c\<lparr>ch_status := ECA_NORMAL, ch_count := ev_count args, ch_value := ?v\<rparr>"
    obtain hash where hash: "value_hash (env_mem_hash env) ?v ?n = Some hash"
      using len by (cases "value_hash (env_mem_hash env) ?v ?n") (auto simp: value_hash_def split: if_splits)
    let ?c2 = "?c1\<lparr>ch_value_hash_initialized := True, ch_value_hash := hash\<rparr>"
    have sp: "same_place ?c ?c1" "same_place ?c ?c2" by (simp_all add: same_place_def)
    have eh: "event_handler env i args st =
        (if ch_is_polled ?c then
           if \<not> ch_value_hash_initialized ?c \<or> length (ch_value ?c) \<noteq> ?n \<or> ch_value_hash ?c \<noteq> hash
           then mark_update i (set_channel i ?c2 st) else Some (set_channel i ?c1 st)
         else mark_update i (set_channel i ?c1 st))"
      using True i wf by (simp add: event_handler_def Let_def v hash wf_event_def not_less)
    have news: "(\<not> ch_value_hash_initialized ?c \<or> length (ch_value ?c) \<noteq> ?n \<or> ch_value_hash ?c \<noteq> hash) \<longleftrightarrow>
        (length (rd_value (rs ! i)) \<noteq> length ?v \<or> rd_reported (rs ! i) \<noteq> Some hash)"
      by (auto simp: at(2) reading_of_def len)
    have rd: "reading_of ?c1 = (rs ! i)\<lparr>rd_count := ev_count args, rd_value := ?v\<rparr>"
      "reading_of ?c2 = (rs ! i)\<lparr>rd_count := ev_count args, rd_value := ?v, rd_reported := Some hash\<rparr>"
      by (simp_all add: at(2) reading_of_def)
    have h: "value_hash (env_mem_hash env) ?v (length ?v) = Some hash"
      using hash len by simp
    note m1 = follows_mark [OF f b i(1) sp(1)] and m2 = follows_mark [OF f b i(1) sp(2)]
    have quiet: "follows ca lay (rs[i := reading_of ?c1]) (set_channel i ?c1 st)"
      "busy_is lay (busy \<union> set (snd_deque st)) (set_channel i ?c1 st)"
      using follows_set [OF f i(1) sp(1)] b by (simp_all add: busy_is_def set_channel_idle)
    consider "\<not> ch_is_polled ?c" "rs' = rs[i := reading_of ?c1]" "m = [i]"
      | "ch_is_polled ?c" "\<not> ch_value_hash_initialized ?c \<or> length (ch_value ?c) \<noteq> ?n \<or> ch_value_hash ?c \<noteq> hash"
        "rs' = rs[i := reading_of ?c2]" "m = [i]"
      | "ch_is_polled ?c" "\<not> (\<not> ch_value_hash_initialized ?c \<or> length (ch_value ?c) \<noteq> ?n \<or> ch_value_hash ?c \<noteq> hash)"
        "rs' = rs[i := reading_of ?c1]" "m = []"
      using obs True h unfolding news rd by (auto simp: Let_def at(1) split: if_splits)
    then show ?thesis
      by cases (use m1 m2 quiet in \<open>simp_all add: eh\<close>)
  qed
qed

text \<open>A connection sets the type of the channel; the requests to the library are not looked at here.\<close>

lemma connection_up_shape:
  assumes up: "connection_up env i t n sub st = Some st'" and name: "ch_channel_id (snd_channels st ! i) = Some nm"
    and i: "i < length (snd_channels st)"
  shows "\<exists>c. st'\<lparr>snd_ca_calls := []\<rparr> = (set_channel i c st)\<lparr>snd_ca_calls := []\<rparr> \<and> same_place (snd_channels st ! i) c \<and>
    ch_channel_id c = Some nm \<and> ch_is_polled c = ch_is_polled (snd_channels st ! i) \<and>
    ch_updates_since_last_hb c = ch_updates_since_last_hb (snd_channels st ! i) \<and>
    reading_of c = (reading_of (snd_channels st ! i))
      \<lparr>rd_type := if CHR ''.'' \<in> set nm then t else env_dbr_time env t\<rparr>"
    (is "\<exists>c. ?Q c")
proof -
  let ?c = "snd_channels st ! i"
  define e where "e = (ch_event_id ?c \<and> \<not> (ch_event_id ?c \<and> ch_channel_type ?c \<noteq> t))"
  define C where "C = ?c\<lparr>ch_event_id := e, ch_channel_type := t,
    ch_type := if CHR ''.'' \<in> set nm then t else env_dbr_time env t\<rparr>"
  define D where "D = (if ch_is_polled ?c then C\<lparr>ch_status := ECA_NORMAL\<rparr>
    else if e then C else C\<lparr>ch_status := sub, ch_event_id := (sub = ECA_NORMAL)\<rparr>)"
  have "st'\<lparr>snd_ca_calls := []\<rparr> = (set_channel i D st)\<lparr>snd_ca_calls := []\<rparr>"
    using up i name unfolding connection_up_def Let_def D_def C_def e_def by auto
  moreover have "same_place ?c D \<and> ch_channel_id D = Some nm \<and> ch_is_polled D = ch_is_polled ?c \<and>
      ch_updates_since_last_hb D = ch_updates_since_last_hb ?c \<and> reading_of D = (reading_of ?c)
        \<lparr>rd_type := if CHR ''.'' \<in> set nm then t else env_dbr_time env t\<rparr>"
    by (simp add: D_def C_def same_place_def reading_of_def name)
  ultimately have "?Q D" by blast
  then show ?thesis ..
qed

lemma connection_observed:
  assumes f: "follows ca lay rs st" and b: "busy_is lay (busy \<union> set (snd_deque st)) st"
    and ok: "callback_ok env ca lay (ConnectionEvent i e)" and obs: "observe env lay (ConnectionEvent i e) rs = (rs', m)"
  shows "\<exists>st'. handle_ca_event env (ConnectionEvent i e) st = Some st' \<and> follows ca lay rs' st' \<and>
    snd_deque st' = enq_new (snd_deque st) (map ((!) (lay_roots lay)) m) \<and> busy_is lay (busy \<union> set (snd_deque st')) st'"
proof -
  let ?c = "snd_channels st ! i"
  have i: "i < length (lay_names lay)" "i < length (snd_channels st)"
    using ok followsD(2) [OF f] by simp_all
  have name: "ch_channel_id ?c = Some (lay_names lay ! i)" and rd: "rs ! i = reading_of ?c"
    using follows_at [OF f i(1)] ok by (simp_all add: created_name_def)
  show ?thesis
  proof (cases e)
    case (CONN_UP t n sub)
    let ?t = "if CHR ''.'' \<in> set (lay_names lay ! i) then t else env_dbr_time env t"
    have rs': "rs' = rs[i := (rs ! i)\<lparr>rd_type := ?t\<rparr>]" "m = []"
      using obs CONN_UP by simp_all
    obtain st1 where s1: "connection_up env i t n sub st = Some st1" "queue_inv st1" "snd_deque st1 = snd_deque st"
      using connection_up_spec [OF followsD(1) [OF f] i(2) name] by blast
    obtain c where c: "st1\<lparr>snd_ca_calls := []\<rparr> = (set_channel i c st)\<lparr>snd_ca_calls := []\<rparr>"
      "same_place ?c c" "ch_channel_id c = ch_channel_id ?c" "ch_is_polled c = ch_is_polled ?c"
      "ch_updates_since_last_hb c = ch_updates_since_last_hb ?c" "reading_of c = (rs ! i)\<lparr>rd_type := ?t\<rparr>"
      using connection_up_shape [OF s1(1) name i(2)] unfolding rd name by blast
    have chs: "snd_channels st1 = snd_channels (set_channel i c st)"
      using arg_cong [OF c(1), of snd_channels] by simp
    have f1: "follows ca lay rs' (set_channel i c st)"
      using follows_set [OF f i(1) c(2-4)] by (simp add: c(6) rs'(1))
    have "follows ca lay rs' st1"
      using follows_view [OF f1 _ s1(2)] chs by (simp add: sender_view_def)
    moreover have "busy_is lay (busy \<union> set (snd_deque st)) st1"
      using b set_channel_idle [OF c(5)] chs by (simp add: busy_is_def idle_def fun_eq_iff)
    ultimately show ?thesis
      using s1(1,3) CONN_UP by (simp add: rs'(2))
  next
    case CONN_DOWN
    let ?c1 = "?c\<lparr>ch_status := ECA_DISCONN, ch_count := - 1, ch_value := []\<rparr>"
    have sp: "same_place ?c ?c1" by (simp add: same_place_def)
    have "reading_of ?c1 = (rs ! i)\<lparr>rd_count := - 1, rd_value := []\<rparr>"
      by (simp add: rd reading_of_def)
    then have "rs' = rs[i := reading_of ?c1]" "m = [i]"
      using obs CONN_DOWN by simp_all
    with follows_mark [OF f b i(1) sp] show ?thesis
      using i(2) CONN_DOWN by (simp add: connection_down_def)
  next
    case CONN_OTHER
    with f b obs show ?thesis by simp
  qed
qed

lemma enq_new_append: "enq_new q (xs @ ys) = enq_new (enq_new q xs) ys"
  by (induction q xs rule: enq_new.induct) simp_all

lemma callbacks_observed:
  assumes "follows ca lay rs st" and "busy_is lay (busy \<union> set (snd_deque st)) st"
    and "list_all (callback_ok env ca lay) evs" and "observe_all env lay evs rs = (rs', ms)"
  shows "\<exists>st'. foldM (handle_ca_event env) evs st = Some st' \<and> follows ca lay rs' st' \<and>
    snd_deque st' = enq_new (snd_deque st) (map ((!) (lay_roots lay)) ms) \<and> busy_is lay (busy \<union> set (snd_deque st')) st' \<and>
    events_ok env st evs"
  using assms
proof (induction evs arbitrary: rs st ms)
  case Nil
  then show ?case by simp
next
  case (Cons e es)
  obtain rs1 m where o1: "observe env lay e rs = (rs1, m)" by fastforce
  obtain rs2 ms2 where o2: "observe_all env lay es rs1 = (rs2, ms2)" by fastforce
  have ok: "callback_ok env ca lay e" using Cons.prems(3) by simp
  obtain st1 where s1: "handle_ca_event env e st = Some st1" "follows ca lay rs1 st1"
    "snd_deque st1 = enq_new (snd_deque st) (map ((!) (lay_roots lay)) m)" "busy_is lay (busy \<union> set (snd_deque st1)) st1"
    using value_observed [OF Cons.prems(1,2)] connection_observed [OF Cons.prems(1,2)] ok o1 by (cases e) blast+
  have wf: "wf_ca_event env st e"
    using ok followsD(2) [OF Cons.prems(1)] follows_at(1) [OF Cons.prems(1)]
    by (cases e) (auto simp: created_name_def)
  have o: "rs2 = rs'" "ms = m @ ms2"
    using Cons.prems(4) o1 o2 by simp_all
  have "list_all (callback_ok env ca lay) es" using Cons.prems(3) by simp
  from Cons.IH [OF s1(2,4) this o2 [unfolded o(1)]] show ?case
    using s1(1,3) wf by (auto simp: enq_new_append o(2))
qed

end
