(* ===== verification/CA_Content.thy ===== *)
theory CA_Content
  imports CA_Reassembly
begin

text \<open>
  The content of a queued group in terms of its channels: the values that survive the narrowing of the
  wire format, the channels that make up a group, and what the callback sees of them. A default channel
  whose own value needs fragments is sent alone, without its fields.
\<close>

subsection \<open>The members of a group\<close>

lemma end_group_loop_parents:
  assumes "chans_wf chs" and "i < length chs"
  shows "(\<forall>j. i \<le> j \<and> j \<le> end_group_loop chs i \<longrightarrow> ch_parent_index (chs ! j) = ch_parent_index (chs ! i)) \<and>
    (\<forall>j. end_group_loop chs i < j \<and> j < length chs \<longrightarrow> ch_parent_index (chs ! i) < ch_parent_index (chs ! j))"
  using assms
proof (induction chs i rule: end_group_loop.induct)
  case (1 chs i)
  have mono: "ch_parent_index (chs ! a) \<le> ch_parent_index (chs ! b)" if "a \<le> b" "b < length chs" for a b
    using "1.prems"(1) that by (simp add: chans_wf_def)
  note eq = end_group_loop.simps [of chs i]
  show ?case
  proof (cases "i < length chs - 1 \<and> \<not> ch_parent_index (chs ! i) < ch_parent_index (chs ! (i + 1))")
    case True
    then have e: "end_group_loop chs i = end_group_loop chs (i + 1)" and l: "i + 1 < length chs"
      using eq by auto
    have p: "ch_parent_index (chs ! (i + 1)) = ch_parent_index (chs ! i)"
      using True mono [of i "i + 1"] l by simp
    have "i \<le> j \<Longrightarrow> j = i \<or> i + 1 \<le> j" for j by auto
    with "1.IH" True "1.prems"(1) l show ?thesis
      unfolding e p by blast
  next
    case False
    have "ch_parent_index (chs ! i) < ch_parent_index (chs ! j)" if "i < j" "j < length chs" for j
      using False that mono [of "i + 1" j] by (auto simp: less_diff_conv)
    moreover from False have "end_group_loop chs i = i"
      using eq "1.prems"(2) by auto
    ultimately show ?thesis by auto
  qed
qed

lemmas end_group_parents = end_group_loop_parents [THEN conjunct1, rule_format]
  end_group_loop_parents [THEN conjunct2, rule_format]

text \<open>The members are the channels with the group's default channel as parent, in their order.\<close>

lemma group_members_filter:
  assumes wf: "chans_wf chs" and q: "q < length chs" "is_channel (chs ! q)"
  shows "group_members chs (chs ! q) =
    map ((!) chs) (filter (\<lambda>i. ch_parent_index (chs ! i) = q) [0 ..< length chs])"
proof -
  let ?e = "end_group_loop chs q"
  have p: "ch_parent_index (chs ! q) = q" "ch_index (chs ! q) = q"
    using chans_wfD [OF wf q(1)] q(2) by simp_all
  have e: "?e < length chs"
    using end_group_loop_bounds [OF q(1)] by simp
  have "i \<in> set [q ..< ?e + 1] \<longleftrightarrow> i \<in> set (filter (\<lambda>i. ch_parent_index (chs ! i) = q) [0 ..< length chs])" for i
    using end_group_parents [OF wf q(1), of i] chans_wfD(2) [OF wf, of i] p(1) e
    by (cases "i < q"; cases "i \<le> ?e") auto
  then have "set [q ..< ?e + 1] = set (filter (\<lambda>i. ch_parent_index (chs ! i) = q) [0 ..< length chs])"
    by blast
  then have "[q ..< ?e + 1] = filter (\<lambda>i. ch_parent_index (chs ! i) = q) [0 ..< length chs]"
    using sorted_filter [of "\<lambda>x. x" "[0 ..< length chs]" "\<lambda>i. ch_parent_index (chs ! i) = q"]
    by (intro sorted_distinct_set_unique) (simp_all del: upt_Suc set_upt)
  then show ?thesis
    by (simp add: group_members_def start_group_id_def end_group_id_def p)
qed

subsection \<open>Values the wire format can carry\<close>

text \<open>
  A disconnected channel has no value; otherwise the receiver must be able to tell the size of the value
  from type and count, whose upper halves are cut off, and the count must not look like a disconnect.
\<close>

definition readable :: "ca_env \<Rightarrow> ca_channel \<Rightarrow> bool" where
  "readable env c \<longleftrightarrow>
     (if ch_count c = - 1 then ch_value c = []
      else unat (ch_count c) < (if needs_fragments c then 2 ^ 32 - 1 else 2 ^ 16 - 1) \<and>
        rx_value_size env (ucast (ch_type c)) (ucast (ch_count c)) = length (ch_value c) \<and>
        length (ch_value c) \<le> 65536 * frag_room)"

definition member_view :: "ca_channel \<Rightarrow> rx_view" where
  "member_view c = (of_nat (ch_index c), ucast (ch_type c), ucast (ch_count c), Some (ch_value c))"

text \<open>The fields of a group are sent with it unless the value of its default channel needs fragments.\<close>

definition whole :: "ca_channel list \<Rightarrow> nat \<Rightarrow> bool" where
  "whole chs q \<longleftrightarrow> (needs_fragments (chs ! q) \<longrightarrow> group_members chs (chs ! q) = [chs ! q])"

lemma ucast_all_ones: "(ucast (- 1 :: 64 word) :: 16 word) = - 1" "(ucast (- 1 :: 64 word) :: 32 word) = - 1"
  by (rule bit_word_eqI, simp add: bit_simps)+

lemma small_count:
  fixes n :: i64
  assumes "unat n < 2 ^ 16 - 1"
  shows "(ucast n :: u16) \<noteq> - 1" "(ucast (ucast n :: u16) :: u32) = ucast n"
proof -
  have u: "unat (ucast n :: u16) = unat n" "unat (ucast n :: u32) = unat n"
    using assms by (simp_all add: unsigned_ucast_eq take_bit_nat_eq_self)
  show "(ucast n :: u16) \<noteq> - 1"
  proof
    assume "(ucast n :: u16) = - 1"
    then have "unat (ucast n :: u16) = unat (- 1 :: u16)" by simp
    with u assms show False by (simp add: unsigned_minus_1_eq_mask mask_eq_exp_minus_1)
  qed
  have "unat (ucast m :: u32) = unat m" for m :: u16
    using unat_bound(2) [of m] by (simp add: unsigned_ucast_eq take_bit_nat_eq_self)
  with u show "(ucast (ucast n :: u16) :: u32) = ucast n"
    by (intro word_unat_eq_iff [THEN iffD2]) simp
qed

lemma middle_count:
  fixes n :: i64
  assumes "unat n < 2 ^ 32 - 1"
  shows "(ucast n :: u32) \<noteq> - 1"
proof
  assume "(ucast n :: u32) = - 1"
  then have "unat (ucast n :: u32) = unat (- 1 :: u32)" by simp
  moreover have "unat (ucast n :: u32) = unat n"
    using assms by (simp add: unsigned_ucast_eq take_bit_nat_eq_self)
  ultimately show False
    using assms by (simp add: unsigned_minus_1_eq_mask mask_eq_exp_minus_1)
qed

lemma unat_of_nat_le: "unat (of_nat k :: 'a :: len word) \<le> k"
  by (simp add: unsigned_of_nat take_bit_eq_mod)

lemma member_payload:
  assumes "readable env c" and "\<not> needs_fragments c" and "ch_index c < n"
  shows "wf_payload env n (payload c)" "expected_call (payload c) = member_view c"
proof -
  have i: "unat (of_nat (ch_index c) :: u32) < n"
    using le_less_trans [OF unat_of_nat_le assms(3)] .
  show "wf_payload env n (payload c)" "expected_call (payload c) = member_view c"
    using assms i
    by (auto simp: wf_payload_def expected_call_def member_view_def readable_def channel_header_def ucast_all_ones
        small_count split: if_splits)
qed

lemma length_chunks: "0 < n \<Longrightarrow> length xs \<le> m * n \<Longrightarrow> length (chunks n xs) \<le> m"
proof (induction m arbitrary: xs)
  case (Suc m)
  then show ?case by (cases "xs = []") (simp_all add: chunks_Cons)
qed simp

lemma big_member:
  assumes "readable env c" and "needs_fragments c" and "ch_index c < n"
  shows "wf_big env n (frag_template c) (ch_value c)"
    "expected_calls (BigUpdate (frag_template c) (ch_value c)) = [member_view c]"
proof -
  have i: "unat (of_nat (ch_index c) :: u32) < n"
    using le_less_trans [OF unat_of_nat_le assms(3)] .
  have ne: "ch_value c \<noteq> []"
    using assms(2) by (auto simp: needs_fragments_def)
  show "wf_big env n (frag_template c) (ch_value c)"
    using assms(1,2) i ne length_chunks [OF frag_room_pos, of "ch_value c" 65536]
    by (auto simp: wf_big_def frag_template_def frag_header_def readable_def middle_count split: if_splits)
  show "expected_calls (BigUpdate (frag_template c) (ch_value c)) = [member_view c]"
    by (simp add: frag_template_def frag_header_def member_view_def)
qed

text \<open>A whole group of readable channels: the callback sees every member as it is.\<close>

lemma whole_content:
  assumes wf: "chans_wf chs" and q: "q < length chs" "is_channel (chs ! q)" and w: "whole chs q"
    and rd: "\<forall>c \<in> set (group_members chs (chs ! q)). readable env c"
    and fit: "sendable chs q"
  shows "wf_content env (length chs) (queued_content chs q)"
    and "expected_calls (queued_content chs q) = map member_view (group_members chs (chs ! q))"
proof -
  let ?g = "group_members chs (chs ! q)"
  have ix: "\<forall>c \<in> set ?g. ch_index c < length chs"
    using chans_wfD(1) [OF wf] by (auto simp: group_members_filter [OF wf q])
  have "wf_content env (length chs) (queued_content chs q) \<and> expected_calls (queued_content chs q) = map member_view ?g"
  proof (cases "needs_fragments (chs ! q)")
    case True
    with w have g: "?g = [chs ! q]" by (simp add: whole_def)
    then have "readable env (chs ! q)" "ch_index (chs ! q) < length chs"
      using rd ix by simp_all
    from big_member [OF this(1) True this(2)] True g show ?thesis
      by (simp add: queued_content_def)
  next
    case False
    have "group_len (map payload ?g) \<le> data_room"
      using fit False by (simp add: sendable_def group_payload_def)
    then have room: "group_values (map payload ?g) + 8 * length ?g \<le> data_room"
      using group_len_lower [of "map payload ?g"] by simp
    have small: "\<not> needs_fragments c" if "c \<in> set ?g" for c
    proof -
      have "length (ch_value c) \<le> group_values (map payload ?g)"
        using member_le_sum_list [of "length (ch_value c)" "map (length \<circ> snd) (map payload ?g)"] that
        by (auto simp: group_values_def comp_def)
      moreover have "8 \<le> 8 * length ?g" using that by (cases ?g) auto
      ultimately show ?thesis
        using room by (simp add: needs_fragments_def data_room_def size_defs)
    qed
    have "wf_payload env (length chs) (payload c) \<and> expected_call (payload c) = member_view c" if "c \<in> set ?g" for c
      using member_payload [OF _ small [OF that]] rd ix that by blast
    then show ?thesis
      using False by (simp add: queued_content_def group_payload_def comp_def)
  qed
  then show "wf_content env (length chs) (queued_content chs q)"
    "expected_calls (queued_content chs q) = map member_view ?g"
    by simp_all
qed

lemma queued_group_content:
  assumes inv: "queue_inv st" and q: "q \<in> set (snd_deque st)"
    and "sendable (snd_channels st) q" "whole (snd_channels st) q"
    and "\<forall>c \<in> set (group_members (snd_channels st) (snd_channels st ! q)). readable env c"
  shows "wf_content env (length (snd_channels st)) (queued_content (snd_channels st) q)"
    and "expected_calls (queued_content (snd_channels st) q) =
      map member_view (group_members (snd_channels st) (snd_channels st ! q))"
  using whole_content [of "snd_channels st" q env] assms by (auto simp: queue_inv_def pending_root_def)

lemma group_members_root:
  assumes "chans_wf chs" and "q < length chs" and "is_channel (chs ! q)" and "group_members chs (chs ! q) = c # cs"
  shows "c = chs ! q"
proof -
  have "start_group_id (chs ! q) = q"
    using assms chans_wfD [OF assms(1,2)] by (simp add: start_group_id_def)
  moreover have "q < end_group_id chs (chs ! q) + 1"
    using end_group_loop_bounds [OF assms(2)] chans_wfD(1) [OF assms(1,2)] by (simp add: end_group_id_def)
  ultimately show ?thesis
    using assms(4) by (simp add: group_members_def upt_conv_Cons del: upt_Suc)
qed

end
