(* ===== verification/CA_Turns.thy ===== *)
theory CA_Turns
  imports CA_Follow CA_Content
begin

text \<open>
  Turns and runs of the sender against the abstract link: polling and heartbeats queue the records the
  specification names, what is queued is delivered as the readings of their members, and so the calls
  of a whole run are those of \<open>spec_run\<close>.
\<close>

subsection \<open>The order of a heartbeat\<close>

text \<open>In a sorted list of roots the second visit to a root directly follows the first.\<close>

lemma hb_run_sorted:
  "sorted rs \<Longrightarrow> hb_run idl q rs = enq_new q (filter (\<lambda>r. idl r \<or> 2 \<le> count_list rs r) rs)"
proof (induction rs arbitrary: idl q)
  case Nil
  then show ?case by simp
next
  case (Cons r rs)
  have ih: "hb_run idl q (r # rs) = enq_new (if idl r then mark_queue r q else q)
      (filter (\<lambda>j. (j = r \<or> idl j) \<or> 2 \<le> count_list rs j) rs)"
    using Cons.IH Cons.prems by simp
  show ?case
  proof (cases "idl r")
    case True
    then have "filter (\<lambda>j. (j = r \<or> idl j) \<or> 2 \<le> count_list rs j) rs =
        filter (\<lambda>j. idl j \<or> 2 \<le> count_list (r # rs) j) rs"
      by (intro filter_cong) auto
    with True ih show ?thesis by (simp add: mark_queue_def)
  next
    case False
    show ?thesis
    proof (cases "r \<in> set rs")
      case True
      then obtain rs' where rs: "rs = r # rs'"
        using Cons.prems by (cases rs) (auto dest: order.antisym)
      have "filter (\<lambda>j. (j = r \<or> idl j) \<or> 2 \<le> count_list rs j) rs =
          filter (\<lambda>j. idl j \<or> 2 \<le> count_list (r # rs) j) rs"
        by (intro filter_cong) (auto simp: rs)
      with False ih show ?thesis by (simp add: rs)
    next
      case no: False
      then have "filter (\<lambda>j. (j = r \<or> idl j) \<or> 2 \<le> count_list rs j) rs =
          filter (\<lambda>j. idl j \<or> 2 \<le> count_list (r # rs) j) rs"
        by (intro filter_cong) auto
      with False no ih show ?thesis by simp
    qed
  qed
qed

lemma follows_sorted:
  assumes "follows ca lay rs st"
  shows "sorted (lay_roots lay)"
proof -
  have wf: "chans_wf (snd_channels st)"
    using followsD(1) [OF assms] by (simp add: queue_inv_def)
  show ?thesis
    unfolding followsD(5) [OF assms, symmetric] sorted_iff_nth_mono
    using wf by (auto simp: root_of_def chans_wf_def)
qed

subsection \<open>Periodic work\<close>

lemma reset_hb_view: "sender_view (reset_hb r st) = sender_view st"
  by (auto simp: reset_hb_def chan_view_def reading_of_def intro: set_channel_view)

lemma mark_update_view: "mark_update i st = Some st' \<Longrightarrow> sender_view st' = sender_view st"
  by (rule mark_update.raw_induct [where P = "\<lambda>i st st'. sender_view st' = sender_view st", rotated], assumption)
    (auto simp: set_channel_view chan_view_def reading_of_def vec_at_def split: option.splits if_splits)

lemma mark_heartbeat_update_view: "mark_heartbeat_update i st = Some r \<Longrightarrow> sender_view (snd r) = sender_view st"
  by (rule mark_heartbeat_update.raw_induct [where P = "\<lambda>i st r. sender_view (snd r) = sender_view st", rotated], assumption)
    (auto simp: Let_def bind_eq_Some_conv reset_hb_view split: option.splits if_splits dest!: mark_update_view)

lemma heartbeat_step_view: "heartbeat_step i r = Some r' \<Longrightarrow> sender_view (fst r') = sender_view (fst r)"
  by (cases r) (auto simp: heartbeat_step_def bind_eq_Some_conv dest!: mark_heartbeat_update_view)

lemma heartbeat_follows:
  assumes f: "follows ca lay rs st" and ne: "lay_names lay \<noteq> []" and b: "busy_is lay busy st"
  shows "\<exists>st' pc. mark_heartbeat_updates st = Some (st', pc) \<and> follows ca lay rs st' \<and> busy_is lay {} st' \<and>
    snd_deque st' = enq_new (snd_deque st) (filter (\<lambda>r. r \<notin> busy \<or> has_fields lay r) (lay_roots lay))"
proof -
  let ?is = "[0 ..< length (snd_channels st)]"
  obtain st' m k where h: "foldM heartbeat_step ?is (st, 0, 0) = Some (st', m, k)" "queue_inv st'"
    "snd_deque st' = hb_run (idle st) (snd_deque st) (map (root_of st) ?is)"
    "\<forall>j. idle st' j \<longleftrightarrow> idle st j \<or> j \<in> root_of st ` set ?is"
    using heartbeat_fold [OF followsD(1) [OF f], of ?is 0 0] by auto
  have "sender_view (fst (st', m, k)) = sender_view (fst (st, 0 :: nat, 0 :: nat))"
    using foldM_frame [OF h(1), of "sender_view \<circ> fst"] heartbeat_step_view by simp
  then have "follows ca lay rs st'"
    using follows_view [OF f _ h(2)] by simp
  moreover have "busy_is lay {} st'"
    using h(4) arg_cong [OF followsD(5) [OF f], of set] by (auto simp: busy_is_def)
  moreover have "snd_deque st' = enq_new (snd_deque st) (filter (\<lambda>r. r \<notin> busy \<or> has_fields lay r) (lay_roots lay))"
  proof -
    have "filter (\<lambda>r. idle st r \<or> 2 \<le> count_list (lay_roots lay) r) (lay_roots lay) =
        filter (\<lambda>r. r \<notin> busy \<or> has_fields lay r) (lay_roots lay)"
      using b by (intro filter_cong) (auto simp: busy_is_def has_fields_def)
    then show ?thesis
      unfolding h(3) followsD(5) [OF f] hb_run_sorted [OF follows_sorted [OF f]] by simp
  qed
  moreover have "snd_channels st \<noteq> []"
    using followsD(2) [OF f] ne by auto
  ultimately show ?thesis
    using h(1) by (simp add: mark_heartbeat_updates_def Let_def)
qed

lemma busy_frame [simp]:
  "busy_is lay b (st\<lparr>snd_iteration := k\<rparr>) = busy_is lay b st" "busy_is lay b (check_polled_fields st) = busy_is lay b st"
  by (simp_all add: busy_is_def idle_def check_polled_fields_def)

lemma turn_follows:
  assumes f: "follows ca lay rs st" and ne: "lay_names lay \<noteq> []" and b: "busy_is lay busy st"
    and dq: "snd_deque st = []" and ok: "list_all (callback_ok env ca lay) evs"
    and obs: "observe_all env lay evs rs = (rs', ms)"
    and due: "due = ((snd_iteration st + 1) mod snd_hb_iterations st = 0)"
  shows "\<exists>st1. turn_prepared env evs st = Some st1 \<and> follows ca lay rs' st1 \<and> events_ok env st evs \<and>
    snd_deque st1 = turn_records lay due busy (turn_news lay ms) \<and>
    busy_is lay (if due then {} else busy \<union> set (turn_news lay ms)) st1"
proof -
  let ?q = "turn_news lay ms"
  obtain s where s: "foldM (handle_ca_event env) evs st = Some s" "follows ca lay rs' s" "snd_deque s = ?q"
    "busy_is lay (busy \<union> set ?q) s" "events_ok env st evs"
    using callbacks_observed [OF f _ ok obs, of busy] b dq by (auto simp: turn_news_def)
  have l: "loop_data s = loop_data st"
    using foldM_frame [OF s(1), of loop_data] handle_ca_event_loop by blast
  let ?s1 = "s\<lparr>snd_iteration := snd_iteration s + 1\<rparr>"
  define s2 where "s2 = (if snd_iteration ?s1 mod snd_pf_iterations ?s1 = 0 then check_polled_fields ?s1 else ?s1)"
  have v: "sender_view s2 = sender_view s" "queue_inv s2" "busy_is lay (busy \<union> set ?q) s2" "snd_deque s2 = ?q"
    using s(3,4) followsD(1) [OF s(2)] by (simp_all add: s2_def) (simp add: check_polled_fields_def)
  have f2: "follows ca lay rs' s2"
    using follows_view [OF s(2) v(1,2)] .
  have it: "snd_iteration s2 mod snd_hb_iterations s2 = 0 \<longleftrightarrow> due"
    using l due by (simp add: s2_def check_polled_fields_def loop_data_def)
  have p: "periodic_work s = (if due then map_option fst (mark_heartbeat_updates s2) else Some s2)"
    unfolding periodic_work_def Let_def it [symmetric] s2_def by simp
  show ?thesis
  proof (cases due)
    case True
    then show ?thesis
      using heartbeat_follows [OF f2 ne v(3)] p s(1,5) v(4) by (auto simp: turn_prepared_def turn_records_def)
  next
    case False
    then show ?thesis
      using f2 p s(1,5) v(3,4) by (simp add: turn_prepared_def turn_records_def)
  qed
qed

lemma periodic_work_loop: "periodic_work st = Some st' \<Longrightarrow> snd_hb_iterations st' = snd_hb_iterations st"
proof -
  let ?st1 = "st\<lparr>snd_iteration := snd_iteration st + 1\<rparr>"
  assume p: "periodic_work st = Some st'"
  define st2 where "st2 = (if snd_iteration ?st1 mod snd_pf_iterations ?st1 = 0 then check_polled_fields ?st1 else ?st1)"
  have "snd_hb_iterations st2 = snd_hb_iterations st"
    by (simp add: st2_def check_polled_fields_def)
  moreover have "(if snd_iteration st2 mod snd_hb_iterations st2 = 0
      then map_option fst (mark_heartbeat_updates st2) else Some st2) = Some st'"
    using p unfolding periodic_work_def Let_def st2_def .
  ultimately show ?thesis
    by (auto simp: loop_data_def split: if_splits dest!: mark_heartbeat_updates_loop)
qed

lemma turn_prepared_loop:
  assumes "turn_prepared env evs st = Some st1"
  shows "snd_hb_iterations st1 = snd_hb_iterations st"
proof -
  obtain s where s: "foldM (handle_ca_event env) evs st = Some s" "periodic_work s = Some st1"
    using assms by (auto simp: turn_prepared_def bind_eq_Some_conv)
  have "loop_data s = loop_data st"
    using foldM_frame [OF s(1), of loop_data] handle_ca_event_loop by blast
  moreover have "snd_hb_iterations st1 = snd_hb_iterations s"
    using periodic_work_loop [OF s(2)] .
  ultimately show ?thesis by (simp add: loop_data_def)
qed

subsection \<open>Sending keeps the readings\<close>

text \<open>What is left alone by sending: all but the pending flags.\<close>

definition send_view :: "ca_sender \<Rightarrow> ((string option \<times> nat \<times> bool \<times> reading) \<times> nat) list" where
  "send_view st = map (\<lambda>c. (chan_view c, ch_updates_since_last_hb c)) (snd_channels st)"

lemma send_view_frame [simp]:
  "send_view (st\<lparr>snd_deque := q\<rparr>) = send_view st" "send_view (st\<lparr>snd_buffer := b\<rparr>) = send_view st"
  "send_view (st\<lparr>snd_seq_no := n\<rparr>) = send_view st" "send_view (udp_send p st) = send_view st"
  by (simp_all add: send_view_def udp_send_def)

lemma send_view_clear:
  "snd_channels st ! i = c \<Longrightarrow> send_view (set_channel i (c\<lparr>ch_pending_update := False\<rparr>) st) = send_view st"
  by (auto simp: send_view_def chan_view_def reading_of_def intro: map_update_same)

lemma clear_update_sview: "clear_update i st = Some st' \<Longrightarrow> send_view st' = send_view st"
  by (rule clear_update.raw_induct [where P = "\<lambda>i st st'. send_view st' = send_view st", rotated], assumption)
    (auto simp: send_view_clear vec_at_def split: option.splits if_splits list.splits)

lemma fill_updates_sview: "fill_updates st acc = Some r \<Longrightarrow> send_view (fst (snd r)) = send_view st"
  by (rule fill_updates.raw_induct [where P = "\<lambda>st acc r. send_view (fst (snd r)) = send_view st", rotated], assumption)
    (auto simp: Let_def case_prod_beta bind_eq_Some_conv split: list.splits if_splits dest!: clear_update_sview)

lemma send_fragment_sview: "send_fragment c q f r st = Some (k, st') \<Longrightarrow> send_view st' = send_view st"
  by (auto simp: send_fragment_def Let_def case_prod_beta bind_eq_Some_conv)

lemma fragment_loop_sview: "fragment_loop c q f r st = Some st' \<Longrightarrow> send_view st' = send_view st"
  by (rule fragment_loop.raw_induct [where P = "\<lambda>c q f r st st'. send_view st' = send_view st", rotated], assumption)
    (auto simp: bind_eq_Some_conv split: if_splits dest!: send_fragment_sview)

lemma send_fragmented_updates_sview: "send_fragmented_updates st = Some st' \<Longrightarrow> send_view st' = send_view st"
  by (rule send_fragmented_updates.raw_induct [where P = "\<lambda>st st'. send_view st' = send_view st", rotated], assumption)
    (auto simp: bind_eq_Some_conv send_fragmented_update_def split: if_splits list.splits
      dest!: clear_update_sview fragment_loop_sview)

lemma send_packet_sview: "send_packet st = Some (b, st') \<Longrightarrow> send_view st' = send_view st"
  by (auto simp: send_packet_def Let_def case_prod_beta bind_eq_Some_conv dest!: fill_updates_sview)

lemma send_updates_sview: "send_updates st = Some st' \<Longrightarrow> send_view st' = send_view st"
  by (rule send_updates.raw_induct [where P = "\<lambda>st st'. send_view st' = send_view st", rotated], assumption)
    (auto simp: bind_eq_Some_conv send_step_def split: if_splits prod.splits
      dest!: send_packet_sview send_fragmented_updates_sview)

lemma send_follows:
  assumes "send_updates st = Some st'" and "queue_inv st'" and "follows ca lay rs st" and "busy_is lay busy st"
  shows "follows ca lay rs st'" "busy_is lay busy st'"
proof -
  note v = send_updates_sview [OF assms(1), unfolded send_view_def]
  have "sender_view st' = sender_view st"
    using arg_cong [OF v, of "map fst"] by (simp add: sender_view_def comp_def)
  then show "follows ca lay rs st'"
    using follows_view [OF assms(3) _ assms(2)] by simp
  have n: "map ch_updates_since_last_hb (snd_channels st') = map ch_updates_since_last_hb (snd_channels st)"
    using arg_cong [OF v, of "map snd"] by (simp add: comp_def)
  have len: "length (snd_channels st') = length (snd_channels st)"
    using map_eq_imp_length_eq [OF n] .
  have "idle st' r = idle st r" if "r \<in> set (lay_roots lay)" for r
  proof -
    have "r \<in> set (map (root_of st) [0 ..< length (snd_channels st)])"
      using that followsD(5) [OF assms(3)] by simp
    then obtain i where i: "i < length (snd_channels st)" "r = root_of st i"
      by auto
    have "r < length (snd_channels st)"
      using chans_wfD(3) [OF _ i(1)] followsD(1) [OF assms(3)] by (simp add: queue_inv_def i(2) root_of_def)
    with n len show ?thesis
      unfolding idle_def by (metis nth_map)
  qed
  with assms(4) show "busy_is lay busy st'" by (simp add: busy_is_def)
qed

subsection \<open>What is delivered of a record\<close>

lemma length_members: "length (lay_members lay r) = count_list (lay_roots lay) r"
proof -
  have "count_list xs r = length (filter (\<lambda>i. xs ! i = r) [0 ..< length xs])" for xs
  proof (induction xs rule: rev_induct)
    case (snoc x xs)
    have "filter (\<lambda>i. (xs @ [x]) ! i = r) [0 ..< length xs] = filter (\<lambda>i. xs ! i = r) [0 ..< length xs]"
      by (intro filter_cong) (auto simp: nth_append)
    with snoc show ?case by simp
  qed simp
  then show ?thesis by (simp add: lay_members_def)
qed

lemma follows_members:
  assumes f: "follows ca lay rs st" and r: "r < length (snd_channels st)" "is_channel (snd_channels st ! r)"
  shows "group_members (snd_channels st) (snd_channels st ! r) = map ((!) (snd_channels st)) (lay_members lay r)"
    and "\<forall>i \<in> set (lay_members lay r). i < length (lay_names lay)" and "r \<in> set (lay_members lay r)"
proof -
  have wf: "chans_wf (snd_channels st)"
    using followsD(1) [OF f] by (simp add: queue_inv_def)
  have "lay_members lay r = filter (\<lambda>i. ch_parent_index (snd_channels st ! i) = r) [0 ..< length (snd_channels st)]"
    unfolding lay_members_def
    using follows_at(2) [OF f] followsD(2,3) [OF f] by (intro filter_cong) (auto simp: root_of_def)
  then show "group_members (snd_channels st) (snd_channels st ! r) = map ((!) (snd_channels st)) (lay_members lay r)"
    "\<forall>i \<in> set (lay_members lay r). i < length (lay_names lay)" "r \<in> set (lay_members lay r)"
    using group_members_filter [OF wf r] chans_wfD(5) [OF wf r(1)] r followsD(2) [OF f] by auto
qed

lemma follows_channel:
  assumes f: "follows ca lay rs st" and i: "i < length (lay_names lay)"
  shows "readable env (snd_channels st ! i) \<longleftrightarrow> reading_ok env (rs ! i)"
    and "member_view (snd_channels st ! i) = reading_view i (rs ! i)"
    and "needs_fragments (snd_channels st ! i) \<longleftrightarrow> big_reading (rs ! i)"
    and "entry_len (payload (snd_channels st ! i)) = padded_len (rs ! i)"
proof -
  have "ch_index (snd_channels st ! i) = i"
    using chans_wfD(1) [of "snd_channels st" i] followsD(1,2) [OF f] i by (simp add: queue_inv_def)
  then show "readable env (snd_channels st ! i) \<longleftrightarrow> reading_ok env (rs ! i)"
    "member_view (snd_channels st ! i) = reading_view i (rs ! i)"
    "needs_fragments (snd_channels st ! i) \<longleftrightarrow> big_reading (rs ! i)"
    "entry_len (payload (snd_channels st ! i)) = padded_len (rs ! i)"
    unfolding follows_at(4) [OF f i, symmetric]
    by (simp_all add: readable_def reading_ok_def reading_of_def member_view_def reading_view_def
        needs_fragments_def big_reading_def entry_len_def padded_len_def)
qed

lemma record_delivered:
  assumes f: "follows ca lay rs st" and r: "r < length (snd_channels st)" "is_channel (snd_channels st ! r)"
    and ok: "record_ok env lay rs r"
  shows "sendable (snd_channels st) r"
    and "wf_content env (length (snd_channels st)) (queued_content (snd_channels st) r)"
    and "expected_calls (queued_content (snd_channels st) r) = record_view lay rs r"
proof -
  let ?chs = "snd_channels st"
  have wf: "chans_wf ?chs"
    using followsD(1) [OF f] by (simp add: queue_inv_def)
  note m = follows_members [OF f r]
  have rl: "r < length (lay_names lay)" using r(1) followsD(2) [OF f] by simp
  have all: "list_all (\<lambda>i. reading_ok env (rs ! i)) (lay_members lay r)"
    using ok by (simp add: record_ok_def)
  have len: "group_len (group_payload ?chs r) = sum_list (map (\<lambda>i. padded_len (rs ! i)) (lay_members lay r))"
    unfolding group_payload_def group_len_def m(1) map_map comp_def
    using m(2) follows_channel(4) [OF f] by (intro arg_cong [of _ _ sum_list] map_cong) auto
  have "lay_members lay r = [r]" if "big_reading (rs ! r)"
  proof -
    have "length (lay_members lay r) < 2"
      using ok that by (simp add: record_ok_def has_fields_def length_members)
    with m(3) show ?thesis by (cases "lay_members lay r") auto
  qed
  then have single: "lay_members lay r = [r] \<and> reading_ok env (rs ! r)" if "big_reading (rs ! r)"
    using that all by simp
  show s: "sendable ?chs r"
  proof (cases "big_reading (rs ! r)")
    case True
    from single [OF True] have "rd_count (rs ! r) \<noteq> - 1" "length (rd_value (rs ! r)) \<le> 65536 * 65460"
      using True by (auto simp: reading_ok_def big_reading_def frag_room_def size_defs split: if_splits)
    moreover have "pad_len 8 (length (rd_value (rs ! r))) \<le> 8"
      by (simp add: pad_len_def)
    ultimately show ?thesis
      using single [OF True] True follows_channel(3) [OF f rl] by (simp add: sendable_def len padded_len_def)
  next
    case False
    then have "group_len (group_payload ?chs r) \<le> data_room"
      using ok by (simp add: record_ok_def len)
    then show ?thesis
      by (simp add: sendable_def) (simp add: data_room_def size_defs)
  qed
  have w: "whole ?chs r"
    using single follows_channel(3) [OF f rl] by (auto simp: whole_def m(1))
  have rd: "\<forall>c \<in> set (group_members ?chs (?chs ! r)). readable env c"
    using all m(2) follows_channel(1) [OF f] by (auto simp: m(1) list_all_iff)
  note c = whole_content [OF wf r w rd s]
  show "wf_content env (length ?chs) (queued_content ?chs r)" by (rule c(1))
  show "expected_calls (queued_content ?chs r) = record_view lay rs r"
    unfolding c(2) m(1) record_view_def map_map comp_def
    using m(2) follows_channel(2) [OF f] by (intro map_cong) auto
qed

subsection \<open>Runs\<close>

lemma spec_ok_take: "spec_ok env ca lay hb it turns rs busy \<Longrightarrow> spec_ok env ca lay hb it (take k turns) rs busy"
proof (induction turns arbitrary: k it rs busy)
  case (Cons evs turns)
  define due where "due = ((it + 1) mod hb = 0)"
  show ?case
    using Cons by (cases k) (auto simp: Let_def due_def [symmetric] split: prod.splits)
qed simp

lemma run_follows:
  assumes "follows ca lay rs st" and "buffer_wf st" and "lay_names lay \<noteq> []" and "busy_is lay busy st"
    and "snd_deque st = []" and "n = length (lay_names lay)" and "hb = snd_hb_iterations st"
    and "spec_ok env ca lay hb (snd_iteration st) turns rs busy"
  shows "run_ok env n turns st \<and>
    map (\<lambda>s. concat (map expected_calls (queue_content s))) (turn_sends env turns st) =
      spec_run env lay hb (snd_iteration st) turns rs busy"
  using assms
proof (induction turns arbitrary: st rs busy)
  case Nil
  then show ?case by simp
next
  case (Cons evs turns)
  define due where "due = ((snd_iteration st + 1) mod hb = 0)"
  obtain rs' ms where o: "observe_all env lay evs rs = (rs', ms)" by fastforce
  let ?news = "turn_news lay ms"
  let ?busy = "if due then {} else busy \<union> set ?news"
  have ok: "list_all (callback_ok env ca lay) evs" "list_all (record_ok env lay rs') (turn_records lay due busy ?news)"
    "spec_ok env ca lay hb (snd_iteration st + 1) turns rs' ?busy"
    using Cons.prems(8) o by (simp_all add: due_def Let_def)
  obtain st1 where s1: "turn_prepared env evs st = Some st1" "follows ca lay rs' st1" "events_ok env st evs"
    "snd_deque st1 = turn_records lay due busy ?news" "busy_is lay ?busy st1"
    using turn_follows [OF Cons.prems(1,3,4,5) ok(1) o, of due] Cons.prems(7) by (auto simp: due_def)
  have ne: "snd_channels st \<noteq> []"
    using followsD(2) [OF Cons.prems(1)] Cons.prems(3) by auto
  have b1: "buffer_wf st1"
    using turn_prepared_spec [OF followsD(1) [OF Cons.prems(1)] Cons.prems(2) ne s1(3)] s1(1) by auto
  have q: "q < length (snd_channels st1) \<and> is_channel (snd_channels st1 ! q) \<and> record_ok env lay rs' q"
    if "q \<in> set (snd_deque st1)" for q
    using that followsD(1) [OF s1(2)] ok(2) unfolding s1(4) [symmetric]
    by (auto simp: queue_inv_def pending_root_def list_all_iff)
  note rec = record_delivered [OF s1(2)]
  have snd: "\<forall>q \<in> set (snd_deque st1). sendable (snd_channels st1) q"
    using rec(1) q by blast
  obtain st2 where s2: "send_updates st1 = Some st2" "queue_inv st2" "buffer_wf st2" "snd_deque st2 = []"
    "loop_data st2 = loop_data st1"
    using send_updates_turn [OF followsD(1) [OF s1(2)] b1 snd] by blast
  note f2 = send_follows [OF s2(1,2) s1(2,5)]
  have "run_iteration env evs st = Some st2"
    using s1(1) s2(1) by (simp add: run_iteration_prepared)
  then have it: "snd_iteration st2 = snd_iteration st + 1"
    by (rule run_iteration_count)
  have hb: "snd_hb_iterations st2 = snd_hb_iterations st"
    using turn_prepared_loop [OF s1(1)] s2(5) by (simp add: loop_data_def)
  have wf: "list_all (wf_content env n) (queue_content st1)"
    using rec(2) q followsD(2) [OF s1(2)] Cons.prems(6) by (simp add: list_all_iff queue_content_def)
  have view: "concat (map expected_calls (queue_content st1)) =
      concat (map (record_view lay rs') (turn_records lay due busy ?news))"
    unfolding queue_content_def map_map comp_def s1(4) [symmetric]
    using rec(3) q by (intro arg_cong [of _ _ concat] map_cong) auto
  have "run_ok env n turns st2 \<and>
      map (\<lambda>s. concat (map expected_calls (queue_content s))) (turn_sends env turns st2) =
        spec_run env lay hb (snd_iteration st2) turns rs' ?busy"
    using Cons.IH [OF f2(1) s2(3) Cons.prems(3) f2(2) s2(4) Cons.prems(6)] ok(3) Cons.prems(7) hb it by simp
  then show ?case
    using s1(1,3) s2(1) snd wf view o it by (simp add: list_all_iff due_def Let_def)
qed

text \<open>A new sender has read nothing and nothing has happened in it.\<close>

lemma created_follows:
  assumes "sender_init ca cfg t = Some st" and "ca_refuses ca"
  shows "follows ca (layout_of cfg) (nothing_read cfg) st" and "busy_is (layout_of cfg) {} st"
    and "snd_iteration st = 0" and "snd_hb_iterations st = heartbeat_turns cfg"
proof -
  note i = sender_init_spec [OF assms]
  note c = create_channels_spec [OF i(7)]
  have fr: "\<forall>c \<in> set (snd_channels st). fresh c"
    using c(4) [OF assms(2)] .
  have r: "chan_view c = (ch_channel_id c, ch_parent_index c, ch_is_polled c, no_reading)" if "c \<in> set (snd_channels st)" for c
    using fr that by (auto simp: chan_view_def reading_of_def no_reading_def fresh_def)
  have v: "sender_view st = map (\<lambda>c. (ch_channel_id c, ch_parent_index c, ch_is_polled c, no_reading)) (snd_channels st)"
    unfolding sender_view_def using r by (rule map_cong [OF refl])
  show "follows ca (layout_of cfg) (nothing_read cfg) st"
    using i(1) c(2,3,5,6) unfolding follows_def v
    by (simp add: layout_of_def comp_def map_replicate_const nothing_read_def total_channel_count_flat)
  show "snd_iteration st = 0" "snd_hb_iterations st = heartbeat_turns cfg"
    using assms(1) by (auto simp: sender_init_def Let_def bind_eq_Some_conv heartbeat_turns_def)
  show "busy_is (layout_of cfg) {} st"
  proof -
    have f: "follows ca (layout_of cfg) (nothing_read cfg) st" by fact
    have "idle st r" if r: "r \<in> set (lay_roots (layout_of cfg))" for r
    proof -
      obtain j where j: "j < length (snd_channels st)" "r = root_of st j"
        using r unfolding followsD(5) [OF f, symmetric] by auto
      have "chans_wf (snd_channels st)"
        using i(1) by (simp add: queue_inv_def)
      then have "r < length (snd_channels st)"
        using chans_wfD(3) j by (simp add: root_of_def)
      then have "fresh (snd_channels st ! r)"
        using fr by simp
      then show ?thesis by (simp add: idle_def fresh_def)
    qed
    then show ?thesis by (simp add: busy_is_def)
  qed
qed

text \<open>From the two constructors: the run of the sender's loop on the link, and what it delivers.\<close>

lemma run_delivers_spec:
  assumes c: "sender_construct created context ca cfg t = Inr (st, u)"
    "receiver_construct aton rcreated bind_ok timeout_ok port listen cfg now = Inr (rc, a)" "ca_refuses ca"
    and ne: "flat_channel_names cfg \<noteq> []"
    and ok: "spec_ok env ca (layout_of cfg) (heartbeat_turns cfg) 0 turns (nothing_read cfg) {}"
  shows "\<exists>left st' k rc'. sender_run env runtime turns st = Some (left, st') \<and>
    k \<le> length turns \<and> (k = length turns \<or> left) \<and> snd_iteration st' = of_nat k \<and>
    snd_deque st' = [] \<and> foldM (receive_packet env) (snd_sent st') rc = Some rc' \<and>
    map (call_view env) (rc_calls rc') =
      concat (spec_run env (layout_of cfg) (heartbeat_turns cfg) 0 (take k turns) (nothing_read cfg) {})"
proof -
  note r = constructed_ready [OF c]
  have i: "sender_init ca cfg t = Some st"
    using c(1) by (simp add: sender_construct_Inr)
  note n = created_follows [OF i c(3)]
  have names: "lay_names (layout_of cfg) \<noteq> []" "length (snd_channels st) = length (lay_names (layout_of cfg))"
    using ne followsD(2) [OF n(1)] by (simp_all add: layout_of_def)
  note run = run_follows [OF n(1) r(2) names(1) n(2) r(3) names(2) n(4) [symmetric], unfolded n(3)]
  have "run_ok env (length (snd_channels st)) turns st"
    using run [OF ok] by simp
  with run_loop_linked [OF constructed_linked [OF c ne], of env turns "dval runtime > 0"
      "word_of_int (cround (fdiv (dval runtime) (dval (snd_update_period st))))"]
  obtain left st' k pkts rc' where l: "sender_run env runtime turns st = Some (left, st')"
    "k \<le> length turns" "k = length turns \<or> left" "turns \<noteq> [] \<longrightarrow> snd_deque st' = []"
    "snd_iteration st' = snd_iteration st + of_nat k"
    "snd_sent st' = snd_sent st @ pkts" "foldM (receive_packet env) pkts rc = Some rc'"
    "calls_extend env rc (concat (map expected_calls (concat (map queue_content (turn_sends env (take k turns) st))))) rc'"
    unfolding sender_run_def [symmetric] by blast
  have "snd_deque st' = []"
    using l(1,4) r(3) by (cases turns) (auto simp: sender_run_def)
  moreover have "concat (map expected_calls (concat (map queue_content ss))) =
      concat (map (\<lambda>s. concat (map expected_calls (queue_content s))) ss)" for ss
    by (induction ss) simp_all
  moreover note run [OF spec_ok_take [OF ok, of k]]
  ultimately show ?thesis
    using l r(5,9) n(3) unfolding calls_extend_def
    by (intro exI [of _ left] exI [of _ st'] exI [of _ k] exI [of _ rc']) simp
qed

end
