(* ===== verification/CA_Loss.thy ===== *)
theory CA_Loss
  imports CA_Reassembly
begin

text \<open>
  The link over a network that loses packets: the receiver gets some of the packets of the sender, in
  their order. What shares a sequence number (a data packet, or all the fragments of one value) is
  delivered when all of it arrives, and otherwise leaves no trace but the receiver's progress.
\<close>

subsection \<open>Losing packets\<close>

text \<open>The packets a mask lets through.\<close>

definition arrived :: "bool list \<Rightarrow> 'a list \<Rightarrow> 'a list" where
  "arrived m xs = map snd (filter fst (zip m xs))"

lemma arrived_simps [simp]:
  "arrived [] xs = []" "arrived m [] = []" "arrived (True # m) (x # xs) = x # arrived m xs"
  "arrived (False # m) (x # xs) = arrived m xs"
  by (simp_all add: arrived_def)

lemma arrived_all: "length m = length xs \<Longrightarrow> list_all (\<lambda>b. b) m \<Longrightarrow> arrived m xs = xs"
proof (induction xs arbitrary: m)
  case (Cons x xs)
  then show ?case by (cases m) auto
qed simp

text \<open>
  \<open>quiet h reserved rc rc'\<close>: the receiver has made no callback, its progress in the sequence numbers of
  the sender \<open>h\<close> is unchanged, and it has at most given up the value it was assembling.
\<close>

definition quiet :: "header \<Rightarrow> bytes \<Rightarrow> ca_receiver \<Rightarrow> ca_receiver \<Rightarrow> bool" where
  "quiet h reserved rc rc' \<longleftrightarrow>
     link_ready h reserved rc' \<and> rc_last_seq_no (admit h rc') = rc_last_seq_no (admit h rc) \<and>
     rc_calls rc' = rc_calls rc \<and> same_channels rc rc' \<and>
     rc_active_fragment_seq_no rc' \<in> {rc_active_fragment_seq_no rc, - 1}"

lemma quiet_refl: "link_ready h reserved rc \<Longrightarrow> quiet h reserved rc rc"
  by (simp add: quiet_def same_channels_def)

lemma quiet_trans: "quiet h reserved rc rc1 \<Longrightarrow> quiet h reserved rc1 rc2 \<Longrightarrow> quiet h reserved rc rc2"
  by (auto simp: quiet_def same_channels_def)

lemma quiet_ready: "quiet h reserved rc rc' \<Longrightarrow> link_ready h reserved rc'"
  by (simp add: quiet_def)

subsection \<open>Fragments out of sequence\<close>

lemma fragment_refused:
  assumes ready: "link_ready h reserved rc" and ck: "length ck \<le> frag_room" and f: "f \<noteq> 0"
    and out: "rc_active_fragment_seq_no rc \<noteq> a \<or> rc_last_fragment_seq_no rc + 1 \<noteq> f"
  shows "\<exists>rc'. receive_packet env (frag_packet (enc_header reserved h) t a f ck) rc = Some rc' \<and>
    quiet h reserved rc rc' \<and> rc_active_fragment_seq_no rc' = - 1"
proof -
  let ?pkt = "frag_packet (enc_header reserved h) t a f ck"
  let ?rc1 = "admit h (rc\<lparr>rc_buffer := patch 0 ?pkt (rc_buffer rc)\<rparr>)"
  let ?rc2 = "snd (validate_fragment_order a f ?rc1)"
  have lh: "length (enc_header reserved h) = 24"
    using ready by (simp add: link_ready_def length_enc_header)
  have buf: "length (patch 0 ?pkt (rc_buffer rc)) = MAX_MESSAGE_SIZE"
    by (rule patched_buffer [OF ready length_frag_packet [OF lh ck]])
  have v: "\<not> fst (validate_fragment_order a f ?rc1)" "rc_active_fragment_seq_no ?rc2 = - 1"
    using f out by (auto simp: validate_fragment_order_def Let_def)
  have "receive_packet env ?pkt rc = Some ?rc2"
    using receive_frag_packet [OF ready ck, of env t a f] v(1) by (auto simp: case_prod_beta Let_def)
  moreover have "quiet h reserved rc ?rc2"
    using ready buf f out
    by (auto simp: quiet_def same_channels_def link_ready_def admit_def validate_sender_def validate_fragment_order_def Let_def)
  ultimately show ?thesis using v(2) by blast
qed

lemma of_nat_u16: "0 < j \<Longrightarrow> j < 65536 \<Longrightarrow> (of_nat j :: u16) \<noteq> 0"
proof
  assume j: "0 < j" "j < 65536" and "(of_nat j :: u16) = 0"
  then have "unat (of_nat j :: u16) = 0" by simp
  with j show False by (subst (asm) unat_word_of_nat_small) simp_all
qed

text \<open>Once a sequence is not the active one, nothing of it is taken any more.\<close>

lemma broken_fragments:
  assumes "a \<noteq> - 1"
  shows "link_ready h reserved rc \<Longrightarrow> rc_active_fragment_seq_no rc \<noteq> a \<Longrightarrow> \<forall>ck \<in> set cks. length ck \<le> frag_room \<Longrightarrow>
    0 < j \<Longrightarrow> j + length cks \<le> 65536 \<Longrightarrow> length m = length cks \<Longrightarrow>
    \<exists>rc'. foldM (receive_packet env) (arrived m (frag_packets (enc_header reserved h) t a (of_nat j) cks)) rc = Some rc' \<and>
      quiet h reserved rc rc'"
proof (induction cks arbitrary: j m rc)
  case Nil
  then show ?case by (simp add: quiet_refl)
next
  case (Cons ck cks)
  then obtain b m' where m: "m = b # m'" "length m' = length cks" by (cases m) auto
  have f: "(of_nat j :: u16) \<noteq> 0" using Cons.prems(4,5) by (intro of_nat_u16) simp_all
  have step: "of_nat j + 1 = (of_nat (Suc j) :: u16)" by simp
  show ?case
  proof (cases b)
    case False
    with Cons m show ?thesis by (simp del: of_nat_Suc add: step)
  next
    case True
    from fragment_refused [OF Cons.prems(1) _ f, of ck a env t] Cons.prems(2,3) obtain rc1 where
      r1: "receive_packet env (frag_packet (enc_header reserved h) t a (of_nat j) ck) rc = Some rc1"
        "quiet h reserved rc rc1" "rc_active_fragment_seq_no rc1 = - 1" by auto
    from Cons.IH [OF quiet_ready [OF r1(2)], of "Suc j" m'] r1(3) assms Cons.prems(3-5) m(2) obtain rc2 where
      "foldM (receive_packet env) (arrived m' (frag_packets (enc_header reserved h) t a (of_nat (Suc j)) cks)) rc1 = Some rc2"
      "quiet h reserved rc1 rc2" by auto
    with True r1 m(1) quiet_trans [OF r1(2)] show ?thesis by (simp del: of_nat_Suc add: step)
  qed
qed

text \<open>After a gap in the active sequence the first fragment that arrives breaks it.\<close>

lemma gap_fragments:
  assumes "a \<noteq> - 1"
  shows "link_ready h reserved rc \<Longrightarrow> \<forall>ck \<in> set cks. length ck \<le> frag_room \<Longrightarrow>
    rc_last_fragment_seq_no rc = of_nat i \<Longrightarrow> Suc i < j \<Longrightarrow> j + length cks \<le> 65536 \<Longrightarrow> length m = length cks \<Longrightarrow>
    \<exists>rc'. foldM (receive_packet env) (arrived m (frag_packets (enc_header reserved h) t a (of_nat j) cks)) rc = Some rc' \<and>
      quiet h reserved rc rc'"
proof (induction cks arbitrary: j m)
  case Nil
  then show ?case by (simp add: quiet_refl)
next
  case (Cons ck cks)
  then obtain b m' where m: "m = b # m'" "length m' = length cks" by (cases m) auto
  have f: "(of_nat j :: u16) \<noteq> 0" using Cons.prems(4,5) by (intro of_nat_u16) simp_all
  have step: "of_nat j + 1 = (of_nat (Suc j) :: u16)" by simp
  have gap: "rc_last_fragment_seq_no rc + 1 \<noteq> of_nat j"
  proof
    assume "rc_last_fragment_seq_no rc + 1 = of_nat j"
    then have "(of_nat (Suc i) :: u16) = of_nat j"
      unfolding Cons.prems(3) by (simp only: of_nat_Suc add.commute)
    then have "unat (of_nat (Suc i) :: u16) = unat (of_nat j :: u16)" by (rule arg_cong)
    with Cons.prems(4,5) show False
      by (subst (asm) (1 2) unat_word_of_nat_small) simp_all
  qed
  show ?case
  proof (cases b)
    case False
    with Cons m show ?thesis by (simp del: of_nat_Suc add: step)
  next
    case True
    from fragment_refused [OF Cons.prems(1) _ f, of ck a env t] gap Cons.prems(2) obtain rc1 where
      r1: "receive_packet env (frag_packet (enc_header reserved h) t a (of_nat j) ck) rc = Some rc1"
        "quiet h reserved rc rc1" "rc_active_fragment_seq_no rc1 = - 1" by auto
    from broken_fragments [OF assms quiet_ready [OF r1(2)], of cks "Suc j" m' env t] r1(3) assms Cons.prems(2,4,5) m(2)
    obtain rc2 where
      "foldM (receive_packet env) (arrived m' (frag_packets (enc_header reserved h) t a (of_nat (Suc j)) cks)) rc1 = Some rc2"
      "quiet h reserved rc1 rc2" by auto
    with True r1 m(1) quiet_trans [OF r1(2)] show ?thesis by (simp del: of_nat_Suc add: step)
  qed
qed

text \<open>A sequence that has begun and is not completed.\<close>

lemma unfinished_fragments:
  assumes "a \<noteq> - 1"
  shows "synced h reserved q rc \<Longrightarrow> assembling a j dn tot rc \<Longrightarrow> \<forall>ck \<in> set cks. ck \<noteq> [] \<and> length ck \<le> frag_room \<Longrightarrow>
    length dn + length (concat cks) = tot \<Longrightarrow> j + length cks < 65536 \<Longrightarrow> length m = length cks \<Longrightarrow>
    \<not> list_all (\<lambda>b. b) m \<Longrightarrow>
    \<exists>rc'. foldM (receive_packet env) (arrived m (frag_packets (enc_header reserved h) t a (of_nat (Suc j)) cks)) rc = Some rc' \<and>
      quiet h reserved rc rc'"
proof (induction cks arbitrary: j dn m rc)
  case (Cons ck cks)
  then obtain b m' where m: "m = b # m'" "length m' = length cks" by (cases m) auto
  have step: "of_nat (Suc j) + 1 = (of_nat (Suc (Suc j)) :: u16)" by simp
  show ?case
  proof (cases b)
    case False
    from Cons.prems(1,2) have "link_ready h reserved rc" "rc_last_fragment_seq_no rc = of_nat j"
      by (simp_all add: synced_def assembling_def)
    from gap_fragments [OF assms this(1) _ this(2), of cks "Suc (Suc j)" m' env t] Cons.prems(3,5) m(2) False show ?thesis
      by (simp del: of_nat_Suc add: m(1) step)
  next
    case True
    then have nall: "\<not> list_all (\<lambda>b. b) m'" using Cons.prems(7) m(1) by simp
    then have "cks \<noteq> []" using m(2) by (cases m') auto
    then have "0 < length (concat cks)" using Cons.prems(3) by (cases cks) auto
    then have less: "length dn + length ck < tot"
      using Cons.prems(4) unfolding concat.simps length_append by linarith
    have ck: "length ck \<le> frag_room" "length dn + length ck \<le> tot" "Suc j < 65536"
      using Cons.prems(3,5) less by simp_all
    from next_fragment [OF Cons.prems(1,2) ck, of env t] less obtain rc1 where
      r1: "receive_packet env (frag_packet (enc_header reserved h) t a (of_nat (Suc j)) ck) rc = Some rc1"
        "synced h reserved q rc1" "assembling a (Suc j) (dn @ ck) tot rc1" "same_channels rc rc1"
        "rc_calls rc1 = rc_calls rc" by auto
    from Cons.IH [OF r1(2,3), of m'] Cons.prems(3-5) m(2) nall obtain rc2 where
      r2: "foldM (receive_packet env) (arrived m' (frag_packets (enc_header reserved h) t a (of_nat (Suc (Suc j))) cks)) rc1 = Some rc2"
        "quiet h reserved rc1 rc2" by auto
    have "quiet h reserved rc rc1"
      using r1 Cons.prems(1,2) by (simp add: quiet_def synced_def assembling_def admit_again)
    with True r1(1) r2 m(1) quiet_trans show ?thesis by (simp del: of_nat_Suc add: step)
  qed
qed simp

text \<open>
  Why the number 65535 and a sequence that is still active are excluded below: the reset value -1 is
  itself a sequence number, whose fragments a receiver without an active sequence takes up in the
  middle; and a newer sender's packet does not end the active sequence of the older one.
\<close>

lemma reset_value_taken:
  "rc_active_fragment_seq_no rc = - 1 \<Longrightarrow> rc_last_fragment_seq_no rc + 1 = f \<Longrightarrow> f \<noteq> 0 \<Longrightarrow>
   fst (validate_fragment_order (- 1) f rc)"
  by (auto simp: validate_fragment_order_def Let_def)

lemma restart_keeps_sequence:
  "rc_active_fragment_seq_no rc = a \<Longrightarrow> rc_last_fragment_seq_no rc + 1 = f \<Longrightarrow> f \<noteq> 0 \<Longrightarrow>
   fst (validate_fragment_order a f (snd (validate_sender t rc)))"
  by (auto simp: validate_fragment_order_def validate_sender_def Let_def)

subsection \<open>One sequence number\<close>

text \<open>
  \<open>in_reach h reserved q n rc\<close>: the receiver can follow the sender \<open>h\<close> from number \<open>q\<close> on over \<open>n\<close>
  numbers even if it gets none of them: they neither wrap nor run out of the window of accepted
  numbers, and none of them is the sequence the receiver believes to be assembling.
\<close>

definition in_reach :: "header \<Rightarrow> bytes \<Rightarrow> u16 \<Rightarrow> nat \<Rightarrow> ca_receiver \<Rightarrow> bool" where
  "in_reach h reserved q n rc \<longleftrightarrow>
     link_ready h reserved rc \<and> unat (q - rc_last_seq_no (admit h rc)) + n < 32767 \<and> unat q + n < 65536 \<and>
     \<not> (unat q \<le> unat (rc_active_fragment_seq_no rc) \<and> unat (rc_active_fragment_seq_no rc) < unat q + n)"

lemma in_reach_less: "in_reach h reserved q n rc \<Longrightarrow> k \<le> n \<Longrightarrow> in_reach h reserved q k rc"
  by (auto simp: in_reach_def)

lemma in_reach_first:
  assumes "in_reach h reserved q (Suc n) rc"
  shows "in_order q (admit h rc)" "q \<noteq> - 1" "rc_active_fragment_seq_no rc \<noteq> q"
proof -
  show "in_order q (admit h rc)"
    using assms by (simp add: in_reach_def in_order_def word_less_nat_alt)
  show "q \<noteq> - 1" "rc_active_fragment_seq_no rc \<noteq> q"
    using assms by (auto simp: in_reach_def unsigned_minus_1_eq_mask mask_eq_exp_minus_1)
qed

lemma in_reach_step:
  assumes "in_reach h reserved q (Suc n) rc" "link_ready h reserved rc'"
    and "rc_last_seq_no (admit h rc') \<in> {rc_last_seq_no (admit h rc), q}"
    and "rc_active_fragment_seq_no rc' \<in> {rc_active_fragment_seq_no rc, q, - 1}"
  shows "in_reach h reserved (q + 1) n rc'"
proof -
  have q: "unat (q + 1) = unat q + 1" "unat (- 1 :: u16) = 65535"
    using assms(1) by (simp_all add: in_reach_def unat_word_ariths(1) unsigned_minus_1_eq_mask mask_eq_exp_minus_1)
  let ?d = "q - rc_last_seq_no (admit h rc)"
  have "unat (?d + 1) = unat ?d + 1"
    using assms(1) by (simp add: in_reach_def unat_word_ariths(1))
  then have d: "unat (q + 1 - rc_last_seq_no (admit h rc)) = unat ?d + 1" by (simp add: algebra_simps)
  have "unat (q + 1 - rc_last_seq_no (admit h rc')) + n < 32767"
  proof (cases "rc_last_seq_no (admit h rc') = q")
    case True
    then show ?thesis using assms(1) by (simp add: in_reach_def)
  next
    case False
    then have "rc_last_seq_no (admit h rc') = rc_last_seq_no (admit h rc)" using assms(3) by simp
    then show ?thesis using assms(1) d by (simp add: in_reach_def)
  qed
  then show ?thesis
    using assms(1,2,4) q by (auto simp: in_reach_def)
qed

definition all_arrived :: "bool list \<Rightarrow> bool" where
  "all_arrived m \<longleftrightarrow> list_all (\<lambda>b. b) m"

lemma lossy_item:
  assumes reach: "in_reach h reserved (item_seq i) (Suc n) rc" and fits: "item_fits i"
    and wf: "\<forall>c \<in> set (item_contents i). wf_content env (length (rc_channels rc)) c"
    and m: "length m = length (item_packets (enc_header reserved h) i)"
  shows "\<exists>rc'. foldM (receive_packet env) (arrived m (item_packets (enc_header reserved h) i)) rc = Some rc' \<and>
    in_reach h reserved (item_seq i + 1) n rc' \<and>
    calls_extend env rc (concat (map expected_calls (if all_arrived m then item_contents i else []))) rc'"
proof -
  note first = in_reach_first [OF reach]
  have ready: "link_ready h reserved rc" using reach by (simp add: in_reach_def)
  have silent: "\<exists>rc'. foldM (receive_packet env) (arrived m (item_packets (enc_header reserved h) i)) rc = Some rc' \<and>
      link_ready h reserved rc' \<and> rc_last_seq_no (admit h rc') \<in> {rc_last_seq_no (admit h rc), item_seq i} \<and>
      rc_active_fragment_seq_no rc' \<in> {rc_active_fragment_seq_no rc, item_seq i, - 1} \<and>
      calls_extend env rc [] rc'" if lost: "\<not> all_arrived m"
  proof (cases i)
    case (DataItem q gs)
    then have "m = [False]" using m lost by (cases m) (auto simp: all_arrived_def)
    then show ?thesis using ready DataItem by (simp add: calls_extend_def)
  next
    case (FragItem q t v)
    let ?ck = "take frag_room v" and ?cks = "chunks frag_room (drop frag_room v)"
    have wfb: "wf_big env (length (rc_channels rc)) t v" using wf FragItem by simp
    then have v: "v \<noteq> []" and k: "length (chunks frag_room v) \<le> 65536" by (simp_all add: wf_big_def)
    have cks: "chunks frag_room v = ?ck # ?cks" using v frag_room_pos by (rule chunks_Cons)
    have pk: "item_packets (enc_header reserved h) i = frag_packet (enc_header reserved h) t q 0 ?ck #
        frag_packets (enc_header reserved h) t q (of_nat (Suc 0)) ?cks"
      by (simp add: FragItem cks)
    have b: "\<forall>ck \<in> set ?cks. ck \<noteq> [] \<and> length ck \<le> frag_room" using chunks_bound by blast
    have q: "q \<noteq> - 1" "rc_active_fragment_seq_no rc \<noteq> q" "in_order q (admit h rc)" using first FragItem by simp_all
    from m pk obtain x m' where mx: "m = x # m'" "length m' = length ?cks" by (cases m) auto
    show ?thesis
    proof (cases x)
      case False
      from broken_fragments [OF q(1) ready q(2), of ?cks "Suc 0" m' env t] b k cks mx(2) obtain rc' where
        "foldM (receive_packet env) (arrived m' (frag_packets (enc_header reserved h) t q (of_nat (Suc 0)) ?cks)) rc = Some rc'"
        "quiet h reserved rc rc'" by auto
      with False show ?thesis
        unfolding pk mx(1) by (auto simp: quiet_def calls_extend_def same_channels_def)
    next
      case True
      obtain rc1 where r1: "receive_packet env (frag_packet (enc_header reserved h) t q 0 ?ck) rc = Some rc1"
        "synced h reserved q rc1" "assembling q 0 ?ck (length v) rc1" "same_channels rc rc1"
        "rc_calls rc1 = rc_calls rc @ (if length ?ck = length v then [big_call t ?ck] else [])"
        using first_fragment [OF ready q(3) wfb, of ?ck] by auto
      have nall: "\<not> list_all (\<lambda>b. b) m'" using lost mx(1) True by (simp add: all_arrived_def)
      then have "?cks \<noteq> []" using mx(2) by (cases m') auto
      then have "length ?ck \<noteq> length v" by auto
      with r1(5) have calls: "rc_calls rc1 = rc_calls rc" by simp
      have "length ?ck + length (concat ?cks) = length v"
        unfolding concat_chunks [OF frag_room_pos] by simp
      from unfinished_fragments [OF q(1) r1(2,3) b this _ mx(2) nall, of env t] k cks obtain rc' where
        "foldM (receive_packet env) (arrived m' (frag_packets (enc_header reserved h) t q (of_nat (Suc 0)) ?cks)) rc1 = Some rc'"
        "quiet h reserved rc1 rc'" by auto
      with True r1 calls show ?thesis
        unfolding pk mx(1)
        by (auto simp: quiet_def calls_extend_def same_channels_def synced_def admit_again assembling_def FragItem)
    qed
  qed
  show ?thesis
  proof (cases "all_arrived m")
    case True
    then have "arrived m (item_packets (enc_header reserved h) i) = item_packets (enc_header reserved h) i"
      using m by (simp add: all_arrived_def arrived_all)
    moreover from receive_item [OF ready first(1) fits wf] obtain rc' where
      r: "foldM (receive_packet env) (item_packets (enc_header reserved h) i) rc = Some rc'"
        "synced h reserved (item_seq i) rc'" "rc_active_fragment_seq_no rc' \<in> {rc_active_fragment_seq_no rc, item_seq i}"
        "calls_extend env rc (concat (map expected_calls (item_contents i))) rc'" by blast
    moreover have "in_reach h reserved (item_seq i + 1) n rc'"
      using r(2,3) by (intro in_reach_step [OF reach]) (auto simp: synced_def admit_again)
    ultimately show ?thesis using True by simp
  next
    case False
    from silent [OF False] obtain rc' where
      "foldM (receive_packet env) (arrived m (item_packets (enc_header reserved h) i)) rc = Some rc'"
      "in_reach h reserved (item_seq i + 1) n rc'" "calls_extend env rc [] rc'"
      using in_reach_step [OF reach] by blast
    with False show ?thesis by simp
  qed
qed

subsection \<open>Everything the sender sends\<close>

text \<open>The parts of what was sent, each with its packets and their content.\<close>

type_synonym sent_part = "bytes list \<times> content list"

definition arrivals :: "bool list list \<Rightarrow> sent_part list \<Rightarrow> bytes list" where
  "arrivals ms parts = concat (map2 (\<lambda>m p. arrived m (fst p)) ms parts)"

definition delivered :: "bool list list \<Rightarrow> sent_part list \<Rightarrow> content list" where
  "delivered ms parts = concat (map2 (\<lambda>m p. if all_arrived m then snd p else []) ms parts)"

lemma delivered_all: "delivered (map (\<lambda>p. replicate (length (fst p)) True) parts) parts = concat (map snd parts)"
  by (induction parts) (auto simp: delivered_def all_arrived_def list_all_iff)

lemma delivered_none:
  "list_all (\<lambda>p. fst p \<noteq> []) parts \<Longrightarrow> delivered (map (\<lambda>p. replicate (length (fst p)) False) parts) parts = []"
  by (induction parts) (auto simp: delivered_def all_arrived_def list_all_iff)

definition item_part :: "bytes \<Rightarrow> wire_item \<Rightarrow> sent_part" where
  "item_part hdr i = (item_packets hdr i, item_contents i)"

lemma lossy_items:
  "in_reach h reserved q (length is) rc \<Longrightarrow> seqs_from q is \<Longrightarrow> \<forall>i \<in> set is. item_fits i \<Longrightarrow>
   \<forall>c \<in> set (concat (map item_contents is)). wf_content env (length (rc_channels rc)) c \<Longrightarrow>
   map length ms = map (length \<circ> item_packets (enc_header reserved h)) is \<Longrightarrow>
   \<exists>rc'. foldM (receive_packet env) (arrivals ms (map (item_part (enc_header reserved h)) is)) rc = Some rc' \<and>
     calls_extend env rc (concat (map expected_calls (delivered ms (map (item_part (enc_header reserved h)) is)))) rc'"
proof (induction "is" arbitrary: q rc ms)
  case Nil
  then show ?case by (simp add: arrivals_def delivered_def calls_extend_def)
next
  case (Cons i "is")
  from Cons.prems(5) obtain m ms' where ms: "ms = m # ms'" "length m = length (item_packets (enc_header reserved h) i)"
    "map length ms' = map (length \<circ> item_packets (enc_header reserved h)) is" by (cases ms) auto
  have reach: "in_reach h reserved (item_seq i) (Suc (length is)) rc" and q: "item_seq i = q" "seqs_from (q + 1) is"
    using Cons.prems(1,2) by simp_all
  from lossy_item [OF reach _ _ ms(2), of env] Cons.prems(3,4) obtain rc1 where r1:
    "foldM (receive_packet env) (arrived m (item_packets (enc_header reserved h) i)) rc = Some rc1"
    "in_reach h reserved (q + 1) (length is) rc1"
    "calls_extend env rc (concat (map expected_calls (if all_arrived m then item_contents i else []))) rc1"
    unfolding q(1) by auto
  have "length (rc_channels rc1) = length (rc_channels rc)" using r1(3) by (simp add: calls_extend_def)
  with Cons.IH [OF r1(2) q(2) _ _ ms(3)] Cons.prems(3,4) obtain rc2 where r2:
    "foldM (receive_packet env) (arrivals ms' (map (item_part (enc_header reserved h)) is)) rc1 = Some rc2"
    "calls_extend env rc1 (concat (map expected_calls (delivered ms' (map (item_part (enc_header reserved h)) is)))) rc2"
    by auto
  have "arrivals ms (map (item_part (enc_header reserved h)) (i # is)) =
      arrived m (item_packets (enc_header reserved h) i) @ arrivals ms' (map (item_part (enc_header reserved h)) is)"
    "delivered ms (map (item_part (enc_header reserved h)) (i # is)) =
      (if all_arrived m then item_contents i else []) @ delivered ms' (map (item_part (enc_header reserved h)) is)"
    by (simp_all add: arrivals_def delivered_def ms(1) item_part_def)
  with r1(1) r2(1) calls_extend_trans [OF r1(3) r2(2)] show ?case by (auto simp: foldM_append)
qed

text \<open>The sender's queue over a lossy network.\<close>

lemma lossy_link:
  assumes snd: "queue_inv st" "buffer_wf st" "\<forall>q \<in> set (snd_deque st). sendable (snd_channels st) q"
    and hdr: "take Header_size (snd_buffer st) = enc_header reserved h"
    and rcv: "in_reach h reserved (snd_seq_no st) (2 * length (snd_deque st)) rc"
    and wf: "\<forall>q \<in> set (snd_deque st). wf_content env (length (rc_channels rc)) (queued_content (snd_channels st) q)"
  shows "\<exists>st' parts. send_updates st = Some st' \<and> snd_deque st' = [] \<and>
    snd_sent st' = snd_sent st @ concat (map fst parts) \<and>
    concat (map snd parts) = map (queued_content (snd_channels st)) (snd_deque st) \<and>
    list_all (\<lambda>p. fst p \<noteq> []) parts \<and>
    (\<forall>ms. map length ms = map (length \<circ> fst) parts \<longrightarrow>
      (\<exists>rc'. foldM (receive_packet env) (arrivals ms parts) rc = Some rc' \<and>
        calls_extend env rc (concat (map expected_calls (delivered ms parts))) rc'))"
proof -
  obtain "is" st' where s: "send_updates st = Some st'" "sent_items st is st'" "snd_deque st' = []" "few_items 2 is"
    using send_updates_drains [OF snd] by blast
  note all = sent_items_all [OF s(2,3)]
  let ?parts = "map (item_part (enc_header reserved h)) is"
  have "length is \<le> 2 * length (snd_deque st)"
    using s(4) arg_cong [OF all, of length] by (simp add: few_items_def)
  with rcv have reach: "in_reach h reserved (snd_seq_no st) (length is) rc" by (rule in_reach_less)
  have "\<forall>c \<in> set (concat (map item_contents is)). wf_content env (length (rc_channels rc)) c"
    unfolding all using wf by simp
  then have "\<exists>rc'. foldM (receive_packet env) (arrivals ms ?parts) rc = Some rc' \<and>
      calls_extend env rc (concat (map expected_calls (delivered ms ?parts))) rc'"
    if "map length ms = map (length \<circ> fst) ?parts" for ms
    using lossy_items [OF reach, of env ms] s(2) that by (simp add: sent_items_def item_part_def comp_def)
  moreover have "snd_sent st' = snd_sent st @ concat (map fst ?parts)"
    using s(2) hdr by (simp add: sent_items_def item_part_def comp_def)
  moreover have "list_all (\<lambda>p. fst p \<noteq> []) ?parts"
  proof -
    have "item_packets (enc_header reserved h) i \<noteq> []" if "i \<in> set is" for i
    proof (cases i)
      case (FragItem q t v)
      then have "BigUpdate t v \<in> set (item_contents i)" by simp
      with that have "BigUpdate t v \<in> set (concat (map item_contents is))"
        unfolding set_concat set_map by blast
      then obtain q where "q \<in> set (snd_deque st)" "queued_content (snd_channels st) q = BigUpdate t v"
        unfolding all by auto
      with wf have "wf_content env (length (rc_channels rc)) (BigUpdate t v)" by metis
      then have "v \<noteq> []" by (simp add: wf_big_def)
      then show ?thesis using FragItem frag_room_pos by (simp add: chunks_Cons)
    qed simp
    then show ?thesis by (simp add: list_all_iff item_part_def)
  qed
  moreover have "concat (map snd ?parts) = map (queued_content (snd_channels st)) (snd_deque st)"
    using all by (simp add: item_part_def comp_def)
  ultimately show ?thesis
    using s(1,3) by (intro exI [of _ st'] exI [of _ ?parts]) simp
qed

end
