(* ===== verification/Config_Load.thy ===== *)
theory Config_Load
  imports Config_Model Support
begin

text \<open>
  What the loader of \<open>src/config.cpp\<close> makes of a configuration file: the events of a file that spells
  out a configuration rebuild it, any object at the top level adds channels, and the hash sees only
  the sequence of the strings.
\<close>

subsection \<open>A configuration as events\<close>

definition render_fields :: "string list \<Rightarrow> yevent list" where
  "render_fields fs = YStartArray # map YString fs @ [YEndArray]"

definition render_channel :: "config_channel \<Rightarrow> yevent list" where
  "render_channel c =
     [YMapKey (cc_name c), YStartMap, YMapKey ''extra_fields''] @ render_fields (cc_extra c) @
     [YMapKey ''polled_fields''] @ render_fields (cc_polled c) @ [YEndMap]"

definition render_config :: "config \<Rightarrow> yevent list" where
  "render_config c =
     [YStartMap, YMapKey ''min_update_period'', YDouble (cfg_min_update_period c),
      YMapKey ''polled_fields_update_period'', YDouble (cfg_polled_fields_update_period c),
      YMapKey ''heartbeat_period'', YDouble (cfg_heartbeat_period c),
      YMapKey ''rate_limit_mbs'', YInteger (int (unat (cfg_rate_limit_mbs c))),
      YMapKey ''channel_names'', YStartMap] @
     concat (map render_channel (cfg_channels c)) @ [YEndMap, YEndMap]"

lemma parser_events_simps [simp]:
  "parser_events x [] = x" "parser_events x (e # es) = parser_events (parser_event x e) es"
  "parser_events x (es @ fs) = parser_events (parser_events x es) fs"
  by (simp_all add: parser_events_def)

text \<open>The strings of an array go to the channel read last.\<close>

lemma parse_extra:
  assumes "px_level x = 3" "px_key x = ''extra_fields''" "cfg_channels (px_config x) = cs @ [c]"
    "px_channel x = Some (length cs)"
  shows "parser_events x (map YString fs) =
    x\<lparr>px_config := (px_config x)\<lparr>cfg_channels := cs @ [c\<lparr>cc_extra := cc_extra c @ fs\<rparr>]\<rparr>\<rparr>"
  using assms
proof (induction fs arbitrary: x c)
  case (Cons f fs)
  then show ?case
    by (simp add: parser_string_def update_current_def nth_append)
qed simp

lemma parse_polled:
  assumes "px_level x = 3" "px_key x = ''polled_fields''" "cfg_channels (px_config x) = cs @ [c]"
    "px_channel x = Some (length cs)"
  shows "parser_events x (map YString fs) =
    x\<lparr>px_config := (px_config x)\<lparr>cfg_channels := cs @ [c\<lparr>cc_polled := cc_polled c @ fs\<rparr>]\<rparr>\<rparr>"
  using assms
proof (induction fs arbitrary: x c)
  case (Cons f fs)
  then show ?case
    by (simp add: parser_string_def update_current_def nth_append)
qed simp

lemma parse_channel:
  assumes "px_level x = 2"
  shows "\<exists>k. parser_events x (render_channel c) =
    x\<lparr>px_key := k, px_config := (px_config x)\<lparr>cfg_channels := cfg_channels (px_config x) @ [c]\<rparr>,
      px_channel := Some (length (cfg_channels (px_config x)))\<rparr>"
  by (intro exI [of _ "''polled_fields''"] parser_context.equality)
    (use assms in \<open>simp_all add: render_channel_def render_fields_def parser_map_key_def new_config_channel_def
      parse_extra [where cs = "cfg_channels (px_config x)" and c = "\<lparr>cc_name = cc_name c, cc_extra = [], cc_polled = []\<rparr>"]
      parse_polled [where cs = "cfg_channels (px_config x)" and c = "\<lparr>cc_name = cc_name c, cc_extra = cc_extra c, cc_polled = []\<rparr>"]\<close>)

lemma parse_channels:
  assumes "px_level x = 2"
  shows "\<exists>k j. parser_events x (concat (map render_channel cs)) =
    x\<lparr>px_key := k, px_config := (px_config x)\<lparr>cfg_channels := cfg_channels (px_config x) @ cs\<rparr>, px_channel := j\<rparr>"
  using assms
proof (induction cs arbitrary: x)
  case Nil
  show ?case by (rule exI [of _ "px_key x"], rule exI [of _ "px_channel x"]) simp
next
  case (Cons c cs)
  obtain k where k: "parser_events x (render_channel c) =
      x\<lparr>px_key := k, px_config := (px_config x)\<lparr>cfg_channels := cfg_channels (px_config x) @ [c]\<rparr>,
        px_channel := Some (length (cfg_channels (px_config x)))\<rparr>" (is "_ = ?x1")
    using parse_channel [OF Cons.prems] by blast
  have "px_level ?x1 = 2" using Cons.prems by simp
  from Cons.IH [OF this] show ?case
    by (simp add: k)
qed

lemma parse_config:
  "px_config (parser_events (new_context default_config) (render_config c)) = c\<lparr>cfg_hash := 0\<rparr>"
proof -
  have rate: "word_of_int (ctrunc (dval (double_of_int (int (unat (cfg_rate_limit_mbs c)))))) = cfg_rate_limit_mbs c"
  proof -
    have "dval (double_of_int (int (unat (cfg_rate_limit_mbs c)))) = of_nat (unat (cfg_rate_limit_mbs c))"
      by (rule dval_double_of_int) (use unat_bound(3) [of "cfg_rate_limit_mbs c"] in simp)
    then show ?thesis by (simp only: ctrunc_of_nat) simp
  qed
  define x where "x = parser_events (new_context default_config)
     [YStartMap, YMapKey ''min_update_period'', YDouble (cfg_min_update_period c),
      YMapKey ''polled_fields_update_period'', YDouble (cfg_polled_fields_update_period c),
      YMapKey ''heartbeat_period'', YDouble (cfg_heartbeat_period c),
      YMapKey ''rate_limit_mbs'', YInteger (int (unat (cfg_rate_limit_mbs c))),
      YMapKey ''channel_names'', YStartMap]"
  have x: "px_level x = 2" "px_config x = c\<lparr>cfg_hash := 0, cfg_channels := []\<rparr>"
    by (simp_all add: x_def new_context_def parser_map_key_def parser_double_def parser_integer_def rate [simplified] default_config_def)
  obtain k j where "parser_events x (concat (map render_channel (cfg_channels c))) =
    x\<lparr>px_key := k, px_config := (px_config x)\<lparr>cfg_channels := cfg_channels (px_config x) @ cfg_channels c\<rparr>, px_channel := j\<rparr>"
    using parse_channels [OF x(1)] by blast
  then show ?thesis
    unfolding render_config_def parser_events_simps(3) x_def [symmetric] by (simp add: x)
qed

subsection \<open>The string sequence behind the hash\<close>

definition channel_strings :: "config_channel \<Rightarrow> string list" where
  "channel_strings c = cc_name c # cc_extra c @ cc_polled c"

lemma hash_channels_strings:
  "fold hash_channel cs h = hash_fields (concat (map channel_strings cs)) h"
  by (induction cs arbitrary: h) (simp_all add: hash_channel_def hash_fields_def channel_strings_def)

subsection \<open>What the loader says\<close>

definition known_node :: "string \<Rightarrow> bool" where
  "known_node k \<longleftrightarrow>
     k \<in> {''min_update_period'', ''polled_fields_update_period'', ''heartbeat_period'', ''rate_limit_mbs'', ''channel_names''}"

text \<open>The line \<open>parser_log_unknown_node\<close> logs, if its logger prints it; \<open>time\<close> is the time stamp.\<close>

definition parser_log_unknown_node :: "string \<Rightarrow> parser_context \<Rightarrow> string option" where
  "parser_log_unknown_node time x =
     log_line time config_logger Config_level (''Unknown configuration node: '' @ [CHR 0x27] @ px_key x @ [CHR 0x27] @ ''.'')"

definition map_key_line :: "string \<Rightarrow> parser_context \<Rightarrow> string \<Rightarrow> string option" where
  "map_key_line time x k =
     (if px_level x = 1 \<and> \<not> known_node k then parser_log_unknown_node time (x\<lparr>px_key := k\<rparr>) else None)"

text \<open>
  A misspelt key is never reported, with whatever debug option: the parser's logger is a global
  object that keeps the level it was made with, above the level of the message.
\<close>

lemma unknown_node_not_reported: "map_key_line time x k = None"
proof -
  have "\<not> is_loggable config_logger Config_level"
    by (simp add: global_loggers_keep_info level_defs)
  then show ?thesis
    by (simp add: map_key_line_def parser_log_unknown_node_def log_line_def)
qed

text \<open>A configuration as text; \<open>show_nat\<close> is the library's decimal form of a number.\<close>

definition quoted :: "string \<Rightarrow> string" where
  "quoted s = [CHR 0x27] @ s @ [CHR 0x27]"

definition channel_text :: "(nat \<Rightarrow> string) \<Rightarrow> config_channel \<Rightarrow> string" where
  "channel_text show_nat c =
     ''channel '' @ quoted (cc_name c) @ '' - fields ('' @ show_nat (length (cc_extra c)) @ ''): '' @
     concat (map (\<lambda>f. ''e:'' @ quoted f @ '' '') (cc_extra c)) @
     concat (map (\<lambda>f. ''p:'' @ quoted f @ '' '') (cc_polled c)) @ [CHR 0x0A]"

definition config_text :: "(nat \<Rightarrow> string) \<Rightarrow> config \<Rightarrow> string" where
  "config_text show_nat c = concat (map (channel_text show_nat) (cfg_channels c))"

subsection \<open>Properties\<close>

text \<open>
  C28: loading a file whose parse delivers the events of a configuration yields that configuration
  with its hash: all periods bit for bit, the rate limit (an integer in the file, converted to
  \<open>double\<close> and back), and every channel with its extra and polled fields in order.
\<close>

theorem configuration_file_loads:
  assumes "yajl h content = (render_config c, h', None)" and "content \<noteq> []" and "length content < CHUNK"
  shows "get_configuration yajl (Some h) (Some content) = Inr (update_hash c)"
proof -
  have "take CHUNK content = content" using assms(3) by simp
  then have "parse_chunks yajl h (new_context default_config) content =
      (None, parser_events (new_context default_config) (render_config c))"
    using assms by (subst parse_chunks.simps) (simp add: Let_def)
  then show ?thesis
    using assms(2) by (simp add: get_configuration_def parse_json_file_def parse_config update_hash_def Let_def)
qed

definition demo_config :: config where
  "demo_config = default_config\<lparr>cfg_rate_limit_mbs := 100, cfg_channels :=
     [\<lparr>cc_name = ''A'', cc_extra = [''EGU''], cc_polled = [''DESC'']\<rparr>, \<lparr>cc_name = ''B'', cc_extra = [], cc_polled = []\<rparr>]\<rparr>"

theorem configuration_file_loads_witness:
  "get_configuration (\<lambda>h s. (render_config demo_config, h, None)) (Some ()) (Some ''file'') = Inr (update_hash demo_config)"
  by (rule configuration_file_loads [where h' = "()"]) (simp_all add: CHUNK_def)

text \<open>
  The loader does not look at which top-level object it is in: the members of an object under
  any key, known or not, become channels, so a misspelt \<open>channel_names\<close> or an unrelated section
  adds channels with its keys as names.
\<close>

theorem any_object_adds_channels:
  "cfg_channels (px_config (parser_events (new_context c)
     ([YStartMap, YMapKey k, YStartMap] @ concat (map (\<lambda>n. [YMapKey n, YNull]) names)))) =
   cfg_channels c @ map new_config_channel names"
proof -
  have fold: "cfg_channels (px_config (parser_events x (concat (map (\<lambda>n. [YMapKey n, YNull]) names)))) =
      cfg_channels (px_config x) @ map new_config_channel names" if "px_level x = 2" for x
    using that by (induction names arbitrary: x) (simp_all add: parser_map_key_def)
  show ?thesis
    unfolding parser_events_simps(3)
    by (subst fold) (simp_all add: new_context_def parser_map_key_def)
qed

text \<open>
  The configuration hash that guards the link sees only the sequence of the strings: two
  configurations that split the same names differently into channels, extra and polled fields have
  the same hash, so the receiver accepts packets of a sender whose channel numbers mean other names.
\<close>

theorem hash_ignores_structure:
  assumes "cfg_min_update_period a = cfg_min_update_period b"
    and "cfg_polled_fields_update_period a = cfg_polled_fields_update_period b"
    and "cfg_heartbeat_period a = cfg_heartbeat_period b" and "cfg_rate_limit_mbs a = cfg_rate_limit_mbs b"
    and "concat (map channel_strings (cfg_channels a)) = concat (map channel_strings (cfg_channels b))"
  shows "cfg_hash (update_hash a) = cfg_hash (update_hash b)"
  using assms by (simp add: update_hash_def Let_def hash_channels_strings)

theorem hash_ignores_structure_witness:
  "cfg_hash (update_hash (default_config\<lparr>cfg_channels := [\<lparr>cc_name = ''A'', cc_extra = [''B''], cc_polled = []\<rparr>]\<rparr>)) =
   cfg_hash (update_hash (default_config\<lparr>cfg_channels := [\<lparr>cc_name = ''A'', cc_extra = [], cc_polled = []\<rparr>,
     \<lparr>cc_name = ''B'', cc_extra = [], cc_polled = []\<rparr>]\<rparr>)) \<and>
   flat_channel_names (default_config\<lparr>cfg_channels := [\<lparr>cc_name = ''A'', cc_extra = [''B''], cc_polled = []\<rparr>]\<rparr>) =
     [''A'', ''A.B'']"
  by (rule conjI, rule hash_ignores_structure)
    (simp_all add: channel_strings_def flat_channel_names_def channel_names_def field_name_def)

end
