(* ===== verification/Dev_Diode.thy ===== *)
theory Dev_Diode
  imports Diode_Prelude
begin

text \<open>
  The device support of the receiving IOC (\<open>ioc/devdiode.c\<close>): the two lookup tables, the assignment of
  records and fields to channel numbers, and the application of a received update to a record.

  The lookup tables are arrays of \<open>DIODE_LUT_SIZE\<close> pointers: a map with a bounds check at each
  access that the code leaves unchecked. The static database and the functions of EPICS base that
  read and write records are the parameters in \<open>db_env\<close>; a record is its common fields and a rest.
  The scan lock brackets the two update functions and is not modelled.
\<close>

definition DIODE_LUT_SIZE :: nat where "DIODE_LUT_SIZE = 100000"

record 'v db_record =
  pc_name :: string
  pc_time :: u64
  pc_nsta :: u16
  pc_nsev :: u16
  pc_udf :: bool
  pc_monitors :: nat
  pc_rest :: 'v

text \<open>A field address: the record, the field, and whether it is the value field and process-passive.\<close>

record db_addr =
  da_record :: nat
  da_field :: string
  da_value_pp :: bool

record diode_dpvt =
  dp_addr :: db_addr
  dp_count :: u32
  dp_hash :: u64

text \<open>One node of a record type's list, as the static database holds it.\<close>

record record_node =
  rn_record :: nat
  rn_name :: string
  rn_alias :: bool
  rn_info :: "string option"  \<comment> \<open>info item diode_cix\<close>

datatype db_event = DBE_VALUE_LOG u16 | DBE_MASK u16

record 'v diode_state =
  ds_records :: "'v db_record list"
  ds_lut :: "(nat \<Rightarrow> diode_dpvt option) option"
  ds_names :: "(nat \<Rightarrow> string option) option"
  ds_events :: "(nat \<times> string \<times> db_event) list"

text \<open>
  EPICS base: the types and nodes of the database, the three steps of a name lookup on an entry and
  the status, alarm and event codes involved, lookup of a record with a field (\<open>dbFindRecord\<close>), the address of an
  entry, number parsing, alarm reset and \<open>dbPut\<close>. An entry is the address it points at.
\<close>

record 'v db_env =
  be_types :: "record_node list list"
  be_record_part :: "string \<Rightarrow> int \<times> string \<times> db_addr"
  be_field_part :: "db_addr \<Rightarrow> string \<Rightarrow> int \<times> db_addr"
  be_attribute_part :: "db_addr \<Rightarrow> string \<Rightarrow> int \<times> db_addr"
  be_fieldNotFound :: int
  be_badSignal :: int
  be_Conflict :: int
  be_UDF_ALARM :: u16
  be_INVALID_ALARM :: u16
  be_DBE_VALUE :: u16
  be_DBE_LOG :: u16
  be_find :: "string \<Rightarrow> db_addr option"
  be_entry_addr :: "db_addr \<Rightarrow> int + db_addr"
  be_parse_u32 :: "string \<Rightarrow> u32 option"
  be_reset_alarms :: "'v db_record \<Rightarrow> u16 \<times> 'v db_record"
  be_put :: "db_addr \<Rightarrow> u16 \<Rightarrow> bytes \<Rightarrow> u32 \<Rightarrow> 'v db_record \<Rightarrow> int \<times> 'v db_record"

subsection \<open>The lookup tables\<close>

definition diode_init :: "'v diode_state \<Rightarrow> 'v diode_state" where
  "diode_init st = (case ds_lut st of None \<Rightarrow> st\<lparr>ds_lut := Some (\<lambda>_. None)\<rparr> | Some _ \<Rightarrow> st)"

definition diode_assign :: "u32 \<Rightarrow> string \<Rightarrow> 'v diode_state \<Rightarrow> 'v diode_state option" where
  "diode_assign channel_index name st =
     (let names = (case ds_names st of None \<Rightarrow> (\<lambda>_. None) | Some n \<Rightarrow> n) in
      if unat channel_index < DIODE_LUT_SIZE
      then Some (st\<lparr>ds_names := Some (names(unat channel_index := Some name))\<rparr>) else None)"

definition diode_assign_entry ::
  "'v db_env \<Rightarrow> string \<Rightarrow> u32 \<Rightarrow> db_addr \<Rightarrow> 'v diode_state \<Rightarrow> (int \<times> 'v diode_state) option" where
  "diode_assign_entry env name i entry st =
     (if unat i \<ge> DIODE_LUT_SIZE then Some (be_badSignal env, st)
      else case ds_lut st of
        None \<Rightarrow> None
      | Some lut \<Rightarrow>
          if lut (unat i) \<noteq> None then Some (be_Conflict env, st)
          else case be_entry_addr env entry of
            Inl status \<Rightarrow> Some (status, st)
          | Inr addr \<Rightarrow> Some (0, st\<lparr>ds_lut := Some (lut(unat i := Some
              \<lparr>dp_addr = addr, dp_count = - 1, dp_hash = 0\<rparr>))\<rparr>))"

text \<open>\<open>strncmp\<close> of two zero-free strings over at most \<open>n\<close> characters is zero.\<close>

definition strneq :: "string \<Rightarrow> string \<Rightarrow> nat \<Rightarrow> bool" where
  "strneq a b n \<longleftrightarrow> take n a = take n b"

function resolve_loop :: "(nat \<Rightarrow> string option) \<Rightarrow> string \<Rightarrow> nat \<Rightarrow> nat \<Rightarrow> nat option" where
  "resolve_loop names name n i =
     (if i < DIODE_LUT_SIZE then
        (case names i of
           None \<Rightarrow> None
         | Some s \<Rightarrow> if strneq s name n then Some i else resolve_loop names name n (Suc i))
      else None)"
  by pat_completeness auto
termination
  by (relation "measure (\<lambda>(_, _, _, i). DIODE_LUT_SIZE - i)") auto

declare resolve_loop.simps [simp del]

text \<open>The status is \<open>-2\<close> without a table, \<open>-1\<close> when not found, \<open>0\<close> with the index found.\<close>

definition resolve_index_n :: "string \<Rightarrow> nat \<Rightarrow> 'v diode_state \<Rightarrow> int \<times> u32 option" where
  "resolve_index_n name n st =
     (case ds_names st of
        None \<Rightarrow> (- 2, None)
      | Some names \<Rightarrow>
          (case resolve_loop names name n 0 of None \<Rightarrow> (- 1, None) | Some i \<Rightarrow> (0, Some (of_nat i))))"

definition resolve_index :: "string \<Rightarrow> 'v diode_state \<Rightarrow> int \<times> u32 option" where
  "resolve_index name = resolve_index_n name 65535"

subsection \<open>Assigning records and fields\<close>

definition iterate_records :: "'v db_env \<Rightarrow> record_node list" where
  "iterate_records env = filter (\<lambda>n. rn_name n \<noteq> [] \<and> \<not> rn_alias n) (concat (be_types env))"

definition pvNameLookup :: "'v db_env \<Rightarrow> string \<Rightarrow> int \<times> db_addr" where
  "pvNameLookup env pname =
     (let (status, rest, entry) = be_record_part env pname in
      if status \<noteq> 0 then (status, entry)
      else let rest = (case rest of CHR ''.'' # cs \<Rightarrow> cs | _ \<Rightarrow> rest);
               (status, entry') = be_field_part env entry rest
           in if status = be_fieldNotFound env then be_attribute_part env entry' rest else (status, entry'))"

definition diode_assign_record ::
  "'v db_env \<Rightarrow> record_node \<Rightarrow> 'v diode_state \<Rightarrow> 'v diode_state option" where
  "diode_assign_record env node st =
     (let (status, entry) = pvNameLookup env (rn_name node);
          i = (if status = 0
               then (case Option.bind (rn_info node) (be_parse_u32 env) of None \<Rightarrow> - 1 | Some k \<Rightarrow> k) else - 1);
          i = (if i \<noteq> - 1
               then (case snd (resolve_index (rn_name node) st) of None \<Rightarrow> i | Some k \<Rightarrow> k) else i)
      in if i \<noteq> - 1
         then map_option snd (diode_assign_entry env (rn_name node) i entry st)
         else Some st)"

definition assign_field ::
  "'v db_env \<Rightarrow> nat \<Rightarrow> string \<Rightarrow> 'v diode_state \<Rightarrow> 'v diode_state option" where
  "assign_field env i name st =
     (let base = takeWhile (\<lambda>c. c \<noteq> CHR ''.'') name; suffix = dropWhile (\<lambda>c. c \<noteq> CHR ''.'') name in
      if suffix = [] then Some st
      else case resolve_index_n name (length base) st of
        (status, Some k) \<Rightarrow>
          (case ds_lut st of
             Some lut \<Rightarrow>
               if unat k < DIODE_LUT_SIZE then
                 case lut (unat k) of
                   None \<Rightarrow> Some st
                 | Some pvt \<Rightarrow> do {
                     rec \<leftarrow> vec_at (ds_records st) (da_record (dp_addr pvt));
                     if length (pc_name rec @ suffix) \<ge> 1024 then None
                     else case be_find env (pc_name rec @ suffix) of
                       None \<Rightarrow> Some st
                     | Some e \<Rightarrow> map_option snd (diode_assign_entry env (pc_name rec @ suffix) (of_nat i) e st)
                   }
               else Some st
           | None \<Rightarrow> Some st)
      | (status, None) \<Rightarrow> Some st)"

function assign_fields_loop :: "'v db_env \<Rightarrow> nat \<Rightarrow> 'v diode_state \<Rightarrow> 'v diode_state option" where
  "assign_fields_loop env i st =
     (if i < DIODE_LUT_SIZE then
        (case Option.bind (ds_names st) (\<lambda>names. names i) of
           None \<Rightarrow> Some st
         | Some name \<Rightarrow> Option.bind (assign_field env i name st) (assign_fields_loop env (Suc i)))
      else Some st)"
  by pat_completeness auto
termination
  by (relation "measure (\<lambda>(_, i, _). DIODE_LUT_SIZE - i)") auto

declare assign_fields_loop.simps [simp del]

definition diode_assign_fields :: "'v db_env \<Rightarrow> 'v diode_state \<Rightarrow> (int \<times> 'v diode_state) option" where
  "diode_assign_fields env st =
     do {
       st \<leftarrow> foldM (diode_assign_record env) (iterate_records env) (diode_init st);
       if ds_names st = None then Some (- 2, st)
       else map_option (Pair 0) (assign_fields_loop env 0 st)
     }"

subsection \<open>Applying updates\<close>

record meta_data =
  md_status :: u16   \<comment> \<open>signed in the source\<close>
  md_severity :: u16
  md_stamp :: u64

definition meta_changed :: "meta_data \<Rightarrow> 'v db_record \<Rightarrow> bool" where
  "meta_changed m r \<longleftrightarrow>
     md_stamp m \<noteq> pc_time r \<or> sint (md_status m) \<noteq> uint (pc_nsta r) \<or> sint (md_severity m) \<noteq> uint (pc_nsev r)"

definition field_changed :: "meta_data option \<Rightarrow> u32 \<Rightarrow> u64 \<Rightarrow> diode_dpvt \<Rightarrow> 'v db_record \<Rightarrow> bool" where
  "field_changed meta count hash pvt r \<longleftrightarrow>
     (case meta of Some m \<Rightarrow> meta_changed m r | None \<Rightarrow> False) \<or> dp_count pvt \<noteq> count \<or> dp_hash pvt \<noteq> hash"

definition assign_meta :: "'v db_env \<Rightarrow> meta_data option \<Rightarrow> 'v db_record \<Rightarrow> u16 \<times> 'v db_record" where
  "assign_meta env meta r =
     (case meta of
        None \<Rightarrow> (0, r)
      | Some m \<Rightarrow> be_reset_alarms env
          (r\<lparr>pc_time := md_stamp m, pc_nsta := md_status m, pc_nsev := md_severity m\<rparr>))"

definition dpvt_at :: "u32 \<Rightarrow> 'v diode_state \<Rightarrow> diode_dpvt option" where
  "dpvt_at i st =
     (case ds_lut st of None \<Rightarrow> None | Some lut \<Rightarrow> if unat i < DIODE_LUT_SIZE then lut (unat i) else None)"

definition set_dpvt :: "u32 \<Rightarrow> diode_dpvt \<Rightarrow> 'v diode_state \<Rightarrow> 'v diode_state" where
  "set_dpvt i p st = st\<lparr>ds_lut := map_option (\<lambda>lut. lut(unat i := Some p)) (ds_lut st)\<rparr>"

definition put_value ::
  "'v db_env \<Rightarrow> diode_dpvt \<Rightarrow> u16 \<Rightarrow> u32 \<Rightarrow> meta_data option \<Rightarrow> bytes \<Rightarrow> 'v db_record \<Rightarrow>
   int \<times> 'v db_record \<times> (nat \<times> string \<times> db_event) list" where
  "put_value env pvt type count meta val r =
     (let (mask, r) = assign_meta env meta r;
          (status, r) = be_put env (dp_addr pvt) type val count r;
          evs = (if status = 0 \<and> pc_monitors r \<noteq> 0 \<and> da_value_pp (dp_addr pvt)
                 then [(da_record (dp_addr pvt), da_field (dp_addr pvt), DBE_VALUE_LOG mask)] else [])
      in (status, r, evs))"

text \<open>No table, an index out of range and a number nobody claimed all answer \<open>-1\<close>.\<close>

definition diode_value_update ::
  "'v db_env \<Rightarrow> u32 \<Rightarrow> u16 \<Rightarrow> u32 \<Rightarrow> meta_data option \<Rightarrow> bytes \<Rightarrow> u64 \<Rightarrow> 'v diode_state \<Rightarrow>
   (int \<times> 'v diode_state) option" where
  "diode_value_update env i type count meta val hash st =
     (case dpvt_at i st of
        None \<Rightarrow> Some (- 1, st)
      | Some pvt \<Rightarrow> do {
          r \<leftarrow> vec_at (ds_records st) (da_record (dp_addr pvt));
          let (status, r', evs) = (if field_changed meta count hash pvt r
                                   then put_value env pvt type count meta val r else (0, r, []));
          Some (status, set_dpvt i (pvt\<lparr>dp_count := count, dp_hash := hash\<rparr>)
            (st\<lparr>ds_records := (ds_records st)[da_record (dp_addr pvt) := r'], ds_events := ds_events st @ evs\<rparr>))
        })"

definition monitor ::
  "'v db_env \<Rightarrow> diode_dpvt \<Rightarrow> bool \<Rightarrow> 'v db_record \<Rightarrow> 'v db_record \<times> (nat \<times> string \<times> db_event) list" where
  "monitor env pvt value_changed r =
     (let (mask, r) = be_reset_alarms env r;
          mask = (if value_changed then or mask (or (be_DBE_VALUE env) (be_DBE_LOG env)) else mask)
      in (r, if mask \<noteq> 0 then [(da_record (dp_addr pvt), da_field (dp_addr pvt), DBE_MASK mask)] else []))"

definition diode_disconnected :: "'v db_env \<Rightarrow> u32 \<Rightarrow> 'v diode_state \<Rightarrow> (int \<times> 'v diode_state) option" where
  "diode_disconnected env i st =
     (case dpvt_at i st of
        None \<Rightarrow> Some (- 1, st)
      | Some pvt \<Rightarrow> do {
          r \<leftarrow> vec_at (ds_records st) (da_record (dp_addr pvt));
          let (r', evs) = monitor env pvt False
            (r\<lparr>pc_udf := True, pc_nsta := be_UDF_ALARM env, pc_nsev := be_INVALID_ALARM env\<rparr>);
          Some (0, set_dpvt i (pvt\<lparr>dp_count := - 1\<rparr>)
            (st\<lparr>ds_records := (ds_records st)[da_record (dp_addr pvt) := r'], ds_events := ds_events st @ evs\<rparr>))
        })"

subsection \<open>Looking up names\<close>

lemma resolve_loop_Some:
  "resolve_loop names name n i = Some k \<longleftrightarrow>
     i \<le> k \<and> k < DIODE_LUT_SIZE \<and> (\<exists>s. names k = Some s \<and> strneq s name n) \<and>
     (\<forall>j. i \<le> j \<longrightarrow> j < k \<longrightarrow> (\<exists>s. names j = Some s \<and> \<not> strneq s name n))"
proof (induction names name n i rule: resolve_loop.induct)
  case (1 names name n i)
  show ?case
  proof (cases "i < DIODE_LUT_SIZE")
    case False
    then show ?thesis by (subst resolve_loop.simps) auto
  next
    case True
    show ?thesis
    proof (cases "names i")
      case None
      then show ?thesis
        using True by (subst resolve_loop.simps) (auto, metis le_neq_implies_less le_refl option.distinct(1))
    next
      case (Some s)
      show ?thesis
      proof (cases "strneq s name n")
        case hit: True
        then have "resolve_loop names name n i = Some i"
          using True Some by (subst resolve_loop.simps) simp
        moreover have "\<not> i < k" if "\<forall>j. i \<le> j \<longrightarrow> j < k \<longrightarrow> (\<exists>s. names j = Some s \<and> \<not> strneq s name n)"
          using that [rule_format, of i] Some hit by auto
        ultimately show ?thesis
          using True Some hit by fastforce
      next
        case False
        have "resolve_loop names name n i = resolve_loop names name n (Suc i)"
          using True Some False by (subst resolve_loop.simps) simp
        moreover note "1.IH" [OF True Some False]
        moreover have "(i \<le> k \<and> k < DIODE_LUT_SIZE \<and> (\<exists>s. names k = Some s \<and> strneq s name n) \<and>
            (\<forall>j. i \<le> j \<longrightarrow> j < k \<longrightarrow> (\<exists>s. names j = Some s \<and> \<not> strneq s name n))) \<longleftrightarrow>
          (Suc i \<le> k \<and> k < DIODE_LUT_SIZE \<and> (\<exists>s. names k = Some s \<and> strneq s name n) \<and>
            (\<forall>j. Suc i \<le> j \<longrightarrow> j < k \<longrightarrow> (\<exists>s. names j = Some s \<and> \<not> strneq s name n)))"
          using Some False by (metis Suc_le_eq le_neq_implies_less less_imp_le_nat option.inject)
        ultimately show ?thesis by simp
      qed
    qed
  qed
qed

text \<open>The name table after the names of a configuration have been assigned in order.\<close>

definition names_table :: "string list \<Rightarrow> 'v diode_state \<Rightarrow> bool" where
  "names_table ns st \<longleftrightarrow> (\<exists>t. ds_names st = Some t \<and> (\<forall>i. t i = (if i < length ns then Some (ns ! i) else None)))"

fun assign_names :: "nat \<Rightarrow> string list \<Rightarrow> 'v diode_state \<Rightarrow> 'v diode_state option" where
  "assign_names i [] st = Some st"
| "assign_names i (n # ns) st = Option.bind (diode_assign (of_nat i) n st) (assign_names (Suc i) ns)"

lemma diode_assign_next:
  assumes "names_table ns st" and "length ns < DIODE_LUT_SIZE"
  shows "\<exists>st'. diode_assign (of_nat (length ns)) n st = Some st' \<and> names_table (ns @ [n]) st'"
proof -
  have u: "unat (of_nat (length ns) :: u32) = length ns"
    using assms(2) by (simp add: DIODE_LUT_SIZE_def)
  obtain t where "ds_names st = Some t" "\<forall>i. t i = (if i < length ns then Some (ns ! i) else None)"
    using assms(1) by (auto simp: names_table_def)
  then show ?thesis
    using assms(2) by (auto simp: diode_assign_def u names_table_def nth_append)
qed

lemma assign_names_table:
  assumes "names_table pre st" and "length (pre @ ns) \<le> DIODE_LUT_SIZE"
  shows "\<exists>st'. assign_names (length pre) ns st = Some st' \<and> names_table (pre @ ns) st'"
  using assms
proof (induction ns arbitrary: pre st)
  case Nil
  then show ?case by simp
next
  case (Cons n ns)
  obtain st1 where "diode_assign (of_nat (length pre)) n st = Some st1" "names_table (pre @ [n]) st1"
    using diode_assign_next [OF Cons.prems(1)] Cons.prems(2) by auto
  with Cons.IH [of "pre @ [n]" st1] Cons.prems(2) show ?case by auto
qed

lemma assign_names_fresh:
  assumes "ds_names st = None" and "length ns \<le> DIODE_LUT_SIZE" and "ns \<noteq> []"
  shows "\<exists>st'. assign_names 0 ns st = Some st' \<and> names_table ns st'"
proof -
  obtain n ms where ns: "ns = n # ms" using assms(3) by (cases ns) auto
  let ?st1 = "st\<lparr>ds_names := Some ((\<lambda>_. None)(0 := Some n))\<rparr>"
  have "diode_assign (of_nat 0) n st = Some ?st1"
    using assms(1) by (simp add: diode_assign_def DIODE_LUT_SIZE_def)
  moreover have "names_table [n] ?st1"
    by (auto simp: names_table_def)
  ultimately show ?thesis
    using assign_names_table [of "[n]" ?st1 ms] assms(2) by (simp add: ns)
qed

lemma resolve_distinct:
  assumes "names_table ns st" and "distinct ns" and "\<forall>n \<in> set ns. length n \<le> 65535" and "length ns \<le> DIODE_LUT_SIZE"
    and "i < length ns"
  shows "resolve_index (ns ! i) st = (0, Some (of_nat i))"
proof -
  obtain t where t: "ds_names st = Some t" "\<forall>i. t i = (if i < length ns then Some (ns ! i) else None)"
    using assms(1) by (auto simp: names_table_def)
  have eq: "strneq (ns ! j) (ns ! i) 65535 \<longleftrightarrow> j = i" if "j < length ns" for j
    using assms(2,3,5) that by (simp add: strneq_def nth_eq_iff_index_eq)
  have "resolve_loop t (ns ! i) 65535 0 = Some i"
    using assms(4,5) t(2) eq by (auto simp: resolve_loop_Some)
  then show ?thesis
    by (simp add: resolve_index_def resolve_index_n_def t(1))
qed

subsection \<open>The assignment table only grows\<close>

definition lut_grows :: "'v diode_state \<Rightarrow> 'v diode_state \<Rightarrow> bool" where
  "lut_grows st st' \<longleftrightarrow>
     ds_names st' = ds_names st \<and> ds_records st' = ds_records st \<and> ds_events st' = ds_events st \<and>
     (\<forall>i d. dpvt_at i st = Some d \<longrightarrow> dpvt_at i st' = Some d) \<and> (ds_lut st \<noteq> None \<longrightarrow> ds_lut st' \<noteq> None)"

lemma lut_grows_refl [simp]: "lut_grows st st"
  by (simp add: lut_grows_def)

lemma lut_grows_trans: "lut_grows st st1 \<Longrightarrow> lut_grows st1 st2 \<Longrightarrow> lut_grows st st2"
  by (simp add: lut_grows_def)

lemma diode_assign_entry_grows:
  assumes "diode_assign_entry env n i e st = Some (status, st')" shows "lut_grows st st'"
  using assms
  by (auto simp: diode_assign_entry_def lut_grows_def dpvt_at_def split: if_splits option.splits sum.splits)

lemma diode_assign_record_grows: "diode_assign_record env node st = Some st' \<Longrightarrow> lut_grows st st'"
  by (auto simp: diode_assign_record_def Let_def split: prod.splits if_splits dest: diode_assign_entry_grows)

lemma assign_field_grows: "assign_field env i n st = Some st' \<Longrightarrow> lut_grows st st'"
  by (auto simp: assign_field_def Let_def bind_eq_Some_conv split: prod.splits if_splits option.splits
      dest: diode_assign_entry_grows)

lemma assign_fields_loop_grows: "assign_fields_loop env i st = Some st' \<Longrightarrow> lut_grows st st'"
proof (induction env i st rule: assign_fields_loop.induct)
  case (1 env i st)
  show ?case
  proof (cases "i < DIODE_LUT_SIZE \<and> Option.bind (ds_names st) (\<lambda>names. names i) \<noteq> None")
    case True
    then obtain name where n: "i < DIODE_LUT_SIZE" "Option.bind (ds_names st) (\<lambda>names. names i) = Some name" by auto
    with "1.prems" obtain st1 where "assign_field env i name st = Some st1" "assign_fields_loop env (Suc i) st1 = Some st'"
      by (subst (asm) assign_fields_loop.simps) (auto simp: bind_eq_Some_conv)
    with "1.IH" [OF n] assign_field_grows lut_grows_trans show ?thesis by blast
  next
    case False
    with "1.prems" have "st' = st"
      by (subst (asm) assign_fields_loop.simps) (auto split: if_splits)
    then show ?thesis by simp
  qed
qed

lemma foldM_grows:
  assumes "\<And>x s s'. f x s = Some s' \<Longrightarrow> lut_grows s s'" and "foldM f xs s = Some s'"
  shows "lut_grows s s'"
  using assms(2)
proof (induction xs arbitrary: s)
  case (Cons x xs)
  then obtain s1 where "f x s = Some s1" "foldM f xs s1 = Some s'" by (auto simp: bind_eq_Some_conv)
  with Cons.IH assms(1) lut_grows_trans show ?case by blast
qed simp

lemma diode_assign_fields_grows:
  assumes "diode_assign_fields env st = Some (status, st')"
  shows "lut_grows (diode_init st) st'"
proof -
  obtain st1 where s1: "foldM (diode_assign_record env) (iterate_records env) (diode_init st) = Some st1"
    and r: "st' = st1 \<or> assign_fields_loop env 0 st1 = Some st'"
    using assms by (auto simp: diode_assign_fields_def bind_eq_Some_conv split: if_splits)
  have "lut_grows (diode_init st) st1"
    by (rule foldM_grows [OF diode_assign_record_grows s1])
  with r show ?thesis
    using assign_fields_loop_grows lut_grows_trans by blast
qed

subsection \<open>Updates\<close>

lemma dpvt_set [simp]: "dpvt_at i st \<noteq> None \<Longrightarrow> dpvt_at i (set_dpvt i p st') = (if ds_lut st' = None then None else Some p)"
  by (auto simp: dpvt_at_def set_dpvt_def split: option.splits if_splits)

text \<open>The record a channel number stands for.\<close>

definition record_of :: "u32 \<Rightarrow> 'v diode_state \<Rightarrow> 'v db_record option" where
  "record_of i st = Option.bind (dpvt_at i st) (\<lambda>p. vec_at (ds_records st) (da_record (dp_addr p)))"

lemma value_update_unfold:
  assumes "dpvt_at i st = Some pvt" and "record_of i st = Some r"
  shows "\<exists>st'. diode_value_update env i type count meta val hash st =
      Some (if field_changed meta count hash pvt r then fst (put_value env pvt type count meta val r) else 0, st') \<and>
    dpvt_at i st' = Some (pvt\<lparr>dp_count := count, dp_hash := hash\<rparr>) \<and>
    record_of i st' = Some (if field_changed meta count hash pvt r
      then fst (snd (put_value env pvt type count meta val r)) else r) \<and>
    ds_events st' = ds_events st @ (if field_changed meta count hash pvt r
      then snd (snd (put_value env pvt type count meta val r)) else [])"
proof -
  have l: "ds_lut st \<noteq> None" using assms(1) by (auto simp: dpvt_at_def split: option.splits)
  have r: "da_record (dp_addr pvt) < length (ds_records st)" "ds_records st ! da_record (dp_addr pvt) = r"
    using assms by (auto simp: record_of_def vec_at_def split: if_splits)
  show ?thesis
    using assms(1) l r
    by (auto simp: diode_value_update_def case_prod_beta record_of_def vec_at_def set_dpvt_def dpvt_at_def Let_def
        split: option.splits if_splits)
qed

text \<open>What the two library functions promise: an alarm reset clears the new alarm state and keeps the
  time stamp; \<open>dbPut\<close> leaves the time stamp and the new alarm state alone.\<close>

definition base_laws :: "'v db_env \<Rightarrow> bool" where
  "base_laws env \<longleftrightarrow>
     (\<forall>r. pc_nsta (snd (be_reset_alarms env r)) = 0 \<and> pc_nsev (snd (be_reset_alarms env r)) = 0 \<and>
          pc_time (snd (be_reset_alarms env r)) = pc_time r) \<and>
     (\<forall>a t v n r. pc_nsta (snd (be_put env a t v n r)) = pc_nsta r \<and> pc_nsev (snd (be_put env a t v n r)) = pc_nsev r \<and>
          pc_time (snd (be_put env a t v n r)) = pc_time r)"

lemma put_value_meta:
  assumes "base_laws env"
  shows "pc_nsta (fst (snd (put_value env pvt t n (Some m) v r))) = 0"
    "pc_nsev (fst (snd (put_value env pvt t n (Some m) v r))) = 0"
    "pc_time (fst (snd (put_value env pvt t n (Some m) v r))) = md_stamp m"
  using assms by (simp_all add: base_laws_def put_value_def assign_meta_def case_prod_beta Let_def)

lemma sint_eq_0: "sint (a :: u16) = 0 \<longleftrightarrow> a = 0"
  using signed_word_eqI [of a 0] by auto

section \<open>Properties\<close>

text \<open>A database with one record and a library that puts the bytes it is given.\<close>

definition demo_addr :: db_addr where
  "demo_addr = \<lparr>da_record = 0, da_field = ''VAL'', da_value_pp = True\<rparr>"

definition demo_db :: "int \<Rightarrow> bytes db_env" where
  "demo_db put_status =
     \<lparr>be_types = [[\<lparr>rn_record = 0, rn_name = ''a'', rn_alias = False, rn_info = Some ''0''\<rparr>]],
      be_record_part = (\<lambda>s. (0, [], demo_addr)), be_field_part = (\<lambda>e s. (0, e)), be_attribute_part = (\<lambda>e s. (0, e)),
      be_fieldNotFound = 1, be_badSignal = 2, be_Conflict = 3, be_UDF_ALARM = 17, be_INVALID_ALARM = 3, be_DBE_VALUE = 1, be_DBE_LOG = 2, be_find = (\<lambda>s. None), be_entry_addr = Inr,
      be_parse_u32 = (\<lambda>s. Some 0), be_reset_alarms = (\<lambda>r. (3, r\<lparr>pc_nsta := 0, pc_nsev := 0\<rparr>)),
      be_put = (\<lambda>a t v n r. (put_status, if put_status = 0 then r\<lparr>pc_rest := v\<rparr> else r))\<rparr>"

definition demo_record :: "bytes db_record" where
  "demo_record = \<lparr>pc_name = ''a'', pc_time = 0, pc_nsta = 0, pc_nsev = 0, pc_udf = False, pc_monitors = 1, pc_rest = []\<rparr>"

definition demo_state :: "bytes diode_state" where
  "demo_state = \<lparr>ds_records = [demo_record],
     ds_lut = Some ((\<lambda>_. None)(0 := Some \<lparr>dp_addr = demo_addr, dp_count = - 1, dp_hash = 0\<rparr>)),
     ds_names = None, ds_events = []\<rparr>"

lemma demo_state_ok:
  "dpvt_at 0 demo_state = Some \<lparr>dp_addr = demo_addr, dp_count = - 1, dp_hash = 0\<rparr>"
  "record_of 0 demo_state = Some demo_record" "base_laws (demo_db s)"
  by (simp_all add: dpvt_at_def record_of_def demo_state_def demo_addr_def DIODE_LUT_SIZE_def base_laws_def demo_db_def)

text \<open>
  C33: assigning records and fields to channel numbers never takes a number away from the record that
  holds it, and leaves the names, the records and the posted events as they are.
\<close>

theorem assign_fields_keeps_entries:
  assumes "diode_assign_fields env st = Some (status, st')" and "dpvt_at i (diode_init st) = Some d"
  shows "dpvt_at i st' = Some d \<and> ds_names st' = ds_names st \<and> ds_records st' = ds_records st \<and>
    ds_events st' = ds_events st"
  using diode_assign_fields_grows [OF assms(1)] assms(2)
  by (simp add: lut_grows_def diode_init_def split: option.splits)

theorem assign_fields_keeps_entries_witness:
  "\<exists>st'. diode_assign_fields (demo_db 0) demo_state = Some (- 2, st') \<and>
     dpvt_at 0 st' = Some \<lparr>dp_addr = demo_addr, dp_count = - 1, dp_hash = 0\<rparr>"
proof -
  have "diode_assign_fields (demo_db 0) demo_state = Some (- 2, demo_state)"
    by (simp add: diode_assign_fields_def demo_db_def iterate_records_def diode_init_def demo_state_def
        diode_assign_record_def pvNameLookup_def resolve_index_def resolve_index_n_def diode_assign_entry_def
        DIODE_LUT_SIZE_def)
  moreover have "dpvt_at 0 (diode_init demo_state) = Some \<lparr>dp_addr = demo_addr, dp_count = - 1, dp_hash = 0\<rparr>"
    by (simp add: diode_init_def demo_state_def dpvt_at_def DIODE_LUT_SIZE_def)
  ultimately show ?thesis
    using assign_fields_keeps_entries [of "demo_db 0" demo_state "- 2" demo_state 0] by blast
qed

text \<open>
  After the distinct names of a configuration have been assigned in order, looking up the i-th
  name answers number i.
\<close>

theorem assigned_names_resolve:
  assumes "ds_names st = None" and "distinct ns" and "\<forall>n \<in> set ns. length n \<le> 65535"
    and "length ns \<le> DIODE_LUT_SIZE" and "i < length ns"
  shows "\<exists>st'. assign_names 0 ns st = Some st' \<and> resolve_index (ns ! i) st' = (0, Some (of_nat i))"
proof -
  obtain st' where "assign_names 0 ns st = Some st'" "names_table ns st'"
    using assign_names_fresh [OF assms(1,4)] assms(5) by fastforce
  with resolve_distinct [OF _ assms(2-5)] show ?thesis by blast
qed

theorem assigned_names_resolve_witness:
  "\<exists>st'. assign_names 0 [''a'', ''b''] demo_state = Some st' \<and> resolve_index ([''a'', ''b''] ! 1) st' = (0, Some (of_nat 1))"
  by (rule assigned_names_resolve) (simp_all add: demo_state_def DIODE_LUT_SIZE_def)

text \<open>
  An update is applied again exactly when it carries an alarm: after an update with metadata has
  been applied, the same update counts as a change if and only if its status or severity is not
  zero, because the alarm reset has cleared the fields the code compares with.
\<close>

theorem repeated_update:
  assumes "dpvt_at i st = Some pvt" and "record_of i st = Some r" and "base_laws env"
    and "field_changed (Some m) count hash pvt r"
  shows "\<exists>s st1 pvt1 r1. diode_value_update env i type count (Some m) val hash st = Some (s, st1) \<and>
    dpvt_at i st1 = Some pvt1 \<and> record_of i st1 = Some r1 \<and>
    (field_changed (Some m) count hash pvt1 r1 \<longleftrightarrow> md_status m \<noteq> 0 \<or> md_severity m \<noteq> 0)"
  using value_update_unfold [OF assms(1,2), of env type count "Some m" val hash] assms(4)
    put_value_meta [OF assms(3), of pvt type count m val r]
  by (auto simp: field_changed_def meta_changed_def sint_eq_0)

theorem repeated_update_witness:
  "\<exists>s st1 pvt1 r1. diode_value_update (demo_db 0) 0 6 1 (Some \<lparr>md_status = 7, md_severity = 2, md_stamp = 9\<rparr>) [1] 5 demo_state
      = Some (s, st1) \<and> dpvt_at 0 st1 = Some pvt1 \<and> record_of 0 st1 = Some r1 \<and>
    (field_changed (Some \<lparr>md_status = 7, md_severity = 2, md_stamp = 9\<rparr>) 1 5 pvt1 r1 \<longleftrightarrow> (7 :: u16) \<noteq> 0 \<or> (2 :: u16) \<noteq> 0)"
  using repeated_update [OF demo_state_ok, of "\<lparr>md_status = 7, md_severity = 2, md_stamp = 9\<rparr>" 1 5 0 6 "[1]"]
  by (simp add: field_changed_def meta_changed_def demo_record_def)



text \<open>
  After a disconnect the record is undefined and the next update of the channel, whatever its
  value, counts as a change (its element count is not the disconnect mark).
\<close>

theorem reconnect_counts_as_change:
  assumes "dpvt_at i st = Some pvt" and "record_of i st = Some r" and "count \<noteq> - 1"
    and "\<forall>r. pc_udf (snd (be_reset_alarms env r)) = pc_udf r"
  shows "\<exists>st1 pvt1 r1. diode_disconnected env i st = Some (0, st1) \<and> dpvt_at i st1 = Some pvt1 \<and>
    record_of i st1 = Some r1 \<and> pc_udf r1 \<and> field_changed meta count hash pvt1 r1"
proof -
  have l: "ds_lut st \<noteq> None" using assms(1) by (auto simp: dpvt_at_def split: option.splits)
  have r: "da_record (dp_addr pvt) < length (ds_records st)" "ds_records st ! da_record (dp_addr pvt) = r"
    using assms(1,2) by (auto simp: record_of_def vec_at_def split: if_splits)
  show ?thesis
    using assms l r
    by (auto simp: diode_disconnected_def case_prod_beta record_of_def vec_at_def set_dpvt_def dpvt_at_def Let_def
        monitor_def field_changed_def split: option.splits if_splits)
qed

theorem reconnect_counts_as_change_witness:
  "\<exists>st1 pvt1 r1. diode_disconnected (demo_db 0) 0 demo_state = Some (0, st1) \<and> dpvt_at 0 st1 = Some pvt1 \<and>
    record_of 0 st1 = Some r1 \<and> pc_udf r1 \<and> field_changed None 1 0 pvt1 r1"
  by (rule reconnect_counts_as_change [OF demo_state_ok(1,2)]) (simp_all add: demo_db_def)

text \<open>
  A record without a channel-number override is never assigned, not even when its name is in the
  name table (the code looks the name up only when a number is already set).
\<close>

theorem record_without_override_skipped:
  assumes "rn_info node = None"
  shows "diode_assign_record env node st = Some st"
  using assms by (simp add: diode_assign_record_def case_prod_beta Let_def)

theorem record_without_override_skipped_witness:
  "diode_assign_record (demo_db 0) \<lparr>rn_record = 0, rn_name = ''a'', rn_alias = False, rn_info = None\<rparr> demo_state = Some demo_state"
  by (rule record_without_override_skipped) simp

end
