(* ===== verification/Ioc_Init.thy ===== *)
theory Ioc_Init
  imports Dev_Diode
begin

text \<open>
  The life cycle of the receiving IOC (\<open>ioc/iocInit.c\<close>): build, run, pause and shutdown with their
  state checks, the initialisation of driver, record and device support, record initialisation and
  the processing of records by phase. What the steps do outside this file (hook announcements,
  library calls, support routines) is kept as a trace of actions in order. The registries, the answer
  of \<open>asInit\<close>, the menus' numbering and a few constants of EPICS base are the parameters in \<open>ioc_env\<close>.
\<close>

subsection \<open>Data\<close>

datatype ioc_state = IocVoid | IocBuilding | IocBuilt | IocRunning | IocPaused

datatype build_mode = BuildServers | BuildIsolated

datatype hook =
    AtIocBuild | AtBeginning | AfterCallbackInit | AfterCaLinkInit | AfterInitDrvSup | AfterInitRecSup
  | AfterInitDevSup | AfterInitDatabase | AfterFinishDevSup | AfterScanInit | AfterInitialProcess
  | AfterCaServerInit | AfterIocBuilt | AtIocRun | AfterDatabaseRunning | AfterInterruptAccept
  | AfterCaServerRunning | AtEnd | AfterIocRunning | AtIocPause | AfterCaServerPaused
  | AfterDatabasePaused | AfterIocPaused | AtShutdown | AfterCloseLinks | AfterStopScan
  | AfterStopCallback | AfterStopLinks | BeforeFree | AfterShutdown

datatype lib_call =
    ErrlogInit | SetOkToBlock | SignalInstallSigHupIgnore | CoreRelease | PrimeEventTime | TaskwdInit
  | CallbackInit | DbLockInitRecords | DbChannelInit | AtExitExitDatabase | DbBkptInit | AsInit
  | DbProcessNotifyInit | ThreadSleep | DbInitServers | RealtimeLock | DbCaLinkInitIsolated
  | DbRunServers | DbPauseServers | DbStopServers | CallbackStop | CallbackCleanup
  | DbLockCleanupRecords | AsShutdown | DbChannelExit | DbProcessNotifyExit | IocshFree

datatype action =
    Hook hook
  | Call lib_call
  | DriverInit string
  | RecSupInit string
  | DbInitDevSup string
  | DevSupFinish string
  | InitRecordLinks string
  | InitRecord string nat
  | DsetInitRecord string
  | AddRecord string
  | InitLink string nat
  | ScanLock string
  | ScanUnlock string
  | RemoveLink string nat
  | ScanDelete string
  | DelRecord string
  | FreeLinkContents string nat
  | DestroyLock string
  | ProcessRecord string

record dset =
  dse_number :: nat
  dse_init :: bool

record dsxt =
  dx_add_record :: bool
  dx_del_record :: bool

record dev_sup =
  dsu_name :: string
  dsu_dset :: "dset option"
  dsu_dsxt :: "dsxt option"

record rset =
  rse_init :: bool
  rse_init_record :: bool

datatype link_type = CA_LINK | JSON_LINK | DB_LINK | OTHER_LINK

record ioc_record =
  ir_name :: string
  ir_alias :: bool
  ir_dtyp :: nat
  ir_udf :: bool
  ir_stat :: u16
  ir_sevr :: u16
  ir_udfs :: u16
  ir_pact :: bool
  ir_pini :: u16
  ir_phas :: int
  ir_links :: "link_type list"
  ir_rset :: "rset option"
  ir_dset :: "dev_sup option"  \<comment> \<open>device support whose entry table the record uses\<close>

record rec_type =
  rt_name :: string
  rt_prset :: "rset option"
  rt_devs :: "dev_sup list"
  rt_dev_links :: "bool list"  \<comment> \<open>one flag for each link field: is it the device link?\<close>
  rt_records :: "ioc_record list"

record ioc_db =
  id_menus :: "(string \<times> string list) list"
  id_drivers :: "string list"
  id_types :: "rec_type list"

record 'v ioc =
  io_state :: ioc_state
  io_mode :: build_mode
  io_db :: "ioc_db option"
  io_diode :: "'v diode_state"
  io_trace :: "action list"

record 'v ioc_env =
  ie_driver :: "string \<Rightarrow> bool option"       \<comment> \<open>found, and with an init routine\<close>
  ie_rset :: "string \<Rightarrow> rset option"
  ie_dset :: "string \<Rightarrow> dset option"
  ie_dtyp :: "rec_type \<Rightarrow> nat \<Rightarrow> dev_sup option"
  ie_as_init :: int
  ie_ok_to_block :: bool
  ie_realtime_lock :: bool
  ie_UDF_ALARM :: u16
  ie_MIN_PHASE :: int
  ie_MAX_PHASE :: int
  ie_convert :: "nat \<times> nat \<times> nat"         \<comment> \<open>numbers of no conversion, slope and linear\<close>
  ie_scan :: "nat \<times> nat \<times> nat \<times> nat"   \<comment> \<open>passive, event, I/O interrupt, first periodic\<close>
  ie_diode :: "'v db_env"

definition act :: "action list \<Rightarrow> 'v ioc \<Rightarrow> 'v ioc" where
  "act as ioc = ioc\<lparr>io_trace := io_trace ioc @ as\<rparr>"

definition the_types :: "'v ioc \<Rightarrow> rec_type list" where
  "the_types ioc = (case io_db ioc of None \<Rightarrow> [] | Some db \<Rightarrow> id_types db)"

definition set_types :: "rec_type list \<Rightarrow> 'v ioc \<Rightarrow> 'v ioc" where
  "set_types ts ioc = ioc\<lparr>io_db := map_option (\<lambda>db. db\<lparr>id_types := ts\<rparr>) (io_db ioc)\<rparr>"

subsection \<open>Walking the database\<close>

text \<open>A walk over the record types may change each and perform actions, in order.\<close>

definition walk_types :: "(rec_type \<Rightarrow> rec_type \<times> action list) \<Rightarrow> 'v ioc \<Rightarrow> 'v ioc" where
  "walk_types f ioc = act (concat (map (snd \<circ> f) (the_types ioc))) (set_types (map (fst \<circ> f) (the_types ioc)) ioc)"

text \<open>\<open>iterateRecords\<close>: all records with a name, but not aliases.\<close>

definition skip_record :: "ioc_record \<Rightarrow> bool" where
  "skip_record r \<longleftrightarrow> ir_name r = [] \<or> ir_alias r"

definition iterateRecords :: "(rec_type \<Rightarrow> ioc_record \<Rightarrow> ioc_record \<times> action list) \<Rightarrow> 'v ioc \<Rightarrow> 'v ioc" where
  "iterateRecords f =
     walk_types (\<lambda>t.
       let rs = map (\<lambda>r. if skip_record r then (r, []) else f t r) (rt_records t)
       in (t\<lparr>rt_records := map fst rs\<rparr>, concat (map snd rs)))"

definition menu_of :: "string \<Rightarrow> ioc_db \<Rightarrow> string list option" where
  "menu_of n db = map_of (id_menus db) n"

definition checkDatabase :: "'v ioc_env \<Rightarrow> ioc_db option \<Rightarrow> int" where
  "checkDatabase env pdbbase =
     (case pdbbase of
        None \<Rightarrow> - 1
      | Some db \<Rightarrow>
          (case menu_of ''menuConvert'' db of
             None \<Rightarrow> - 1
           | Some m \<Rightarrow>
               let (no, slope, linear) = ie_convert env in
               if length m \<le> linear then - 1
               else if m ! no \<noteq> ''menuConvertNO_CONVERSION'' then - 1
               else if m ! slope \<noteq> ''menuConvertSLOPE'' then - 1
               else if m ! linear \<noteq> ''menuConvertLINEAR'' then - 1
               else (case menu_of ''menuScan'' db of
                       None \<Rightarrow> - 1
                     | Some m \<Rightarrow>
                         let (passive, event, io_intr, periodic) = ie_scan env in
                         if length m \<le> io_intr then - 1
                         else if m ! passive \<noteq> ''menuScanPassive'' then - 1
                         else if m ! event \<noteq> ''menuScanEvent'' then - 1
                         else if m ! io_intr \<noteq> ''menuScanI_O_Intr'' then - 1
                         else if length m \<le> periodic then - 1 else 0)))"

definition initDrvSup :: "'v ioc_env \<Rightarrow> 'v ioc \<Rightarrow> 'v ioc" where
  "initDrvSup env ioc =
     act (concat (map (\<lambda>d. if ie_driver env d = Some True then [DriverInit d] else [])
       (case io_db ioc of None \<Rightarrow> [] | Some db \<Rightarrow> id_drivers db))) ioc"

definition initRecSup :: "'v ioc_env \<Rightarrow> 'v ioc \<Rightarrow> 'v ioc" where
  "initRecSup env =
     walk_types (\<lambda>t. case ie_rset env (rt_name t) of
       None \<Rightarrow> (t, [])
     | Some rs \<Rightarrow> (t\<lparr>rt_prset := Some rs\<rparr>, if rse_init rs then [RecSupInit (rt_name t)] else []))"

text \<open>\<open>dbInitDevSup\<close> links the entry table to the device support and calls its init routine.\<close>

definition init_dev_sup :: "'v ioc_env \<Rightarrow> dev_sup \<Rightarrow> dev_sup \<times> action list" where
  "init_dev_sup env d =
     (case ie_dset env (dsu_name d) of
        None \<Rightarrow> (d, [])
      | Some ds \<Rightarrow> (d\<lparr>dsu_dset := Some ds\<rparr>, [DbInitDevSup (dsu_name d)]))"

definition initDevSup :: "'v ioc_env \<Rightarrow> 'v ioc \<Rightarrow> 'v ioc" where
  "initDevSup env =
     walk_types (\<lambda>t. let ds = map (init_dev_sup env) (rt_devs t)
                     in (t\<lparr>rt_devs := map fst ds\<rparr>, concat (map snd ds)))"

definition finishDevSup :: "'v ioc \<Rightarrow> 'v ioc" where
  "finishDevSup =
     walk_types (\<lambda>t. (t, concat (map (\<lambda>d. case dsu_dset d of
       Some ds \<Rightarrow> if dse_init ds then [DevSupFinish (dsu_name d)] else [] | None \<Rightarrow> []) (rt_devs t))))"

subsection \<open>Record initialisation\<close>

definition prepareLinks :: "rec_type \<Rightarrow> ioc_record \<Rightarrow> ioc_record \<times> action list" where
  "prepareLinks t r = (r, [InitRecordLinks (ir_name r)])"

definition doInitRecord0 :: "'v ioc_env \<Rightarrow> rec_type \<Rightarrow> ioc_record \<Rightarrow> ioc_record \<times> action list" where
  "doInitRecord0 env t r =
     (case rt_prset t of
        None \<Rightarrow> (r, [])
      | Some rs \<Rightarrow>
          let r = r\<lparr>ir_rset := Some rs, ir_pact := False\<rparr>;
              r = (if ir_udf r \<and> ir_stat r = ie_UDF_ALARM env then r\<lparr>ir_sevr := ir_udfs r\<rparr> else r);
              r = r\<lparr>ir_dset := (case ie_dtyp env t (ir_dtyp r) of
                      Some d \<Rightarrow> if dsu_dset d = None then None else Some d | None \<Rightarrow> None)\<rparr>
          in (r, (if rse_init_record rs then [InitRecord (ir_name r) 0] else []) @
                 (case Option.bind (ir_dset r) dsu_dset of
                    Some ds \<Rightarrow> if dse_number ds = 4 then [DsetInitRecord (ir_name r)] else []
                  | None \<Rightarrow> [])))"

definition doResolveLinks :: "'v ioc_env \<Rightarrow> rec_type \<Rightarrow> ioc_record \<Rightarrow> ioc_record \<times> action list" where
  "doResolveLinks env t r =
     (r, concat (map (\<lambda>j.
        (if rt_devs t \<noteq> [] \<and> rt_dev_links t ! j
         then (case Option.bind (ie_dtyp env t (ir_dtyp r)) dsu_dsxt of
                 Some x \<Rightarrow> if dx_add_record x then [AddRecord (ir_name r)] else [] | None \<Rightarrow> [])
         else []) @ [InitLink (ir_name r) j]) [0 ..< length (rt_dev_links t)]))"

definition doInitRecord1 :: "rec_type \<Rightarrow> ioc_record \<Rightarrow> ioc_record \<times> action list" where
  "doInitRecord1 t r =
     (r, case rt_prset t of None \<Rightarrow> [] | Some rs \<Rightarrow> if rse_init_record rs then [InitRecord (ir_name r) 1] else [])"

definition initDatabase :: "'v ioc_env \<Rightarrow> 'v ioc \<Rightarrow> 'v ioc" where
  "initDatabase env ioc =
     act [Call AtExitExitDatabase]
       (iterateRecords doInitRecord1
         (iterateRecords (doInitRecord0 env) (act [Call DbChannelInit] ioc)))"

subsection \<open>Processing by phase\<close>

text \<open>
  One pass over the records: those of the current phase are processed, the smallest later phase is
  remembered. The current phase, the next one and the names processed are the pass's state.
\<close>

definition doRecordPini :: "u16 \<Rightarrow> int \<Rightarrow> ioc_record \<Rightarrow> int \<times> action list \<Rightarrow> int \<times> action list" where
  "doRecordPini pini this r acc =
     (let (next, as) = acc in
      if ir_pini r \<noteq> pini then (next, as)
      else if ir_phas r = this
      then (next, as @ [ScanLock (ir_name r), ProcessRecord (ir_name r), ScanUnlock (ir_name r)])
      else if ir_phas r > this \<and> ir_phas r < next then (ir_phas r, as) else (next, as))"

definition all_records :: "'v ioc \<Rightarrow> ioc_record list" where
  "all_records ioc = filter (\<lambda>r. \<not> skip_record r) (concat (map rt_records (the_types ioc)))"

definition pini_pass :: "u16 \<Rightarrow> int \<Rightarrow> int \<Rightarrow> ioc_record list \<Rightarrow> int \<times> action list" where
  "pini_pass pini this mark rs = fold (doRecordPini pini this) rs (mark, [])"

text \<open>The next phase of a pass is the end mark or a phase after the current one.\<close>

lemma fold_pini_next:
  "fst (fold (doRecordPini pini this) rs (n, as)) = n \<or>
   (this < fst (fold (doRecordPini pini this) rs (n, as)) \<and> fst (fold (doRecordPini pini this) rs (n, as)) < n)"
proof (induction rs arbitrary: n as)
  case (Cons r rs)
  obtain n' as' where s: "doRecordPini pini this r (n, as) = (n', as')" by fastforce
  have "n' = n \<or> (this < n' \<and> n' < n)"
    using s by (auto simp: doRecordPini_def Let_def split: if_splits)
  with Cons.IH [of n' as'] s show ?case by auto
qed simp

function pini_loop :: "u16 \<Rightarrow> int \<Rightarrow> int \<Rightarrow> ioc_record list \<Rightarrow> action list" where
  "pini_loop pini this mark rs =
     (let (next, as) = pini_pass pini this mark rs in
      if next = mark then as else as @ pini_loop pini next mark rs)"
  by pat_completeness auto
termination
proof (relation "measure (\<lambda>(pini, this, mark, rs). nat (mark - this))")
  fix pini :: u16 and this mark :: int and rs :: "ioc_record list" and x nxt acts
  assume "x = pini_pass pini this mark rs" "(nxt, acts) = x" "nxt \<noteq> mark"
  then have "this < nxt" "nxt < mark"
    using fold_pini_next [of pini this rs mark "[]"] by (auto simp: pini_pass_def dest: sym)
  then show "((pini, nxt, mark, rs), pini, this, mark, rs) \<in> measure (\<lambda>(pini, this, mark, rs). nat (mark - this))"
    by simp
qed simp

declare pini_loop.simps [simp del]

definition piniProcess :: "'v ioc_env \<Rightarrow> u16 \<Rightarrow> 'v ioc \<Rightarrow> 'v ioc" where
  "piniProcess env pini ioc =
     act (pini_loop pini (ie_MIN_PHASE env) (ie_MAX_PHASE env + 1) (all_records ioc)) ioc"

subsection \<open>Build\<close>

text \<open>\<open>checkGeneralTime\<close> only reports an unsynchronised clock and primes the event time.\<close>

definition checkGeneralTime :: "'v ioc \<Rightarrow> 'v ioc" where
  "checkGeneralTime = act [Call PrimeEventTime]"

definition iocBuild_1 :: "'v ioc_env \<Rightarrow> 'v ioc \<Rightarrow> int \<times> 'v ioc" where
  "iocBuild_1 env ioc =
     (if io_state ioc \<noteq> IocVoid then (- 1, ioc)
      else
        let ioc = act ([Call ErrlogInit, Hook AtIocBuild] @ (if ie_ok_to_block env then [] else [Call SetOkToBlock])) ioc in
        if checkDatabase env (io_db ioc) \<noteq> 0 then (- 1, ioc)
        else
          let ioc = act [Call SignalInstallSigHupIgnore, Hook AtBeginning, Call CoreRelease] ioc;
              ioc = checkGeneralTime (ioc\<lparr>io_state := IocBuilding\<rparr>)
          in (0, act [Call TaskwdInit, Call CallbackInit, Hook AfterCallbackInit] ioc))"

definition iocBuild_2 :: "'v ioc_env \<Rightarrow> 'v ioc \<Rightarrow> int \<times> 'v ioc" where
  "iocBuild_2 env ioc =
     (let ioc = act [Hook AfterInitDrvSup] (initDrvSup env (act [Hook AfterCaLinkInit] ioc));
          ioc = act [Hook AfterInitRecSup] (initRecSup env ioc);
          ioc = act [Hook AfterInitDevSup] (initDevSup env ioc);
          ioc = iterateRecords prepareLinks ioc;
          ioc = initDatabase env (act [Call DbLockInitRecords] ioc);
          ioc = act [Call DbBkptInit, Hook AfterInitDatabase] ioc;
          ioc = act [Hook AfterFinishDevSup] (finishDevSup ioc);
          ioc = act [Call AsInit] ioc
      in if ie_as_init env \<noteq> 0 then (- 1, ioc)
         else (0, act [Call DbProcessNotifyInit, Call ThreadSleep, Hook AfterScanInit, Hook AfterInitialProcess] ioc))"

definition iocBuild_3 :: "'v ioc \<Rightarrow> int \<times> 'v ioc" where
  "iocBuild_3 ioc = (0, act [Hook AfterIocBuilt] ((act [Hook AfterCaServerInit] ioc)\<lparr>io_state := IocBuilt\<rparr>))"

definition diode_iocBuild :: "'v ioc_env \<Rightarrow> 'v ioc \<Rightarrow> int \<times> 'v ioc" where
  "diode_iocBuild env ioc =
     (let (status, ioc) = iocBuild_1 env ioc in
      if status \<noteq> 0 then (status, ioc)
      else let (status, ioc) = iocBuild_2 env ioc in
        if status \<noteq> 0 then (status, ioc)
        else let (status, ioc) = iocBuild_3 (act [Call DbInitServers] ioc);
                 ioc = act (if ie_realtime_lock env then [Call RealtimeLock] else []) ioc
             in (status, if status = 0 then ioc\<lparr>io_mode := BuildServers\<rparr> else ioc))"

definition diode_iocBuildIsolated :: "'v ioc_env \<Rightarrow> 'v ioc \<Rightarrow> int \<times> 'v ioc" where
  "diode_iocBuildIsolated env ioc =
     (let (status, ioc) = iocBuild_1 env ioc in
      if status \<noteq> 0 then (status, ioc)
      else let (status, ioc) = iocBuild_2 env (act [Call DbCaLinkInitIsolated] ioc) in
        if status \<noteq> 0 then (status, ioc)
        else let (status, ioc) = iocBuild_3 ioc
             in (status, if status = 0 then ioc\<lparr>io_mode := BuildIsolated\<rparr> else ioc))"

subsection \<open>Run, pause, shutdown\<close>

definition diode_iocRun :: "'v ioc \<Rightarrow> int \<times> 'v ioc" where
  "diode_iocRun ioc =
     (if io_state ioc \<noteq> IocPaused \<and> io_state ioc \<noteq> IocBuilt then (- 1, ioc)
      else
        let first = (io_state ioc = IocBuilt);
            ioc = act [Hook AtIocRun, Hook AfterDatabaseRunning] ioc;
            ioc = act (if first then [Hook AfterInterruptAccept] else []) ioc;
            ioc = act (if io_mode ioc = BuildServers then [Call DbRunServers, Hook AfterCaServerRunning] else []) ioc;
            ioc = act (if first then [Hook AtEnd] else []) ioc
        in (0, act [Hook AfterIocRunning] (ioc\<lparr>io_state := IocRunning\<rparr>)))"

definition diode_iocPause :: "'v ioc \<Rightarrow> int \<times> 'v ioc" where
  "diode_iocPause ioc =
     (if io_state ioc \<noteq> IocRunning then (- 1, ioc)
      else
        let ioc = act [Hook AtIocPause] ioc;
            ioc = act (if io_mode ioc = BuildServers then [Call DbPauseServers, Hook AfterCaServerPaused] else []) ioc;
            ioc = act [Hook AfterDatabasePaused] ioc
        in (0, act [Hook AfterIocPaused] (ioc\<lparr>io_state := IocPaused\<rparr>)))"

definition closes_link :: "build_mode \<Rightarrow> link_type \<Rightarrow> bool" where
  "closes_link mode l \<longleftrightarrow> l = CA_LINK \<or> l = JSON_LINK \<or> (l = DB_LINK \<and> mode = BuildIsolated)"

text \<open>The lock is taken at the first action that needs it and released at the end.\<close>

definition doCloseLinks :: "build_mode \<Rightarrow> rec_type \<Rightarrow> ioc_record \<Rightarrow> ioc_record \<times> action list" where
  "doCloseLinks mode t r =
     (let js = filter (\<lambda>j. closes_link mode (ir_links r ! j)) [0 ..< length (rt_dev_links t)];
          del = (case Option.bind (ir_dset r) dsu_dsxt of Some x \<Rightarrow> dx_del_record x | None \<Rightarrow> False);
          locked = (js \<noteq> [] \<or> del)
      in (if locked then r\<lparr>ir_pact := True\<rparr> else r,
          (if locked then [ScanLock (ir_name r)] else []) @ map (RemoveLink (ir_name r)) js @
          (if del then [ScanDelete (ir_name r), DelRecord (ir_name r)] else []) @
          (if locked then [ScanUnlock (ir_name r)] else [])))"

definition doFreeRecord :: "rec_type \<Rightarrow> ioc_record \<Rightarrow> ioc_record \<times> action list" where
  "doFreeRecord t r =
     (r, map (FreeLinkContents (ir_name r)) [0 ..< length (rt_dev_links t)] @ [DestroyLock (ir_name r)])"

definition diode_iocShutdown :: "'v ioc \<Rightarrow> int \<times> 'v ioc" where
  "diode_iocShutdown ioc =
     (if io_state ioc = IocVoid then (0, ioc)
      else
        let isolated = (io_mode ioc = BuildIsolated);
            ioc = act [Hook AtShutdown, Hook AfterCloseLinks] ioc;
            ioc = act (if isolated then [Hook AfterStopScan, Call CallbackStop, Hook AfterStopCallback]
                       else [Call DbStopServers]) ioc;
            ioc = act [Hook AfterStopLinks] ioc;
            ioc = (if isolated
                   then act [Call DbLockCleanupRecords, Call AsShutdown, Call DbChannelExit,
                             Call DbProcessNotifyExit, Call IocshFree]
                          (iterateRecords doFreeRecord (act [Hook BeforeFree, Call CallbackCleanup] ioc))
                   else ioc)
        in (0, act [Hook AfterShutdown] (ioc\<lparr>io_state := IocVoid, io_mode := BuildServers\<rparr>)))"

subsection \<open>Initialisation in one command\<close>

text \<open>
  \<open>diode_iocInit\<close> is a disjunction of three statuses: the later steps run only after success, and
  the result is 0 or 1.
\<close>

definition diode_iocInit :: "'v ioc_env \<Rightarrow> 'v ioc \<Rightarrow> (int \<times> 'v ioc) option" where
  "diode_iocInit env ioc =
     (let (status, ioc) = diode_iocBuild env ioc in
      if status \<noteq> 0 then Some (1, ioc)
      else do {
        (status, d) \<leftarrow> diode_assign_fields (ie_diode env) (io_diode ioc);
        let ioc = ioc\<lparr>io_diode := d\<rparr>;
        if status \<noteq> 0 then Some (1, ioc)
        else let (status, ioc) = diode_iocRun ioc in Some (if status \<noteq> 0 then 1 else 0, ioc)
      })"

subsection \<open>Processing by phase is a stable sort\<close>

definition process_actions :: "ioc_record \<Rightarrow> action list" where
  "process_actions r = [ScanLock (ir_name r), ProcessRecord (ir_name r), ScanUnlock (ir_name r)]"

definition pini_selected :: "u16 \<Rightarrow> ioc_record list \<Rightarrow> ioc_record list" where
  "pini_selected pini rs = filter (\<lambda>r. ir_pini r = pini) rs"

lemma fold_pini_actions:
  "snd (fold (doRecordPini pini this) rs (n, acts)) =
   acts @ concat (map process_actions (filter (\<lambda>r. ir_phas r = this) (pini_selected pini rs)))"
  by (induction rs arbitrary: n acts)
    (simp_all add: doRecordPini_def Let_def pini_selected_def process_actions_def)

lemma fold_pini_least:
  assumes "r \<in> set (pini_selected pini rs)" and "this < ir_phas r"
  shows "fst (fold (doRecordPini pini this) rs (n, acts)) \<le> ir_phas r"
  using assms
proof (induction rs arbitrary: n acts)
  case (Cons x rs)
  obtain n' acts' where s: "doRecordPini pini this x (n, acts) = (n', acts')" by fastforce
  show ?case
  proof (cases "r \<in> set (pini_selected pini rs)")
    case True
    with Cons s show ?thesis by simp
  next
    case False
    with Cons.prems have "x = r" "ir_pini r = pini" by (auto simp: pini_selected_def split: if_splits)
    then have "n' \<le> ir_phas r"
      using s Cons.prems(2) by (auto simp: doRecordPini_def Let_def split: if_splits)
    moreover have "fst (fold (doRecordPini pini this) rs (n', acts')) \<le> n'"
      using fold_pini_next [of pini this rs n' acts'] by auto
    ultimately show ?thesis using s by simp
  qed
qed (simp add: pini_selected_def)

lemma fold_pini_attained:
  assumes "fst (fold (doRecordPini pini this) rs (n, acts)) \<noteq> n"
  shows "\<exists>r \<in> set (pini_selected pini rs). ir_phas r = fst (fold (doRecordPini pini this) rs (n, acts))"
  using assms
proof (induction rs arbitrary: n acts)
  case (Cons x rs)
  obtain n' acts' where s: "doRecordPini pini this x (n, acts) = (n', acts')" by fastforce
  show ?case
  proof (cases "fst (fold (doRecordPini pini this) rs (n', acts')) = n'")
    case True
    with Cons.prems s have "n' \<noteq> n" by simp
    with s have "ir_pini x = pini" "n' = ir_phas x"
      by (auto simp: doRecordPini_def Let_def split: if_splits)
    with True s show ?thesis by (simp add: pini_selected_def)
  next
    case False
    with Cons.IH [OF this] s show ?thesis by (auto simp: pini_selected_def)
  qed
qed simp

lemma insort_key_append:
  "\<forall>a \<in> set xs. f a < f x \<Longrightarrow> insort_key f x (xs @ ys) = xs @ insort_key f x ys" for f :: "'a \<Rightarrow> int"
  by (induction xs) auto

lemma sort_key_peel:
  fixes f :: "'a \<Rightarrow> int"
  assumes "\<forall>x \<in> set xs. f x = m \<or> n \<le> f x" and "m < n"
  shows "sort_key f xs = filter (\<lambda>x. f x = m) xs @ sort_key f (filter (\<lambda>x. n \<le> f x) xs)"
  using assms(1)
proof (induction xs)
  case (Cons x xs)
  then have ih: "sort_key f xs = filter (\<lambda>x. f x = m) xs @ sort_key f (filter (\<lambda>x. n \<le> f x) xs)" by simp
  show ?case
  proof (cases "f x = m")
    case True
    have "insort_key f x (filter (\<lambda>x. f x = m) xs @ sort_key f (filter (\<lambda>x. n \<le> f x) xs)) =
        x # filter (\<lambda>x. f x = m) xs @ sort_key f (filter (\<lambda>x. n \<le> f x) xs)"
      using True assms(2) by (intro insort_is_Cons) auto
    with True ih assms(2) show ?thesis by simp
  next
    case False
    then have "n \<le> f x" using Cons.prems by simp
    with False ih assms(2) show ?thesis by (simp add: insort_key_append)
  qed
qed simp

lemma pini_pass_spec:
  assumes "pini_pass pini this mark rs = (nxt, acts)" and "\<forall>r \<in> set (pini_selected pini rs). ir_phas r < mark"
    and "this < mark"
  shows "acts = concat (map process_actions (filter (\<lambda>r. ir_phas r = this) (pini_selected pini rs)))"
    and "\<forall>r \<in> set (pini_selected pini rs). this < ir_phas r \<longrightarrow> nxt \<le> ir_phas r"
    and "this < nxt" and "nxt \<le> mark"
proof -
  have p: "fold (doRecordPini pini this) rs (mark, []) = (nxt, acts)"
    using assms(1) by (simp add: pini_pass_def)
  show "acts = concat (map process_actions (filter (\<lambda>r. ir_phas r = this) (pini_selected pini rs)))"
    using fold_pini_actions [of pini this rs mark "[]"] p by simp
  show "\<forall>r \<in> set (pini_selected pini rs). this < ir_phas r \<longrightarrow> nxt \<le> ir_phas r"
    using fold_pini_least [of _ pini rs this mark "[]"] p by auto
  show "this < nxt" "nxt \<le> mark"
    using fold_pini_next [of pini this rs mark "[]"] p assms(3) by auto
qed

lemma pini_loop_sorts:
  assumes "\<forall>r \<in> set (pini_selected pini rs). ir_phas r < mark" and "this < mark"
  shows "pini_loop pini this mark rs =
    concat (map process_actions (sort_key ir_phas (filter (\<lambda>r. this \<le> ir_phas r) (pini_selected pini rs))))"
  using assms
proof (induction pini this mark rs rule: pini_loop.induct)
  case (1 pini this mark rs)
  let ?sel = "pini_selected pini rs"
  obtain nxt acts where p: "pini_pass pini this mark rs = (nxt, acts)" by fastforce
  note s = pini_pass_spec [OF p "1.prems"]
  have split: "sort_key ir_phas (filter (\<lambda>r. this \<le> ir_phas r) ?sel) =
      filter (\<lambda>r. ir_phas r = this) ?sel @ sort_key ir_phas (filter (\<lambda>r. nxt \<le> ir_phas r) ?sel)"
  proof -
    have "\<forall>r \<in> set (filter (\<lambda>r. this \<le> ir_phas r) ?sel). ir_phas r = this \<or> nxt \<le> ir_phas r"
      using s(2) by auto
    note peel = sort_key_peel [OF this s(3)]
    have f1: "filter (\<lambda>r. ir_phas r = this) (filter (\<lambda>r. this \<le> ir_phas r) xs) = filter (\<lambda>r. ir_phas r = this) xs" for xs
      by (induction xs) auto
    have f2: "filter (\<lambda>r. nxt \<le> ir_phas r) (filter (\<lambda>r. this \<le> ir_phas r) xs) = filter (\<lambda>r. nxt \<le> ir_phas r) xs" for xs
      using s(3) by (induction xs) auto
    show ?thesis
      using peel unfolding f1 f2 .
  qed
  show ?case
  proof (cases "nxt = mark")
    case True
    have "filter (\<lambda>r. nxt \<le> ir_phas r) ?sel = []"
      using "1.prems"(1) True by (auto simp: filter_empty_conv)
    with True p s(1) split show ?thesis
      by (subst pini_loop.simps) simp
  next
    case False
    have "pini_loop pini nxt mark rs =
        concat (map process_actions (sort_key ir_phas (filter (\<lambda>r. nxt \<le> ir_phas r) ?sel)))"
      using "1.IH" [OF p [symmetric] refl False] "1.prems"(1) s(4) False by simp
    with False p s(1) split show ?thesis
      by (subst pini_loop.simps) simp
  qed
qed

end
