(* ===== verification/Ioc_Life.thy ===== *)
theory Ioc_Life
  imports Ioc_Init
begin

text \<open>
  The IOC life cycle as a state machine: the abstract automaton its commands implement, the states
  reachable by commands, the invariant that ties the servers to the state, and the order of the hooks.
\<close>

subsection \<open>Traces\<close>

definition hooks :: "action list \<Rightarrow> hook list" where
  "hooks as = concat (map (\<lambda>a. case a of Hook h \<Rightarrow> [h] | _ \<Rightarrow> []) as)"

text \<open>Whether the servers run: what the last server call of the trace did.\<close>

definition server_effect :: "action \<Rightarrow> bool \<Rightarrow> bool" where
  "server_effect a up =
     (if a = Call DbRunServers then True
      else if a = Call DbPauseServers \<or> a = Call DbStopServers then False else up)"

definition servers_up :: "action list \<Rightarrow> bool" where
  "servers_up as = fold server_effect as False"

lemma hooks_append [simp]: "hooks (a @ b) = hooks a @ hooks b"
  by (simp add: hooks_def)

lemma hooks_simps [simp]: "hooks [] = []" "hooks (Hook h # as) = h # hooks as" "hooks (Call c # as) = hooks as"
  by (simp_all add: hooks_def)

text \<open>Quiet actions are neither hooks nor server calls.\<close>

definition quiet :: "action \<Rightarrow> bool" where
  "quiet a \<longleftrightarrow> (\<forall>h. a \<noteq> Hook h) \<and> a \<noteq> Call DbRunServers \<and> a \<noteq> Call DbPauseServers \<and> a \<noteq> Call DbStopServers"

lemma hooks_quiet: "\<forall>a \<in> set as. quiet a \<Longrightarrow> hooks as = []"
  by (induction as) (auto simp: hooks_def quiet_def split: action.split)

lemma servers_quiet: "\<forall>a \<in> set as. quiet a \<Longrightarrow> fold server_effect as up = up"
  by (induction as arbitrary: up) (auto simp: quiet_def server_effect_def)

text \<open>A step that only extends the trace quietly and keeps the life-cycle state.\<close>

definition quiet_step :: "'v ioc \<Rightarrow> 'v ioc \<Rightarrow> bool" where
  "quiet_step ioc ioc' \<longleftrightarrow>
     io_state ioc' = io_state ioc \<and> io_mode ioc' = io_mode ioc \<and> io_diode ioc' = io_diode ioc \<and>
     (\<exists>as. io_trace ioc' = io_trace ioc @ as \<and> (\<forall>a \<in> set as. quiet a))"

lemma quiet_step_refl [simp]: "quiet_step ioc ioc"
  by (simp add: quiet_step_def)

lemma quiet_step_trans: "quiet_step a b \<Longrightarrow> quiet_step b c \<Longrightarrow> quiet_step a c"
  unfolding quiet_step_def by (auto simp: ball_Un)

lemma quiet_act: "\<forall>a \<in> set as. quiet a \<Longrightarrow> quiet_step ioc (act as ioc)"
  by (auto simp: quiet_step_def act_def)

lemma quiet_walk: "(\<And>t. \<forall>a \<in> set (snd (f t)). quiet a) \<Longrightarrow> quiet_step ioc (walk_types f ioc)"
  by (auto simp: quiet_step_def walk_types_def act_def set_types_def)

lemma quiet_iterate: "(\<And>t r. \<forall>a \<in> set (snd (f t r)). quiet a) \<Longrightarrow> quiet_step ioc (iterateRecords f ioc)"
  unfolding iterateRecords_def by (rule quiet_walk) (auto simp: Let_def split: if_splits)

lemma quiet_drv: "quiet_step ioc (initDrvSup env ioc)"
  unfolding initDrvSup_def by (rule quiet_act) (auto simp: quiet_def split: if_splits)

lemma quiet_rec: "quiet_step ioc (initRecSup env ioc)"
  unfolding initRecSup_def by (rule quiet_walk) (auto simp: quiet_def split: option.splits)

lemma quiet_dev: "quiet_step ioc (initDevSup env ioc)"
  unfolding initDevSup_def by (rule quiet_walk) (auto simp: quiet_def init_dev_sup_def Let_def split: option.splits)

lemma quiet_finish: "quiet_step ioc (finishDevSup ioc)"
  unfolding finishDevSup_def by (rule quiet_walk) (auto simp: quiet_def split: option.splits if_splits)

lemma quiet_prepare: "quiet_step ioc (iterateRecords prepareLinks ioc)"
  by (rule quiet_iterate) (auto simp: quiet_def prepareLinks_def)

lemma quiet_free: "quiet_step ioc (iterateRecords doFreeRecord ioc)"
  by (rule quiet_iterate) (auto simp: quiet_def doFreeRecord_def)

lemma quiet_database: "quiet_step ioc (initDatabase env ioc)"
proof -
  have "quiet_step x (iterateRecords doInitRecord1 x)" for x :: "'a ioc"
    by (rule quiet_iterate) (auto simp: quiet_def doInitRecord1_def split: option.splits if_splits)
  moreover have "quiet_step x (iterateRecords (doInitRecord0 env) x)" for x
    by (rule quiet_iterate) (auto simp: quiet_def doInitRecord0_def Let_def split: option.splits if_splits)
  moreover have "quiet_step x (act [Call DbChannelInit] x)" "quiet_step x (act [Call AtExitExitDatabase] x)" for x :: "'a ioc"
    by (rule quiet_act, simp add: quiet_def)+
  ultimately show ?thesis
    unfolding initDatabase_def by (meson quiet_step_trans)
qed

lemma quiet_hooks: "quiet_step ioc ioc' \<Longrightarrow> hooks (io_trace ioc') = hooks (io_trace ioc)"
  by (auto simp: quiet_step_def hooks_quiet)

lemma quiet_servers: "quiet_step ioc ioc' \<Longrightarrow> servers_up (io_trace ioc') = servers_up (io_trace ioc)"
  by (auto simp: quiet_step_def servers_up_def servers_quiet)

text \<open>What matters of an IOC for the life cycle.\<close>

definition view :: "'v ioc \<Rightarrow> ioc_state \<times> build_mode \<times> hook list \<times> bool" where
  "view ioc = (io_state ioc, io_mode ioc, hooks (io_trace ioc), servers_up (io_trace ioc))"

lemma view_quiet: "quiet_step ioc ioc' \<Longrightarrow> view ioc' = view ioc"
  by (simp add: view_def quiet_hooks quiet_servers) (simp add: quiet_step_def)

lemmas view_steps =
  view_quiet [OF quiet_drv] view_quiet [OF quiet_rec] view_quiet [OF quiet_dev] view_quiet [OF quiet_finish]
  view_quiet [OF quiet_prepare] view_quiet [OF quiet_free] view_quiet [OF quiet_database]

lemma view_act:
  "view (act as ioc) = (let (s, m, hs, up) = view ioc in (s, m, hs @ hooks as, fold server_effect as up))"
  by (simp add: view_def act_def servers_up_def)

lemma view_state: "view (ioc\<lparr>io_state := s\<rparr>) = (let (_, m, hs, up) = view ioc in (s, m, hs, up))"
  "view (ioc\<lparr>io_mode := m\<rparr>) = (let (s, _, hs, up) = view ioc in (s, m, hs, up))"
  by (simp_all add: view_def)

subsection \<open>The abstract automaton\<close>

datatype command = Build | BuildIsolatedCmd | Run | Pause | Shutdown

text \<open>The answers a build depends on: the database check and \<open>asInit\<close>.\<close>

fun life :: "bool \<Rightarrow> bool \<Rightarrow> command \<Rightarrow> ioc_state \<times> build_mode \<Rightarrow> int \<times> ioc_state \<times> build_mode" where
  "life db_ok as_ok Build (s, m) =
     (if s \<noteq> IocVoid then (- 1, s, m) else if \<not> db_ok then (- 1, IocVoid, m)
      else if \<not> as_ok then (- 1, IocBuilding, m) else (0, IocBuilt, BuildServers))"
| "life db_ok as_ok BuildIsolatedCmd (s, m) =
     (if s \<noteq> IocVoid then (- 1, s, m) else if \<not> db_ok then (- 1, IocVoid, m)
      else if \<not> as_ok then (- 1, IocBuilding, m) else (0, IocBuilt, BuildIsolated))"
| "life db_ok as_ok Run (s, m) = (if s = IocBuilt \<or> s = IocPaused then (0, IocRunning, m) else (- 1, s, m))"
| "life db_ok as_ok Pause (s, m) = (if s = IocRunning then (0, IocPaused, m) else (- 1, s, m))"
| "life db_ok as_ok Shutdown (s, m) = (if s = IocVoid then (0, s, m) else (0, IocVoid, BuildServers))"

fun execute :: "'v ioc_env \<Rightarrow> command \<Rightarrow> 'v ioc \<Rightarrow> int \<times> 'v ioc" where
  "execute env Build ioc = diode_iocBuild env ioc"
| "execute env BuildIsolatedCmd ioc = diode_iocBuildIsolated env ioc"
| "execute env Run ioc = diode_iocRun ioc"
| "execute env Pause ioc = diode_iocPause ioc"
| "execute env Shutdown ioc = diode_iocShutdown ioc"

definition life_state :: "'v ioc \<Rightarrow> ioc_state \<times> build_mode" where
  "life_state ioc = (io_state ioc, io_mode ioc)"

definition db_ok :: "'v ioc_env \<Rightarrow> 'v ioc \<Rightarrow> bool" where
  "db_ok env ioc \<longleftrightarrow> checkDatabase env (io_db ioc) = 0"

definition as_ok :: "'v ioc_env \<Rightarrow> bool" where
  "as_ok env \<longleftrightarrow> ie_as_init env = 0"

text \<open>The hooks of the three stages of a build and of a run.\<close>

definition build_1_hooks :: "hook list" where
  "build_1_hooks = [AtIocBuild, AtBeginning, AfterCallbackInit]"

definition build_2_hooks :: "hook list" where
  "build_2_hooks = [AfterCaLinkInit, AfterInitDrvSup, AfterInitRecSup, AfterInitDevSup, AfterInitDatabase,
     AfterFinishDevSup, AfterScanInit, AfterInitialProcess]"

definition build_3_hooks :: "hook list" where
  "build_3_hooks = [AfterCaServerInit, AfterIocBuilt]"

lemma iocBuild_1_view:
  assumes "view ioc = (s, m, hs, up)" and "iocBuild_1 env ioc = (status, ioc')"
  shows "(status, view ioc') =
    (if s \<noteq> IocVoid then (- 1, s, m, hs, up)
     else if \<not> db_ok env ioc then (- 1, s, m, hs @ [AtIocBuild], up)
     else (0, IocBuilding, m, hs @ build_1_hooks, up))"
proof -
  have st: "io_state ioc = s" using assms(1) by (simp add: view_def)
  have db: "io_db (act as ioc) = io_db ioc" for as by (simp add: act_def)
  show ?thesis
    using assms(2) assms(1)
    by (auto simp: iocBuild_1_def st db_ok_def db Let_def checkGeneralTime_def view_act view_state build_1_hooks_def
        server_effect_def split: if_splits)
qed

lemma iocBuild_2_view:
  assumes "view ioc = (s, m, hs, up)" and "iocBuild_2 env ioc = (status, ioc')"
  shows "status = (if as_ok env then 0 else - 1)"
    and "as_ok env \<Longrightarrow> view ioc' = (s, m, hs @ build_2_hooks, up)"
    and "\<not> as_ok env \<Longrightarrow> view ioc' = (s, m, hs @ take 6 build_2_hooks, up)"
  using assms
  by (auto simp: iocBuild_2_def Let_def as_ok_def view_act view_steps build_2_hooks_def server_effect_def split: if_splits)

lemma iocBuild_3_view:
  "view ioc = (s, m, hs, up) \<Longrightarrow> fst (iocBuild_3 ioc) = 0 \<and> view (snd (iocBuild_3 ioc)) = (IocBuilt, m, hs @ build_3_hooks, up)"
  by (simp add: iocBuild_3_def view_act view_state build_3_hooks_def server_effect_def)

lemma build_view:
  assumes "view ioc = (s, m, hs, up)"
  shows "(fst (diode_iocBuild env ioc), view (snd (diode_iocBuild env ioc))) =
    (if s \<noteq> IocVoid then (- 1, s, m, hs, up)
     else if \<not> db_ok env ioc then (- 1, s, m, hs @ [AtIocBuild], up)
     else if \<not> as_ok env then (- 1, IocBuilding, m, hs @ build_1_hooks @ take 6 build_2_hooks, up)
     else (0, IocBuilt, BuildServers, hs @ build_1_hooks @ build_2_hooks @ build_3_hooks, up))"
proof -
  obtain st1 i1 where b1: "iocBuild_1 env ioc = (st1, i1)" by fastforce
  obtain st2 i2 where b2: "iocBuild_2 env i1 = (st2, i2)" by fastforce
  note v1 = iocBuild_1_view [OF assms b1]
  show ?thesis
  proof (cases "s = IocVoid \<and> db_ok env ioc")
    case False
    with v1 show ?thesis by (auto simp: diode_iocBuild_def b1)
  next
    case True
    then have w1: "st1 = 0" "view i1 = (IocBuilding, m, hs @ build_1_hooks, up)"
      using v1 by auto
    note v2 = iocBuild_2_view [OF w1(2) b2]
    have w3: "view (act [Call DbInitServers] i2) = view i2"
      by (simp add: view_act server_effect_def case_prod_beta)
    show ?thesis
    proof (cases "as_ok env")
      case ok: True
      note v3 = iocBuild_3_view [OF w3 [unfolded v2(2) [OF ok]]]
      obtain st3 i3 where b3: "iocBuild_3 (act [Call DbInitServers] i2) = (st3, i3)" by fastforce
      show ?thesis
        using True ok v2(1) v3 w1 unfolding diode_iocBuild_def b1 prod.case
        by (simp add: b2 b3 view_act view_state server_effect_def)
    next
      case bad: False
      with True v2 w1 show ?thesis
        by (simp add: diode_iocBuild_def b1 b2)
    qed
  qed
qed

lemma build_isolated_view:
  assumes "view ioc = (s, m, hs, up)"
  shows "(fst (diode_iocBuildIsolated env ioc), view (snd (diode_iocBuildIsolated env ioc))) =
    (if s \<noteq> IocVoid then (- 1, s, m, hs, up)
     else if \<not> db_ok env ioc then (- 1, s, m, hs @ [AtIocBuild], up)
     else if \<not> as_ok env then (- 1, IocBuilding, m, hs @ build_1_hooks @ take 6 build_2_hooks, up)
     else (0, IocBuilt, BuildIsolated, hs @ build_1_hooks @ build_2_hooks @ build_3_hooks, up))"
proof -
  obtain st1 i1 where b1: "iocBuild_1 env ioc = (st1, i1)" by fastforce
  obtain st2 i2 where b2: "iocBuild_2 env (act [Call DbCaLinkInitIsolated] i1) = (st2, i2)" by fastforce
  note v1 = iocBuild_1_view [OF assms b1]
  show ?thesis
  proof (cases "s = IocVoid \<and> db_ok env ioc")
    case False
    with v1 show ?thesis by (auto simp: diode_iocBuildIsolated_def b1)
  next
    case True
    then have w1: "st1 = 0" "view i1 = (IocBuilding, m, hs @ build_1_hooks, up)"
      using v1 by auto
    then have w2: "view (act [Call DbCaLinkInitIsolated] i1) = (IocBuilding, m, hs @ build_1_hooks, up)"
      by (simp add: view_act server_effect_def)
    note v2 = iocBuild_2_view [OF w2 b2]
    show ?thesis
    proof (cases "as_ok env")
      case ok: True
      note v3 = iocBuild_3_view [OF v2(2) [OF ok]]
      obtain st3 i3 where b3: "iocBuild_3 i2 = (st3, i3)" by fastforce
      show ?thesis
        using True ok v2(1) v3 w1 unfolding diode_iocBuildIsolated_def b1 prod.case
        by (simp add: b2 b3 view_state)
    next
      case bad: False
      with True v2 w1 show ?thesis
        by (simp add: diode_iocBuildIsolated_def b1 b2)
    qed
  qed
qed

definition run_hooks :: "ioc_state \<Rightarrow> build_mode \<Rightarrow> hook list" where
  "run_hooks s m =
     [AtIocRun, AfterDatabaseRunning] @ (if s = IocBuilt then [AfterInterruptAccept] else []) @
     (if m = BuildServers then [AfterCaServerRunning] else []) @ (if s = IocBuilt then [AtEnd] else []) @
     [AfterIocRunning]"

lemma run_view:
  assumes "view ioc = (s, m, hs, up)"
  shows "(fst (diode_iocRun ioc), view (snd (diode_iocRun ioc))) =
    (if s = IocBuilt \<or> s = IocPaused then (0, IocRunning, m, hs @ run_hooks s m, if m = BuildServers then True else up)
     else (- 1, s, m, hs, up))"
proof -
  have st: "io_state ioc = s" "io_mode ioc = m" using assms by (simp_all add: view_def)
  have mode: "io_mode (act as x) = io_mode x" for as and x :: "'a ioc" by (simp add: act_def)
  show ?thesis
    using assms by (auto simp: diode_iocRun_def st mode Let_def view_act view_state run_hooks_def server_effect_def)
qed

lemma pause_view:
  assumes "view ioc = (s, m, hs, up)"
  shows "(fst (diode_iocPause ioc), view (snd (diode_iocPause ioc))) =
    (if s = IocRunning
     then (0, IocPaused, m, hs @ [AtIocPause] @ (if m = BuildServers then [AfterCaServerPaused] else []) @
             [AfterDatabasePaused, AfterIocPaused], if m = BuildServers then False else up)
     else (- 1, s, m, hs, up))"
proof -
  have st: "io_state ioc = s" "io_mode ioc = m" using assms by (simp_all add: view_def)
  have mode: "io_mode (act as x) = io_mode x" for as and x :: "'a ioc" by (simp add: act_def)
  show ?thesis
    using assms by (auto simp: diode_iocPause_def st mode Let_def view_act view_state server_effect_def)
qed

lemma shutdown_view:
  assumes "view ioc = (s, m, hs, up)"
  shows "\<exists>hs'. (fst (diode_iocShutdown ioc), view (snd (diode_iocShutdown ioc))) =
    (if s = IocVoid then (0, s, m, hs, up)
     else (0, IocVoid, BuildServers, hs @ hs', if m = BuildServers then False else up))"
proof -
  have st: "io_state ioc = s" "io_mode ioc = m" using assms by (simp_all add: view_def)
  show ?thesis
    using assms by (cases m)
      (auto simp: diode_iocShutdown_def st Let_def view_act view_state view_steps server_effect_def)
qed

lemma execute_life:
  "(fst (execute env c ioc), life_state (snd (execute env c ioc))) = life (db_ok env ioc) (as_ok env) c (life_state ioc)"
proof -
  obtain s m hs up where v: "view ioc = (s, m, hs, up)" by (cases "view ioc") auto
  have ls: "life_state x = (fst (view x), fst (snd (view x)))" for x :: "'a ioc"
    by (simp add: life_state_def view_def)
  obtain hs' where sh: "(fst (diode_iocShutdown ioc), view (snd (diode_iocShutdown ioc))) =
    (if s = IocVoid then (0, s, m, hs, up)
     else (0, IocVoid, BuildServers, hs @ hs', if m = BuildServers then False else up))"
    using shutdown_view [OF v] by blast
  show ?thesis
    using build_view [OF v, of env] build_isolated_view [OF v, of env] run_view [OF v] pause_view [OF v] sh
    by (cases c) (auto simp: ls v split: if_splits)
qed

subsection \<open>Reachable states\<close>

inductive ioc_step :: "'v ioc_env \<Rightarrow> 'v ioc \<Rightarrow> command \<Rightarrow> int \<Rightarrow> 'v ioc \<Rightarrow> bool" for env where
  step: "execute env c ioc = (status, ioc') \<Longrightarrow> ioc_step env ioc c status ioc'"

inductive_cases ioc_stepE: "ioc_step env ioc c status ioc'"

inductive_simps ioc_step_simps: "ioc_step env ioc c status ioc'"

text \<open>The IOC starts void, with no action performed; the database may be loaded at any time.\<close>

inductive ioc_reachable :: "'v ioc_env \<Rightarrow> 'v ioc \<Rightarrow> bool" for env where
  start: "io_state ioc = IocVoid \<Longrightarrow> io_mode ioc = BuildServers \<Longrightarrow> io_trace ioc = [] \<Longrightarrow> ioc_reachable env ioc"
| load: "ioc_reachable env ioc \<Longrightarrow> ioc_reachable env (ioc\<lparr>io_db := db, io_diode := d\<rparr>)"
| command: "ioc_reachable env ioc \<Longrightarrow> ioc_step env ioc c status ioc' \<Longrightarrow> ioc_reachable env ioc'"

definition ioc_inv :: "'v ioc \<Rightarrow> bool" where
  "ioc_inv ioc \<longleftrightarrow>
     (servers_up (io_trace ioc) \<longleftrightarrow> io_state ioc = IocRunning \<and> io_mode ioc = BuildServers) \<and>
     (io_state ioc = IocVoid \<or> io_state ioc = IocBuilding \<longrightarrow> io_mode ioc = BuildServers)"

lemma ioc_inv_execute:
  assumes "ioc_inv ioc" and "execute env c ioc = (status, ioc')"
  shows "ioc_inv ioc'"
proof -
  obtain s m hs up where v: "view ioc = (s, m, hs, up)" by (cases "view ioc") auto
  have iv: "ioc_inv x \<longleftrightarrow> (case view x of (s, m, hs, up) \<Rightarrow>
      (up \<longleftrightarrow> s = IocRunning \<and> m = BuildServers) \<and> (s = IocVoid \<or> s = IocBuilding \<longrightarrow> m = BuildServers))" for x :: "'a ioc"
    by (simp add: ioc_inv_def view_def)
  obtain hs' where sh: "(fst (diode_iocShutdown ioc), view (snd (diode_iocShutdown ioc))) =
    (if s = IocVoid then (0, s, m, hs, up)
     else (0, IocVoid, BuildServers, hs @ hs', if m = BuildServers then False else up))"
    using shutdown_view [OF v] by blast
  show ?thesis
    using assms build_view [OF v, of env] build_isolated_view [OF v, of env] run_view [OF v] pause_view [OF v] sh
    by (cases c; cases m) (auto simp: iv v split: if_splits)
qed

lemma reachable_inv:
  assumes "ioc_reachable env ioc"
  shows "ioc_inv ioc"
  using assms
proof (induction rule: ioc_reachable.induct)
  case (start ioc)
  then show ?case by (simp add: ioc_inv_def servers_up_def)
next
  case (load ioc db d)
  then show ?case by (simp add: ioc_inv_def)
next
  case (command ioc c status ioc')
  then show ?case by (auto elim!: ioc_stepE intro: ioc_inv_execute)
qed

subsection \<open>One-command initialisation\<close>

lemma diode_kept:
  "io_diode (act as ioc) = io_diode ioc" "io_diode (walk_types f ioc) = io_diode ioc"
  by (simp_all add: act_def walk_types_def set_types_def)

lemma build_keeps_diode: "io_diode (snd (diode_iocBuild env ioc)) = io_diode ioc"
  by (simp add: diode_iocBuild_def iocBuild_1_def iocBuild_2_def iocBuild_3_def Let_def diode_kept case_prod_beta
      checkGeneralTime_def initDrvSup_def initRecSup_def initDevSup_def initDatabase_def finishDevSup_def
      iterateRecords_def)

lemma iocInit_view:
  assumes "view ioc = (IocVoid, m, hs, up)" and "db_ok env ioc" and "as_ok env"
    and "diode_assign_fields (ie_diode env) (io_diode ioc) = Some (status, d)"
  shows "\<exists>ioc'. diode_iocInit env ioc = Some (if status = 0 then 0 else 1, ioc') \<and> io_diode ioc' = d \<and>
    view ioc' = (if status = 0
      then (IocRunning, BuildServers, hs @ build_1_hooks @ build_2_hooks @ build_3_hooks @ run_hooks IocBuilt BuildServers, True)
      else (IocBuilt, BuildServers, hs @ build_1_hooks @ build_2_hooks @ build_3_hooks, up))"
proof -
  obtain st i1 where b: "diode_iocBuild env ioc = (st, i1)" by fastforce
  have v: "st = 0" "view i1 = (IocBuilt, BuildServers, hs @ build_1_hooks @ build_2_hooks @ build_3_hooks, up)"
    using build_view [OF assms(1), of env] assms(2,3) b by simp_all
  have d: "io_diode i1 = io_diode ioc"
    using build_keeps_diode [of env ioc] b by simp
  have vd: "view (i1\<lparr>io_diode := d\<rparr>) = view i1" by (simp add: view_def)
  obtain st2 i2 where r: "diode_iocRun (i1\<lparr>io_diode := d\<rparr>) = (st2, i2)" by fastforce
  note rv = run_view [OF vd [unfolded v(2)]]
  have "io_diode i2 = d"
    using r by (auto simp: diode_iocRun_def act_def Let_def split: if_splits)
  then show ?thesis
    using assms(4) v vd rv r by (auto simp: diode_iocInit_def b d)
qed

section \<open>Properties\<close>

text \<open>A database with the two menus and two records, and a library where everything succeeds.\<close>

definition demo_ioc_record :: "string \<Rightarrow> int \<Rightarrow> ioc_record" where
  "demo_ioc_record n phase =
     \<lparr>ir_name = n, ir_alias = False, ir_dtyp = 0, ir_udf = True, ir_stat = 17, ir_sevr = 0, ir_udfs = 3, ir_pact = False,
      ir_pini = 1, ir_phas = phase, ir_links = [], ir_rset = None, ir_dset = None\<rparr>"

definition demo_ioc_env :: "bytes ioc_env" where
  "demo_ioc_env =
     \<lparr>ie_driver = (\<lambda>_. None), ie_rset = (\<lambda>_. None), ie_dset = (\<lambda>_. None), ie_dtyp = (\<lambda>_ _. None),
      ie_as_init = 0, ie_ok_to_block = True, ie_realtime_lock = True, ie_UDF_ALARM = 17,
      ie_MIN_PHASE = - 32768, ie_MAX_PHASE = 32767, ie_convert = (0, 1, 2), ie_scan = (0, 1, 2, 3),
      ie_diode = demo_db 0\<rparr>"

definition demo_menus :: ioc_db where
  "demo_menus =
     \<lparr>id_menus = [(''menuConvert'', [''menuConvertNO_CONVERSION'', ''menuConvertSLOPE'', ''menuConvertLINEAR'']),
        (''menuScan'', [''menuScanPassive'', ''menuScanEvent'', ''menuScanI_O_Intr'', ''1 second''])],
      id_drivers = [],
      id_types = [\<lparr>rt_name = ''ai'', rt_prset = None, rt_devs = [], rt_dev_links = [],
        rt_records = [demo_ioc_record ''late'' 2, demo_ioc_record ''early'' 1]\<rparr>]\<rparr>"

definition demo_ioc :: "bytes ioc" where
  "demo_ioc = \<lparr>io_state = IocVoid, io_mode = BuildServers, io_db = Some demo_menus,
     io_diode = demo_state\<lparr>ds_names := Some (\<lambda>_. None)\<rparr>, io_trace = []\<rparr>"

lemma demo_ioc_ok:
  "view demo_ioc = (IocVoid, BuildServers, [], False)" "db_ok demo_ioc_env demo_ioc" "as_ok demo_ioc_env"
  by (simp_all add: view_def demo_ioc_def servers_up_def db_ok_def checkDatabase_def demo_ioc_env_def demo_menus_def
      menu_of_def as_ok_def)

text \<open>
  C21: every command of the IOC implements the abstract automaton: its status and the state and build
  mode it leaves are those of the automaton, given whether the database check and \<open>asInit\<close> succeed.
\<close>

theorem commands_refine_automaton:
  "(fst (execute env c ioc), io_state (snd (execute env c ioc)), io_mode (snd (execute env c ioc))) =
   life (checkDatabase env (io_db ioc) = 0) (ie_as_init env = 0) c (io_state ioc, io_mode ioc)"
  using execute_life [of env c ioc] by (simp add: life_state_def db_ok_def as_ok_def)

text \<open>
  C22: in every state reachable by commands the servers run exactly in the running state of an IOC
  built with servers, and a void or half-built IOC is in the default build mode.
\<close>

theorem servers_run_iff_running:
  assumes "ioc_reachable env ioc"
  shows "(servers_up (io_trace ioc) \<longleftrightarrow> io_state ioc = IocRunning \<and> io_mode ioc = BuildServers) \<and>
    (io_state ioc \<in> {IocVoid, IocBuilding} \<longrightarrow> io_mode ioc = BuildServers)"
  using reachable_inv [OF assms] by (auto simp: ioc_inv_def)

theorem servers_run_iff_running_witness:
  "servers_up (io_trace (snd (execute demo_ioc_env Run (snd (execute demo_ioc_env Build demo_ioc)))))"
proof -
  let ?b = "snd (execute demo_ioc_env Build demo_ioc)" and ?r = "snd (execute demo_ioc_env Run (snd (execute demo_ioc_env Build demo_ioc)))"
  have "ioc_reachable demo_ioc_env demo_ioc"
    by (rule ioc_reachable.start) (simp_all add: demo_ioc_def)
  then have "ioc_reachable demo_ioc_env ?b"
    by (rule ioc_reachable.command) (rule ioc_step.step, rule prod.collapse [symmetric])
  then have r: "ioc_reachable demo_ioc_env ?r"
    by (rule ioc_reachable.command) (rule ioc_step.step, rule prod.collapse [symmetric])
  have "io_state demo_ioc = IocVoid"
    by (simp add: demo_ioc_def)
  then have "io_state ?r = IocRunning" "io_mode ?r = BuildServers"
    using execute_life [of demo_ioc_env Build demo_ioc] execute_life [of demo_ioc_env Run ?b] demo_ioc_ok
    by (simp_all add: life_state_def)
  with servers_run_iff_running [OF r] show ?thesis by simp
qed

text \<open>
  C38: when \<open>asInit\<close> fails the IOC is left half-built: no build, run or pause succeeds or changes it,
  until a shutdown makes it void again.
\<close>

theorem failed_build_needs_shutdown:
  assumes "io_state ioc = IocVoid" and "checkDatabase env (io_db ioc) = 0" and "ie_as_init env \<noteq> 0"
  shows "fst (execute env Build ioc) = - 1 \<and> io_state (snd (execute env Build ioc)) = IocBuilding \<and>
    (\<forall>env' c. c \<noteq> Shutdown \<longrightarrow> fst (execute env' c (snd (execute env Build ioc))) = - 1 \<and>
       io_state (snd (execute env' c (snd (execute env Build ioc)))) = IocBuilding) \<and>
    io_state (snd (execute env Shutdown (snd (execute env Build ioc)))) = IocVoid"
proof -
  let ?ioc = "snd (execute env Build ioc)"
  have b: "fst (execute env Build ioc) = - 1" "io_state ?ioc = IocBuilding"
    using execute_life [of env Build ioc] assms by (simp_all add: life_state_def db_ok_def as_ok_def)
  moreover have "fst (execute env' c ?ioc) = - 1 \<and> io_state (snd (execute env' c ?ioc)) = IocBuilding"
    if "c \<noteq> Shutdown" for env' :: "'a ioc_env" and c
    using execute_life [of env' c ?ioc] b that by (cases c) (auto simp: life_state_def)
  moreover have "io_state (snd (execute env Shutdown ?ioc)) = IocVoid"
    using execute_life [of env Shutdown ?ioc] b by (simp add: life_state_def)
  ultimately show ?thesis by blast
qed

theorem failed_build_needs_shutdown_witness:
  "fst (execute (demo_ioc_env\<lparr>ie_as_init := 5\<rparr>) Build demo_ioc) = - 1 \<and>
   fst (execute demo_ioc_env Run (snd (execute (demo_ioc_env\<lparr>ie_as_init := 5\<rparr>) Build demo_ioc))) = - 1 \<and>
   io_state (snd (execute (demo_ioc_env\<lparr>ie_as_init := 5\<rparr>) Shutdown
     (snd (execute (demo_ioc_env\<lparr>ie_as_init := 5\<rparr>) Build demo_ioc)))) = IocVoid"
proof -
  have "io_state demo_ioc = IocVoid" "checkDatabase (demo_ioc_env\<lparr>ie_as_init := 5\<rparr>) (io_db demo_ioc) = 0"
    "ie_as_init (demo_ioc_env\<lparr>ie_as_init := 5\<rparr>) \<noteq> 0"
    by (simp_all add: demo_ioc_def checkDatabase_def demo_ioc_env_def demo_menus_def menu_of_def)
  from failed_build_needs_shutdown [OF this] show ?thesis by blast
qed

text \<open>
  C23: \<open>diode_iocInit\<close> on a void IOC with a good database: it runs, with exactly the documented hooks in
  order, when the assignment of the fields succeeds; when the assignment fails (no channel names have
  been assigned) it answers 1 and leaves the IOC built but not running.
\<close>

theorem iocInit_outcome:
  assumes "io_state ioc = IocVoid" and "checkDatabase env (io_db ioc) = 0" and "ie_as_init env = 0"
    and "diode_assign_fields (ie_diode env) (io_diode ioc) = Some (status, d)"
  shows "\<exists>ioc'. diode_iocInit env ioc = Some (if status = 0 then 0 else 1, ioc') \<and> io_diode ioc' = d \<and>
    io_state ioc' = (if status = 0 then IocRunning else IocBuilt) \<and>
    hooks (io_trace ioc') = hooks (io_trace ioc) @ build_1_hooks @ build_2_hooks @ build_3_hooks @
      (if status = 0 then run_hooks IocBuilt BuildServers else [])"
proof -
  have "view ioc = (IocVoid, io_mode ioc, hooks (io_trace ioc), servers_up (io_trace ioc))"
    using assms(1) by (simp add: view_def)
  from iocInit_view [OF this _ _ assms(4)] assms(2,3) show ?thesis
    by (fastforce simp: db_ok_def as_ok_def view_def split: if_splits)
qed

theorem iocInit_outcome_witness:
  "\<exists>ioc'. diode_iocInit demo_ioc_env demo_ioc = Some (0, ioc') \<and> io_state ioc' = IocRunning \<and>
    hooks (io_trace ioc') = build_1_hooks @ build_2_hooks @ build_3_hooks @ run_hooks IocBuilt BuildServers"
proof -
  have a: "diode_assign_fields (ie_diode demo_ioc_env) (io_diode demo_ioc) = Some (0, io_diode demo_ioc)"
    by (simp add: diode_assign_fields_def demo_ioc_env_def demo_db_def iterate_records_def diode_init_def demo_state_def
        demo_ioc_def diode_assign_record_def pvNameLookup_def resolve_index_def resolve_index_n_def diode_assign_entry_def
        resolve_loop.simps assign_fields_loop.simps DIODE_LUT_SIZE_def)
  show ?thesis
    using iocInit_outcome [OF _ _ _ a] demo_ioc_ok by (auto simp: db_ok_def as_ok_def demo_ioc_def)
qed



end
