(* ===== verification/Iocsh_Helper.thy ===== *)
theory Iocsh_Helper
  imports Doubles
begin

text \<open>
  The templates that expose functions and variables to the IOC shell (\<open>ioc/iocshelper.h\<close>): how an
  argument of a C++ type is declared to the shell, how it is fetched from the shell's buffer, and the
  static description of a registered function. A C++ type parameter is a record of its two traits.
\<close>

subsection \<open>Arguments\<close>

datatype iocsh_arg_type = IocshArgInt | IocshArgDouble | IocshArgString

text \<open>
  The shell's argument buffer is a union. A member other than the one that was stored is not to be
  read (\<open>None\<close>). A string that was not given is a null pointer.
\<close>

datatype arg_buf = Ival int | Dval double | Sval "string option"

fun buf_type :: "arg_buf \<Rightarrow> iocsh_arg_type" where
  "buf_type (Ival i) = IocshArgInt"
| "buf_type (Dval d) = IocshArgDouble"
| "buf_type (Sval s) = IocshArgString"

record 'a getarg =
  op :: "arg_buf \<Rightarrow> 'a option"
  argtype :: iocsh_arg_type

definition getarg_int :: "int getarg" where
  "getarg_int = \<lparr>op = (\<lambda>a. case a of Ival i \<Rightarrow> Some i | _ \<Rightarrow> None), argtype = IocshArgInt\<rparr>"

definition getarg_double :: "double getarg" where
  "getarg_double = \<lparr>op = (\<lambda>a. case a of Dval d \<Rightarrow> Some d | _ \<Rightarrow> None), argtype = IocshArgDouble\<rparr>"

text \<open>Both \<open>char*\<close> and \<open>const char*\<close>.\<close>

definition getarg_string :: "string option getarg" where
  "getarg_string = \<lparr>op = (\<lambda>a. case a of Sval s \<Rightarrow> Some s | _ \<Rightarrow> None), argtype = IocshArgString\<rparr>"

subsection \<open>Calls\<close>

definition call0 :: "'r \<Rightarrow> arg_buf list \<Rightarrow> 'r option" where
  "call0 fn args = Some fn"

definition call1 :: "'a getarg \<Rightarrow> ('a \<Rightarrow> 'r) \<Rightarrow> arg_buf list \<Rightarrow> 'r option" where
  "call1 A fn args = do { a \<leftarrow> Option.bind (vec_at args 0) (op A); Some (fn a) }"

definition call2 :: "'a getarg \<Rightarrow> 'b getarg \<Rightarrow> ('a \<Rightarrow> 'b \<Rightarrow> 'r) \<Rightarrow> arg_buf list \<Rightarrow> 'r option" where
  "call2 A B fn args =
     do { a \<leftarrow> Option.bind (vec_at args 0) (op A);
          b \<leftarrow> Option.bind (vec_at args 1) (op B);
          Some (fn a b) }"

definition call3 ::
  "'a getarg \<Rightarrow> 'b getarg \<Rightarrow> 'c getarg \<Rightarrow> ('a \<Rightarrow> 'b \<Rightarrow> 'c \<Rightarrow> 'r) \<Rightarrow> arg_buf list \<Rightarrow> 'r option" where
  "call3 A B C fn args =
     do { a \<leftarrow> Option.bind (vec_at args 0) (op A);
          b \<leftarrow> Option.bind (vec_at args 1) (op B);
          c \<leftarrow> Option.bind (vec_at args 2) (op C);
          Some (fn a b c) }"

subsection \<open>Registration\<close>

text \<open>The description of a function; an argument that has not been set is \<open>None\<close>.\<close>

record iocsh_func =
  if_name :: string
  if_args :: "(string \<times> iocsh_arg_type) option list"

definition new_func_info :: "nat \<Rightarrow> string \<Rightarrow> iocsh_func" where
  "new_func_info n name = \<lparr>if_name = name, if_args = replicate n None\<rparr>"

definition set_arg :: "nat \<Rightarrow> 'a getarg \<Rightarrow> string \<Rightarrow> iocsh_func \<Rightarrow> iocsh_func" where
  "set_arg n T name info = info\<lparr>if_args := (if_args info)[n := Some (name, argtype T)]\<rparr>"

text \<open>
  Every instance of a template has a static description, made at its first call: \<open>old\<close> is the one of an
  earlier call. What is registered is the description and the callback.
\<close>

definition static_info :: "nat \<Rightarrow> iocsh_func option \<Rightarrow> string \<Rightarrow> iocsh_func" where
  "static_info n old name = (case old of None \<Rightarrow> new_func_info n name | Some info \<Rightarrow> info)"

definition iocshRegister0 :: "'r \<Rightarrow> iocsh_func option \<Rightarrow> string \<Rightarrow> iocsh_func \<times> (arg_buf list \<Rightarrow> 'r option)" where
  "iocshRegister0 fn old name = (static_info 0 old name, call0 fn)"

definition iocshRegister1 ::
  "'a getarg \<Rightarrow> ('a \<Rightarrow> 'r) \<Rightarrow> iocsh_func option \<Rightarrow> string \<Rightarrow> string \<Rightarrow> iocsh_func \<times> (arg_buf list \<Rightarrow> 'r option)" where
  "iocshRegister1 A fn old name arg1name =
     (set_arg 0 A arg1name (static_info 1 old name), call1 A fn)"

definition iocshRegister2 ::
  "'a getarg \<Rightarrow> 'b getarg \<Rightarrow> ('a \<Rightarrow> 'b \<Rightarrow> 'r) \<Rightarrow> iocsh_func option \<Rightarrow> string \<Rightarrow> string \<Rightarrow> string \<Rightarrow>
   iocsh_func \<times> (arg_buf list \<Rightarrow> 'r option)" where
  "iocshRegister2 A B fn old name arg1name arg2name =
     (set_arg 1 B arg2name (set_arg 0 A arg1name (static_info 2 old name)), call2 A B fn)"

definition iocshRegister3 ::
  "'a getarg \<Rightarrow> 'b getarg \<Rightarrow> 'c getarg \<Rightarrow> ('a \<Rightarrow> 'b \<Rightarrow> 'c \<Rightarrow> 'r) \<Rightarrow> iocsh_func option \<Rightarrow>
   string \<Rightarrow> string \<Rightarrow> string \<Rightarrow> string \<Rightarrow> iocsh_func \<times> (arg_buf list \<Rightarrow> 'r option)" where
  "iocshRegister3 A B C fn old name arg1name arg2name arg3name =
     (set_arg 2 C arg3name (set_arg 1 B arg2name (set_arg 0 A arg1name (static_info 3 old name))), call3 A B C fn)"

text \<open>A variable: the table the shell gets, ended by a null name.\<close>

definition iocshVariable :: "'a getarg \<Rightarrow> string \<Rightarrow> (string option \<times> iocsh_arg_type option) list" where
  "iocshVariable V name = [(Some name, Some (argtype V)), (None, None)]"

lemmas register_defs = iocshRegister1_def iocshRegister2_def iocshRegister3_def static_info_def new_func_info_def set_arg_def

subsection \<open>Typed calls\<close>

text \<open>What the shell promises: one buffer for every declared argument, with a value of its type.\<close>

definition args_match :: "iocsh_func \<Rightarrow> arg_buf list \<Rightarrow> bool" where
  "args_match info bufs \<longleftrightarrow> list_all2 (\<lambda>d b. case d of Some (n, t) \<Rightarrow> buf_type b = t | None \<Rightarrow> False) (if_args info) bufs"

text \<open>The two traits of a type belong together: its getter reads what was declared.\<close>

locale arg_traits =
  fixes T :: "'a getarg"
  assumes reads_declared: "op T b \<noteq> None \<longleftrightarrow> buf_type b = argtype T"
begin

lemma getter_ok: "buf_type b = argtype T \<Longrightarrow> \<exists>v. op T b = Some v"
  using reads_declared [of b] by auto

end

locale arg_traits2 = a: arg_traits A + b: arg_traits B
  for A :: "'a getarg" and B :: "'b getarg"
begin

lemma call2_ok:
  assumes "args_match (fst (iocshRegister2 A B fn None name n1 n2)) bufs"
  shows "\<exists>x y. bufs = [x, y] \<and> buf_type x = argtype A \<and> buf_type y = argtype B \<and>
    call2 A B fn bufs = Some (fn (the (op A x)) (the (op B y)))"
proof -
  obtain x y where "bufs = [x, y]" "buf_type x = argtype A" "buf_type y = argtype B"
    using assms by (auto simp: args_match_def iocshRegister2_def static_info_def new_func_info_def set_arg_def
        list_all2_Cons1 numeral_2_eq_2)
  with a.getter_ok b.getter_ok show ?thesis
    by (fastforce simp: call2_def vec_at_def)
qed

end

locale arg_traits3 = ab: arg_traits2 A B + c: arg_traits C
  for A :: "'a getarg" and B :: "'b getarg" and C :: "'c getarg"
begin

lemma call3_ok:
  assumes "args_match (fst (iocshRegister3 A B C fn None name n1 n2 n3)) bufs"
  shows "\<exists>x y z. bufs = [x, y, z] \<and> buf_type x = argtype A \<and> buf_type y = argtype B \<and> buf_type z = argtype C \<and>
    call3 A B C fn bufs = Some (fn (the (op A x)) (the (op B y)) (the (op C z)))"
proof -
  obtain x y z where "bufs = [x, y, z]" "buf_type x = argtype A" "buf_type y = argtype B" "buf_type z = argtype C"
    using assms by (auto simp: args_match_def iocshRegister3_def static_info_def new_func_info_def set_arg_def
        list_all2_Cons1 numeral_3_eq_3)
  with ab.a.getter_ok ab.b.getter_ok c.getter_ok show ?thesis
    by (fastforce simp: call3_def vec_at_def numeral_2_eq_2)
qed

end

lemma getarg_traits:
  "arg_traits getarg_int" "arg_traits getarg_double" "arg_traits getarg_string"
  by (unfold_locales; simp add: getarg_int_def getarg_double_def getarg_string_def split: arg_buf.split)+

interpretation int_arg: arg_traits getarg_int
  by (rule getarg_traits)

interpretation double_arg: arg_traits getarg_double
  by (rule getarg_traits)

interpretation string_arg: arg_traits getarg_string
  by (rule getarg_traits)

interpretation two_strings: arg_traits2 getarg_string getarg_string
  by (intro arg_traits2.intro getarg_traits)

interpretation string_int_string: arg_traits3 getarg_string getarg_int getarg_string
  by (intro arg_traits3.intro arg_traits2.intro getarg_traits)

lemma call1_ok:
  assumes "arg_traits A" "args_match (fst (iocshRegister1 A fn None name n1)) bufs"
  shows "\<exists>x. bufs = [x] \<and> buf_type x = argtype A \<and> call1 A fn bufs = Some (fn (the (op A x)))"
proof -
  obtain x where "bufs = [x]" "buf_type x = argtype A"
    using assms(2) by (auto simp: args_match_def iocshRegister1_def static_info_def new_func_info_def set_arg_def
        list_all2_Cons1)
  with arg_traits.getter_ok [OF assms(1)] show ?thesis
    by (fastforce simp: call1_def vec_at_def)
qed

lemma typed_buffers [simp]:
  "buf_type b = argtype getarg_int \<longleftrightarrow> (\<exists>i. b = Ival i)" "buf_type b = argtype getarg_double \<longleftrightarrow> (\<exists>d. b = Dval d)"
  "buf_type b = argtype getarg_string \<longleftrightarrow> (\<exists>s. b = Sval s)"
  "op getarg_int (Ival i) = Some i" "op getarg_double (Dval d) = Some d" "op getarg_string (Sval s) = Some s"
  by (cases b; simp add: getarg_int_def getarg_double_def getarg_string_def)+

text \<open>Registering a function a second time, under another name, keeps the first name.\<close>

lemma second_name_ignored:
  "if_name (fst (iocshRegister1 A fn (Some (fst (iocshRegister1 A fn None name n1))) name' n1')) = name"
  by (simp add: iocshRegister1_def static_info_def set_arg_def new_func_info_def)

end
