(* ===== verification/Diode_Ioc.thy ===== *)
theory Diode_Ioc
  imports Dev_Diode CA_Construct Config_Load Ioc_Init Iocsh_Helper
begin

text \<open>
  The IOC shell commands (\<open>ioc/diodeIoc.cpp\<close>): their registration, the parameters of the two tasks, and the receiver task: it names the channels of the configuration, and its callback
  feeds every received value to the device support of \<open>Dev_Diode\<close>. The tables and macros of EPICS
  base for the DBR types are a record of parameters.
\<close>

subsection \<open>Commands\<close>

text \<open>The new default level: any integer, cast to the 32 bits of the enumeration.\<close>

definition diodeLogLevel :: "int \<Rightarrow> log_level" where
  "diodeLogLevel level = word_of_int level"

record receiver_params =
  rp_config_filename :: string
  rp_socket_port :: int
  rp_listening_address :: string

text \<open>A file name that was not given is a null pointer: making a \<open>std::string\<close> of it throws, \<open>None\<close>.\<close>

definition make_receiver_params :: "string option \<Rightarrow> int \<Rightarrow> string option \<Rightarrow> receiver_params option" where
  "make_receiver_params config_filename socket_port listening_address =
     map_option (\<lambda>f. \<lparr>rp_config_filename = f, rp_socket_port = socket_port,
       rp_listening_address = (case listening_address of None \<Rightarrow> EPICS_DIODE_DEFAULT_LISTENING_ADDRESS | Some a \<Rightarrow> a)\<rparr>)
       config_filename"

record sender_params =
  sp_config_filename :: string
  sp_sender_addresses :: string

definition make_sender_params :: "string option \<Rightarrow> string option \<Rightarrow> sender_params option" where
  "make_sender_params config_filename sender_addresses =
     do { f \<leftarrow> config_filename; a \<leftarrow> sender_addresses;
          Some \<lparr>sp_config_filename = f, sp_sender_addresses = a\<rparr> }"

text \<open>
  The shutdown flag is set by \<open>diodeAtExit\<close>, which the hook registers after the database has been
  initialised; the second component counts the registrations.
\<close>

definition diodeAtExit :: "bool \<times> nat \<Rightarrow> bool \<times> nat" where
  "diodeAtExit s = (True, snd s)"

definition diodeInitHook :: "hook \<Rightarrow> bool \<times> nat \<Rightarrow> bool \<times> nat" where
  "diodeInitHook h s = (if h = AfterInitDatabase then (fst s, snd s + 1) else s)"

subsection \<open>The callback\<close>

record dbr_tables =
  dt_menuFtype :: "string \<Rightarrow> u16"          \<comment> \<open>the constants of menuFtype.h by their suffix\<close>
  dt_TIME_STRING :: u16                   \<comment> \<open>DBR_TIME_STRING\<close>
  dt_is_TIME :: "u16 \<Rightarrow> bool"
  dt_is_plain :: "u16 \<Rightarrow> bool"
  dt_value_offset :: "u16 \<Rightarrow> nat"         \<comment> \<open>what dbr_value_ptr adds\<close>
  dt_value_size :: "u16 list"

definition dbr_to_fvtype :: "dbr_tables \<Rightarrow> u16 list" where
  "dbr_to_fvtype T = map (dt_menuFtype T) [''STRING'', ''SHORT'', ''FLOAT'', ''ENUM'', ''CHAR'', ''LONG'', ''DOUBLE'']"

text \<open>The metadata at the start of a timestamped value.\<close>

definition meta_of :: "bytes \<Rightarrow> meta_data" where
  "meta_of v =
     \<lparr>md_status = of_nat (le_nat (take 2 v)), md_severity = of_nat (le_nat (take 2 (drop 2 v))),
      md_stamp = of_nat (le_nat (take 8 (drop 4 v)))\<rparr>"

definition META_SIZE :: nat where "META_SIZE = 12"

text \<open>
  The size is computed with 32 bits. Reading past the value or past a table is \<open>None\<close>; the metadata
  are only read when the channel is assigned. Answers of the device support are dropped.
\<close>

definition hash_of_value :: "dbr_tables \<Rightarrow> (bytes \<Rightarrow> u32) \<Rightarrow> u16 \<Rightarrow> u32 \<Rightarrow> bytes \<Rightarrow> u64 option" where
  "hash_of_value T mem_hash base_type count v =
     Option.bind (vec_at (dt_value_size T) (unat base_type)) (\<lambda>sz. value_hash mem_hash v (unat (ucast sz * count :: u32)))"

definition update_from ::
  "dbr_tables \<Rightarrow> (bytes \<Rightarrow> u32) \<Rightarrow> 'v db_env \<Rightarrow> u32 \<Rightarrow> u16 \<Rightarrow> u32 \<Rightarrow> meta_data option \<Rightarrow> bytes \<Rightarrow> 'v diode_state \<Rightarrow> 'v diode_state option" where
  "update_from T mem_hash env i base_type count meta v st =
     do {
       ft \<leftarrow> vec_at (dbr_to_fvtype T) (unat base_type);
       hash \<leftarrow> hash_of_value T mem_hash base_type count v;
       map_option snd (diode_value_update env i ft count meta v hash st)
     }"

definition ioc_callback ::
  "dbr_tables \<Rightarrow> (bytes \<Rightarrow> u32) \<Rightarrow> 'v db_env \<Rightarrow> rx_call \<Rightarrow> 'v diode_state \<Rightarrow> 'v diode_state option" where
  "ioc_callback T mem_hash env c st =
     (if cb_count c = - 1 then map_option snd (diode_disconnected env (cb_id c) st)
      else if dt_is_TIME T (cb_type c) then do {
        v \<leftarrow> cb_value c;
        if length v < META_SIZE \<and> dpvt_at (cb_id c) st \<noteq> None then None
        else update_from T mem_hash env (cb_id c) (cb_type c - dt_TIME_STRING T) (cb_count c) (Some (meta_of v))
          (drop (dt_value_offset T (cb_type c)) v) st
      }
      else if dt_is_plain T (cb_type c) then do {
        v \<leftarrow> cb_value c;
        update_from T mem_hash env (cb_id c) (cb_type c) (cb_count c) None v st
      }
      else Some st)"

subsection \<open>The receiver task\<close>

text \<open>Every channel and field of the configuration is named, in the order of the flat numbering.\<close>

definition assign_config_channel :: "config_channel \<Rightarrow> u32 \<times> 'v diode_state \<Rightarrow> (u32 \<times> 'v diode_state) option" where
  "assign_config_channel cc acc =
     foldM (\<lambda>name (i, st). map_option (Pair (i + 1)) (diode_assign i name st))
       (cc_name cc # map (field_name cc) (cc_extra cc) @ map (field_name cc) (cc_polled cc)) acc"

definition assign_config :: "config \<Rightarrow> 'v diode_state \<Rightarrow> 'v diode_state option" where
  "assign_config cfg st = map_option snd (foldM assign_config_channel (cfg_channels cfg) (0, st))"

text \<open>
  One call of \<open>receiver.run(1.0, callback)\<close>: the turns of the receiver loop, the calls it makes going to
  the device support in their order. The callback does not touch the receiver.
\<close>

definition ONE_SECOND :: double where "ONE_SECOND = 0x3FF0000000000000"

definition receiver_task_turn ::
  "dbr_tables \<Rightarrow> ca_env \<Rightarrow> 'v db_env \<Rightarrow> int \<times> int list \<times> bytes option list \<Rightarrow>
   ca_receiver \<times> 'v diode_state \<Rightarrow> (ca_receiver \<times> 'v diode_state) option" where
  "receiver_task_turn T env db turn acc =
     (let (start, nows, rs) = turn; (rc, st) = acc in
      do {
        (left, rc) \<leftarrow> receiver_loop env ONE_SECOND start nows rs (rc\<lparr>rc_calls := []\<rparr>);
        st \<leftarrow> foldM (ioc_callback T (env_mem_hash env) db) (rc_calls rc) st;
        Some (rc, st)
      })"

text \<open>What the two tasks get from the system and from yajl, as the components they use take it.\<close>

record ('h, 'a) os_env =
  os_files :: "string \<Rightarrow> string option"
  os_yajl :: "'h \<Rightarrow> string \<Rightarrow> yevent list \<times> 'h \<times> string option"
  os_yajl_handle :: "'h option"
  os_aToIPAddr :: "string \<Rightarrow> int \<Rightarrow> 'a option"
  os_created :: bool
  os_bind_ok :: "'a \<Rightarrow> bool"
  os_timeout_ok :: bool
  os_now :: int
  os_startup :: u64
  os_context :: ca_status
  os_ca_create :: "string \<Rightarrow> ca_status option"

datatype task_error = ConfigFailed config_error | EndFailed construct_error

text \<open>
  The tasks: an exception ends a task and is caught and logged. \<open>turns\<close> are the calls of \<open>run\<close> made
  until the shutdown flag is seen.
\<close>

definition receiver_task ::
  "('h, 'a) os_env \<Rightarrow> dbr_tables \<Rightarrow> ca_env \<Rightarrow> 'v db_env \<Rightarrow> (int \<times> int list \<times> bytes option list) list \<Rightarrow>
   receiver_params \<Rightarrow> 'v diode_state \<Rightarrow> (task_error option \<times> 'v diode_state) option" where
  "receiver_task os T env db turns p st =
     (case get_configuration (os_yajl os) (os_yajl_handle os) (os_files os (rp_config_filename p)) of
        Inl e \<Rightarrow> Some (Some (ConfigFailed e), st)
      | Inr cfg \<Rightarrow> do {
          st \<leftarrow> assign_config cfg st;
          case receiver_construct (os_aToIPAddr os) (os_created os) (os_bind_ok os) (os_timeout_ok os)
                 (rp_socket_port p) (rp_listening_address p) cfg (os_now os) of
            Inl TooManyChannels \<Rightarrow> None
          | Inl e \<Rightarrow> Some (Some (EndFailed e), st)
          | Inr (rc, a) \<Rightarrow> map_option (\<lambda>(rc, st). (None, st)) (foldM (receiver_task_turn T env db) turns (rc, st))
        })"

definition sender_task ::
  "('h, 'a) os_env \<Rightarrow> ca_env \<Rightarrow> ca_event list list list \<Rightarrow> sender_params \<Rightarrow> (task_error + ca_sender) option" where
  "sender_task os env turns p =
     (case get_configuration (os_yajl os) (os_yajl_handle os) (os_files os (sp_config_filename p)) of
        Inl e \<Rightarrow> Some (Inl (ConfigFailed e))
      | Inr cfg \<Rightarrow>
          (case sender_construct (os_created os) (os_context os) (os_ca_create os) cfg (os_startup os) of
             Inl TooManyChannels \<Rightarrow> None
           | Inl e \<Rightarrow> Some (Inl (EndFailed e))
           | Inr (st, u) \<Rightarrow>
               map_option Inr (foldM (\<lambda>evs st. map_option snd (sender_run env ONE_SECOND evs st)) turns st)))"

text \<open>The commands start a task with parameters of its own.\<close>

datatype ioc_task = Receiver_Task receiver_params | Sender_Task sender_params

definition diodeReceiverStart :: "string option \<Rightarrow> int \<Rightarrow> string option \<Rightarrow> ioc_task option" where
  "diodeReceiverStart config_filename socket_port listening_address =
     map_option Receiver_Task (make_receiver_params config_filename socket_port listening_address)"

definition diodeSenderStart :: "string option \<Rightarrow> string option \<Rightarrow> ioc_task option" where
  "diodeSenderStart config_filename send_addresses =
     map_option Sender_Task (make_sender_params config_filename send_addresses)"

subsection \<open>Registration\<close>

text \<open>What a command does; \<open>None\<close> is the exception of the constructors above, which nothing catches.\<close>

datatype shell_effect = Set_Log_Level log_level | Start_Task ioc_task

definition diode_registrations :: "(iocsh_func \<times> (arg_buf list \<Rightarrow> shell_effect option option)) list" where
  "diode_registrations =
     [iocshRegister1 getarg_int (\<lambda>l. Some (Set_Log_Level (diodeLogLevel l))) None ''diodeLogLevel'' ''log_level'',
      iocshRegister3 getarg_string getarg_int getarg_string (\<lambda>f p a. map_option Start_Task (diodeReceiverStart f p a)) None
        ''diodeReceiverStart'' ''config_filename'' ''socket_port'' ''listening_address'',
      iocshRegister2 getarg_string getarg_string (\<lambda>f a. map_option Start_Task (diodeSenderStart f a)) None
        ''diodeSenderStart'' ''config_filename'' ''send_addresses'']"

definition diode_commands :: "iocsh_func list" where
  "diode_commands = map fst diode_registrations"

lemma diode_command_names: "map if_name diode_commands = [''diodeLogLevel'', ''diodeReceiverStart'', ''diodeSenderStart'']"
  by (simp add: diode_commands_def diode_registrations_def iocshRegister1_def iocshRegister2_def iocshRegister3_def
      static_info_def new_func_info_def set_arg_def)

text \<open>
  The commands of the shell are well-typed: whenever the shell gives a command buffers of the types
  it was registered with, every argument is read from the member of the union the shell has written,
  and the command sets the level or starts the task with exactly the values given; a missing listening
  address becomes the default one, a missing file name or send list ends in an exception that nothing catches.
\<close>

theorem shell_commands_typed:
  assumes "(info, call) \<in> set diode_registrations" and "args_match info bufs"
  shows "(if_name info = ''diodeLogLevel'' \<and>
      (\<exists>l. bufs = [Ival l] \<and> call bufs = Some (Some (Set_Log_Level (word_of_int l))))) \<or>
    (if_name info = ''diodeReceiverStart'' \<and>
      (\<exists>f p a. bufs = [Sval f, Ival p, Sval a] \<and>
        call bufs = Some (map_option (\<lambda>f. Start_Task (Receiver_Task \<lparr>rp_config_filename = f, rp_socket_port = p,
          rp_listening_address = (case a of None \<Rightarrow> ''0.0.0.0'' | Some a \<Rightarrow> a)\<rparr>)) f))) \<or>
    (if_name info = ''diodeSenderStart'' \<and>
      (\<exists>f a. bufs = [Sval f, Sval a] \<and>
        call bufs = Some (if f = None \<or> a = None then None
          else Some (Start_Task (Sender_Task \<lparr>sp_config_filename = the f, sp_sender_addresses = the a\<rparr>)))))"
proof -
  consider (log) "info = fst (iocshRegister1 getarg_int (\<lambda>l. Some (Set_Log_Level (diodeLogLevel l))) None ''diodeLogLevel'' ''log_level'')"
      "call = call1 getarg_int (\<lambda>l. Some (Set_Log_Level (diodeLogLevel l)))"
    | (receiver) "info = fst (iocshRegister3 getarg_string getarg_int getarg_string
          (\<lambda>f p a. map_option Start_Task (diodeReceiverStart f p a)) None
          ''diodeReceiverStart'' ''config_filename'' ''socket_port'' ''listening_address'')"
      "call = call3 getarg_string getarg_int getarg_string (\<lambda>f p a. map_option Start_Task (diodeReceiverStart f p a))"
    | (sender) "info = fst (iocshRegister2 getarg_string getarg_string
          (\<lambda>f a. map_option Start_Task (diodeSenderStart f a)) None ''diodeSenderStart'' ''config_filename'' ''send_addresses'')"
      "call = call2 getarg_string getarg_string (\<lambda>f a. map_option Start_Task (diodeSenderStart f a))"
    using assms(1)
    by (auto simp: diode_registrations_def iocshRegister1_def iocshRegister2_def iocshRegister3_def)
  then show ?thesis
  proof cases
    case log
    from call1_ok [OF getarg_traits(1) assms(2) [unfolded log(1)]] show ?thesis
      unfolding log by (auto simp: register_defs diodeLogLevel_def)
  next
    case receiver
    from string_int_string.call3_ok [OF assms(2) [unfolded receiver(1)]] show ?thesis
      unfolding receiver diodeReceiverStart_def make_receiver_params_def EPICS_DIODE_DEFAULT_LISTENING_ADDRESS_def
      by (auto simp: register_defs option.map_comp comp_def)
  next
    case sender
    from two_strings.call2_ok [OF assms(2) [unfolded sender(1)]] obtain f a where
      "bufs = [Sval f, Sval a]" "call bufs = Some (map_option Start_Task (diodeSenderStart f a))"
      unfolding sender by auto
    then show ?thesis
      by (cases f; cases a) (simp_all add: sender(1) register_defs diodeSenderStart_def make_sender_params_def)
  qed
qed

theorem shell_commands_typed_witness:
  "\<exists>info call. (info, call) \<in> set diode_registrations \<and> if_name info = ''diodeReceiverStart'' \<and>
    call [Sval (Some ''diode.json''), Ival 5080, Sval None] = Some (Some (Start_Task (Receiver_Task
      \<lparr>rp_config_filename = ''diode.json'', rp_socket_port = 5080, rp_listening_address = ''0.0.0.0''\<rparr>))) \<and>
    call [Sval None, Ival 0, Sval None] = Some None"
proof -
  let ?r = "iocshRegister3 getarg_string getarg_int getarg_string (\<lambda>f p a. map_option Start_Task (diodeReceiverStart f p a)) None
        ''diodeReceiverStart'' ''config_filename'' ''socket_port'' ''listening_address''"
  have r: "(fst ?r, snd ?r) \<in> set diode_registrations" "if_name (fst ?r) = ''diodeReceiverStart''"
    by (simp_all add: diode_registrations_def register_defs)
  have "args_match (fst ?r) [Sval f, Ival p, Sval a]" for f p a
    by (simp add: args_match_def register_defs numeral_3_eq_3 numeral_2_eq_2 getarg_int_def getarg_string_def)
  from shell_commands_typed [OF r(1) this, of "Some ''diode.json''" 5080 None] shell_commands_typed [OF r(1) this, of None 0 None]
  show ?thesis
    using r by (intro exI [of _ "fst ?r"] exI [of _ "snd ?r"]) simp
qed

subsection \<open>Naming\<close>

lemma assign_config_channel_names:
  "assign_config_channel cc acc = foldM (\<lambda>name (i, st). map_option (Pair (i + 1)) (diode_assign i name st)) (channel_names cc) acc"
  by (simp add: assign_config_channel_def channel_names_def)

lemma assign_names_fold:
  "map_option snd (foldM (\<lambda>name (i, st). map_option (Pair (i + 1)) (diode_assign i name st)) ns (of_nat k, st)) =
   assign_names k ns st"
proof (induction ns arbitrary: k st)
  case (Cons n ns)
  show ?case
  proof (cases "diode_assign (of_nat k :: u32) n st")
    case (Some st')
    then show ?thesis using Cons.IH [of "Suc k" st'] by (simp add: add.commute)
  qed simp
qed simp

lemma foldM_assign_config:
  "foldM assign_config_channel ccs =
   foldM (\<lambda>name (i, st). map_option (Pair (i + 1)) (diode_assign i name st)) (concat (map channel_names ccs))"
proof (induction ccs)
  case (Cons cc ccs)
  show ?case
    by (rule ext, simp only: list.map concat.simps foldM_append foldM.simps, simp only: Cons,
        simp only: assign_config_channel_names)
qed (simp add: fun_eq_iff)

lemma assign_config_names: "assign_config cfg st = assign_names 0 (flat_channel_names cfg) st"
  using assign_names_fold [of "flat_channel_names cfg" 0 st]
  by (simp add: assign_config_def flat_channel_names_def foldM_assign_config)

subsection \<open>The callback and the records\<close>

text \<open>An update of one channel leaves the other channels' records alone.\<close>

lemma value_update_frame:
  assumes "diode_value_update env i type count meta val hash st = Some (s, st')"
    and "dpvt_at i st = Some pvt" "dpvt_at j st = Some p" "da_record (dp_addr p) \<noteq> da_record (dp_addr pvt)"
  shows "record_of j st' = record_of j st" "dpvt_at j st' = Some p"
proof -
  have "i \<noteq> j" using assms(2-4) by auto
  then have ij: "unat i \<noteq> unat j" by (simp add: word_unat_eq_iff)
  from assms(1,2) obtain r where st': "ds_records st' = (ds_records st)[da_record (dp_addr pvt) := r]"
    "ds_lut st' = map_option (\<lambda>lut. lut(unat i := Some (pvt\<lparr>dp_count := count, dp_hash := hash\<rparr>))) (ds_lut st)"
    by (auto simp: diode_value_update_def set_dpvt_def bind_eq_Some_conv case_prod_beta Let_def)
  show "dpvt_at j st' = Some p"
    using assms(3) ij by (auto simp: dpvt_at_def st' split: option.splits if_splits)
  then show "record_of j st' = record_of j st"
    using assms(3,4) by (simp add: record_of_def st' vec_at_def)
qed

lemma update_from_assigned:
  assumes "dpvt_at i st = Some pvt" "record_of i st = Some r"
    and "vec_at (dbr_to_fvtype T) (unat b) = Some ft" "hash_of_value T mem_hash b count v = Some h"
  shows "\<exists>st'. update_from T mem_hash env i b count meta v st = Some st' \<and>
    dpvt_at i st' = Some (pvt\<lparr>dp_count := count, dp_hash := h\<rparr>) \<and>
    record_of i st' = Some (if field_changed meta count h pvt r
      then fst (snd (put_value env pvt ft count meta v r)) else r) \<and>
    (\<forall>j p. dpvt_at j st = Some p \<and> da_record (dp_addr p) \<noteq> da_record (dp_addr pvt) \<longrightarrow>
      record_of j st' = record_of j st \<and> dpvt_at j st' = Some p)"
proof -
  from value_update_unfold [OF assms(1,2), of env ft count meta v h] obtain s st' where
    u: "diode_value_update env i ft count meta v h st = Some (s, st')"
      "dpvt_at i st' = Some (pvt\<lparr>dp_count := count, dp_hash := h\<rparr>)"
      "record_of i st' = Some (if field_changed meta count h pvt r
        then fst (snd (put_value env pvt ft count meta v r)) else r)" by blast
  with value_update_frame [OF u(1) assms(1)] assms(3,4) show ?thesis
    by (auto simp: update_from_def)
qed


definition demo_tables :: dbr_tables where
  "demo_tables =
     \<lparr>dt_menuFtype = (\<lambda>s. if s = ''DOUBLE'' then 10 else of_nat (length s)), dt_TIME_STRING = 14,
      dt_is_TIME = (\<lambda>t. 14 \<le> t \<and> t \<le> 20), dt_is_plain = (\<lambda>t. t \<le> 6), dt_value_offset = (\<lambda>t. 12),
      dt_value_size = [40, 2, 4, 2, 1, 4, 8]\<rparr>"


end
