(* ===== verification/Ioc_Shell.thy ===== *)
theory Ioc_Shell
  imports Ioc_Life Diode_Ioc
begin

text \<open>
  What the IOC shell sees of the diode: the registered commands and what a session of them does to the
  IOC (the end of \<open>ioc/iocInit.c\<close>, \<open>diodeRegistrar\<close> of \<open>ioc/diodeIoc.cpp\<close>); and the initialisation hook that
  would process records when the IOC changes state, which the diode has but does not register.
\<close>

subsection \<open>Processing by hooks\<close>

text \<open>The choices of the menu \<open>menuPini\<close>; their numbers come from the database definition.\<close>

datatype pini_choice = PiniYES | PiniRUN | PiniRUNNING | PiniPAUSE | PiniPAUSED

definition piniProcessHook :: "'v ioc_env \<Rightarrow> (pini_choice \<Rightarrow> u16) \<Rightarrow> hook \<Rightarrow> 'v ioc \<Rightarrow> 'v ioc" where
  "piniProcessHook env menuPini state ioc =
     (case state of
        AtIocRun \<Rightarrow> piniProcess env (menuPini PiniRUN) ioc
      | AfterIocRunning \<Rightarrow> piniProcess env (menuPini PiniRUNNING) ioc
      | AtIocPause \<Rightarrow> piniProcess env (menuPini PiniPAUSE) ioc
      | AfterIocPaused \<Rightarrow> piniProcess env (menuPini PiniPAUSED) ioc
      | _ \<Rightarrow> ioc)"

text \<open>The first component is the list of registered hook functions.\<close>

definition initialProcess ::
  "'v ioc_env \<Rightarrow> (pini_choice \<Rightarrow> u16) \<Rightarrow> (hook \<Rightarrow> 'v ioc \<Rightarrow> 'v ioc) list \<times> 'v ioc \<Rightarrow>
   (hook \<Rightarrow> 'v ioc \<Rightarrow> 'v ioc) list \<times> 'v ioc" where
  "initialProcess env menuPini s =
     (fst s @ [piniProcessHook env menuPini], piniProcess env (menuPini PiniYES) (snd s))"

lemma piniProcessHook_state [simp]:
  "io_state (piniProcessHook env menuPini h ioc) = io_state ioc" "io_mode (piniProcessHook env menuPini h ioc) = io_mode ioc"
  "io_db (piniProcessHook env menuPini h ioc) = io_db ioc"
  by (simp_all add: piniProcessHook_def piniProcess_def act_def split: hook.split)

subsection \<open>Commands\<close>

definition ioc_commands :: "iocsh_func list" where
  "ioc_commands =
     [\<lparr>if_name = ''diodeIocInit'', if_args = []\<rparr>, \<lparr>if_name = ''diodeIocBuild'', if_args = []\<rparr>,
      \<lparr>if_name = ''diodeIocRun'', if_args = []\<rparr>, \<lparr>if_name = ''diodeIocPause'', if_args = []\<rparr>]"

definition registered_commands :: "iocsh_func list" where
  "registered_commands = diode_commands @ ioc_commands"

text \<open>The status goes to the shell. An unknown name is not a command of this list.\<close>

definition ioc_command :: "'v ioc_env \<Rightarrow> string \<Rightarrow> 'v ioc \<Rightarrow> (int \<times> 'v ioc) option" where
  "ioc_command env name ioc =
     (if name = ''diodeIocInit'' then diode_iocInit env ioc
      else if name = ''diodeIocBuild'' then Some (diode_iocBuild env ioc)
      else if name = ''diodeIocRun'' then Some (diode_iocRun ioc)
      else if name = ''diodeIocPause'' then Some (diode_iocPause ioc)
      else None)"

definition exitDatabase :: "'v ioc \<Rightarrow> 'v ioc" where
  "exitDatabase ioc = snd (diode_iocShutdown ioc)"

definition diode_getIocState :: "'v ioc \<Rightarrow> ioc_state" where
  "diode_getIocState = io_state"

lemma registered_names_distinct: "distinct (map if_name registered_commands)"
  by (simp add: registered_commands_def diode_command_names ioc_commands_def)

subsection \<open>Sessions\<close>

lemma execute_reachable: "ioc_reachable env ioc \<Longrightarrow> execute env c ioc = (status, ioc') \<Longrightarrow> ioc_reachable env ioc'"
  by (rule ioc_reachable.command) (auto intro: ioc_step.step)

lemma iocInit_reachable:
  assumes "ioc_reachable env ioc" "diode_iocInit env ioc = Some (status, ioc')"
  shows "ioc_reachable env ioc'"
proof -
  obtain s1 ioc1 where b: "diode_iocBuild env ioc = (s1, ioc1)" by fastforce
  have r1: "ioc_reachable env ioc1"
    by (rule execute_reachable [OF assms(1), of Build]) (simp add: b)
  have load: "ioc_reachable env (ioc1\<lparr>io_diode := d\<rparr>)" for d
    using ioc_reachable.load [OF r1, where db = "io_db ioc1" and d = d] by simp
  have run: "ioc_reachable env (snd (diode_iocRun (ioc1\<lparr>io_diode := d\<rparr>)))" for d
    by (rule execute_reachable [OF load, of Run _ "fst (diode_iocRun (ioc1\<lparr>io_diode := d\<rparr>))"]) simp
  show ?thesis
    using assms(2) r1 load run
    by (auto simp: diode_iocInit_def b bind_eq_Some_conv Let_def case_prod_beta split: if_splits)
qed

lemma ioc_command_reachable:
  assumes "ioc_reachable env ioc" "ioc_command env name ioc = Some (status, ioc')"
  shows "ioc_reachable env ioc'"
proof -
  have "diode_iocBuild env ioc = (status, ioc') \<or> diode_iocRun ioc = (status, ioc') \<or> diode_iocPause ioc = (status, ioc') \<or>
      diode_iocInit env ioc = Some (status, ioc')"
    using assms(2) by (auto simp: ioc_command_def split: if_splits)
  then show ?thesis
    using execute_reachable [OF assms(1), of Build] execute_reachable [OF assms(1), of Run]
      execute_reachable [OF assms(1), of Pause] iocInit_reachable [OF assms(1)] by auto
qed

text \<open>Whatever is typed into the shell, the IOC stays in a reachable state, so its invariant holds.\<close>

lemma session_reachable:
  "ioc_reachable env ioc \<Longrightarrow> foldM (\<lambda>name ioc. map_option snd (ioc_command env name ioc)) names ioc = Some ioc' \<Longrightarrow>
   ioc_reachable env (exitDatabase ioc')"
proof (induction names arbitrary: ioc)
  case Nil
  then show ?case
    using execute_reachable [of env ioc Shutdown "fst (diode_iocShutdown ioc)" "exitDatabase ioc"]
    by (simp add: exitDatabase_def)
next
  case (Cons name names)
  then obtain status ioc1 where "ioc_command env name ioc = Some (status, ioc1)"
    "foldM (\<lambda>name ioc. map_option snd (ioc_command env name ioc)) names ioc1 = Some ioc'"
    by (auto simp: bind_eq_Some_conv)
  with Cons.IH ioc_command_reachable [OF Cons.prems(1)] show ?case by blast
qed

text \<open>
  No command leaves the half-built state in which a failing \<open>asInit\<close> ends a build: the shutdown, which
  would, is not among the registered commands.
\<close>

lemma half_built_stays:
  assumes "io_state ioc = IocBuilding" "ioc_command env name ioc = Some (status, ioc')"
  shows "status \<noteq> 0 \<and> ioc' = ioc"
  using assms
  by (auto simp: ioc_command_def diode_iocInit_def diode_iocBuild_def iocBuild_1_def diode_iocRun_def diode_iocPause_def
      split: if_splits)

end
