(* ===== verification/Dump.thy ===== *)
theory Dump
  imports Serializer
begin

text \<open>
  The hexadecimal dump of a serializer (the end of \<open>src/protocol.cpp\<close>): lines of sixteen bytes with an
  address, the bytes in groups of four, and the printable characters.
\<close>

subsection \<open>Numbers\<close>

function ilog2_loop :: "nat \<Rightarrow> nat \<Rightarrow> nat" where
  "ilog2_loop v n = (if v div 2 \<noteq> 0 then ilog2_loop (v div 2) (n + 1) else n)"
  by pat_completeness auto
termination by (relation "measure fst") auto

declare ilog2_loop.simps [simp del]

definition ilog2 :: "nat \<Rightarrow> nat" where
  "ilog2 v = ilog2_loop v 0"

definition bits2bytes :: "u64 \<Rightarrow> u64" where
  "bits2bytes v = (or (v - 1) 7 + 1) div 8"

definition hex_digit :: "nat \<Rightarrow> char" where
  "hex_digit n = ''0123456789abcdef'' ! n"

fun to_hex :: "nat \<Rightarrow> string" where
  "to_hex n = (if n < 16 then [hex_digit n] else to_hex (n div 16) @ [hex_digit (n mod 16)])"

declare to_hex.simps [simp del]

definition hex_width :: "nat \<Rightarrow> nat \<Rightarrow> string" where
  "hex_width w n = replicate (w - length (to_hex n)) (CHR ''0'') @ to_hex n"

subsection \<open>Lines\<close>

definition groupBy :: nat where "groupBy = 4"
definition perLine :: nat where "perLine = 16"

definition gap :: "nat \<Rightarrow> string" where
  "gap col = (if col mod groupBy = 0 then '' '' else [])"

definition hex_column :: "serializer \<Rightarrow> nat \<Rightarrow> nat \<Rightarrow> nat \<Rightarrow> string \<Rightarrow> string option" where
  "hex_column s len start col out =
     (if start + col < len
      then map_option (\<lambda>b. out @ gap col @ hex_width 2 (unat b)) (ser_at s (start + col))
      else Some (out @ gap col @ ''  ''))"

definition text_column :: "serializer \<Rightarrow> nat \<Rightarrow> nat \<Rightarrow> string \<Rightarrow> string option" where
  "text_column s start col out =
     map_option (\<lambda>b. out @ gap col @ (if 0x20 \<le> b \<and> b \<le> 0x7e then [char_of (unat b)] else ''.'')) (ser_at s (start + col))"

definition dump_line :: "serializer \<Rightarrow> nat \<Rightarrow> nat \<Rightarrow> nat \<Rightarrow> string \<Rightarrow> string option" where
  "dump_line s len addrwidth l out =
     (let start = l * perLine in
      do {
        out \<leftarrow> foldM (hex_column s len start) [0 ..< perLine] (out @ ''0x'' @ hex_width addrwidth start);
        out \<leftarrow> foldM (text_column s start) [0 ..< min perLine (len - start)] (out @ '' '');
        Some (out @ [CHR 0x0A])
      })"

definition dump :: "serializer \<Rightarrow> string option" where
  "dump s =
     (let len = remaining s;
          addrwidth = unat (bits2bytes (of_nat (ilog2 len)) * 2);
          nlines = len div perLine + (if len mod perLine \<noteq> 0 then 1 else 0)
      in foldM (dump_line s len addrwidth) [0 ..< nlines] [])"

subsection \<open>The dump always returns\<close>

lemma ilog2_loop_bounds: "0 < v \<Longrightarrow> 2 ^ (ilog2_loop v n - n) \<le> v \<and> v < 2 ^ (ilog2_loop v n - n + 1) \<and> n \<le> ilog2_loop v n"
proof (induction v n rule: ilog2_loop.induct)
  case (1 v n)
  show ?case
  proof (cases "v div 2 = 0")
    case True
    then have "ilog2_loop v n = n" by (subst ilog2_loop.simps) simp
    with True "1.prems" show ?thesis by simp
  next
    case False
    with "1.IH" have ih: "2 ^ (ilog2_loop (v div 2) (n + 1) - (n + 1)) \<le> v div 2"
      "v div 2 < 2 ^ (ilog2_loop (v div 2) (n + 1) - (n + 1) + 1)" "n + 1 \<le> ilog2_loop (v div 2) (n + 1)"
      by auto
    have e: "ilog2_loop v n = ilog2_loop (v div 2) (n + 1)"
      using False by (subst ilog2_loop.simps) simp
    define k where "k = ilog2_loop v n - (n + 1)"
    have k: "ilog2_loop v n - n = Suc k" "ilog2_loop (v div 2) (n + 1) - (n + 1) = k"
      using ih(3) e by (simp_all add: k_def)
    have "2 ^ k \<le> v div 2" "v div 2 < 2 * 2 ^ k"
      using ih(1,2) unfolding k(2) by simp_all
    then have "2 * 2 ^ k \<le> v" "v < 4 * 2 ^ k" by linarith+
    with ih(3) e show ?thesis unfolding k(1) by simp
  qed
qed

lemma ilog2_bounds: "0 < v \<Longrightarrow> 2 ^ ilog2 v \<le> v \<and> v < 2 ^ (ilog2 v + 1)"
  using ilog2_loop_bounds [of v 0] by (simp add: ilog2_def)

lemma dump_returns:
  assumes "ser_wf s"
  shows "\<exists>out. dump s = Some out"
proof -
  have at: "\<exists>b. ser_at s i = Some b" if "i < remaining s" for i
    using that assms by (auto simp: ser_at_def remaining_wf ser_wf_def)
  have line: "\<exists>out'. dump_line s (remaining s) w l out = Some out'" for w l out
  proof -
    let ?st = "l * perLine"
    have "\<exists>out'. foldM (hex_column s (remaining s) ?st) [0 ..< perLine] out = Some out' \<and> True" for out
      by (rule foldM_inv) (use at in \<open>auto simp: hex_column_def\<close>)
    moreover have "\<exists>out'. foldM (text_column s ?st) [0 ..< min perLine (remaining s - ?st)] out = Some out' \<and> True" for out
      by (rule foldM_inv) (use at in \<open>force simp: text_column_def\<close>)+
    ultimately show ?thesis
      unfolding dump_line_def Let_def by (metis (no_types, lifting) bind.simps(2))
  qed
  have "\<exists>out. foldM (dump_line s (remaining s) w) ns out0 = Some out \<and> True" for w ns out0
    by (rule foldM_inv) (use line in auto)
  then show ?thesis by (auto simp: dump_def Let_def)
qed

end
