(* ===== verification/Command_Line.thy ===== *)
theory Command_Line
  imports Support Config_Model Doubles
begin

text \<open>
  The option handling the command line programs share (\<open>src/diode_sender.cpp\<close>, \<open>diode_receiver.cpp\<close>,
  \<open>pvadiode_sender.cpp\<close>, \<open>pvadiode_receiver.cpp\<close>, \<open>diode_dbgen.cpp\<close>). What \<open>getopt\<close> reports is a list of
  events: an option with its argument, an unknown option, a missing argument. The texts written to
  the terminal are output only.
\<close>

datatype getopt = Opt char string | Unknown_Option char | Missing_Argument char

record options =
  op_debug :: int
  op_seconds :: double
  op_config :: string
  op_address :: string

definition default_options :: options where
  "default_options = \<lparr>op_debug = 0, op_seconds = 0, op_config = ''diode.json'', op_address = ''0.0.0.0''\<rparr>"

text \<open>
  One option: \<open>Inl\<close> is the exit status of the program. \<open>seconds\<close> is the letter of the time option (\<open>r\<close>,
  or \<open>w\<close> in the generator); only the receivers have the address option \<open>i\<close>.
\<close>

fun run_option ::
  "(string \<Rightarrow> double option) \<Rightarrow> char \<Rightarrow> bool \<Rightarrow> getopt \<Rightarrow> options \<Rightarrow> int + options" where
  "run_option scan_double seconds has_address (Unknown_Option c) opts = Inl 1"
| "run_option scan_double seconds has_address (Missing_Argument c) opts = Inl 1"
| "run_option scan_double seconds has_address (Opt c arg) opts =
     (if c = CHR ''h'' then Inl 0
      else if c = CHR ''V'' then Inl 0
      else if c = CHR ''d'' then Inr (opts\<lparr>op_debug := op_debug opts + 1\<rparr>)
      else if c = seconds then
        (case scan_double arg of None \<Rightarrow> Inr opts | Some x \<Rightarrow> Inr (opts\<lparr>op_seconds := x\<rparr>))
      else if c = CHR ''c'' then Inr (opts\<lparr>op_config := arg\<rparr>)
      else if has_address \<and> c = CHR ''i'' then Inr (opts\<lparr>op_address := arg\<rparr>)
      else Inl 1)"

fun run_options ::
  "(string \<Rightarrow> double option) \<Rightarrow> char \<Rightarrow> bool \<Rightarrow> getopt list \<Rightarrow> options \<Rightarrow> int + options" where
  "run_options scan_double seconds has_address [] opts = Inr opts"
| "run_options scan_double seconds has_address (e # es) opts =
     (case run_option scan_double seconds has_address e opts of
        Inl status \<Rightarrow> Inl status
      | Inr opts \<Rightarrow> run_options scan_double seconds has_address es opts)"

end
