(* ===== verification/Dbgen.thy ===== *)
theory Dbgen
  imports Command_Line CA_Setup
begin

text \<open>
  The database generator (\<open>src/diode_dbgen.cpp\<close>): the text of a record from the control structure of
  its channel, and the loop that numbers the channels of a configuration. The output is the list of
  operands of \<open><<\<close>: text, unsigned numbers and limits, whose printing is the library's.
\<close>

subsection \<open>Control structures\<close>

datatype limit = Lim_Int int | Lim_Char u8 | Lim_Float u32 | Lim_Double u64

text \<open>\<open>isnan\<close> and the comparison with 0, on the bits of the floating point types.\<close>

fun lim_isnan :: "limit \<Rightarrow> bool" where
  "lim_isnan (Lim_Float w) = (and w 0x7fffffff > 0x7f800000)"
| "lim_isnan (Lim_Double w) = (and w 0x7fffffffffffffff > 0x7ff0000000000000)"
| "lim_isnan _ = False"

fun lim_zero :: "limit \<Rightarrow> bool" where
  "lim_zero (Lim_Int i) = (i = 0)"
| "lim_zero (Lim_Char c) = (c = 0)"
| "lim_zero (Lim_Float w) = (and w 0x7fffffff = 0)"
| "lim_zero (Lim_Double w) = (and w 0x7fffffffffffffff = 0)"

record ctrl_limits =
  cl_precision :: "int option"
  cl_units :: string
  cl_upper_alarm :: limit
  cl_upper_warning :: limit
  cl_lower_warning :: limit
  cl_lower_alarm :: limit
  cl_upper_ctrl :: limit
  cl_lower_ctrl :: limit

datatype ctrl_data = Sts_String | Ctrl_Numeric ctrl_limits | Ctrl_Enum int "string list"

datatype token = T_Str string | T_Num nat | T_Limit limit

definition open_item :: "string \<Rightarrow> token" where
  "open_item s = T_Str (s @ [CHR 0x22])"

definition close_item :: token where
  "close_item = T_Str [CHR 0x22, CHR '')'', CHR 0x0A]"

definition limit_item :: "string \<Rightarrow> limit \<Rightarrow> token list" where
  "limit_item s l = [open_item s, T_Limit l, close_item]"

definition generate_units_and_limits :: "ctrl_limits \<Rightarrow> token list" where
  "generate_units_and_limits d =
     (if cl_units d \<noteq> [] then [open_item ''  field(EGU,  '', T_Str (cl_units d), close_item] else []) @
     (if \<not> lim_isnan (cl_upper_alarm d) then limit_item ''  field(HIHI, '' (cl_upper_alarm d) else []) @
     (if \<not> lim_isnan (cl_upper_warning d) then limit_item ''  field(HIGH, '' (cl_upper_warning d) else []) @
     (if \<not> lim_isnan (cl_lower_warning d) then limit_item ''  field(LOW,  '' (cl_lower_warning d) else []) @
     (if \<not> lim_isnan (cl_lower_alarm d) then limit_item ''  field(LOLO, '' (cl_lower_alarm d) else []) @
     (if \<not> (lim_zero (cl_upper_ctrl d) \<and> lim_zero (cl_lower_ctrl d))
      then limit_item ''  field(HOPR, '' (cl_upper_ctrl d) @ limit_item ''  field(LOPR, '' (cl_lower_ctrl d) else [])"

text \<open>
  The overload for floating point types is a template whose parameter cannot be deduced: it is never
  selected and every numeric structure goes through the general one.
\<close>

definition generate_ctrl :: "ctrl_limits \<Rightarrow> token list" where
  "generate_ctrl d = generate_units_and_limits d"

definition generate_ctrl_string :: "token list" where
  "generate_ctrl_string = []"

definition record_head :: "u32 \<Rightarrow> string \<Rightarrow> string \<Rightarrow> token list" where
  "record_head channel_index channel_name record_type =
     [T_Str ''record('', T_Str record_type, open_item '', '', T_Str channel_name,
      T_Str [CHR 0x22, CHR '')'', CHR 0x0A, CHR 0x7B, CHR 0x0A],
      open_item ''  info(diode_cix, '', T_Num (unat channel_index), close_item]"

definition record_tail :: token where
  "record_tail = T_Str [CHR 0x7D, CHR 0x0A, CHR 0x0A]"

definition waveform_types :: "string list" where
  "waveform_types = [''waveform'', ''aai'', ''aao'', ''subArray'']"

definition generate_record_from_ctrl ::
  "string list \<Rightarrow> u32 \<Rightarrow> string \<Rightarrow> string \<Rightarrow> nat \<Rightarrow> u32 \<Rightarrow> token list \<Rightarrow> token list option" where
  "generate_record_from_ctrl dbr_text channel_index channel_name record_type type count ctrl =
     do {
       items \<leftarrow> (if record_type \<in> set waveform_types
         then map_option (\<lambda>t. [open_item ''  field(FTVL, '', T_Str (drop 4 t), close_item,
                open_item ''  field(NELM, '', T_Num (unat count), close_item]) (vec_at dbr_text type)
         else if record_type = ''compress''
         then Some [open_item ''  field(NSAM, '', T_Num (unat count), close_item]
         else Some []);
       Some (record_head channel_index channel_name record_type @ items @ ctrl @ [record_tail])
     }"

definition MBBI_ENUMS :: "string list" where
  "MBBI_ENUMS =
     [''ZRST'', ''ONST'', ''TWST'', ''THST'', ''FRST'', ''FVST'', ''SXST'', ''SVST'',
      ''EIST'', ''NIST'', ''TEST'', ''ELST'', ''TVST'', ''TTST'', ''FTST'', ''FFST'']"

text \<open>A state number past the table of names or of the structure is \<open>None\<close>.\<close>

definition enum_item :: "string list \<Rightarrow> nat \<Rightarrow> token list \<Rightarrow> token list option" where
  "enum_item strs n out =
     do { field \<leftarrow> vec_at MBBI_ENUMS n;
          str \<leftarrow> vec_at strs n;
          Some (out @ [T_Str ''  field('', T_Str field, open_item '',  '', T_Str str, close_item]) }"

definition generate_record_from_enum :: "u32 \<Rightarrow> string \<Rightarrow> string \<Rightarrow> int \<Rightarrow> string list \<Rightarrow> token list option" where
  "generate_record_from_enum channel_index channel_name record_type no_str strs =
     map_option (\<lambda>out. out @ [record_tail])
       (foldM (enum_item strs) [0 ..< nat no_str] (record_head channel_index channel_name record_type))"

subsection \<open>The channels of a configuration\<close>

datatype ctrl_kind = K_String | K_Short | K_Int | K_Float | K_Enum | K_Char | K_Long | K_Double

text \<open>
  The tables and macros of EPICS base, and what the server of a channel answers: the status of
  \<open>ca_create_channel\<close>, the name, the record type, the native type and count of the channel, and the
  contents of \<open>data\<close> after the last request, read as each control structure.
\<close>

record dbgen_lib =
  dl_dbr_text :: "string list"
  dl_to_DBR_CTRL :: "nat \<Rightarrow> nat"
  dl_DBR_CTRL :: "ctrl_kind \<Rightarrow> nat"

record dbgen_answer =
  an_result :: ca_status
  an_name :: string
  an_record_type :: string
  an_type :: nat
  an_count :: u32
  an_data :: "ctrl_kind \<Rightarrow> ctrl_data"

definition generate_from ::
  "dbgen_lib \<Rightarrow> dbgen_answer \<Rightarrow> u32 \<Rightarrow> ctrl_data \<Rightarrow> token list option" where
  "generate_from lib a i d =
     (let gen = generate_record_from_ctrl (dl_dbr_text lib) i (an_name a) (an_record_type a) (an_type a) (an_count a)
      in case d of
           Sts_String \<Rightarrow> gen generate_ctrl_string
         | Ctrl_Numeric c \<Rightarrow> gen (generate_ctrl c)
         | Ctrl_Enum n strs \<Rightarrow> generate_record_from_enum i (an_name a) (an_record_type a) n strs)"

definition dispatch_kind :: "dbgen_lib \<Rightarrow> nat \<Rightarrow> ctrl_kind option" where
  "dispatch_kind lib get_type =
     find (\<lambda>k. get_type = dl_DBR_CTRL lib k) [K_String, K_Short, K_Int, K_Float, K_Enum, K_Char, K_Long, K_Double]"

record dbgen_state =
  dg_index :: u32
  dg_out :: "token list"
  dg_errors :: "(ca_status \<times> string) list"

definition dbgen_channel ::
  "dbgen_lib \<Rightarrow> (string \<Rightarrow> dbgen_answer) \<Rightarrow> config_channel \<Rightarrow> dbgen_state \<Rightarrow> dbgen_state option" where
  "dbgen_channel lib answer cc st =
     (let a = answer (cc_name cc) in
      do {
        out \<leftarrow> (case dispatch_kind lib (dl_to_DBR_CTRL lib (an_type a)) of
                  None \<Rightarrow> Some []
                | Some k \<Rightarrow> generate_from lib a (dg_index st) (an_data a k));
        Some \<lparr>dg_index = dg_index st + of_nat (length (cc_extra cc) + length (cc_polled cc) + 1),
          dg_out = dg_out st @ out,
          dg_errors = dg_errors st @ (if an_result a \<noteq> ECA_NORMAL then [(an_result a, cc_name cc)] else [])\<rparr>
      })"

definition dbgen_start :: "token list \<Rightarrow> dbgen_state" where
  "dbgen_start out = \<lparr>dg_index = 0, dg_out = out, dg_errors = []\<rparr>"

definition dbgen_records ::
  "dbgen_lib \<Rightarrow> (string \<Rightarrow> dbgen_answer) \<Rightarrow> config \<Rightarrow> token list \<Rightarrow> dbgen_state option" where
  "dbgen_records lib answer cfg out = foldM (dbgen_channel lib answer) (cfg_channels cfg) (dbgen_start out)"

subsection \<open>The program\<close>

datatype dbgen_target = To_Stdout | To_File string

definition dbgen_header :: "token list" where
  "dbgen_header = [T_Str ''# generated by '', T_Str ''diode_dbgen'', T_Str [CHR 0x0A], T_Str [CHR 0x0A]]"

text \<open>
  Errors end the program with status 1; a header goes to a file only, before the configuration is
  read. The level for the logger is the second component.
\<close>

definition dbgen_main ::
  "(string \<Rightarrow> double option) \<Rightarrow> (string \<Rightarrow> 'e + config) \<Rightarrow> ca_status \<Rightarrow> dbgen_lib \<Rightarrow> (string \<Rightarrow> dbgen_answer) \<Rightarrow>
   getopt list \<Rightarrow> string list \<Rightarrow> (int \<times> log_level option \<times> (dbgen_target \<times> token list) option) option" where
  "dbgen_main scan_double load context lib answer events rest =
     (case run_options scan_double (CHR ''w'') False events default_options of
        Inl status \<Rightarrow> Some (status, None, None)
      | Inr opts \<Rightarrow>
          if length rest > 1 then Some (1, None, None)
          else
            let target = (if length rest = 1 then To_File (hd rest) else To_Stdout);
                hd_out = (if length rest = 1 then dbgen_header else []);
                level = from_verbosity (op_debug opts)
            in case load (op_config opts) of
                 Inl e \<Rightarrow> Some (1, Some level, Some (target, hd_out))
               | Inr cfg \<Rightarrow>
                   if context \<noteq> ECA_NORMAL then Some (1, Some level, Some (target, hd_out))
                   else map_option (\<lambda>st. (0, Some level, Some (target, dg_out st))) (dbgen_records lib answer cfg hd_out))"

subsection \<open>Numbers\<close>

lemma dbgen_index:
  assumes "foldM (dbgen_channel lib answer) ccs st = Some st'"
  shows "dg_index st' = dg_index st + of_nat (sum_list (map channel_width ccs))"
  using assms
proof (induction ccs arbitrary: st)
  case (Cons cc ccs)
  then obtain st1 where st1: "dbgen_channel lib answer cc st = Some st1" "foldM (dbgen_channel lib answer) ccs st1 = Some st'"
    by (auto simp: bind_eq_Some_conv)
  then have "dg_index st1 = dg_index st + of_nat (channel_width cc)"
    by (auto simp: dbgen_channel_def Let_def bind_eq_Some_conv channel_width_def algebra_simps)
  with Cons.IH [OF st1(2)] show ?case by (simp add: add.assoc)
qed simp

end
