(* ===== verification/Pvxs_Wire.thy ===== *)
theory Pvxs_Wire
  imports Protocol
begin

text \<open>
  The contiguous buffer and the primitive encodings of the PVXS headers (\<open>pvxs_headers/pvaproto.h\<close>; what
  the copy in \<open>pvxs_headers_1_1_1\<close> has different is in \<open>Pvxs_Older\<close>). A \<open>FixedBuf\<close> is a cursor like the \<open>Serializer\<close>: the two share the model
  of position, limit and memory, and \<open>ser_good\<close> is the absence of a fault (\<open>!err\<close>). The byte order flag
  \<open>be\<close> is an argument; the host is little-endian (\<open>hostBE\<close> is false). A fixed buffer never refills.
\<close>

subsection \<open>The buffer\<close>

definition fb_ensure :: "nat \<Rightarrow> serializer \<Rightarrow> bool" where
  "fb_ensure i s \<longleftrightarrow> ser_good s \<and> i \<le> remaining s"

definition fault :: "serializer \<Rightarrow> serializer" where
  "fault s = s\<lparr>ser_good := False\<rparr>"

definition fb_skip :: "nat \<Rightarrow> serializer \<Rightarrow> serializer" where
  "fb_skip i s = (if i \<le> remaining s then advance i s else fault (s\<lparr>ser_pos := ser_limit s\<rparr>))"

text \<open>A \<open>FixedBuf\<close> over the rest of a serializer, and the position it hands back.\<close>

definition fixed_buf :: "serializer \<Rightarrow> serializer" where
  "fixed_buf s = s\<lparr>ser_good := True\<rparr>"

subsection \<open>Scalars\<close>

definition to_wire_n :: "bool \<Rightarrow> bytes \<Rightarrow> serializer \<Rightarrow> serializer option" where
  "to_wire_n be bs s = (if \<not> fb_ensure (length bs) s then Some (fault s) else ser_write (if be then rev bs else bs) s)"

definition from_wire_n :: "bool \<Rightarrow> nat \<Rightarrow> bytes \<Rightarrow> serializer \<Rightarrow> (bytes \<times> serializer) option" where
  "from_wire_n be n old s =
     (if \<not> fb_ensure n s then Some (old, fault s)
      else do { (bs, s) \<leftarrow> ser_read n s; Some (if be then rev bs else bs, s) })"

definition to_wire_u8 :: "u8 \<Rightarrow> serializer \<Rightarrow> serializer option" where
  "to_wire_u8 v s = (if \<not> fb_ensure 1 s then Some (fault s) else put_u8 v s)"

definition to_wire_u16 :: "bool \<Rightarrow> u16 \<Rightarrow> serializer \<Rightarrow> serializer option" where
  "to_wire_u16 be v = to_wire_n be (le_bytes 2 (unat v))"

definition to_wire_u32 :: "bool \<Rightarrow> u32 \<Rightarrow> serializer \<Rightarrow> serializer option" where
  "to_wire_u32 be v = to_wire_n be (le_bytes 4 (unat v))"

definition to_wire_u64 :: "bool \<Rightarrow> u64 \<Rightarrow> serializer \<Rightarrow> serializer option" where
  "to_wire_u64 be v = to_wire_n be (le_bytes 8 (unat v))"

text \<open>On a fault the variable keeps its old value.\<close>

definition from_wire_scalar :: "nat \<Rightarrow> bool \<Rightarrow> nat \<Rightarrow> serializer \<Rightarrow> (nat \<times> serializer) option" where
  "from_wire_scalar n be old s =
     do { (bs, s) \<leftarrow> from_wire_n be n (le_bytes n old) s; Some (le_nat bs, s) }"

definition from_wire_u32 :: "bool \<Rightarrow> u32 \<Rightarrow> serializer \<Rightarrow> (u32 \<times> serializer) option" where
  "from_wire_u32 be old s = do { (v, s) \<leftarrow> from_wire_scalar 4 be (unat old) s; Some (of_nat v, s) }"

definition from_wire_u8 :: "u8 \<Rightarrow> serializer \<Rightarrow> (u8 \<times> serializer) option" where
  "from_wire_u8 old s = do { (v, s) \<leftarrow> from_wire_scalar 1 False (unat old) s; Some (of_nat v, s) }"

definition from_wire_u16 :: "bool \<Rightarrow> u16 \<Rightarrow> serializer \<Rightarrow> (u16 \<times> serializer) option" where
  "from_wire_u16 be old s = do { (v, s) \<leftarrow> from_wire_scalar 2 be (unat old) s; Some (of_nat v, s) }"

definition from_wire_u64 :: "bool \<Rightarrow> u64 \<Rightarrow> serializer \<Rightarrow> (u64 \<times> serializer) option" where
  "from_wire_u64 be old s = do { (v, s) \<leftarrow> from_wire_scalar 8 be (unat old) s; Some (of_nat v, s) }"

subsection \<open>Sizes and selectors\<close>

definition to_wire_size :: "bool \<Rightarrow> nat \<Rightarrow> serializer \<Rightarrow> serializer option" where
  "to_wire_size be n s =
     (if \<not> fb_ensure 1 s then Some (fault s)
      else if n < 254 then put_u8 (of_nat n) s
      else if n \<le> 0xffffffff then do { s \<leftarrow> put_u8 254 s; to_wire_u32 be (of_nat n) s }
      else Some (fault s))"

definition from_wire_size :: "bool \<Rightarrow> bool \<Rightarrow> nat \<Rightarrow> serializer \<Rightarrow> (nat \<times> serializer) option" where
  "from_wire_size be allow_null old s =
     (if \<not> fb_ensure 1 s then Some (old, fault s)
      else do {
        (b, s) \<leftarrow> get_u8 s;
        if b < 254 then Some (unat b, s)
        else if b = 254 then do { (v, s) \<leftarrow> from_wire_u32 be 0 s; Some (unat v, s) }
        else if b = 255 \<and> allow_null then Some (2 ^ 64 - 1, s)
        else Some (old, fault s)
      })"

text \<open>A negative selector is the null of an empty union.\<close>

definition to_wire_selector :: "bool \<Rightarrow> int \<Rightarrow> serializer \<Rightarrow> serializer option" where
  "to_wire_selector be sel s =
     (if \<not> fb_ensure 1 s then Some (fault s)
      else if sel \<le> - 1 then put_u8 255 s
      else if sel < 254 then put_u8 (of_int sel) s
      else if sel \<le> 0xffffffff then do { s \<leftarrow> put_u8 254 s; to_wire_u32 be (of_int sel) s }
      else Some (fault s))"

definition from_wire_selector :: "bool \<Rightarrow> int \<Rightarrow> serializer \<Rightarrow> (int \<times> serializer) option" where
  "from_wire_selector be old s =
     (if \<not> fb_ensure 1 s then Some (old, fault s)
      else do {
        (b, s) \<leftarrow> get_u8 s;
        if b < 254 then Some (int (unat b), s)
        else if b = 254 then do { (v, s) \<leftarrow> from_wire_u32 be 0 s; Some (int (unat v), s) }
        else if b = 255 then Some (- 1, s)
        else Some (old, fault s)
      })"

subsection \<open>Strings and byte lists\<close>

definition to_wire_str :: "bool \<Rightarrow> bytes \<Rightarrow> serializer \<Rightarrow> serializer option" where
  "to_wire_str be bs s =
     do { s \<leftarrow> to_wire_size be (length bs) s;
          if \<not> fb_ensure (length bs) s then Some (fault s) else ser_write bs s }"

text \<open>A C string ends at its first zero byte.\<close>

definition to_wire_cstr :: "bool \<Rightarrow> bytes \<Rightarrow> serializer \<Rightarrow> serializer option" where
  "to_wire_cstr be bs = to_wire_str be (takeWhile (\<lambda>b. b \<noteq> 0) bs)"

definition from_wire_str :: "bool \<Rightarrow> bytes \<Rightarrow> serializer \<Rightarrow> (bytes \<times> serializer) option" where
  "from_wire_str be old s =
     do { (n, s) \<leftarrow> from_wire_size be True 0 s;
          if n = 2 ^ 64 - 1 then Some ([], s)
          else if \<not> fb_ensure n s then Some (old, fault s)
          else ser_read n s }"

definition to_wire_list :: "bytes \<Rightarrow> serializer \<Rightarrow> serializer option" where
  "to_wire_list bs s = (if \<not> fb_ensure (length bs) s then Some (fault s) else ser_write bs s)"

subsection \<open>Status\<close>

record status =
  st_code :: u8
  st_msg :: bytes
  st_trace :: bytes

definition status_success :: "status \<Rightarrow> bool" where
  "status_success st \<longleftrightarrow> st_code st = 0 \<or> st_code st = 1"

definition to_wire_status :: "bool \<Rightarrow> status \<Rightarrow> serializer \<Rightarrow> serializer option" where
  "to_wire_status be st s =
     (if \<not> fb_ensure 1 s then Some (fault s)
      else if st_code st = 0 \<and> st_msg st = [] \<and> st_trace st = [] then put_u8 255 s
      else do {
        s \<leftarrow> put_u8 (st_code st) s;
        s \<leftarrow> to_wire_cstr be (st_msg st) s;
        to_wire_cstr be (st_trace st) s
      })"

definition from_wire_status :: "bool \<Rightarrow> status \<Rightarrow> serializer \<Rightarrow> (status \<times> serializer) option" where
  "from_wire_status be old s =
     (if \<not> fb_ensure 1 s then Some (old, fault s)
      else do {
        b \<leftarrow> ser_at s 0;
        if b = 255 then Some (\<lparr>st_code = 0, st_msg = [], st_trace = []\<rparr>, advance 1 s)
        else do {
          (c, s) \<leftarrow> get_u8 s;
          (m, s) \<leftarrow> from_wire_str be (st_msg old) s;
          (t, s) \<leftarrow> from_wire_str be (st_trace old) s;
          Some (\<lparr>st_code = c, st_msg = m, st_trace = t\<rparr>, s)
        }
      })"

subsection \<open>Arrays\<close>

text \<open>
  The elements of an array of plain data as one block of host-order bytes; \<open>k\<close> is the element size, a
  power of two, so rounding down with a mask is subtracting the remainder.
\<close>

function swap_elems :: "nat \<Rightarrow> bytes \<Rightarrow> bytes" where
  "swap_elems k bs = (if k = 0 \<or> bs = [] then [] else rev (take k bs) @ swap_elems k (drop k bs))"
  by pat_completeness auto
termination
  by (relation "measure (\<lambda>(k, bs). length bs)") auto

declare swap_elems.simps [simp del]

definition wire_order :: "bool \<Rightarrow> nat \<Rightarrow> bytes \<Rightarrow> bytes" where
  "wire_order be k bs = (if be then swap_elems k bs else bs)"

partial_function (option) pod_out :: "bool \<Rightarrow> nat \<Rightarrow> bytes \<Rightarrow> serializer \<Rightarrow> serializer option" where
  "pod_out be k src s =
     (if src = [] then Some s
      else if \<not> fb_ensure k s then Some (fault s)
      else let m = min (remaining s) (length src); n = m - m mod k in
        Option.bind (ser_write (wire_order be k (take n src)) s) (\<lambda>s. pod_out be k (drop n src) s))"

partial_function (option) pod_in :: "bool \<Rightarrow> nat \<Rightarrow> nat \<Rightarrow> bytes \<Rightarrow> serializer \<Rightarrow> (bytes \<times> serializer) option" where
  "pod_in be k nremain dest s =
     (if nremain = 0 then Some (dest, s)
      else if \<not> fb_ensure k s then Some (dest, fault s)
      else let m = min (remaining s) nremain; n = m - m mod k in
        Option.bind (ser_read n s)
          (\<lambda>(bs, s). pod_in be k (nremain - n) (dest @ wire_order be k bs) s))"

text \<open>
  The elements are a list of \<open>k\<close>-byte images. The reader gives the bytes it stored: after a fault the
  rest of the array is as the allocation left it.
\<close>

definition to_wire_array :: "bool \<Rightarrow> nat \<Rightarrow> bytes list \<Rightarrow> serializer \<Rightarrow> serializer option" where
  "to_wire_array be k elems s =
     do { s \<leftarrow> to_wire_size be (length elems) s; pod_out be k (concat elems) s }"

definition from_wire_array :: "bool \<Rightarrow> nat \<Rightarrow> serializer \<Rightarrow> (bytes \<times> serializer) option" where
  "from_wire_array be k s =
     do { (n, s) \<leftarrow> from_wire_size be False 0 s; pod_in be k (n * k) [] s }"

text \<open>Elements of variable size (strings) one by one.\<close>

definition to_wire_strings :: "bool \<Rightarrow> bytes list \<Rightarrow> serializer \<Rightarrow> serializer option" where
  "to_wire_strings be elems s =
     do { s \<leftarrow> to_wire_size be (length elems) s; foldM (to_wire_str be) elems s }"

fun strings_in :: "bool \<Rightarrow> nat \<Rightarrow> serializer \<Rightarrow> (bytes list \<times> serializer) option" where
  "strings_in be 0 s = Some ([], s)"
| "strings_in be (Suc n) s =
     do { (x, s) \<leftarrow> from_wire_str be [] s; (xs, s) \<leftarrow> strings_in be n s; Some (x # xs, s) }"

definition from_wire_strings :: "bool \<Rightarrow> serializer \<Rightarrow> (bytes list \<times> serializer) option" where
  "from_wire_strings be s = do { (n, s) \<leftarrow> from_wire_size be False 0 s; strings_in be n s }"

subsection \<open>Message header\<close>

record pva_header =
  ph_cmd :: u8
  ph_flags :: u8
  ph_version :: u8
  ph_len :: u32

definition flag_Server :: u8 where "flag_Server = 0x40"
definition flag_MSB :: u8 where "flag_MSB = 0x80"

definition to_wire_header :: "bool \<Rightarrow> pva_header \<Rightarrow> serializer \<Rightarrow> serializer option" where
  "to_wire_header be h s =
     (if \<not> fb_ensure 8 s then Some (fault s)
      else do {
        s \<leftarrow> ser_write [0xca, 2, if be then or (ph_flags h) flag_MSB else ph_flags h, ph_cmd h] s;
        to_wire_u32 be (ph_len h) s
      })"

text \<open>Reading a header sets the byte order of the buffer.\<close>

definition from_wire_header :: "bool \<Rightarrow> pva_header \<Rightarrow> serializer \<Rightarrow> (bool \<times> pva_header \<times> serializer) option" where
  "from_wire_header be old s =
     (if \<not> fb_ensure 8 s then Some (be, old, fault s)
      else do {
        magic \<leftarrow> ser_at s 0;
        version \<leftarrow> ser_at s 1;
        if magic \<noteq> 0xca \<or> version = 0 then Some (be, old, fault s)
        else do {
          cmd \<leftarrow> ser_at s 3;
          flags \<leftarrow> ser_at s 2;
          let be = (and flags flag_MSB \<noteq> 0);
          (n, s) \<leftarrow> from_wire_u32 be (ph_len old) (fb_skip 4 s);
          Some (be, \<lparr>ph_cmd = cmd, ph_flags = flags, ph_version = version, ph_len = n\<rparr>, s)
        }
      })"

end
