(* ===== verification/Pvxs_Codec.thy ===== *)
theory Pvxs_Codec
  imports Pvxs_Wire
begin

text \<open>
  What the users of the PVXS encodings rely on, as the locale \<open>wire_format\<close>: an encoder either
  writes exactly the encoding of its value or marks the buffer faulty, it never writes outside the
  limit, and a decoder reads an encoding back. Formats compose (\<open>wire_pair\<close>). The locale is
  interpreted on the encodings of \<open>pvxs_headers/pvaproto.h\<close>.
\<close>

subsection \<open>Staying inside the buffer\<close>

definition inside :: "serializer \<Rightarrow> serializer \<Rightarrow> bool" where
  "inside s s' \<longleftrightarrow>
     ser_wf s' \<and> ser_limit s' = ser_limit s \<and> length (ser_mem s') = length (ser_mem s) \<and>
     ser_pos s \<le> ser_pos s' \<and>
     take (ser_pos s) (ser_mem s') = take (ser_pos s) (ser_mem s) \<and>
     drop (ser_limit s) (ser_mem s') = drop (ser_limit s) (ser_mem s)"

lemma within_refl [simp]: "inside s s \<longleftrightarrow> ser_wf s"
  by (simp add: inside_def)

lemma within_trans [trans]:
  assumes "inside s t" and "inside t u"
  shows "inside s u"
proof -
  have "take (ser_pos s) (take (ser_pos t) (ser_mem u)) = take (ser_pos s) (take (ser_pos t) (ser_mem t))"
    using assms(2) by (simp add: inside_def)
  then show ?thesis
    using assms by (simp add: inside_def min_def)
qed

lemma within_wf: "inside s t \<Longrightarrow> ser_wf t"
  by (simp add: inside_def)

lemma within_written:
  assumes "ser_wf s" and "length bs \<le> remaining s"
  shows "inside s (written bs s)"
proof -
  have le: "ser_pos s + length bs \<le> ser_limit s" "ser_limit s \<le> length (ser_mem s)"
    using assms by (auto simp: remaining_wf ser_wf_def)
  have "drop (ser_limit s) (ser_mem (written bs s)) = drop (ser_limit s) (ser_mem s)"
    using le by (simp add: written_def drop_patch_after)
  then show ?thesis
    using le written_wf [OF assms] by (simp add: inside_def written_def buf_simps)
qed

lemma fault_fields [simp]:
  "ser_mem (fault s) = ser_mem s" "ser_pos (fault s) = ser_pos s" "ser_limit (fault s) = ser_limit s"
  "\<not> ser_good (fault s)" "remaining (fault s) = remaining s"
  by (simp_all add: fault_def remaining_def)

lemma fault_wf [simp]: "ser_wf (fault s) \<longleftrightarrow> ser_wf s"
  by (simp add: fault_def ser_wf_def)

lemma within_fault [simp]: "inside s (fault t) \<longleftrightarrow> inside s t"
  by (simp add: inside_def)

lemma advance_wf: "ser_wf s \<Longrightarrow> n \<le> remaining s \<Longrightarrow> ser_wf (advance n s) \<and> remaining (advance n s) = remaining s - n"
  by (auto simp: ser_wf_def advance_def remaining_wf)

lemma within_advance: "ser_wf s \<Longrightarrow> n \<le> remaining s \<Longrightarrow> inside s (advance n s)"
  using advance_wf [of s n] by (simp add: inside_def ser_fields)

text \<open>A decoder only moves the cursor.\<close>

definition reads :: "serializer \<Rightarrow> serializer \<Rightarrow> bool" where
  "reads s s' \<longleftrightarrow> inside s s' \<and> ser_mem s' = ser_mem s"

lemma reads_refl [simp]: "reads s s \<longleftrightarrow> ser_wf s"
  by (simp add: reads_def)

lemma reads_trans [trans]: "reads s t \<Longrightarrow> reads t u \<Longrightarrow> reads s u"
  by (auto simp: reads_def intro: within_trans)

lemma reads_fault [simp]: "reads s (fault t) \<longleftrightarrow> reads s t"
  by (simp add: reads_def)

lemma reads_wf: "reads s t \<Longrightarrow> ser_wf t"
  by (simp add: reads_def inside_def)

lemma reads_advance: "ser_wf s \<Longrightarrow> n \<le> remaining s \<Longrightarrow> reads s (advance n s)"
  by (simp add: reads_def within_advance ser_fields)

subsection \<open>The interface\<close>

text \<open>The outcome of an encoder whose encoding of the value is \<open>bs\<close>.\<close>

definition encoded :: "bytes \<Rightarrow> serializer \<Rightarrow> serializer \<Rightarrow> bool" where
  "encoded bs s s' \<longleftrightarrow>
     inside s s' \<and>
     (if ser_good s \<and> length bs \<le> remaining s then s' = written bs s else \<not> ser_good s')"

lemma encoded_append:
  assumes "encoded a s t" "encoded b t u" "ser_wf s"
  shows "encoded (a @ b) s u"
proof -
  have w: "inside s u" using assms(1,2) by (auto simp: encoded_def intro: within_trans)
  show ?thesis
  proof (cases "ser_good s \<and> length a \<le> remaining s")
    case False
    then have "\<not> ser_good t" using assms(1) by (simp add: encoded_def)
    with assms(2) False w show ?thesis by (auto simp: encoded_def)
  next
    case True
    then have t: "t = written a s" using assms(1) by (simp add: encoded_def)
    have r: "remaining t = remaining s - length a" "ser_good t"
      using True written_wf [OF assms(3)] by (simp_all add: t written_fields)
    have "ser_pos s + remaining s \<le> length (ser_mem s)"
      using assms(3) by (simp add: remaining_wf ser_wf_def)
    then have "length b \<le> remaining s - length a \<Longrightarrow> written b t = written (a @ b) s"
      unfolding t using True by (intro written_append) linarith
    with assms(2) r True w show ?thesis by (auto simp: encoded_def)
  qed
qed

text \<open>
  \<open>encodes f bs\<close>: the encoder \<open>f\<close> writes \<open>bs\<close> or faults. \<open>decodes f\<close>: the decoder \<open>f\<close> always returns,
  only moves the cursor inside the limit and never clears a fault. \<open>decodes_to f bs v\<close>: it reads
  \<open>bs\<close> as \<open>v\<close>. The three are closed under sequencing.
\<close>

definition encodes :: "(serializer \<Rightarrow> serializer option) \<Rightarrow> bytes \<Rightarrow> bool" where
  "encodes f bs \<longleftrightarrow> (\<forall>s. ser_wf s \<longrightarrow> (\<exists>s'. f s = Some s' \<and> encoded bs s s'))"

definition decodes :: "(serializer \<Rightarrow> ('a \<times> serializer) option) \<Rightarrow> bool" where
  "decodes f \<longleftrightarrow>
     (\<forall>s. ser_wf s \<longrightarrow> (\<exists>v s'. f s = Some (v, s') \<and> reads s s' \<and> (ser_good s' \<longrightarrow> ser_good s)))"

definition decodes_to :: "(serializer \<Rightarrow> ('a \<times> serializer) option) \<Rightarrow> bytes \<Rightarrow> 'a \<Rightarrow> bool" where
  "decodes_to f bs v \<longleftrightarrow>
     (\<forall>s. ser_wf s \<longrightarrow> ser_good s \<longrightarrow> length bs \<le> remaining s \<longrightarrow> at_cursor bs s \<longrightarrow>
        f s = Some (v, advance (length bs) s))"

lemma encodesD:
  assumes "encodes f bs" "ser_wf s"
  obtains s' where "f s = Some s'" "encoded bs s s'" "ser_wf s'"
  using assms by (auto simp: encodes_def encoded_def intro: within_wf)

lemma decodesD:
  assumes "decodes f" "ser_wf s"
  obtains v s' where "f s = Some (v, s')" "reads s s'" "ser_good s' \<longrightarrow> ser_good s" "ser_wf s'"
  using assms by (fastforce simp: decodes_def intro: reads_wf)

lemma encodes_then:
  assumes "encodes f a" "encodes g b"
  shows "encodes (\<lambda>s. Option.bind (f s) g) (a @ b)"
  unfolding encodes_def
proof (intro allI impI)
  fix s assume s: "ser_wf s"
  from encodesD [OF assms(1) s] obtain t where t: "f s = Some t" "encoded a s t" "ser_wf t" .
  from encodesD [OF assms(2) t(3)] obtain u where "g t = Some u" "encoded b t u" .
  with t encoded_append [OF t(2) _ s] show "\<exists>u. Option.bind (f s) g = Some u \<and> encoded (a @ b) s u" by auto
qed

lemma decodes_then:
  assumes "decodes f" "\<And>x. decodes (g x)"
  shows "decodes (\<lambda>s. Option.bind (f s) (\<lambda>(x, s). g x s))"
  unfolding decodes_def
proof (intro allI impI)
  fix s assume s: "ser_wf s"
  from decodesD [OF assms(1) s] obtain x t
    where t: "f s = Some (x, t)" "reads s t" "ser_good t \<longrightarrow> ser_good s" "ser_wf t" .
  from decodesD [OF assms(2) t(4)] obtain y u
    where "g x t = Some (y, u)" "reads t u" "ser_good u \<longrightarrow> ser_good t" .
  with t reads_trans [OF t(2)]
  show "\<exists>v s'. Option.bind (f s) (\<lambda>(x, s). g x s) = Some (v, s') \<and> reads s s' \<and> (ser_good s' \<longrightarrow> ser_good s)"
    by auto
qed

lemma decodes_return: "decodes (\<lambda>s. Some (v, s))"
  by (simp add: decodes_def)

lemma decodes_fault: "decodes (\<lambda>s. Some (v, fault s))"
  by (simp add: decodes_def)

lemma decodes_if: "\<lbrakk>\<And>s. P s \<Longrightarrow> decodes f; \<And>s. \<not> P s \<Longrightarrow> decodes g\<rbrakk> \<Longrightarrow> decodes (\<lambda>s. if P s then f s else g s)"
  by (auto simp: decodes_def)

lemma decodes_to_then:
  assumes "decodes_to f a x" "decodes_to (g x) b y"
  shows "decodes_to (\<lambda>s. Option.bind (f s) (\<lambda>(x, s). g x s)) (a @ b) y"
  unfolding decodes_to_def
proof (intro allI impI)
  fix s
  assume s: "ser_wf s" "ser_good s" "length (a @ b) \<le> remaining s" "at_cursor (a @ b) s"
  then have "f s = Some (x, advance (length a) s)"
    using assms(1) by (simp add: decodes_to_def at_cursor_append)
  moreover have "g x (advance (length a) s) = Some (y, advance (length b) (advance (length a) s))"
    using assms(2) s advance_wf [of s "length a"] by (simp add: decodes_to_def at_cursor_append ser_fields)
  ultimately show "Option.bind (f s) (\<lambda>(x, s). g x s) = Some (y, advance (length (a @ b)) s)"
    by simp
qed

lemma decodes_to_return: "decodes_to (\<lambda>s. Some (v, s)) [] v"
  by (simp add: decodes_to_def)

lemmas codec_rules = encodes_then decodes_then decodes_to_then decodes_return decodes_fault decodes_to_return

lemma encodes_good:
  assumes "encodes f bs" "f s = Some s'" "ser_good s'" "ser_wf s"
  shows "ser_good s \<and> length bs \<le> remaining s \<and> s' = written bs s"
proof -
  from encodesD [OF assms(1,4)] obtain t where "f s = Some t" "encoded bs s t" .
  with assms(2,3) show ?thesis by (simp add: encoded_def split: if_splits)
qed

lemma codec_roundtrip:
  assumes "encodes f bs" "decodes_to g bs v" "f s = Some s'" "ser_good s'" "ser_wf s"
  shows "g (s'\<lparr>ser_pos := ser_pos s\<rparr>) = Some (v, s')"
proof -
  let ?s = "written bs s" and ?r = "(written bs s)\<lparr>ser_pos := ser_pos s\<rparr>"
  from encodes_good [OF assms(1,3,4,5)] have g: "ser_good s" "length bs \<le> remaining s" and s': "s' = ?s" by auto
  have "ser_pos s + length bs \<le> ser_limit s" "ser_limit s \<le> length (ser_mem s)"
    using assms(5) g by (auto simp: remaining_wf ser_wf_def)
  then have "at_cursor bs ?r" "ser_wf ?r"
    using assms(5) written_wf [OF assms(5) g(2)]
    by (auto simp: at_cursor_def written_def buf_simps ser_wf_def)
  moreover have "ser_good ?r" "remaining ?r = remaining s" "advance (length bs) ?r = ?s"
    using g by (simp_all add: written_def advance_def remaining_def)
  ultimately show ?thesis using assms(2) g s' by (simp add: decodes_to_def)
qed

lemma codec_total:
  assumes "encodes f bs" "decodes_to g bs v" "ser_wf s"
  shows "\<exists>s'. f s = Some s' \<and> (ser_good s' \<longleftrightarrow> ser_good s \<and> length bs \<le> remaining s) \<and>
    (ser_good s' \<longrightarrow> g (s'\<lparr>ser_pos := ser_pos s\<rparr>) = Some (v, s'))"
proof -
  from encodesD [OF assms(1,3)] obtain s' where s': "f s = Some s'" "encoded bs s s'" .
  then have "ser_good s' \<longleftrightarrow> ser_good s \<and> length bs \<le> remaining s"
    by (auto simp: encoded_def written_fields split: if_splits)
  with s'(1) codec_roundtrip [OF assms(1,2) s'(1) _ assms(3)] show ?thesis by blast
qed

locale wire_format =
  fixes put :: "'a \<Rightarrow> serializer \<Rightarrow> serializer option"
    and get :: "'a \<Rightarrow> serializer \<Rightarrow> ('a \<times> serializer) option"
    and enc :: "'a \<Rightarrow> bytes"
    and ok :: "'a \<Rightarrow> bool"
  assumes put_law: "ok v \<Longrightarrow> encodes (put v) (enc v)"
    and get_law: "decodes (get old)"
    and get_enc: "ok v \<Longrightarrow> decodes_to (get old) (enc v) v"
begin

lemma put_good:
  "put v s = Some s' \<Longrightarrow> ser_good s' \<Longrightarrow> ok v \<Longrightarrow> ser_wf s \<Longrightarrow>
   ser_good s \<and> length (enc v) \<le> remaining s \<and> s' = written (enc v) s"
  by (rule encodes_good [OF put_law])

lemma put_within:
  assumes "put v s = Some s'" "ok v" "ser_wf s"
  shows "inside s s'"
proof -
  from encodesD [OF put_law [OF assms(2)] assms(3)] obtain t where "put v s = Some t" "encoded (enc v) s t" .
  with assms(1) show ?thesis by (simp add: encoded_def)
qed

text \<open>What was encoded without a fault is decoded to the same value, and the decoder stops where the encoder did.\<close>

lemma roundtrip:
  assumes "put v s = Some s'" "ser_good s'" "ok v" "ser_wf s"
  shows "get old (s'\<lparr>ser_pos := ser_pos s\<rparr>) = Some (v, s')"
  using codec_roundtrip [OF put_law [OF assms(3)] get_enc [OF assms(3)]] assms(1,2,4) by blast

end

text \<open>Two formats one after the other are a format.\<close>

definition put_then :: "('a \<Rightarrow> serializer \<Rightarrow> serializer option) \<Rightarrow> ('b \<Rightarrow> serializer \<Rightarrow> serializer option) \<Rightarrow>
    'a \<times> 'b \<Rightarrow> serializer \<Rightarrow> serializer option" where
  "put_then puta putb v s = Option.bind (puta (fst v) s) (putb (snd v))"

definition get_then :: "('a \<Rightarrow> serializer \<Rightarrow> ('a \<times> serializer) option) \<Rightarrow>
    ('b \<Rightarrow> serializer \<Rightarrow> ('b \<times> serializer) option) \<Rightarrow> 'a \<times> 'b \<Rightarrow> serializer \<Rightarrow> (('a \<times> 'b) \<times> serializer) option" where
  "get_then geta getb old s =
     Option.bind (geta (fst old) s) (\<lambda>(x, s). Option.bind (getb (snd old) s) (\<lambda>(y, s). Some ((x, y), s)))"

locale wire_pair =
  a: wire_format puta geta enca oka + b: wire_format putb getb encb okb
  for puta :: "'a \<Rightarrow> serializer \<Rightarrow> serializer option" and geta enca oka
    and putb :: "'b \<Rightarrow> serializer \<Rightarrow> serializer option" and getb encb okb

sublocale wire_pair \<subseteq> both: wire_format "put_then puta putb" "get_then geta getb"
  "\<lambda>v. enca (fst v) @ encb (snd v)" "\<lambda>v. oka (fst v) \<and> okb (snd v)"
proof
  fix v :: "'a \<times> 'b"
  assume "oka (fst v) \<and> okb (snd v)"
  then show "encodes (put_then puta putb v) (enca (fst v) @ encb (snd v))"
    unfolding put_then_def by (intro codec_rules a.put_law b.put_law) auto
next
  fix old :: "'a \<times> 'b"
  show "decodes (get_then geta getb old)"
    unfolding get_then_def by (intro codec_rules a.get_law b.get_law)
next
  fix old v :: "'a \<times> 'b"
  assume ok: "oka (fst v) \<and> okb (snd v)"
  have "decodes_to (get_then geta getb old) (enca (fst v) @ encb (snd v) @ []) (fst v, snd v)"
    unfolding get_then_def using ok
    by (intro decodes_to_then [OF a.get_enc decodes_to_then [OF b.get_enc decodes_to_return]]) simp_all
  then show "decodes_to (get_then geta getb old) (enca (fst v) @ encb (snd v)) v" by simp
qed

subsection \<open>The primitive encodings\<close>

lemma encodes_block:
  "encodes (\<lambda>s. if \<not> fb_ensure (length bs) s then Some (fault s) else ser_write bs s) bs"
  by (auto simp: encodes_def encoded_def fb_ensure_def ser_write_wf_fits within_written)

lemma decodes_block:
  "decodes (\<lambda>s. if \<not> fb_ensure n s then Some (old, fault s) else ser_read n s)"
proof -
  have "ser_wf s \<Longrightarrow> fb_ensure n s \<Longrightarrow> ser_read n s = Some (segment (ser_pos s) n (ser_mem s), advance n s)" for s
    by (auto simp: fb_ensure_def ser_read_def advance_def remaining_wf ser_wf_def)
  then show ?thesis
    by (auto simp: decodes_def fb_ensure_def ser_fields intro!: reads_advance)
qed

lemma decodes_to_block:
  "length bs = n \<Longrightarrow> decodes_to (\<lambda>s. if \<not> fb_ensure n s then Some (old, fault s) else ser_read n s) bs bs"
  by (auto simp: decodes_to_def fb_ensure_def ser_read_cursor)

text \<open>Host-order bytes in the order of the wire.\<close>

definition wire_bytes :: "bool \<Rightarrow> bytes \<Rightarrow> bytes" where
  "wire_bytes be bs = (if be then rev bs else bs)"

lemma length_wire_bytes [simp]: "length (wire_bytes be bs) = length bs"
  by (simp add: wire_bytes_def)

lemma wire_bytes_twice [simp]: "wire_bytes be (wire_bytes be bs) = bs"
  by (simp add: wire_bytes_def)

lemma encodes_n: "encodes (to_wire_n be bs) (wire_bytes be bs)"
  using encodes_block [of "rev bs"] encodes_block [of bs]
  by (cases be) (simp_all add: to_wire_n_def [abs_def] wire_bytes_def)

lemma from_wire_n_alt:
  "from_wire_n be n old s =
     Option.bind (if \<not> fb_ensure n s then Some (wire_bytes be old, fault s) else ser_read n s)
       (\<lambda>(bs, s). Some (wire_bytes be bs, s))"
  by (auto simp: from_wire_n_def wire_bytes_def)

lemma decodes_n: "decodes (from_wire_n be n old)"
  unfolding from_wire_n_alt [abs_def] by (intro codec_rules decodes_block)

lemma decodes_to_n: "length bs = n \<Longrightarrow> decodes_to (from_wire_n be n old) (wire_bytes be bs) bs"
  unfolding from_wire_n_alt [abs_def]
  using decodes_to_then [OF decodes_to_block decodes_to_return, of "wire_bytes be bs" n _ "wire_bytes be"] by simp

lemma from_wire_word_format:
  fixes f :: "nat \<Rightarrow> 'a::len word"
  assumes "LENGTH('a) = 8 * n"
  shows "decodes (\<lambda>s. Option.bind (from_wire_scalar n be old s) (\<lambda>(v, s). Some (of_nat v :: 'a word, s)))"
    and "decodes_to (\<lambda>s. Option.bind (from_wire_scalar n be old s) (\<lambda>(v, s). Some (of_nat v :: 'a word, s)))
      (wire_bytes be (le_bytes n (unat w))) (w :: 'a word)"
proof -
  have sc: "decodes (from_wire_scalar n be old)"
    unfolding from_wire_scalar_def [abs_def] by (intro codec_rules decodes_n)
  then show "decodes (\<lambda>s. Option.bind (from_wire_scalar n be old s) (\<lambda>(v, s). Some (of_nat v :: 'a word, s)))"
    by (intro codec_rules)
  have "unat w < 2 ^ (8 * n)" using assms unsigned_less [of w] by simp
  then have u: "le_nat (le_bytes n (unat w)) = unat w"
    by (simp add: le_nat_le_bytes power_mult)
  have "decodes_to (from_wire_scalar n be old) (wire_bytes be (le_bytes n (unat w))) (unat w)"
    unfolding from_wire_scalar_def [abs_def]
    using decodes_to_then [OF decodes_to_n decodes_to_return, of "le_bytes n (unat w)" n be _ le_nat] u by simp
  then show "decodes_to (\<lambda>s. Option.bind (from_wire_scalar n be old s) (\<lambda>(v, s). Some (of_nat v :: 'a word, s)))
      (wire_bytes be (le_bytes n (unat w))) w"
    using decodes_to_then [OF _ decodes_to_return, of _ _ "unat w" "\<lambda>v. of_nat v :: 'a word"] by simp
qed

lemma le_bytes_1: "le_bytes 1 (unat (v :: u8)) = [v]"
proof -
  have "unat v < 2 ^ LENGTH(8)" by (rule unsigned_less)
  then show ?thesis by (simp add: One_nat_def)
qed

lemma encodes_u8: "encodes (to_wire_u8 v) [v]"
  using encodes_block [of "[v]"] unfolding to_wire_u8_def [abs_def] put_u8_def by simp

interpretation u8_wire: wire_format to_wire_u8 from_wire_u8 "\<lambda>v. [v]" "\<lambda>_. True"
proof
  fix old v :: u8
  show "encodes (to_wire_u8 v) [v]" by (rule encodes_u8)
  show "decodes (from_wire_u8 old)"
    unfolding from_wire_u8_def [abs_def] by (rule from_wire_word_format(1)) simp
  show "decodes_to (from_wire_u8 old) [v] v"
    unfolding from_wire_u8_def [abs_def]
    using from_wire_word_format(2) [of 1 False "unat old" v] unfolding le_bytes_1 by (simp add: wire_bytes_def)
qed

interpretation u16_wire: wire_format "to_wire_u16 be" "from_wire_u16 be" "\<lambda>v. wire_bytes be (le_bytes 2 (unat v))" "\<lambda>_. True"
  for be
  unfolding to_wire_u16_def [abs_def] from_wire_u16_def [abs_def]
  by standard (auto intro!: encodes_n from_wire_word_format)

interpretation u32_wire: wire_format "to_wire_u32 be" "from_wire_u32 be" "\<lambda>v. wire_bytes be (le_bytes 4 (unat v))" "\<lambda>_. True"
  for be
  unfolding to_wire_u32_def [abs_def] from_wire_u32_def [abs_def]
  by standard (auto intro!: encodes_n from_wire_word_format)

interpretation u64_wire: wire_format "to_wire_u64 be" "from_wire_u64 be" "\<lambda>v. wire_bytes be (le_bytes 8 (unat v))" "\<lambda>_. True"
  for be
  unfolding to_wire_u64_def [abs_def] from_wire_u64_def [abs_def]
  by standard (auto intro!: encodes_n from_wire_word_format)

subsection \<open>Sizes, selectors and strings\<close>

text \<open>The form sizes and non-negative selectors share: one byte below 254, else a marker and four bytes.\<close>

definition enc_size :: "bool \<Rightarrow> nat \<Rightarrow> bytes" where
  "enc_size be n = (if n < 254 then [of_nat n] else 254 # wire_bytes be (le_bytes 4 n))"

definition enc_selector :: "bool \<Rightarrow> int \<Rightarrow> bytes" where
  "enc_selector be sel = (if sel < 0 then [255] else enc_size be (nat sel))"

definition enc_str :: "bool \<Rightarrow> bytes \<Rightarrow> bytes" where
  "enc_str be bs = enc_size be (length bs) @ bs"

lemma encodes_long:
  assumes "n \<le> 0xffffffff"
  shows "encodes (\<lambda>s. Option.bind (to_wire_u8 254 s) (to_wire_u32 be (of_nat n))) (254 # wire_bytes be (le_bytes 4 n))"
proof -
  have "unat (of_nat n :: u32) = n" using assms by simp
  moreover have "encodes (to_wire_u32 be (of_nat n)) (wire_bytes be (le_bytes 4 (unat (of_nat n :: u32))))"
    by (rule u32_wire.put_law) simp
  ultimately show ?thesis
    using encodes_then [OF encodes_u8 [of 254]] by fastforce
qed

lemma encodes_faulty:
  assumes "encodes f bs" "\<And>s. fb_ensure 1 s \<Longrightarrow> f s = g s" "0 < length bs"
  shows "encodes (\<lambda>s. if \<not> fb_ensure 1 s then Some (fault s) else g s) bs"
proof -
  have "\<not> fb_ensure 1 s \<Longrightarrow> ser_wf s \<Longrightarrow> encoded bs s (fault s)" for s
    using Suc_leI [OF assms(3)] by (auto simp: encoded_def fb_ensure_def)
  then show ?thesis using assms(1,2) by (auto simp: encodes_def)
qed

lemma to_wire_u8_room: "fb_ensure 1 s \<Longrightarrow> to_wire_u8 v s = put_u8 v s"
  by (simp add: to_wire_u8_def)

lemma encodes_size: "n \<le> 0xffffffff \<Longrightarrow> encodes (to_wire_size be n) (enc_size be n)"
proof (cases "n < 254")
  case True
  then show ?thesis
    unfolding to_wire_size_def [abs_def] enc_size_def
    by (simp only: if_True) (rule encodes_faulty [OF encodes_u8], simp_all add: to_wire_u8_room)
next
  case False
  assume "n \<le> 0xffffffff"
  with False show ?thesis
    unfolding to_wire_size_def [abs_def] enc_size_def
    by (simp only: if_True if_False) (rule encodes_faulty [OF encodes_long], simp_all add: to_wire_u8_room)
qed

lemma encodes_selector:
  assumes "sel \<le> 0xffffffff"
  shows "encodes (to_wire_selector be sel) (enc_selector be sel)"
proof -
  consider "sel < 0" | "0 \<le> sel" "sel < 254" | "254 \<le> sel" by linarith
  then show ?thesis
  proof cases
    case 1
    then have "sel \<le> - 1" by simp
    with 1 show ?thesis
      unfolding to_wire_selector_def [abs_def] enc_selector_def
      by (simp only: if_True) (rule encodes_faulty [OF encodes_u8], simp_all add: to_wire_u8_room)
  next
    case 2
    then have "(of_int sel :: u8) = of_nat (nat sel)" "(sel \<le> - 1) = False" "(sel < 0) = False" "nat sel < 254" by simp_all
    with 2 show ?thesis
      unfolding to_wire_selector_def [abs_def] enc_selector_def enc_size_def
      by (simp only: if_True if_False) (rule encodes_faulty [OF encodes_u8], simp_all add: to_wire_u8_room)
  next
    case 3
    then have "(of_int sel :: u32) = of_nat (nat sel)" "(sel \<le> - 1) = False" "(sel < 0) = False"
      "(sel < 254) = False" "(nat sel < 254) = False" by auto
    with assms show ?thesis
      unfolding to_wire_selector_def [abs_def] enc_selector_def enc_size_def
      by (simp only: if_True if_False) (rule encodes_faulty [OF encodes_long], simp_all add: to_wire_u8_room)
  qed
qed

text \<open>The decoders look at one byte first; \<open>g\<close> is what they do with it.\<close>

lemma first_byte_alt:
  "(if \<not> fb_ensure 1 s then Some (old, fault s) else Option.bind (get_u8 s) (\<lambda>(b, s). g b s)) =
   Option.bind (if \<not> fb_ensure 1 s then Some ([], fault s) else ser_read 1 s)
     (\<lambda>(bs, s). if bs = [] then Some (old, s) else g (hd bs) s)"
proof (cases "ser_read 1 s")
  case (Some r)
  then have "fst r \<noteq> []" by (auto simp: ser_read_def segment_def split: if_splits)
  with Some show ?thesis by (cases r) (simp add: get_u8_def)
qed (simp add: get_u8_def)

lemma decodes_first_byte:
  "(\<And>b. decodes (g b)) \<Longrightarrow>
   decodes (\<lambda>s. if \<not> fb_ensure 1 s then Some (old, fault s) else Option.bind (get_u8 s) (\<lambda>(b, s). g b s))"
  unfolding first_byte_alt
  by (intro codec_rules decodes_block decodes_if) auto

lemma decodes_to_first_byte:
  assumes "decodes_to (g b) bs v"
  shows "decodes_to (\<lambda>s. if \<not> fb_ensure 1 s then Some (old, fault s) else Option.bind (get_u8 s) (\<lambda>(b, s). g b s))
    (b # bs) v"
proof -
  have "decodes_to (\<lambda>s. if \<not> fb_ensure 1 s then Some ([], fault s) else ser_read 1 s) [b] [b]"
    by (rule decodes_to_block) simp
  moreover have "decodes_to (\<lambda>s. if [b] = [] then Some (old, s) else g (hd [b]) s) bs v"
    using assms by simp
  ultimately have "decodes_to (\<lambda>s. Option.bind (if \<not> fb_ensure 1 s then Some ([], fault s) else ser_read 1 s)
     (\<lambda>(bs, s). if bs = [] then Some (old, s) else g (hd bs) s)) ([b] @ bs) v"
    by (rule decodes_to_then)
  then show ?thesis unfolding first_byte_alt by simp
qed

lemma decodes_size: "decodes (from_wire_size be allow_null old)"
  unfolding from_wire_size_def [abs_def]
  by (intro decodes_first_byte decodes_if codec_rules u32_wire.get_law)

lemma decodes_selector: "decodes (from_wire_selector be old)"
  unfolding from_wire_selector_def [abs_def]
  by (intro decodes_first_byte decodes_if codec_rules u32_wire.get_law)

lemma decodes_to_long:
  assumes "n \<le> 0xffffffff"
  shows "decodes_to (\<lambda>s. Option.bind (from_wire_u32 be 0 s) (\<lambda>(v, s). Some (f (unat v), s)))
    (wire_bytes be (le_bytes 4 n)) (f n)"
proof -
  have "unat (of_nat n :: u32) = n" using assms by simp
  moreover have "decodes_to (from_wire_u32 be 0) (wire_bytes be (le_bytes 4 (unat (of_nat n :: u32)))) (of_nat n)"
    by (rule u32_wire.get_enc) simp
  ultimately show ?thesis
    using decodes_to_then [OF _ decodes_to_return, of _ _ "of_nat n :: u32" "\<lambda>v. f (unat v)"] by fastforce
qed

lemma decodes_to_size: "n \<le> 0xffffffff \<Longrightarrow> decodes_to (from_wire_size be allow_null old) (enc_size be n) n"
proof (cases "n < 254")
  case True
  then have u: "unat (of_nat n :: u8) = n" by simp
  with True have "(of_nat n :: u8) < 254" by (simp add: word_less_nat_alt)
  with u show ?thesis
    unfolding from_wire_size_def [abs_def] enc_size_def using True
    by (simp only: if_True) (rule decodes_to_first_byte, simp add: decodes_to_return)
next
  case False
  assume "n \<le> 0xffffffff"
  from decodes_to_long [OF this, of be "\<lambda>n. n"] False show ?thesis
    unfolding from_wire_size_def [abs_def] enc_size_def
    by (simp only: if_False) (rule decodes_to_first_byte, simp)
qed

lemma decodes_to_selector:
  "- 1 \<le> sel \<Longrightarrow> sel \<le> 0xffffffff \<Longrightarrow> decodes_to (from_wire_selector be old) (enc_selector be sel) sel"
proof -
  assume b: "- 1 \<le> sel" "sel \<le> 0xffffffff"
  consider "sel = - 1" | "0 \<le> sel" "nat sel < 254" | "0 \<le> sel" "\<not> nat sel < 254" using b by linarith
  then show ?thesis
  proof cases
    case 1
    then have "sel < 0" by simp
    then show ?thesis
      unfolding from_wire_selector_def [abs_def] enc_selector_def
      by (simp only: if_True) (rule decodes_to_first_byte, simp add: decodes_to_return 1)
  next
    case 2
    then have u: "unat (of_nat (nat sel) :: u8) = nat sel" by (simp add: unat_of_nat del: of_nat_nat)
    with 2 have "(of_nat (nat sel) :: u8) < 254" by (simp add: word_less_nat_alt)
    with u 2 show ?thesis
      unfolding from_wire_selector_def [abs_def] enc_selector_def enc_size_def
      by (simp only: if_True if_False not_less [symmetric])
        (rule decodes_to_first_byte, simp add: decodes_to_return del: of_nat_nat)
  next
    case 3
    then have "nat sel \<le> 0xffffffff" using b by simp
    from decodes_to_long [OF this, of be int] 3 show ?thesis
      unfolding from_wire_selector_def [abs_def] enc_selector_def enc_size_def
      by (simp only: if_True if_False not_less [symmetric]) (rule decodes_to_first_byte, simp)
  qed
qed

interpretation size_wire: wire_format "to_wire_size be" "from_wire_size be allow_null" "enc_size be" "\<lambda>n. n \<le> 0xffffffff"
  for be allow_null
  by standard (auto intro: encodes_size decodes_size decodes_to_size)

interpretation selector_wire: wire_format "to_wire_selector be" "from_wire_selector be" "enc_selector be"
  "\<lambda>sel. - 1 \<le> sel \<and> sel \<le> 0xffffffff" for be
  by standard (auto intro: encodes_selector decodes_selector decodes_to_selector)

lemma encodes_str: "length bs \<le> 0xffffffff \<Longrightarrow> encodes (to_wire_str be bs) (enc_str be bs)"
  unfolding to_wire_str_def [abs_def] enc_str_def by (intro codec_rules encodes_size encodes_block)

lemma decodes_str: "decodes (from_wire_str be old)"
  unfolding from_wire_str_def [abs_def] by (intro codec_rules decodes_size decodes_if decodes_block)

lemma decodes_to_str: "length bs \<le> 0xffffffff \<Longrightarrow> decodes_to (from_wire_str be old) (enc_str be bs) bs"
  unfolding from_wire_str_def [abs_def] enc_str_def
  by (rule decodes_to_then [OF decodes_to_size]) (simp_all add: decodes_to_block)

interpretation str_wire: wire_format "to_wire_str be" "from_wire_str be" "enc_str be" "\<lambda>bs. length bs \<le> 0xffffffff" for be
  by standard (auto intro: encodes_str decodes_str decodes_to_str)

text \<open>The two texts of a status, one after the other.\<close>

interpretation status_texts: wire_pair "to_wire_str be" "from_wire_str be" "enc_str be" "\<lambda>bs. length bs \<le> 0xffffffff"
  "to_wire_str be" "from_wire_str be" "enc_str be" "\<lambda>bs. length bs \<le> 0xffffffff" for be
  by standard

text \<open>A string without zero bytes is the same through the C string overload.\<close>

lemma to_wire_cstr_eq: "0 \<notin> set bs \<Longrightarrow> to_wire_cstr be bs = to_wire_str be bs"
  unfolding to_wire_cstr_def by (subst takeWhile_eq_all_conv [THEN iffD2]) auto

subsection \<open>Status\<close>

definition enc_status :: "bool \<Rightarrow> status \<Rightarrow> bytes" where
  "enc_status be st =
     (if st_code st = 0 \<and> st_msg st = [] \<and> st_trace st = [] then [255]
      else st_code st # enc_str be (st_msg st) @ enc_str be (st_trace st))"

text \<open>The code 255 is the marker of an empty success status.\<close>

definition good_status :: "status \<Rightarrow> bool" where
  "good_status st \<longleftrightarrow>
     st_code st \<noteq> 255 \<and> 0 \<notin> set (st_msg st) \<and> 0 \<notin> set (st_trace st) \<and>
     length (st_msg st) \<le> 0xffffffff \<and> length (st_trace st) \<le> 0xffffffff"

lemma encodes_status:
  assumes "good_status st"
  shows "encodes (to_wire_status be st) (enc_status be st)"
proof -
  have e: "encodes (\<lambda>s. Option.bind (to_wire_u8 (st_code st) s) (\<lambda>s.
      Option.bind (to_wire_str be (st_msg st) s) (to_wire_str be (st_trace st))))
      ([st_code st] @ enc_str be (st_msg st) @ enc_str be (st_trace st))"
    using assms by (intro codec_rules encodes_u8 encodes_str) (auto simp: good_status_def)
  show ?thesis
  proof (cases "st_code st = 0 \<and> st_msg st = [] \<and> st_trace st = []")
    case True
    then show ?thesis
      unfolding to_wire_status_def [abs_def] enc_status_def
      by (simp only: if_True simp_thms) (rule encodes_faulty [OF encodes_u8], simp_all add: to_wire_u8_room)
  next
    case False
    with assms show ?thesis
      unfolding to_wire_status_def [abs_def] enc_status_def
      by (simp only: if_False) (rule encodes_faulty [OF e [simplified]],
          simp_all add: to_wire_u8_room good_status_def to_wire_cstr_eq)
  qed
qed

text \<open>Reading a status peeks at the first byte; that is the same as reading it.\<close>

lemma from_wire_status_alt:
  assumes "ser_wf s"
  shows "from_wire_status be old s =
    (if \<not> fb_ensure 1 s then Some (old, fault s)
     else Option.bind (get_u8 s) (\<lambda>(b, s).
       if b = 255 then Some (\<lparr>st_code = 0, st_msg = [], st_trace = []\<rparr>, s)
       else Option.bind (from_wire_str be (st_msg old) s) (\<lambda>(m, s).
         Option.bind (from_wire_str be (st_trace old) s) (\<lambda>(t, s).
           Some (\<lparr>st_code = b, st_msg = m, st_trace = t\<rparr>, s)))))"
proof (cases "fb_ensure 1 s")
  case True
  then have "ser_pos s < length (ser_mem s)"
    using assms by (auto simp: fb_ensure_def remaining_wf ser_wf_def)
  then have "ser_at s 0 = Some (ser_mem s ! ser_pos s)"
    and "get_u8 s = Some (ser_mem s ! ser_pos s, advance 1 s)"
    by (simp_all add: ser_at_def get_u8_def ser_read_def segment_def advance_def hd_drop_conv_nth hd_take)
  then show ?thesis
    using True by (simp add: from_wire_status_def)
qed (simp add: from_wire_status_def)

lemma decodes_cong: "decodes g \<Longrightarrow> (\<And>s. ser_wf s \<Longrightarrow> f s = g s) \<Longrightarrow> decodes f"
  by (simp add: decodes_def)

lemma decodes_to_cong: "decodes_to g bs v \<Longrightarrow> (\<And>s. ser_wf s \<Longrightarrow> f s = g s) \<Longrightarrow> decodes_to f bs v"
  by (simp add: decodes_to_def)

interpretation status_wire: wire_format "to_wire_status be" "from_wire_status be" "enc_status be" good_status for be
proof
  fix st old
  show "decodes (from_wire_status be old)"
    by (rule decodes_cong [OF _ from_wire_status_alt]) (intro decodes_first_byte decodes_if codec_rules decodes_str)
  show "encodes (to_wire_status be st) (enc_status be st)" if "good_status st"
    using that by (rule encodes_status)
  show "decodes_to (from_wire_status be old) (enc_status be st) st" if ok: "good_status st"
  proof (cases "st_code st = 0 \<and> st_msg st = [] \<and> st_trace st = []")
    case True
    then show ?thesis
      unfolding enc_status_def
      by (simp only: if_True simp_thms)
        (rule decodes_to_cong [OF decodes_to_first_byte from_wire_status_alt], cases st, simp add: decodes_to_return)
  next
    case False
    have "decodes_to (\<lambda>s. Some (\<lparr>st_code = st_code st, st_msg = st_msg st, st_trace = st_trace st\<rparr>, s)) [] st"
      by (cases st) (simp add: decodes_to_return)
    then have "decodes_to (\<lambda>s. Option.bind (from_wire_str be (st_msg old) s) (\<lambda>(m, s).
         Option.bind (from_wire_str be (st_trace old) s) (\<lambda>(t, s).
           Some (\<lparr>st_code = st_code st, st_msg = m, st_trace = t\<rparr>, s))))
         (enc_str be (st_msg st) @ enc_str be (st_trace st) @ []) st"
      using ok by (intro decodes_to_then [OF decodes_to_str decodes_to_then [OF decodes_to_str]])
        (auto simp: good_status_def)
    with False ok show ?thesis
      unfolding enc_status_def
      by (simp only: if_False)
        (rule decodes_to_cong [OF decodes_to_first_byte from_wire_status_alt], simp add: good_status_def)
  qed
qed

subsection \<open>Arrays\<close>

lemma swap_elems_append:
  "0 < k \<Longrightarrow> k dvd length a \<Longrightarrow> swap_elems k (a @ b) = swap_elems k a @ swap_elems k b"
proof (induction k a rule: swap_elems.induct)
  case (1 k bs)
  show ?case
  proof (cases "bs = []")
    case True
    then show ?thesis by (simp add: swap_elems.simps [of k "[]"])
  next
    case False
    with 1 have le: "k \<le> length bs" by (simp add: dvd_imp_le)
    with 1 have "k dvd length (drop k bs)" by simp
    with "1.IH" False 1 have "swap_elems k (drop k bs @ b) = swap_elems k (drop k bs) @ swap_elems k b" by simp
    with False le 1 show ?thesis
      by (simp add: swap_elems.simps [of k "bs @ b"] swap_elems.simps [of k bs])
  qed
qed

lemma length_swap_elems [simp]: "length (swap_elems k bs) = (if k = 0 then 0 else length bs)"
  by (induction k bs rule: swap_elems.induct) (subst swap_elems.simps, auto)

lemma swap_elems_twice: "0 < k \<Longrightarrow> k dvd length bs \<Longrightarrow> swap_elems k (swap_elems k bs) = bs"
proof (induction k bs rule: swap_elems.induct)
  case (1 k bs)
  show ?case
  proof (cases "bs = []")
    case True
    then show ?thesis by (simp add: swap_elems.simps)
  next
    case False
    with 1 have le: "k \<le> length bs" by (simp add: dvd_imp_le)
    have one: "length (take k bs) = k" using le by simp
    have "swap_elems k (rev (take k bs)) = take k bs"
      using one 1 by (subst swap_elems.simps, subst swap_elems.simps) auto
    with "1.IH" False 1 le show ?thesis
      by (simp add: swap_elems.simps [of k bs] swap_elems_append)
  qed
qed

lemma length_wire_order [simp]: "0 < k \<Longrightarrow> length (wire_order be k bs) = length bs"
  by (simp add: wire_order_def)

lemma wire_order_twice: "0 < k \<Longrightarrow> k dvd length bs \<Longrightarrow> wire_order be k (wire_order be k bs) = bs"
  by (simp add: wire_order_def swap_elems_twice)

lemma wire_order_Nil [simp]: "wire_order be k [] = []"
  by (simp add: wire_order_def swap_elems.simps)

text \<open>The loop over the buffer ends: all of the block, or its elements that fit and a fault.\<close>

lemma pod_out_eq:
  assumes "ser_wf s" "0 < k" "k dvd length src"
  shows "pod_out be k src s =
    Some (if src = [] then s
          else if \<not> ser_good s then fault s
          else if length src \<le> remaining s then written (wire_order be k src) s
          else fault (written (wire_order be k (take (remaining s - remaining s mod k) src)) s))"
proof -
  consider "src = []" | "src \<noteq> []" "\<not> fb_ensure k s" | "src \<noteq> []" "fb_ensure k s" by blast
  then show ?thesis
  proof cases
    case 1
    then show ?thesis by (subst pod_out.simps) simp
  next
    case 2
    have "k \<le> length src" using assms 2 by (simp add: dvd_imp_le)
    with 2 have "ser_good s \<Longrightarrow> \<not> length src \<le> remaining s \<and> remaining s mod k = remaining s"
      by (auto simp: fb_ensure_def)
    with 2 show ?thesis by (subst pod_out.simps) simp
  next
    case 3
    define m where "m = min (remaining s) (length src)"
    define n where "n = m - m mod k"
    have n: "n \<le> remaining s" "n \<le> length src" by (simp_all add: n_def m_def)
    have good: "ser_good s" using 3 by (simp add: fb_ensure_def)
    let ?w = "written (wire_order be k (take n src)) s"
    have w: "ser_write (wire_order be k (take n src)) s = Some ?w"
      using assms n by (intro ser_write_wf_fits) simp_all
    have step: "pod_out be k src s = pod_out be k (drop n src) ?w"
      using 3 w by (subst pod_out.simps) (simp add: Let_def flip: m_def n_def)
    show ?thesis
    proof (cases "length src \<le> remaining s")
      case True
      then have "n = length src" using assms(3) by (simp add: n_def m_def min_absorb2)
      with step 3 True good pod_out.simps [of be k "[]" ?w] show ?thesis by simp
    next
      case False
      then have m: "m = remaining s" by (simp add: m_def)
      have "remaining ?w = remaining s mod k"
        using written_wf(2) [OF assms(1)] assms(2) n m by (simp add: n_def)
      then have "\<not> fb_ensure k ?w"
        using assms(2) by (simp add: fb_ensure_def not_le)
      moreover have "drop n src \<noteq> []" using False m by (auto simp: n_def)
      ultimately have "pod_out be k src s = Some (fault ?w)"
        unfolding step by (subst pod_out.simps) simp
      with 3 False good m show ?thesis by (simp add: n_def)
    qed
  qed
qed

lemma encodes_pod: "0 < k \<Longrightarrow> k dvd length src \<Longrightarrow> encodes (pod_out be k src) (wire_order be k src)"
  unfolding encodes_def
proof (intro allI impI)
  fix s assume k: "0 < k" "k dvd length src" and s: "ser_wf s"
  have "inside s (written (wire_order be k (take n src)) s)" if "n \<le> remaining s" for n
    using that k s by (intro within_written) auto
  then show "\<exists>s'. pod_out be k src s = Some s' \<and> encoded (wire_order be k src) s s'"
    unfolding pod_out_eq [OF s k] using k s
    by (auto simp: encoded_def within_written)
qed

lemma pod_in_eq:
  assumes "ser_wf s" "0 < k" "k dvd nremain"
  shows "\<exists>bs s'. pod_in be k nremain dest s = Some (dest @ bs, s') \<and> length bs \<le> nremain \<and> reads s s' \<and>
    (ser_good s' \<longrightarrow> ser_good s \<or> nremain = 0) \<and>
    (ser_good s \<and> nremain \<le> remaining s \<longrightarrow>
       bs = wire_order be k (segment (ser_pos s) nremain (ser_mem s)) \<and> s' = advance nremain s)"
proof -
  consider "nremain = 0" | "nremain \<noteq> 0" "\<not> fb_ensure k s" | "nremain \<noteq> 0" "fb_ensure k s" by blast
  then show ?thesis
  proof cases
    case 1
    then show ?thesis using assms(1) by (subst pod_in.simps) simp
  next
    case 2
    have "k \<le> nremain" using assms 2 by (simp add: dvd_imp_le)
    with 2 have "\<not> (ser_good s \<and> nremain \<le> remaining s)" by (auto simp: fb_ensure_def)
    with 2 show ?thesis using assms(1) by (subst pod_in.simps) auto
  next
    case 3
    define m where "m = min (remaining s) nremain"
    define n where "n = m - m mod k"
    have n: "n \<le> remaining s" "n \<le> nremain" by (simp_all add: n_def m_def)
    have good: "ser_good s" and wf: "ser_wf (advance n s)" and rem: "remaining (advance n s) = remaining s - n"
      using 3 advance_wf [OF assms(1) n(1)] by (simp_all add: fb_ensure_def)
    let ?b = "segment (ser_pos s) n (ser_mem s)"
    have le: "ser_pos s + n \<le> length (ser_mem s)"
      using assms(1) n(1) by (auto simp: remaining_wf ser_wf_def)
    then have r: "ser_read n s = Some (?b, advance n s)" and lb: "length ?b = n"
      by (simp_all add: ser_read_def advance_def length_segment)
    have step: "pod_in be k nremain dest s = pod_in be k (nremain - n) (dest @ wire_order be k ?b) (advance n s)"
      using 3 r by (subst pod_in.simps, unfold Let_def, fold m_def, fold n_def) simp
    show ?thesis
    proof (cases "nremain \<le> remaining s")
      case True
      then have nn: "n = nremain" using assms(3) by (simp add: n_def m_def min_absorb2)
      have "pod_in be k nremain dest s = Some (dest @ wire_order be k ?b, advance n s)"
        unfolding step nn by (subst pod_in.simps) simp
      then show ?thesis
        using nn lb assms(2) good reads_advance [OF assms(1) n(1)] by auto
    next
      case False
      then have m: "m = remaining s" by (simp add: m_def)
      have "remaining s - n = remaining s mod k" by (simp add: n_def m)
      then have "\<not> fb_ensure k (advance n s)" using assms(2) rem by (simp add: fb_ensure_def not_le)
      moreover have "nremain - n \<noteq> 0" using False n(1) by linarith
      ultimately have "pod_in be k nremain dest s =
          Some (dest @ wire_order be k ?b, fault (advance n s))"
        unfolding step by (subst pod_in.simps) simp
      then show ?thesis
        using False n lb assms(2) good reads_advance [OF assms(1) n(1)] by auto
    qed
  qed
qed

text \<open>The images of the elements, one after the other, are what the reader stores.\<close>

definition array_ok :: "nat \<Rightarrow> bytes list \<Rightarrow> bool" where
  "array_ok k elems \<longleftrightarrow> 0 < k \<and> list_all (\<lambda>e. length e = k) elems \<and> length elems \<le> 0xffffffff"

definition enc_array :: "bool \<Rightarrow> nat \<Rightarrow> bytes list \<Rightarrow> bytes" where
  "enc_array be k elems = enc_size be (length elems) @ wire_order be k (concat elems)"

lemma length_images: "list_all (\<lambda>e. length e = k) elems \<Longrightarrow> length (concat elems) = length elems * k"
  by (induction elems) simp_all

lemma encodes_array: "array_ok k elems \<Longrightarrow> encodes (to_wire_array be k elems) (enc_array be k elems)"
  unfolding to_wire_array_def [abs_def] enc_array_def
  by (intro encodes_then encodes_size encodes_pod) (auto simp: array_ok_def length_images)

lemma decodes_to_array: "array_ok k elems \<Longrightarrow> decodes_to (from_wire_array be k) (enc_array be k elems) (concat elems)"
  unfolding from_wire_array_def [abs_def] enc_array_def
proof (rule decodes_to_then [OF decodes_to_size])
  assume ok: "array_ok k elems"
  then have len: "length (concat elems) = length elems * k" and k: "0 < k"
    by (simp_all add: array_ok_def length_images)
  show "decodes_to (pod_in be k (length elems * k) []) (wire_order be k (concat elems)) (concat elems)"
    unfolding decodes_to_def
  proof (intro allI impI)
    fix s
    assume s: "ser_wf s" "ser_good s" "length (wire_order be k (concat elems)) \<le> remaining s"
      "at_cursor (wire_order be k (concat elems)) s"
    then have "wire_order be k (segment (ser_pos s) (length elems * k) (ser_mem s)) = concat elems"
      using k len by (simp add: at_cursor_def wire_order_twice)
    with pod_in_eq [OF s(1) k, of "length elems * k" be "[]"] s k len
    show "pod_in be k (length elems * k) [] s = Some (concat elems, advance (length (wire_order be k (concat elems))) s)"
      by auto
  qed
qed (simp add: array_ok_def)

lemma decodes_array: "0 < k \<Longrightarrow> decodes (from_wire_array be k)"
  unfolding from_wire_array_def [abs_def]
proof (rule decodes_then [OF decodes_size])
  fix n assume k: "0 < k"
  show "decodes (pod_in be k (n * k) [])"
    unfolding decodes_def
  proof (intro allI impI)
    fix s assume s: "ser_wf s"
    show "\<exists>v s'. pod_in be k (n * k) [] s = Some (v, s') \<and> reads s s' \<and> (ser_good s' \<longrightarrow> ser_good s)"
    proof (cases "n = 0")
      case True
      then show ?thesis using s by (subst pod_in.simps) simp
    next
      case False
      with pod_in_eq [OF s k, of "n * k" be "[]"] k show ?thesis by auto
    qed
  qed
qed

lemma encodes_foldM: "(\<And>x. x \<in> set xs \<Longrightarrow> encodes (f x) (e x)) \<Longrightarrow> encodes (foldM f xs) (concat (map e xs))"
proof (induction xs)
  case Nil
  then show ?case by (simp add: encodes_def encoded_def)
next
  case (Cons x xs)
  then have "encodes (\<lambda>s. Option.bind (f x s) (foldM f xs)) (e x @ concat (map e xs))"
    by (intro encodes_then) auto
  then show ?case by (simp add: encodes_def)
qed

lemma decodes_strings_in: "decodes (strings_in be n)"
proof (induction n)
  case 0
  then show ?case by (simp add: decodes_def)
next
  case (Suc n)
  have "decodes (\<lambda>s. Option.bind (from_wire_str be [] s) (\<lambda>(x, s).
      Option.bind (strings_in be n s) (\<lambda>(xs, s). Some (x # xs, s))))"
    by (intro codec_rules decodes_str Suc)
  then show ?case by (simp add: decodes_def)
qed

lemma decodes_to_strings_in:
  "list_all (\<lambda>x. length x \<le> 0xffffffff) xs \<Longrightarrow>
   decodes_to (strings_in be (length xs)) (concat (map (enc_str be) xs)) xs"
proof (induction xs)
  case Nil
  then show ?case by (simp add: decodes_to_def)
next
  case (Cons x xs)
  have "decodes_to (\<lambda>s. Option.bind (from_wire_str be [] s) (\<lambda>(y, s).
      Option.bind (strings_in be (length xs) s) (\<lambda>(ys, s). Some (y # ys, s))))
      (enc_str be x @ concat (map (enc_str be) xs) @ []) (x # xs)"
    using Cons by (intro decodes_to_then [OF decodes_to_str decodes_to_then]) (auto simp: decodes_to_return)
  then show ?case by (simp add: decodes_to_def)
qed

definition strings_ok :: "bytes list \<Rightarrow> bool" where
  "strings_ok xs \<longleftrightarrow> length xs \<le> 0xffffffff \<and> list_all (\<lambda>x. length x \<le> 0xffffffff) xs"

interpretation strings_wire: wire_format "to_wire_strings be" "\<lambda>_. from_wire_strings be"
  "\<lambda>xs. enc_size be (length xs) @ concat (map (enc_str be) xs)" strings_ok for be
proof
  fix xs old
  show "decodes (from_wire_strings be)"
    unfolding from_wire_strings_def [abs_def] by (intro codec_rules decodes_size decodes_strings_in)
  assume "strings_ok xs"
  then show "encodes (to_wire_strings be xs) (enc_size be (length xs) @ concat (map (enc_str be) xs))"
    unfolding to_wire_strings_def [abs_def]
    by (intro encodes_then encodes_size encodes_foldM encodes_str) (auto simp: strings_ok_def list_all_iff)
  show "decodes_to (from_wire_strings be) (enc_size be (length xs) @ concat (map (enc_str be) xs)) xs"
    unfolding from_wire_strings_def [abs_def] using \<open>strings_ok xs\<close>
    by (intro decodes_to_then [OF decodes_to_size]) (auto simp: strings_ok_def decodes_to_strings_in)
qed

subsection \<open>Message headers\<close>

definition enc_pva_header :: "bool \<Rightarrow> pva_header \<Rightarrow> bytes" where
  "enc_pva_header be h =
     [0xca, 2, if be then or (ph_flags h) flag_MSB else ph_flags h, ph_cmd h] @ wire_bytes be (le_bytes 4 (unat (ph_len h)))"

lemma length_enc_pva_header [simp]: "length (enc_pva_header be h) = 8"
  by (simp add: enc_pva_header_def)

text \<open>The eight bytes are reserved first, so a header is written whole or not at all.\<close>

lemma to_wire_header_eq:
  assumes "ser_wf s"
  shows "to_wire_header be h s = Some (if fb_ensure 8 s then written (enc_pva_header be h) s else fault s)"
proof (cases "fb_ensure 8 s")
  case True
  let ?a = "[0xca, 2, if be then or (ph_flags h) flag_MSB else ph_flags h, ph_cmd h] :: bytes"
  let ?b = "wire_bytes be (le_bytes 4 (unat (ph_len h)))"
  from True have r: "ser_good s" "8 \<le> remaining s" by (simp_all add: fb_ensure_def)
  have l: "length ?a = 4" "length ?b = 4" by simp_all
  have wa: "ser_write ?a s = Some (written ?a s)"
    using assms l r by (intro ser_write_wf_fits) auto
  have wf: "ser_wf (written ?a s)" "remaining (written ?a s) = remaining s - 4"
    using written_wf [OF assms, of ?a] l r by simp_all
  obtain u where u: "to_wire_u32 be (ph_len h) (written ?a s) = Some u" "encoded ?b (written ?a s) u"
    by (rule encodesD [OF u32_wire.put_law [OF TrueI] wf(1)])
  have "u = written ?b (written ?a s)"
    using u(2) r wf(2) l by (simp add: encoded_def written_fields)
  moreover have "ser_pos s + 8 \<le> length (ser_mem s)"
    using assms r by (auto simp: remaining_wf ser_wf_def)
  then have "written ?b (written ?a s) = written (?a @ ?b) s"
    using l by (intro written_append) simp
  ultimately show ?thesis
    using True wa u(1) by (simp add: to_wire_header_def enc_pva_header_def)
next
  case False
  then show ?thesis by (simp add: to_wire_header_def)
qed

lemma at_cursor_nth:
  assumes "at_cursor bs s" "i < length bs"
  shows "ser_at s i = Some (bs ! i)"
proof -
  from assms have le: "ser_pos s + i < length (ser_mem s)" by (simp add: at_cursor_def)
  have "bs ! i = segment (ser_pos s) (length bs) (ser_mem s) ! i" using assms by (simp add: at_cursor_def)
  also have "\<dots> = ser_mem s ! (ser_pos s + i)" using assms le by (simp add: segment_def)
  finally show ?thesis using le by (simp add: ser_at_def)
qed

text \<open>The flag bit of the byte order comes back with the header; the version is always 2.\<close>

lemma from_wire_header_enc:
  assumes "ser_wf s" "ser_good s" "8 \<le> remaining s" "at_cursor (enc_pva_header be h) s"
    and "be \<or> and (ph_flags h) flag_MSB = 0"
  shows "from_wire_header b old s =
    Some (be, h\<lparr>ph_flags := if be then or (ph_flags h) flag_MSB else ph_flags h, ph_version := 2\<rparr>, advance 8 s)"
proof -
  let ?fl = "if be then or (ph_flags h) flag_MSB else ph_flags h"
  let ?b = "wire_bytes be (le_bytes 4 (unat (ph_len h)))"
  note nth = at_cursor_nth [OF assms(4)]
  have bytes: "ser_at s 0 = Some 0xca" "ser_at s 1 = Some 2" "ser_at s 2 = Some ?fl" "ser_at s 3 = Some (ph_cmd h)"
    using nth [of 0] nth [of 1] nth [of 2] nth [of 3] by (simp_all add: enc_pva_header_def)
  have "and (or (ph_flags h) flag_MSB) flag_MSB = flag_MSB"
    by (simp add: bit_eq_iff bit_and_iff bit_or_iff)
  then have msb: "(and ?fl flag_MSB \<noteq> 0) = be"
    using assms(5) by (auto simp: flag_MSB_def)
  have four: "length [0xca, 2, ?fl, ph_cmd h] = 4" by simp
  have at: "at_cursor ?b (advance 4 s)"
    using assms(4) unfolding enc_pva_header_def at_cursor_append four by (elim conjE)
  have sk: "fb_skip 4 s = advance 4 s" using assms(3) by (simp add: fb_skip_def)
  have "decodes_to (from_wire_u32 be (ph_len old)) ?b (ph_len h)" by (rule u32_wire.get_enc) simp
  moreover have "ser_wf (advance 4 s) \<and> remaining (advance 4 s) = remaining s - 4"
    using advance_wf [OF assms(1), of 4] assms(3) by simp
  ultimately have "from_wire_u32 be (ph_len old) (advance 4 s) = Some (ph_len h, advance 4 (advance 4 s))"
    using at assms(2,3) by (simp add: decodes_to_def ser_fields)
  then show ?thesis
    using assms(2,3) bytes sk msb by (simp add: from_wire_header_def fb_ensure_def Let_def)
qed

subsection \<open>Round trips\<close>

text \<open>
  C27: the encoders of statuses, of arrays of fixed-size elements and of arrays of strings return for
  any buffer, in both byte orders; they fault exactly when the buffer was faulty or has no room for
  the encoding; and what was written without a fault is read back as the same value by the decoder,
  which stops where the encoder did.
\<close>

theorem pvxs_roundtrip:
  assumes "ser_wf s" "good_status st" "array_ok k elems" "strings_ok xs"
  shows "(\<exists>s'. to_wire_status be st s = Some s' \<and>
      (ser_good s' \<longleftrightarrow> ser_good s \<and> length (enc_status be st) \<le> remaining s) \<and>
      (ser_good s' \<longrightarrow> from_wire_status be old (s'\<lparr>ser_pos := ser_pos s\<rparr>) = Some (st, s'))) \<and>
    (\<exists>s'. to_wire_array be k elems s = Some s' \<and>
      (ser_good s' \<longleftrightarrow> ser_good s \<and> length (enc_array be k elems) \<le> remaining s) \<and>
      (ser_good s' \<longrightarrow> from_wire_array be k (s'\<lparr>ser_pos := ser_pos s\<rparr>) = Some (concat elems, s'))) \<and>
    (\<exists>s'. to_wire_strings be xs s = Some s' \<and>
      (ser_good s' \<longleftrightarrow> ser_good s \<and> length (enc_size be (length xs) @ concat (map (enc_str be) xs)) \<le> remaining s) \<and>
      (ser_good s' \<longrightarrow> from_wire_strings be (s'\<lparr>ser_pos := ser_pos s\<rparr>) = Some (xs, s')))"
  using assms
  by (intro conjI codec_total status_wire.put_law status_wire.get_enc encodes_array decodes_to_array
      strings_wire.put_law strings_wire.get_enc)

text \<open>A warning, two 16-bit elements and two strings, in big-endian order.\<close>

theorem pvxs_roundtrip_witness:
  "(\<exists>s'. to_wire_status True \<lparr>st_code = 1, st_msg = [104, 105], st_trace = []\<rparr> (ser_of (replicate 64 0)) = Some s' \<and>
      from_wire_status True \<lparr>st_code = 0, st_msg = [], st_trace = []\<rparr> (s'\<lparr>ser_pos := 0\<rparr>) =
        Some (\<lparr>st_code = 1, st_msg = [104, 105], st_trace = []\<rparr>, s')) \<and>
    (\<exists>s'. to_wire_array True 2 [[1, 2], [3, 4]] (ser_of (replicate 64 0)) = Some s' \<and>
      from_wire_array True 2 (s'\<lparr>ser_pos := 0\<rparr>) = Some ([1, 2, 3, 4], s')) \<and>
    (\<exists>s'. to_wire_strings True [[65], [66, 67]] (ser_of (replicate 64 0)) = Some s' \<and>
      from_wire_strings True (s'\<lparr>ser_pos := 0\<rparr>) = Some ([[65], [66, 67]], s'))"
proof -
  let ?s = "ser_of (replicate 64 0)" and ?st = "\<lparr>st_code = 1, st_msg = [104, 105], st_trace = []\<rparr>"
  have s: "ser_wf ?s" "ser_good ?s" "remaining ?s = 64" "ser_pos ?s = 0"
    by (simp_all add: ser_wf_def ser_fields remaining_def)
  have ok: "good_status ?st" "array_ok 2 [[1, 2], [3, 4]]" "strings_ok [[65], [66, 67]]"
    by (simp_all add: good_status_def array_ok_def strings_ok_def)
  have l: "length (enc_status True ?st) \<le> 64" "length (enc_array True 2 [[1, 2], [3, 4]]) \<le> 64"
    "length (enc_size True (length [[65 :: u8], [66, 67]]) @ concat (map (enc_str True) [[65], [66, 67]])) \<le> 64"
    by (simp_all add: enc_status_def enc_array_def enc_str_def enc_size_def)
  from pvxs_roundtrip [OF s(1) ok, of True "\<lparr>st_code = 0, st_msg = [], st_trace = []\<rparr>"] l s(2-4)
  show ?thesis by (simp only: concat.simps append_Cons append_Nil) blast
qed

end
