(* ===== verification/Bitmask.thy ===== *)
theory Bitmask
  imports Diode_Prelude
begin

text \<open>
  The bit mask of PVXS (\<open>pvxs_headers/bitmask.h\<close>) that marks the fields of a value: bit \<open>i\<close> is bit
  \<open>i mod 64\<close> of word \<open>i div 64\<close>. \<open>resize\<close> is compiled in the PVXS library and is a parameter of the
  operations that use it. An access to a word outside the vector gives \<open>None\<close>.
\<close>

record bitmask =
  bm_words :: "u64 list"
  bm_size :: nat

definition empty_mask :: bitmask where
  "empty_mask = \<lparr>bm_words = [], bm_size = 0\<rparr>"

definition mask_get :: "bitmask \<Rightarrow> nat \<Rightarrow> bool option" where
  "mask_get m i = do { w \<leftarrow> vec_at (bm_words m) (i div 64); Some (and w (push_bit (i mod 64) 1) \<noteq> 0) }"

definition mask_set :: "nat \<Rightarrow> bool \<Rightarrow> bitmask \<Rightarrow> bitmask option" where
  "mask_set i v m =
     do {
       w \<leftarrow> vec_at (bm_words m) (i div 64);
       Some (m\<lparr>bm_words := (bm_words m)[i div 64 :=
         (if v then or w (push_bit (i mod 64) 1) else and w (not (push_bit (i mod 64) 1)))]\<rparr>)
     }"

definition mask_wsize :: "bitmask \<Rightarrow> nat" where
  "mask_wsize m = length (bm_words m)"

definition mask_set_word :: "nat \<Rightarrow> u64 \<Rightarrow> bitmask \<Rightarrow> bitmask option" where
  "mask_set_word i w m = (if i < length (bm_words m) then Some (m\<lparr>bm_words := (bm_words m)[i := w]\<rparr>) else None)"

subsection \<open>Expressions\<close>

text \<open>The operators build expressions over masks; words are computed when an expression is assigned.\<close>

datatype bit_expr = Mask bitmask | BitNot bit_expr | BitAnd bit_expr bit_expr | BitOr bit_expr bit_expr

fun expr_size :: "bit_expr \<Rightarrow> nat" where
  "expr_size (Mask m) = bm_size m"
| "expr_size (BitNot e) = expr_size e"
| "expr_size (BitAnd a b) = min (expr_size a) (expr_size b)"
| "expr_size (BitOr a b) = max (expr_size a) (expr_size b)"

fun expr_wsize :: "bit_expr \<Rightarrow> nat" where
  "expr_wsize (Mask m) = mask_wsize m"
| "expr_wsize (BitNot e) = expr_wsize e"
| "expr_wsize (BitAnd a b) = min (expr_wsize a) (expr_wsize b)"
| "expr_wsize (BitOr a b) = max (expr_wsize a) (expr_wsize b)"

fun expr_word :: "bit_expr \<Rightarrow> nat \<Rightarrow> u64 option" where
  "expr_word (Mask m) i = vec_at (bm_words m) i"
| "expr_word (BitNot e) i = map_option not (expr_word e i)"
| "expr_word (BitAnd a b) i = do { x \<leftarrow> expr_word a i; y \<leftarrow> expr_word b i; Some (and x y) }"
| "expr_word (BitOr a b) i = do { x \<leftarrow> expr_word a i; y \<leftarrow> expr_word b i; Some (or x y) }"

text \<open>The operators throw when the sizes differ.\<close>

definition mask_and :: "bit_expr \<Rightarrow> bit_expr \<Rightarrow> string + bit_expr" where
  "mask_and a b = (if expr_size a \<noteq> expr_size b then Inl ''op size mismatch'' else Inr (BitAnd a b))"

definition mask_or :: "bit_expr \<Rightarrow> bit_expr \<Rightarrow> string + bit_expr" where
  "mask_or a b = (if expr_size a \<noteq> expr_size b then Inl ''op size mismatch'' else Inr (BitOr a b))"

definition copy_words :: "(u64 \<Rightarrow> u64 \<Rightarrow> u64) \<Rightarrow> bit_expr \<Rightarrow> bitmask \<Rightarrow> bitmask option" where
  "copy_words f e m =
     foldM (\<lambda>i m. do { w \<leftarrow> expr_word e i; old \<leftarrow> vec_at (bm_words m) i; mask_set_word i (f old w) m })
       [0 ..< expr_wsize e] m"

definition mask_assign :: "(nat \<Rightarrow> bitmask \<Rightarrow> bitmask) \<Rightarrow> bit_expr \<Rightarrow> bitmask \<Rightarrow> bitmask option" where
  "mask_assign rsz e m = copy_words (\<lambda>old w. w) e (rsz (expr_size e) m)"

definition mask_or_assign :: "(nat \<Rightarrow> bitmask \<Rightarrow> bitmask) \<Rightarrow> bit_expr \<Rightarrow> bitmask \<Rightarrow> bitmask option" where
  "mask_or_assign rsz e m = copy_words or e (rsz (expr_size e) m)"

definition mask_and_assign :: "(nat \<Rightarrow> bitmask \<Rightarrow> bitmask) \<Rightarrow> bit_expr \<Rightarrow> bitmask \<Rightarrow> bitmask option" where
  "mask_and_assign rsz e m = copy_words and e (rsz (expr_size e) m)"

subsection \<open>A mask as a function from bits\<close>

definition mask_wf :: "nat \<Rightarrow> bitmask \<Rightarrow> bool" where
  "mask_wf n m \<longleftrightarrow> bm_size m = n \<and> n \<le> 64 * length (bm_words m)"

definition mask_bit :: "bitmask \<Rightarrow> nat \<Rightarrow> bool" where
  "mask_bit m i \<longleftrightarrow> mask_get m i = Some True"

lemma bit_power_two: "bit (2 ^ n :: u64) k \<longleftrightarrow> k = n \<and> n < 64"
  by (auto simp: bit_exp_iff possible_bit_def)

lemma and_power_two: "and w (2 ^ n) \<noteq> (0 :: u64) \<longleftrightarrow> n < 64 \<and> bit w n"
proof -
  have e: "and w (2 ^ n) = (if bit w n then 2 ^ n else 0)"
    by (rule bit_eqI) (auto simp: bit_and_iff bit_power_two)
  moreover have "n < 64 \<Longrightarrow> (2 :: u64) ^ n \<noteq> 0"
    using bit_power_two [of n n] by fastforce
  moreover have "bit w n \<Longrightarrow> n < 64"
    using bit_imp_le_length [of w n] by simp
  ultimately show ?thesis by auto
qed

lemma mask_bit_iff: "mask_bit m i \<longleftrightarrow> i div 64 < length (bm_words m) \<and> bit (bm_words m ! (i div 64)) (i mod 64)"
  by (auto simp: mask_bit_def mask_get_def and_power_two bind_eq_Some_conv vec_at_def split: if_splits)

lemma mask_wf_word: "mask_wf n m \<Longrightarrow> i < n \<Longrightarrow> i div 64 < length (bm_words m)"
  by (auto simp: mask_wf_def)

text \<open>Setting a bit changes that bit only.\<close>

lemma mask_set_ok:
  assumes "mask_wf n m" "i < n"
  obtains m' where "mask_set i v m = Some m'" "mask_wf n m'"
    "\<And>j. mask_bit m' j = (if j = i then v else mask_bit m j)"
proof -
  let ?q = "i div 64" and ?r = "i mod 64"
  have l: "?q < length (bm_words m)" using assms by (rule mask_wf_word)
  let ?w = "bm_words m ! ?q"
  let ?w' = "if v then or ?w (push_bit ?r 1) else and ?w (not (push_bit ?r 1))"
  let ?m = "m\<lparr>bm_words := (bm_words m)[?q := ?w']\<rparr>"
  have s: "mask_set i v m = Some ?m" using l by (simp add: mask_set_def)
  have w: "mask_wf n ?m" using assms(1) by (simp add: mask_wf_def)
  have b: "bit ?w' k = (if k = ?r then v else bit ?w k)" if "k < 64" for k
    using that by (auto simp: bit_or_iff bit_and_iff bit_not_iff bit_power_two)
  have "mask_bit ?m j = (if j = i then v else mask_bit m j)" for j
  proof (cases "j div 64 = ?q")
    case True
    have "j = i \<longleftrightarrow> j mod 64 = ?r"
      using True by (metis div_mult_mod_eq)
    with True l b [of "j mod 64"] show ?thesis by (simp add: mask_bit_iff)
  next
    case False
    then show ?thesis by (auto simp: mask_bit_iff)
  qed
  with s w show ?thesis by (rule that)
qed

lemma mask_set_SomeD:
  "mask_set i v m = Some m' \<Longrightarrow> bm_size m' = bm_size m \<and> length (bm_words m') = length (bm_words m)"
  by (auto simp: mask_set_def bind_eq_Some_conv)

subsection \<open>Iterating over the set bits\<close>

text \<open>
  \<open>onlySet()\<close> and \<open>onlySet(a, b)\<close> are ranges whose iterators step with \<open>findSet\<close>, which is compiled in the
  PVXS library: a parameter of the operations, documented as the first set bit from \<open>start\<close> on and \<open>size()\<close> when there
  is none (\<open>finds_set\<close>). The loop over a range compares the position with the end for equality.
\<close>

record only_set =
  os_mask :: bitmask
  os_a :: nat
  os_b :: nat

definition onlySet :: "bitmask \<Rightarrow> only_set" where
  "onlySet m = \<lparr>os_mask = m, os_a = 0, os_b = bm_size m\<rparr>"

definition onlySet_range :: "nat \<Rightarrow> nat \<Rightarrow> bitmask \<Rightarrow> only_set" where
  "onlySet_range a b m = \<lparr>os_mask = m, os_a = a, os_b = b\<rparr>"

definition set_begin :: "(bitmask \<Rightarrow> nat \<Rightarrow> nat) \<Rightarrow> only_set \<Rightarrow> nat" where
  "set_begin find_set r = find_set (os_mask r) (os_a r)"

definition set_step :: "(bitmask \<Rightarrow> nat \<Rightarrow> nat) \<Rightarrow> bitmask \<Rightarrow> nat \<Rightarrow> nat" where
  "set_step find_set m i = find_set m (i + 1)"

partial_function (option) set_loop ::
  "(bitmask \<Rightarrow> nat \<Rightarrow> nat) \<Rightarrow> bitmask \<Rightarrow> nat \<Rightarrow> nat \<Rightarrow> nat list option" where
  "set_loop find_set m e i =
     (if i = e then Some []
      else Option.bind (set_loop find_set m e (set_step find_set m i)) (\<lambda>js. Some (i # js)))"

definition set_bits :: "(bitmask \<Rightarrow> nat \<Rightarrow> nat) \<Rightarrow> only_set \<Rightarrow> nat list option" where
  "set_bits find_set r = set_loop find_set (os_mask r) (os_b r) (set_begin find_set r)"

definition first_set :: "bitmask \<Rightarrow> nat \<Rightarrow> nat" where
  "first_set m start =
     (case filter (mask_bit m) [start ..< bm_size m] of [] \<Rightarrow> bm_size m | i # _ \<Rightarrow> i)"

definition finds_set :: "(bitmask \<Rightarrow> nat \<Rightarrow> nat) \<Rightarrow> bool" where
  "finds_set find_set \<longleftrightarrow> (\<forall>m start. find_set m start = first_set m start)"

lemma first_set_unset [simp]: "\<not> mask_bit m i \<Longrightarrow> i < bm_size m \<Longrightarrow> first_set m i = first_set m (Suc i)"
  by (simp add: first_set_def upt_conv_Cons)

lemma first_set_set [simp]: "mask_bit m i \<Longrightarrow> i < bm_size m \<Longrightarrow> first_set m i = i"
  by (simp add: first_set_def upt_conv_Cons)

lemma first_set_past [simp]: "bm_size m \<le> i \<Longrightarrow> first_set m i = bm_size m"
  by (simp add: first_set_def)

lemma first_set_stop: "first_set m i = bm_size m \<or> mask_bit m (first_set m i)"
proof (cases "filter (mask_bit m) [i ..< bm_size m]")
  case (Cons j js)
  then have "j \<in> set (filter (mask_bit m) [i ..< bm_size m])" by simp
  then have "mask_bit m j" unfolding set_filter by blast
  with Cons show ?thesis by (simp add: first_set_def)
qed (simp add: first_set_def)

text \<open>An end the iterators can reach: the size, or a set bit. Then the loop visits the set bits in between.\<close>

lemma set_loop_range:
  assumes f: "finds_set find_set" and "i \<le> e" and e: "e = bm_size m \<or> e < bm_size m \<and> mask_bit m e"
  shows "set_loop find_set m e (first_set m i) = Some (filter (mask_bit m) [i ..< e])"
  using assms(2)
proof (induction "e - i" arbitrary: i)
  case 0
  then have "i = e" by simp
  moreover have "first_set m e = e" using e by auto
  ultimately show ?case by (simp add: set_loop.simps)
next
  case (Suc n)
  then have i: "i < e" "i < bm_size m" "n = e - Suc i" using e by auto
  have IH: "set_loop find_set m e (first_set m (Suc i)) = Some (filter (mask_bit m) [Suc i ..< e])"
    using Suc.hyps(1) [of "Suc i"] i by simp
  show ?case
  proof (cases "mask_bit m i")
    case True
    then show ?thesis
      using i IH f by (subst set_loop.simps) (simp add: set_step_def finds_set_def upt_conv_Cons)
  qed (use i IH in \<open>simp add: upt_conv_Cons\<close>)
qed

lemma set_bits_all:
  assumes "finds_set find_set"
  shows "set_bits find_set (onlySet m) = Some (filter (mask_bit m) [0 ..< bm_size m])"
  using set_loop_range [OF assms, of 0 "bm_size m" m] assms
  by (simp add: set_bits_def onlySet_def set_begin_def finds_set_def)

lemma set_bits_range:
  assumes "finds_set find_set" "a \<le> b" "b = bm_size m \<or> b < bm_size m \<and> mask_bit m b"
  shows "set_bits find_set (onlySet_range a b m) = Some (filter (mask_bit m) [a ..< b])"
  using set_loop_range [OF assms] assms(1)
  by (simp add: set_bits_def onlySet_range_def set_begin_def finds_set_def)

text \<open>With a clear bit as its end the loop steps over the end and does not return.\<close>

lemma set_loop_ends:
  assumes "finds_set find_set" "set_loop find_set m e i = Some js"
  shows "i = e \<or> e = bm_size m \<or> mask_bit m e"
proof (rule set_loop.raw_induct [where P = "\<lambda>f m e i r. f = find_set \<longrightarrow> i = e \<or> e = bm_size m \<or> mask_bit m e",
      rule_format, OF _ assms(2) refl], goal_cases)
  case (1 loop f m e i r)
  show ?case
  proof (cases "i = e")
    case False
    with 1 obtain js where "loop f m e (set_step f m i) = Some js"
      by (auto simp: bind_eq_Some_conv)
    with 1 have "set_step f m i = e \<or> e = bm_size m \<or> mask_bit m e" by blast
    with assms(1) 1(3) first_set_stop [of m "i + 1"] show ?thesis
      by (auto simp: set_step_def finds_set_def)
  qed simp
qed

lemma set_bits_range_stuck:
  assumes "finds_set find_set" "b < bm_size m" "\<not> mask_bit m b"
  shows "set_bits find_set (onlySet_range a b m) = None"
proof (cases "set_bits find_set (onlySet_range a b m)")
  case (Some js)
  then have "set_begin find_set (onlySet_range a b m) = b"
    using set_loop_ends [OF assms(1)] assms(2,3) by (fastforce simp: set_bits_def onlySet_range_def)
  with assms first_set_stop [of m a] show ?thesis
    by (auto simp: set_begin_def finds_set_def onlySet_range_def)
qed simp

lemma set_bits_range_stuck_witness:
  "set_bits first_set (onlySet_range 0 1 \<lparr>bm_words = [4], bm_size = 3\<rparr>) = None"
  by (rule set_bits_range_stuck) (simp_all add: finds_set_def mask_bit_def mask_get_def vec_at_def)

end
