(* ===== verification/Pva_Protocol.thy ===== *)
theory Pva_Protocol
  imports Pvxs_Codec Bitmask
begin

text \<open>
  Values, type cache and messages of the pvAccess diode (\<open>src/pva_protocol.cpp\<close>,
  \<open>epics-diode/pva/protocol.h\<close>, with the field descriptions of \<open>pvxs_headers/dataimpl.h\<close>). What is
  compiled in the PVXS library (building the normative types, comparing and cloning types, the
  encodings of types and of marked values, resizing a mask) is a record of parameters.
\<close>

subsection \<open>Values\<close>

datatype type_code =
    TC_Null | TC_Struct | TC_Bool | TC_BoolA
  | TC_Int8 | TC_Int16 | TC_Int32 | TC_Int64 | TC_UInt8 | TC_UInt16 | TC_UInt32 | TC_UInt64
  | TC_Int8A | TC_Int16A | TC_Int32A | TC_Int64A | TC_UInt8A | TC_UInt16A | TC_UInt32A | TC_UInt64A
  | TC_Float32 | TC_Float64 | TC_Float32A | TC_Float64A | TC_String | TC_StringA | TC_Other nat

datatype field_desc =
  FieldDesc (fd_id: string) (fd_mlookup: "(string \<times> nat) list") (fd_miter: "(string \<times> nat) list")
    (fd_parent_index: nat) (fd_members: "field_desc list") (fd_code: type_code)

definition fd_size :: "field_desc \<Rightarrow> nat" where
  "fd_size d = 1 + (if fd_members d = [] then length (fd_mlookup d) else 0)"

lemma fd_size_pos [simp]: "0 < fd_size d"
  by (simp add: fd_size_def)

datatype store_type = ST_Null | ST_Bool | ST_UInteger | ST_Integer | ST_Real | ST_String | ST_Array | ST_Compound

text \<open>
  What the union in a field's storage holds: a number as its 64 bits, a string, a handle on a shared
  array, an empty value, or a value whose description is the entry \<open>i\<close> of the enclosing type and
  whose storage is that of a field.
\<close>

datatype field_content = Number u64 | Text string | Items nat | Empty_Value | Nested nat field_content

record field =
  fl_valid :: bool
  fl_code :: store_type
  fl_content :: field_content

text \<open>A non-empty value: the descriptions from its own on, and the storage of its fields.\<close>

record pva_value =
  pv_desc :: "field_desc list"
  pv_fields :: "field list"

type_synonym type_cache = "pva_value option list"

record pva_lib =
  lib_nt_scalar :: "type_code \<Rightarrow> pva_value"
  lib_nt_enum :: pva_value
  lib_nt_ndarray :: pva_value
  lib_equal_type :: "pva_value \<Rightarrow> pva_value option \<Rightarrow> bool"
  lib_clone_empty :: "pva_value \<Rightarrow> pva_value"
  lib_resize :: "nat \<Rightarrow> bitmask \<Rightarrow> bitmask"
  lib_to_wire_type :: "field_desc list \<Rightarrow> serializer \<Rightarrow> serializer option"
  lib_from_wire_type :: "serializer \<Rightarrow> (pva_value option \<times> serializer) option"
  lib_to_wire_valid :: "pva_value \<Rightarrow> bitmask \<Rightarrow> serializer \<Rightarrow> serializer option"
  lib_from_wire_valid :: "pva_value \<Rightarrow> serializer \<Rightarrow> (pva_value \<times> serializer) option"
  lib_unmark :: "pva_value \<Rightarrow> pva_value"

subsection \<open>Type cache\<close>

definition builtin_scalars :: "type_code list" where
  "builtin_scalars =
     [TC_Bool, TC_BoolA, TC_Int8, TC_Int16, TC_Int32, TC_Int64, TC_UInt8, TC_UInt16, TC_UInt32, TC_UInt64,
      TC_Int8A, TC_Int16A, TC_Int32A, TC_Int64A, TC_UInt8A, TC_UInt16A, TC_UInt32A, TC_UInt64A,
      TC_Float32, TC_Float64, TC_Float32A, TC_Float64A, TC_String, TC_StringA]"

text \<open>The second component is the new value of the static \<open>buildinCacheSize\<close>.\<close>

definition build_type_cache :: "pva_lib \<Rightarrow> type_cache \<Rightarrow> type_cache \<times> u16" where
  "build_type_cache lib cache =
     (let cache = cache @ map (\<lambda>c. Some (lib_nt_scalar lib c)) builtin_scalars @
        [Some (lib_nt_enum lib), Some (lib_nt_ndarray lib)]
      in (cache, of_nat (length cache)))"

fun cache_find :: "pva_lib \<Rightarrow> pva_value \<Rightarrow> type_cache \<Rightarrow> u16 \<Rightarrow> u16 option \<times> u16" where
  "cache_find lib v [] n = (None, n)"
| "cache_find lib v (c # cs) n = (if lib_equal_type lib v c then (Some n, n) else cache_find lib v cs (n + 1))"

definition cache_type :: "pva_lib \<Rightarrow> pva_value \<Rightarrow> type_cache \<Rightarrow> u16 \<times> type_cache" where
  "cache_type lib v cache =
     (case cache_find lib v cache 0 of
        (Some i, _) \<Rightarrow> (i, cache)
      | (None, n) \<Rightarrow> (n, cache @ [Some (lib_clone_empty lib v)]))"

subsection \<open>Type definitions\<close>

definition PVA_TYPEDEF_MESSAGE :: u8 where "PVA_TYPEDEF_MESSAGE = 32"
definition PVA_DATA_MESSAGE :: u8 where "PVA_DATA_MESSAGE = 33"
definition PVATypeDefMessage_size :: nat where "PVATypeDefMessage_size = 4"
definition PVADataMessage_size :: nat where "PVADataMessage_size = 4"
definition PVAChannelData_size :: nat where "PVAChannelData_size = 5"

lemmas pva_size_defs = PVATypeDefMessage_size_def PVADataMessage_size_def PVAChannelData_size_def

record pva_typedef_message =
  td_start_id :: u16
  td_typedef_count :: u16

definition empty_pva_typedef :: pva_typedef_message where
  "empty_pva_typedef = \<lparr>td_start_id = 0, td_typedef_count = 0\<rparr>"

definition put_pva_typedef :: "pva_typedef_message \<Rightarrow> serializer \<Rightarrow> serializer option" where
  "put_pva_typedef m s =
     (let (ok, s) = ensure PVATypeDefMessage_size s in
      if ok then do { s \<leftarrow> put_u16 (td_start_id m) s; put_u16 (td_typedef_count m) s } else Some s)"

definition get_pva_typedef :: "serializer \<Rightarrow> (pva_typedef_message \<times> serializer) option" where
  "get_pva_typedef s =
     (let (ok, s) = ensure PVATypeDefMessage_size s in
      if ok then do {
        (i, s) \<leftarrow> get_u16 s;
        (n, s) \<leftarrow> get_u16 s;
        Some (\<lparr>td_start_id = i, td_typedef_count = n\<rparr>, s)
      } else Some (empty_pva_typedef, s))"

text \<open>
  The library works on a buffer over the rest of the serializer; \<open>give_back\<close> moves the serializer to
  where it stopped, keeping the serializer's own flag.
\<close>

definition give_back :: "serializer \<Rightarrow> serializer \<Rightarrow> serializer option" where
  "give_back s b = set_position (ser_pos b) (s\<lparr>ser_mem := ser_mem b\<rparr>)"

text \<open>An empty value has no description (a null pointer).\<close>

definition typedef_serialize :: "pva_lib \<Rightarrow> pva_value option \<Rightarrow> serializer \<Rightarrow> (bool \<times> serializer) option" where
  "typedef_serialize lib v s =
     do { v \<leftarrow> v;
          b \<leftarrow> lib_to_wire_type lib (pv_desc v) (fixed_buf s);
          s \<leftarrow> give_back s b;
          Some (ser_good b, s) }"

definition typedef_deserialize :: "pva_lib \<Rightarrow> serializer \<Rightarrow> (bool \<times> pva_value option \<times> serializer) option" where
  "typedef_deserialize lib s =
     do { (v, b) \<leftarrow> lib_from_wire_type lib (fixed_buf s);
          s \<leftarrow> give_back s b;
          Some (ser_good b, v, s) }"

subsection \<open>Data\<close>

record pva_data_message =
  pd_seq_no :: u16
  pd_channel_count :: u16

definition empty_pva_data :: pva_data_message where
  "empty_pva_data = \<lparr>pd_seq_no = 0, pd_channel_count = 0\<rparr>"

definition put_pva_data :: "pva_data_message \<Rightarrow> serializer \<Rightarrow> serializer option" where
  "put_pva_data m s =
     (let (ok, s) = ensure PVADataMessage_size s in
      if ok then do { s \<leftarrow> put_u16 (pd_seq_no m) s; put_u16 (pd_channel_count m) s } else Some s)"

definition get_pva_data :: "serializer \<Rightarrow> (pva_data_message \<times> serializer) option" where
  "get_pva_data s =
     (let (ok, s) = ensure PVADataMessage_size s in
      if ok then do {
        (q, s) \<leftarrow> get_u16 s;
        (n, s) \<leftarrow> get_u16 s;
        Some (\<lparr>pd_seq_no = q, pd_channel_count = n\<rparr>, s)
      } else Some (empty_pva_data, s))"

text \<open>\<open>None\<close> and \<open>Disconnected\<close> of the update type have the same value.\<close>

definition UT_None :: u8 where "UT_None = 0"
definition UT_Disconnected :: u8 where "UT_Disconnected = 0"
definition UT_Partial :: u8 where "UT_Partial = 1"
definition UT_Full :: u8 where "UT_Full = 2"

lemmas update_type_defs = UT_None_def UT_Disconnected_def UT_Partial_def UT_Full_def

record pva_channel_data =
  pcd_id :: u32
  pcd_update_seq_no :: u16
  pcd_update_type :: u8
  pcd_type_id :: u16

definition empty_pva_channel_data :: pva_channel_data where
  "empty_pva_channel_data = \<lparr>pcd_id = 0, pcd_update_seq_no = 0, pcd_update_type = UT_None, pcd_type_id = 0\<rparr>"

definition put_pva_channel_data :: "pva_channel_data \<Rightarrow> serializer \<Rightarrow> serializer option" where
  "put_pva_channel_data m s =
     (let (ok, s) = ensure PVAChannelData_size s in
      if ok then do {
        s \<leftarrow> put_u32 (pcd_id m) s;
        s \<leftarrow> put_u16 (pcd_update_seq_no m) s;
        s \<leftarrow> put_u8 (pcd_update_type m) s;
        if pcd_update_type m \<noteq> UT_Disconnected \<and> pcd_update_type m = UT_Full then
          let (ok, s) = ensure 2 s in if ok then put_u16 (pcd_type_id m) s else Some s
        else Some s
      } else Some s)"

definition get_pva_channel_data :: "serializer \<Rightarrow> (pva_channel_data \<times> serializer) option" where
  "get_pva_channel_data s =
     (let (ok, s) = ensure PVAChannelData_size s in
      if ok then do {
        (i, s) \<leftarrow> get_u32 s;
        (q, s) \<leftarrow> get_u16 s;
        (u, s) \<leftarrow> get_u8 s;
        (t, s) \<leftarrow> (if u = UT_Full then
            let (ok, s) = ensure 2 s in if ok then get_u16 s else Some (0, s)
          else Some (0, s));
        Some (\<lparr>pcd_id = i, pcd_update_seq_no = q, pcd_update_type = u, pcd_type_id = t\<rparr>, s)
      } else Some (empty_pva_channel_data, s))"

definition serialize_value ::
  "pva_lib \<Rightarrow> pva_channel_data \<Rightarrow> pva_value option \<Rightarrow> bitmask \<Rightarrow> serializer \<Rightarrow> (bool \<times> serializer) option" where
  "serialize_value lib m v msk s =
     (if ser_good s \<and> pcd_update_type m \<noteq> UT_Disconnected then do {
        v \<leftarrow> v;
        b \<leftarrow> lib_to_wire_valid lib v msk (fixed_buf s);
        s \<leftarrow> give_back s b;
        Some (ser_good s, s)
      } else Some (ser_good s, s))"

definition get_value :: "pva_lib \<Rightarrow> pva_value option \<Rightarrow> serializer \<Rightarrow> (pva_value option \<times> serializer) option" where
  "get_value lib v s =
     do { v \<leftarrow> v;
          (v, b) \<leftarrow> lib_from_wire_valid lib v (fixed_buf s);
          s \<leftarrow> give_back s b;
          Some (Some v, s) }"

subsection \<open>The contracts hold\<close>

definition enc_pva_typedef :: "pva_typedef_message \<Rightarrow> bytes" where
  "enc_pva_typedef m = le_bytes 2 (unat (td_start_id m)) @ le_bytes 2 (unat (td_typedef_count m))"

definition enc_pva_data :: "pva_data_message \<Rightarrow> bytes" where
  "enc_pva_data m = le_bytes 2 (unat (pd_seq_no m)) @ le_bytes 2 (unat (pd_channel_count m))"

interpretation pva_typedef: safe_codec put_pva_typedef get_pva_typedef enc_pva_typedef
  empty_pva_typedef PVATypeDefMessage_size PVATypeDefMessage_size
  by unfold_locales
    (auto simp: put_pva_typedef_def get_pva_typedef_def enc_pva_typedef_def codec_simps PVATypeDefMessage_size_def)

interpretation pva_data: safe_codec put_pva_data get_pva_data enc_pva_data
  empty_pva_data PVADataMessage_size PVADataMessage_size
  by unfold_locales
    (auto simp: put_pva_data_def get_pva_data_def enc_pva_data_def codec_simps PVADataMessage_size_def)

text \<open>
  The head of a channel entry: seven bytes, and two more for the type of a full update. Both
  directions ensure \<open>PVAChannelData::size\<close> (5 bytes) first.
\<close>

definition enc_pva_channel_head :: "pva_channel_data \<Rightarrow> bytes" where
  "enc_pva_channel_head m =
     le_bytes 4 (unat (pcd_id m)) @ le_bytes 2 (unat (pcd_update_seq_no m)) @ [pcd_update_type m]"

definition enc_pva_channel_data :: "pva_channel_data \<Rightarrow> bytes" where
  "enc_pva_channel_data m =
     enc_pva_channel_head m @ (if pcd_update_type m = UT_Full then le_bytes 2 (unat (pcd_type_id m)) else [])"

lemma length_enc_pva [simp]:
  "length (enc_pva_typedef a) = 4" "length (enc_pva_data b) = 4" "length (enc_pva_channel_head m) = 7"
  "length (enc_pva_channel_data m) = (if pcd_update_type m = UT_Full then 9 else 7)"
  by (simp_all add: enc_pva_typedef_def enc_pva_data_def enc_pva_channel_head_def enc_pva_channel_data_def)

lemma put_pva_channel_data_alt:
  "put_pva_channel_data m s =
     (if ser_good s \<and> 5 \<le> remaining s then
        do { s \<leftarrow> ser_write (enc_pva_channel_head m) s;
             if pcd_update_type m = UT_Full then
               if 2 \<le> remaining s then ser_write (le_bytes 2 (unat (pcd_type_id m))) s
               else Some (s\<lparr>ser_good := False\<rparr>)
             else Some s }
      else Some (s\<lparr>ser_good := False\<rparr>))"
proof (cases "ser_good s \<and> 5 \<le> remaining s")
  case True
  then have e: "ensure 5 s = (True, s)" by (simp add: ensure_True)
  have lhs: "put_pva_channel_data m s = Option.bind (ser_write (enc_pva_channel_head m) s)
      (\<lambda>s. if pcd_update_type m \<noteq> UT_Disconnected \<and> pcd_update_type m = UT_Full then
          let (ok, s) = ensure 2 s in if ok then put_u16 (pcd_type_id m) s else Some s
        else Some s)"
    unfolding put_pva_channel_data_def PVAChannelData_size_def enc_pva_channel_head_def
    by (simp add: e put_write_fun ser_write_append_k)
  have g: "ser_write (enc_pva_channel_head m) s = Some s' \<Longrightarrow> ser_good s'" for s'
    using True by (auto dest: ser_write_fields(3))
  show ?thesis
  proof (cases "ser_write (enc_pva_channel_head m) s")
    case None
    with lhs True show ?thesis by simp
  next
    case (Some s')
    with g have "ser_good s'" by simp
    with Some lhs True show ?thesis
      by (simp add: ensure_cases put_write UT_Full_def UT_Disconnected_def)
  qed
next
  case False
  then have "ensure 5 s = (False, s\<lparr>ser_good := False\<rparr>)" by (rule ensure_False)
  with False show ?thesis by (auto simp: put_pva_channel_data_def PVAChannelData_size_def)
qed

lemma put_pva_channel_data_fits:
  assumes "ser_wf s" "ser_good s" "length (enc_pva_channel_data m) \<le> remaining s"
  shows "put_pva_channel_data m s = Some (written (enc_pva_channel_data m) s)"
proof -
  let ?a = "enc_pva_channel_head m"
  let ?b = "le_bytes 2 (unat (pcd_type_id m))"
  have seven: "7 \<le> remaining s" using assms(3) by (simp split: if_splits)
  have wa: "ser_write ?a s = Some (written ?a s)"
    using assms(1) seven by (intro ser_write_wf_fits) simp_all
  have r: "remaining (written ?a s) = remaining s - 7" "ser_wf (written ?a s)"
    using seven written_wf [OF assms(1), of ?a] by simp_all
  show ?thesis
  proof (cases "pcd_update_type m = UT_Full")
    case False
    then show ?thesis
      using assms(2) seven wa by (simp add: put_pva_channel_data_alt enc_pva_channel_data_def)
  next
    case True
    with assms(3) have nine: "9 \<le> remaining s" by simp
    then have "ser_pos s + 9 \<le> length (ser_mem s)"
      using assms(1) by (auto simp: remaining_wf ser_wf_def)
    then have "written ?b (written ?a s) = written (?a @ ?b) s"
      by (intro written_append) simp
    moreover have "ser_write ?b (written ?a s) = Some (written ?b (written ?a s))"
      using r nine by (intro ser_write_wf_fits) simp_all
    ultimately show ?thesis
      using True assms(2) nine wa r by (simp add: put_pva_channel_data_alt enc_pva_channel_data_def)
  qed
qed

lemma get_pva_channel_data_enc:
  assumes "ser_good s" "5 \<le> remaining s" "at_cursor (enc_pva_channel_data m) s"
    and "length (enc_pva_channel_data m) \<le> remaining s" "ser_wf s"
  shows "get_pva_channel_data s =
    Some (m\<lparr>pcd_type_id := if pcd_update_type m = UT_Full then pcd_type_id m else 0\<rparr>,
      advance (length (enc_pva_channel_data m)) s)"
proof -
  have hd: "at_cursor (enc_pva_channel_head m) s"
    "at_cursor (if pcd_update_type m = UT_Full then le_bytes 2 (unat (pcd_type_id m)) else []) (advance 7 s)"
    using assms(3) unfolding enc_pva_channel_data_def at_cursor_append length_enc_pva by simp_all
  have at: "at_cursor (le_bytes 4 (unat (pcd_id m))) s" "at_cursor (le_bytes 2 (unat (pcd_update_seq_no m))) (advance 4 s)"
    "at_cursor [pcd_update_type m] (advance 6 s)"
    "pcd_update_type m = UT_Full \<Longrightarrow> at_cursor (le_bytes 2 (unat (pcd_type_id m))) (advance 7 s)"
    using hd(1) hd(2) by (simp_all add: enc_pva_channel_head_def at_cursor_append)
  have g: "get_u32 s = Some (pcd_id m, advance 4 s)"
    "get_u16 (advance 4 s) = Some (pcd_update_seq_no m, advance 6 s)"
    "get_u8 (advance 6 s) = Some (pcd_update_type m, advance 7 s)"
    using get_cursor(3) [OF at(1)] get_cursor(2) [OF at(2)] get_cursor(1) [OF at(3)] by simp_all
  have "remaining (advance 7 s) = remaining s - 7"
    using advance_wf [OF assms(5), of 7] assms(4) by (simp split: if_splits)
  then have "pcd_update_type m = UT_Full \<Longrightarrow> ensure 2 (advance 7 s) = (True, advance 7 s)"
    using assms(1,4) by (simp add: ensure_True ser_fields)
  then show ?thesis
    using assms(1,2) g get_cursor(2) [OF at(4)]
    by (simp add: get_pva_channel_data_def ensure_True PVAChannelData_size_def)
qed

text \<open>With five or six bytes left the head does not fit, and is written all the same.\<close>

lemma put_pva_channel_data_overrun:
  assumes "ser_wf s" "ser_good s" "ser_limit s = length (ser_mem s)" "remaining s = 5 \<or> remaining s = 6"
  shows "put_pva_channel_data m s = None"
proof -
  have "\<not> ser_pos s + 7 \<le> length (ser_mem s)"
    using assms by (auto simp: remaining_wf)
  then have "ser_write (enc_pva_channel_head m) s = None"
    by (simp add: ser_write_def)
  then show ?thesis
    using assms(2,4) by (auto simp: put_pva_channel_data_alt)
qed

text \<open>
  The library keeps to the buffer it is given; then the serializer takes over its position and its
  bytes, but not its fault.
\<close>

lemma fixed_buf_fields [simp]:
  "ser_mem (fixed_buf s) = ser_mem s" "ser_pos (fixed_buf s) = ser_pos s"
  "ser_limit (fixed_buf s) = ser_limit s" "ser_good (fixed_buf s)" "remaining (fixed_buf s) = remaining s"
  "ser_wf (fixed_buf s) \<longleftrightarrow> ser_wf s"
  by (simp_all add: fixed_buf_def ser_wf_def)

lemma give_back_within:
  assumes "inside (fixed_buf s) b"
  shows "give_back s b = Some (b\<lparr>ser_good := ser_good s\<rparr>)"
proof -
  have "ser_pos b \<le> ser_limit s" "ser_limit b = ser_limit s"
    using assms by (simp_all add: inside_def ser_wf_def)
  then show ?thesis
    by (cases b) (simp add: give_back_def set_position_def)
qed

end
