(* ===== verification/Pva_Sender.thy ===== *)
theory Pva_Sender
  imports Pva_Protocol CA_Sender
begin

text \<open>
  The pvAccess sender (\<open>src/pva_sender.cpp\<close>): channels with the last value and the mask of its changed
  fields, the queue of pending updates, the events of the client library, type definition and data
  packets, heartbeats and the run loop. Failed assertions, accesses through a null or stray pointer
  and a division by zero are \<open>None\<close>; so is a loop that never ends.
\<close>

subsection \<open>Marked fields\<close>

definition value_desc :: "pva_value \<Rightarrow> field_desc option" where
  "value_desc v = vec_at (pv_desc v) 0"

definition valid_to_mask :: "pva_value option \<Rightarrow> bitmask \<Rightarrow> bitmask option" where
  "valid_to_mask v m =
     do {
       v \<leftarrow> v;
       d \<leftarrow> value_desc v;
       if fd_code d = TC_Struct \<and> bm_size m = fd_size d
       then foldM (\<lambda>b m. do { f \<leftarrow> vec_at (pv_fields v) b; mask_set b (fl_valid f) m }) [0 ..< fd_size d] m
       else None
     }"

text \<open>
  One field of the source into one field of the destination: numbers, strings and array handles are
  copied; a compound becomes a value described by entry \<open>b\<close> over the source field's storage.
\<close>

definition merge_field :: "nat \<Rightarrow> field \<Rightarrow> field \<Rightarrow> field" where
  "merge_field b src dst =
     (case fl_code dst of
        ST_Null \<Rightarrow> dst
      | ST_Compound \<Rightarrow> dst\<lparr>fl_content := Nested b (fl_content src)\<rparr>
      | _ \<Rightarrow> dst\<lparr>fl_content := fl_content src\<rparr>)"

function merge_loop :: "field_desc list \<Rightarrow> field list \<Rightarrow> nat \<Rightarrow> nat \<Rightarrow> field list \<Rightarrow> bitmask \<Rightarrow> (field list \<times> bitmask) option" where
  "merge_loop ds src n b dst m =
     (if b < n then do {
        sf \<leftarrow> vec_at src b;
        df \<leftarrow> vec_at dst b;
        if fl_valid sf then do {
          m \<leftarrow> mask_set b True m;
          d \<leftarrow> vec_at ds b;
          merge_loop ds src n (b + fd_size d) (dst[b := merge_field b sf df]) m
        } else merge_loop ds src n (b + 1) dst m
      } else Some (dst, m))"
  by pat_completeness auto
termination
  by (relation "measure (\<lambda>(ds, src, n, b, dst, m). n - b)") (auto intro!: diff_less_mono2 simp: fd_size_def)

declare merge_loop.simps [simp del]

definition merge_value :: "pva_lib \<Rightarrow> pva_value \<Rightarrow> bitmask \<Rightarrow> pva_value \<Rightarrow> (pva_value \<times> bitmask) option" where
  "merge_value lib dest m src =
     do {
       d \<leftarrow> value_desc src;
       if fd_code d = TC_Struct \<and> lib_equal_type lib dest (Some src) \<and> bm_size m = fd_size d then do {
         (fs, m) \<leftarrow> merge_loop (pv_desc src) (pv_fields src) (fd_size d) 0 (pv_fields dest) m;
         Some (dest\<lparr>pv_fields := fs\<rparr>, m)
       } else None
     }"

subsection \<open>Channels and their queue\<close>

record pva_channel =
  pc_index :: nat
  pc_connected :: bool
  pc_type_id :: u16
  pc_update_seq_no :: u16
  pc_value :: "pva_value option"
  pc_changed :: bitmask
  pc_pending :: u8
  pc_updates_since_last_hb :: int

definition new_pva_channel :: "nat \<Rightarrow> pva_channel" where
  "new_pva_channel i =
     \<lparr>pc_index = i, pc_connected = False, pc_type_id = 0, pc_update_seq_no = 0, pc_value = None,
      pc_changed = empty_mask, pc_pending = UT_None, pc_updates_since_last_hb = 0\<rparr>"

text \<open>What the next calls of \<open>pop\<close> on a subscription return or throw, until it returns an empty value.\<close>

datatype pva_event = PV_Update pva_value | PV_Connected | PV_Disconnect | PV_Error

record pva_sender =
  ps_channels :: "pva_channel list"
  ps_deque :: "nat list"
  ps_seq_no :: u16
  ps_buffer :: bytes
  ps_cache :: type_cache
  ps_builtin :: u16
  ps_iteration :: u64
  ps_hb_iterations :: u64
  ps_update_period :: double
  ps_work :: "nat list"
  ps_monitors :: "pva_event list list"
  ps_sent :: "bytes list"

definition pva_set_channel :: "nat \<Rightarrow> pva_channel \<Rightarrow> pva_sender \<Rightarrow> pva_sender" where
  "pva_set_channel i c st = st\<lparr>ps_channels := (ps_channels st)[i := c]\<rparr>"

definition pva_mark_update :: "u8 \<Rightarrow> nat \<Rightarrow> pva_sender \<Rightarrow> pva_sender option" where
  "pva_mark_update kind i st =
     do {
       c \<leftarrow> vec_at (ps_channels st) i;
       if pc_pending c = UT_None then do {
         m \<leftarrow> (if kind = UT_Full then valid_to_mask (pc_value c) (pc_changed c) else Some (pc_changed c));
         Some ((pva_set_channel i (c\<lparr>pc_pending := kind, pc_changed := m,
             pc_updates_since_last_hb := pc_updates_since_last_hb c + 1\<rparr>) st)
           \<lparr>ps_deque := ps_deque st @ [pc_index c]\<rparr>)
       }
       else if kind = UT_Full \<and> pc_pending c \<noteq> UT_Full then do {
         m \<leftarrow> valid_to_mask (pc_value c) (pc_changed c);
         Some (pva_set_channel i (c\<lparr>pc_pending := kind, pc_changed := m\<rparr>) st)
       }
       else Some st
     }"

definition pva_mark_heartbeat_update :: "nat \<Rightarrow> pva_sender \<Rightarrow> (bool \<times> pva_sender) option" where
  "pva_mark_heartbeat_update i st =
     do {
       st \<leftarrow> pva_mark_update UT_Full i st;
       c \<leftarrow> vec_at (ps_channels st) i;
       Some (True, pva_set_channel i (c\<lparr>pc_updates_since_last_hb := 0\<rparr>) st)
     }"

definition clear_mask :: "bitmask \<Rightarrow> bitmask" where
  "clear_mask m = m\<lparr>bm_words := map (\<lambda>w. 0) (bm_words m)\<rparr>"

definition pva_clear_update :: "nat \<Rightarrow> pva_sender \<Rightarrow> pva_sender option" where
  "pva_clear_update i st =
     do {
       c \<leftarrow> vec_at (ps_channels st) i;
       case ps_deque st of
         [] \<Rightarrow> None
       | _ # q \<Rightarrow> Some ((pva_set_channel i (c\<lparr>pc_changed := clear_mask (pc_changed c), pc_pending := UT_None\<rparr>) st)
           \<lparr>ps_deque := q\<rparr>)
     }"

definition pva_has_updates :: "pva_sender \<Rightarrow> bool" where
  "pva_has_updates st \<longleftrightarrow> ps_deque st \<noteq> []"

definition next_channel_update :: "pva_sender \<Rightarrow> pva_channel option option" where
  "next_channel_update st =
     (case ps_deque st of [] \<Rightarrow> Some None | q # _ \<Rightarrow> map_option Some (vec_at (ps_channels st) q))"

subsection \<open>Events\<close>

definition pva_update :: "pva_lib \<Rightarrow> nat \<Rightarrow> pva_value \<Rightarrow> pva_sender \<Rightarrow> pva_sender option" where
  "pva_update lib i v st =
     do {
       c \<leftarrow> vec_at (ps_channels st) i;
       if \<not> pc_connected c then do {
         let (t, cache) = cache_type lib v (ps_cache st);
         d \<leftarrow> value_desc v;
         pva_mark_update UT_Full i
           ((pva_set_channel i (c\<lparr>pc_connected := True, pc_value := Some v, pc_type_id := t,
               pc_changed := lib_resize lib (fd_size d) (pc_changed c), pc_update_seq_no := 0\<rparr>) st)
             \<lparr>ps_cache := cache\<rparr>)
       } else do {
         old \<leftarrow> pc_value c;
         (new, m) \<leftarrow> merge_value lib old (pc_changed c) v;
         pva_mark_update UT_Partial i (pva_set_channel i (c\<lparr>pc_value := Some new, pc_changed := m\<rparr>) st)
       }
     }"

fun pva_handle_event :: "pva_lib \<Rightarrow> nat \<Rightarrow> pva_event \<Rightarrow> pva_sender \<Rightarrow> pva_sender option" where
  "pva_handle_event lib i (PV_Update v) st = pva_update lib i v st"
| "pva_handle_event lib i PV_Connected st = Some st"
| "pva_handle_event lib i PV_Disconnect st =
     do { c \<leftarrow> vec_at (ps_channels st) i;
          pva_mark_update UT_Partial i (pva_set_channel i (c\<lparr>pc_connected := False\<rparr>) st) }"
| "pva_handle_event lib i PV_Error st = Some st"

text \<open>One entry of the work queue: everything its subscription has.\<close>

definition pva_pop_all :: "pva_lib \<Rightarrow> nat \<Rightarrow> pva_sender \<Rightarrow> pva_sender option" where
  "pva_pop_all lib i st =
     do { evs \<leftarrow> vec_at (ps_monitors st) i;
          foldM (pva_handle_event lib i) evs (st\<lparr>ps_monitors := (ps_monitors st)[i := []]\<rparr>) }"

definition pva_work :: "pva_lib \<Rightarrow> pva_sender \<Rightarrow> pva_sender option" where
  "pva_work lib st = foldM (pva_pop_all lib) (ps_work st) (st\<lparr>ps_work := []\<rparr>)"

subsection \<open>Heartbeats\<close>

definition pva_heartbeat_step :: "nat \<Rightarrow> pva_sender \<times> nat \<times> nat \<Rightarrow> (pva_sender \<times> nat \<times> nat) option" where
  "pva_heartbeat_step i acc =
     (let (st, n_connected, n_marked) = acc in
      do {
        (marked, st) \<leftarrow> pva_mark_heartbeat_update i st;
        c \<leftarrow> vec_at (ps_channels st) i;
        Some (st, if pc_connected c then n_connected + 1 else n_connected,
              if marked then n_marked + 1 else n_marked)
      })"

definition pva_mark_heartbeat_updates :: "pva_sender \<Rightarrow> (pva_sender \<times> nat \<times> nat) option" where
  "pva_mark_heartbeat_updates st =
     (let n = length (ps_channels st) in
      do {
        (st, n_connected, n_marked) \<leftarrow> foldM pva_heartbeat_step [0 ..< n] (st, 0, 0);
        if n = 0 then None
        else Some (st, 100 * n_connected div n, 100 * n_marked div n)
      })"

subsection \<open>Type definition packets\<close>

definition pva_send :: "bytes \<Rightarrow> pva_sender \<Rightarrow> pva_sender" where
  "pva_send packet st = st\<lparr>ps_sent := ps_sent st @ [packet]\<rparr>"

partial_function (option) typedef_fill ::
  "pva_lib \<Rightarrow> type_cache \<Rightarrow> u16 \<Rightarrow> serializer \<Rightarrow> u16 \<Rightarrow> (u16 \<times> serializer \<times> u16) option" where
  "typedef_fill lib cache i s n =
     (if unat i < length cache then
        Option.bind (typedef_serialize lib (cache ! unat i) s)
          (\<lambda>(ok, s). if ok then typedef_fill lib cache (i + 1) s (n + 1) else Some (i, s, n))
      else Some (i, s, n))"

definition send_typedef_packet :: "pva_lib \<Rightarrow> u16 \<Rightarrow> pva_sender \<Rightarrow> (u16 \<times> pva_sender) option" where
  "send_typedef_packet lib i st =
     do {
       let s = advance Header_size (ser_of (ps_buffer st));
       let (ok, s) = ensure (Submessage_size + PVATypeDefMessage_size) s;
       sh \<leftarrow> make_subheader PVA_TYPEDEF_MESSAGE LittleEndian 0;
       s \<leftarrow> put_subheader sh s;
       s \<leftarrow> put_pva_typedef \<lparr>td_start_id = i, td_typedef_count = 0\<rparr> s;
       let count_pos = ser_pos s - 2;
       (i, s, count) \<leftarrow> typedef_fill lib (ps_cache st) i s 0;
       s \<leftarrow> pad_align Submessage_alignment 0 s;
       let bytes_to_send = distance s;
       s \<leftarrow> set_position count_pos s;
       s \<leftarrow> put_u16 count s;
       Some (i, pva_send (take bytes_to_send (ser_mem s)) (st\<lparr>ps_buffer := ser_mem s\<rparr>))
     }"

partial_function (option) typedef_loop :: "pva_lib \<Rightarrow> u16 \<Rightarrow> pva_sender \<Rightarrow> pva_sender option" where
  "typedef_loop lib i st =
     (if unat i < length (ps_cache st)
      then Option.bind (send_typedef_packet lib i st) (\<lambda>(i, st). typedef_loop lib i st)
      else Some st)"

definition send_typedef_updates :: "pva_lib \<Rightarrow> pva_sender \<Rightarrow> pva_sender option" where
  "send_typedef_updates lib st = typedef_loop lib (ps_builtin st) st"

subsection \<open>Data packets\<close>

definition pva_channel_message :: "pva_channel \<Rightarrow> pva_channel_data" where
  "pva_channel_message c =
     \<lparr>pcd_id = of_nat (pc_index c), pcd_update_seq_no = pc_update_seq_no c, pcd_update_type = pc_pending c,
      pcd_type_id = pc_type_id c\<rparr>"

text \<open>The channel at the front of the queue; the result tells whether its update was taken.\<close>

definition put_update :: "pva_lib \<Rightarrow> nat \<Rightarrow> pva_sender \<Rightarrow> serializer \<Rightarrow> (bool \<times> pva_sender \<times> serializer) option" where
  "put_update lib q st s =
     do {
       c \<leftarrow> vec_at (ps_channels st) q;
       s \<leftarrow> put_pva_channel_data (pva_channel_message c) s;
       (ok, s) \<leftarrow> serialize_value lib (pva_channel_message c) (pc_value c) (pc_changed c) s;
       if ok then do {
         st \<leftarrow> pva_clear_update q (pva_set_channel q (c\<lparr>pc_update_seq_no := pc_update_seq_no c + 1\<rparr>) st);
         Some (True, st, s)
       } else Some (False, st, s)
     }"

partial_function (option) pva_fill_updates ::
  "pva_lib \<Rightarrow> pva_sender \<Rightarrow> serializer \<times> u16 \<Rightarrow> (pva_sender \<times> serializer \<times> u16) option" where
  "pva_fill_updates lib st acc =
     (case ps_deque st of
        [] \<Rightarrow> Some (st, acc)
      | q # _ \<Rightarrow> Option.bind (put_update lib q st (fst acc))
          (\<lambda>(ok, st, s). if ok then pva_fill_updates lib st (s, snd acc + 1) else Some (st, s, snd acc)))"

definition pva_send_packet :: "pva_lib \<Rightarrow> pva_sender \<Rightarrow> pva_sender option" where
  "pva_send_packet lib st =
     do {
       let s = advance Header_size (ser_of (ps_buffer st));
       let (ok, s) = ensure (Submessage_size + PVADataMessage_size) s;
       sh \<leftarrow> make_subheader PVA_DATA_MESSAGE LittleEndian 0;
       s \<leftarrow> put_subheader sh s;
       s \<leftarrow> put_pva_data \<lparr>pd_seq_no = ps_seq_no st, pd_channel_count = 0\<rparr> s;
       let st = st\<lparr>ps_seq_no := ps_seq_no st + 1\<rparr>;
       let count_pos = ser_pos s - 2;
       (st, s, count) \<leftarrow> pva_fill_updates lib st (s, 0);
       s \<leftarrow> pad_align Submessage_alignment 0 s;
       let bytes_to_send = distance s;
       s \<leftarrow> set_position count_pos s;
       s \<leftarrow> put_u16 count s;
       Some (pva_send (take bytes_to_send (ser_mem s)) (st\<lparr>ps_buffer := ser_mem s\<rparr>))
     }"

partial_function (option) pva_send_updates :: "pva_lib \<Rightarrow> pva_sender \<Rightarrow> pva_sender option" where
  "pva_send_updates lib st =
     (if pva_has_updates st then Option.bind (pva_send_packet lib st) (pva_send_updates lib) else Some st)"

text \<open>The fragmented path is a stub that only clears the queue; nothing calls it.\<close>

definition pva_send_fragmented_update :: "pva_channel \<Rightarrow> pva_sender \<Rightarrow> pva_sender option" where
  "pva_send_fragmented_update c st = Some st"

partial_function (option) pva_send_fragmented_updates :: "pva_sender \<Rightarrow> pva_sender option" where
  "pva_send_fragmented_updates st =
     (case ps_deque st of
        [] \<Rightarrow> Some st
      | q # _ \<Rightarrow> Option.bind (vec_at (ps_channels st) q)
          (\<lambda>c. Option.bind (pva_send_fragmented_update c st)
            (\<lambda>st. Option.bind (pva_clear_update q st) pva_send_fragmented_updates)))"

subsection \<open>Construction and run loop\<close>

definition pva_create_channels :: "config \<Rightarrow> pva_channel list option" where
  "pva_create_channels cfg =
     (if total_channel_count cfg \<le> 2 ^ 32 - 1
      then Some (map new_pva_channel [0 ..< length (cfg_channels cfg)]) else None)"

definition pva_sender_init :: "pva_lib \<Rightarrow> config \<Rightarrow> u64 \<Rightarrow> pva_sender option" where
  "pva_sender_init lib cfg startup =
     (let up = dmax (cfg_min_update_period cfg) MIN_UPDATE_PERIOD;
          hb = dmax (cfg_heartbeat_period cfg) MIN_HB_PERIOD;
          (cache, builtin) = build_type_cache lib []
      in do {
        buf \<leftarrow> initial_buffer startup (cfg_hash cfg);
        chs \<leftarrow> pva_create_channels cfg;
        Some \<lparr>ps_channels = chs, ps_deque = [], ps_seq_no = 0, ps_buffer = buf, ps_cache = cache,
          ps_builtin = builtin, ps_iteration = 0, ps_hb_iterations = iterations_per hb up,
          ps_update_period = up, ps_work = [], ps_monitors = map (\<lambda>_. []) chs, ps_sent = []\<rparr>
      })"

text \<open>One turn; \<open>evs\<close> are the work queue entries and events the library added during the sleep.\<close>

definition pva_arrivals :: "nat list \<times> pva_event list list \<Rightarrow> pva_sender \<Rightarrow> pva_sender" where
  "pva_arrivals evs st =
     st\<lparr>ps_work := ps_work st @ fst evs, ps_monitors := map2 (@) (ps_monitors st) (snd evs)\<rparr>"

definition pva_run_iteration :: "pva_lib \<Rightarrow> nat list \<times> pva_event list list \<Rightarrow> pva_sender \<Rightarrow> pva_sender option" where
  "pva_run_iteration lib evs st =
     do {
       st \<leftarrow> pva_work lib (pva_arrivals evs st);
       let st = st\<lparr>ps_iteration := ps_iteration st + 1\<rparr>;
       st \<leftarrow> (if ps_iteration st mod ps_hb_iterations st = 0
              then do { st \<leftarrow> send_typedef_updates lib st; map_option fst (pva_mark_heartbeat_updates st) }
              else Some st);
       pva_send_updates lib st
     }"

fun pva_run_loop :: "pva_lib \<Rightarrow> bool \<Rightarrow> u64 \<Rightarrow> (nat list \<times> pva_event list list) list \<Rightarrow> pva_sender \<Rightarrow>
    (bool \<times> pva_sender) option" where
  "pva_run_loop lib limited iterations [] st = Some (False, st)"
| "pva_run_loop lib limited iterations (evs # turns) st =
     do { st \<leftarrow> pva_run_iteration lib evs st;
          if limited \<and> ps_iteration st \<ge> iterations then Some (True, st)
          else pva_run_loop lib limited iterations turns st }"

definition pva_sender_run :: "pva_lib \<Rightarrow> double \<Rightarrow> (nat list \<times> pva_event list list) list \<Rightarrow> pva_sender \<Rightarrow>
    (bool \<times> pva_sender) option" where
  "pva_sender_run lib runtime turns st =
     pva_run_loop lib (dval runtime > 0)
       (word_of_int (cround (fdiv (dval runtime) (dval (ps_update_period st))))) turns st"

end
