(* ===== verification/Pva_Values.thy ===== *)
theory Pva_Values
  imports Pva_Sender
begin

text \<open>
  Merging an update into the sender's copy of a value: which fields it visits, that it keeps the type
  of the value, and what it does to the mask of changed fields.
\<close>

subsection \<open>Typed values\<close>

fun content_ok :: "store_type \<Rightarrow> field_content \<Rightarrow> bool" where
  "content_ok ST_Null c = True"
| "content_ok ST_String c = (case c of Text s \<Rightarrow> True | _ \<Rightarrow> False)"
| "content_ok ST_Array c = (case c of Items h \<Rightarrow> True | _ \<Rightarrow> False)"
| "content_ok ST_Compound c = (case c of Empty_Value \<Rightarrow> True | Nested b c \<Rightarrow> True | _ \<Rightarrow> False)"
| "content_ok t c = (case c of Number w \<Rightarrow> True | _ \<Rightarrow> False)"

definition value_typed :: "field_desc \<Rightarrow> pva_value \<Rightarrow> bool" where
  "value_typed d v \<longleftrightarrow>
     value_desc v = Some d \<and> fd_code d = TC_Struct \<and> fd_size d \<le> length (pv_desc v) \<and>
     length (pv_fields v) = fd_size d \<and> list_all (\<lambda>f. content_ok (fl_code f) (fl_content f)) (pv_fields v)"

definition same_type :: "pva_value \<Rightarrow> pva_value \<Rightarrow> bool" where
  "same_type v w \<longleftrightarrow> pv_desc v = pv_desc w \<and> map fl_code (pv_fields v) = map fl_code (pv_fields w)"

lemma same_type_refl [simp]: "same_type v v"
  by (simp add: same_type_def)

lemma same_type_code: "same_type v w \<Longrightarrow> i < length (pv_fields v) \<Longrightarrow> fl_code (pv_fields v ! i) = fl_code (pv_fields w ! i)"
  by (metis same_type_def length_map nth_map)

lemma merge_field_ok:
  assumes "content_ok (fl_code src) (fl_content src)" "content_ok (fl_code dst) (fl_content dst)"
    and "fl_code src = fl_code dst"
  shows "content_ok (fl_code (merge_field b src dst)) (fl_content (merge_field b src dst))"
    and "fl_code (merge_field b src dst) = fl_code dst" "fl_valid (merge_field b src dst) = fl_valid dst"
  using assms by (cases "fl_code dst"; simp add: merge_field_def)+

subsection \<open>The fields a merge visits\<close>

text \<open>A marked field is taken together with everything below it.\<close>

function visited :: "field_desc list \<Rightarrow> field list \<Rightarrow> nat \<Rightarrow> nat \<Rightarrow> nat list" where
  "visited ds src n b =
     (if b < n then if fl_valid (src ! b) then b # visited ds src n (b + fd_size (ds ! b))
                    else visited ds src n (b + 1)
      else [])"
  by pat_completeness auto
termination
  by (relation "measure (\<lambda>(ds, src, n, b). n - b)") (auto intro!: diff_less_mono2 simp: fd_size_def)

declare visited.simps [simp del]

lemma visited_range: "j \<in> set (visited ds src n b) \<Longrightarrow> b \<le> j \<and> j < n"
proof (induction ds src n b rule: visited.induct)
  case (1 ds src n b)
  from "1.prems" have "b < n" by (auto simp: visited.simps [of ds src n b] split: if_splits)
  with 1 show ?case
    by (subst (asm) (3) visited.simps) (fastforce split: if_splits)
qed

text \<open>What the loop makes of the destination and the mask.\<close>

definition merged :: "nat list \<Rightarrow> field list \<Rightarrow> field list \<Rightarrow> field list" where
  "merged bs src dst = map (\<lambda>(j, f). if j \<in> set bs then merge_field j (src ! j) f else f) (enumerate 0 dst)"

lemma length_merged [simp]: "length (merged bs src dst) = length dst"
  by (simp add: merged_def)

lemma merged_nth: "j < length dst \<Longrightarrow> merged bs src dst ! j = (if j \<in> set bs then merge_field j (src ! j) (dst ! j) else dst ! j)"
  by (simp add: merged_def nth_enumerate_eq)

lemma merged_Nil [simp]: "merged [] src dst = dst"
  by (rule nth_equalityI) (simp_all add: merged_nth)

lemma merge_loop_visited:
  assumes "n \<le> length src" "n \<le> length dst" "n \<le> length ds" "mask_wf n m"
  shows "\<exists>m'. merge_loop ds src n b dst m = Some (merged (visited ds src n b) src dst, m') \<and> mask_wf n m' \<and>
    (\<forall>j. mask_bit m' j \<longleftrightarrow> mask_bit m j \<or> j \<in> set (visited ds src n b))"
  using assms
proof (induction ds src n b arbitrary: dst m rule: visited.induct)
  case (1 ds src n b)
  show ?case
  proof (cases "b < n")
    case False
    then show ?thesis
      using "1.prems"(4) by (simp add: merge_loop.simps [of ds src n b] visited.simps [of ds src n b])
  next
    case b: True
    show ?thesis
    proof (cases "fl_valid (src ! b)")
      case False
      with "1.IH"(2) [OF b False "1.prems"] b "1.prems" show ?thesis
        by (simp add: merge_loop.simps [of ds src n b] visited.simps [of ds src n b])
    next
      case True
      let ?b' = "b + fd_size (ds ! b)"
      let ?dst = "dst[b := merge_field b (src ! b) (dst ! b)]"
      from mask_set_ok [OF "1.prems"(4) b, of True] obtain m1 where m1: "mask_set b True m = Some m1" "mask_wf n m1"
        "\<And>j. mask_bit m1 j = (if j = b then True else mask_bit m j)" by blast
      from "1.IH"(1) [OF b True "1.prems"(1), of ?dst m1] "1.prems" m1(2) obtain m2 where
        m2: "merge_loop ds src n ?b' ?dst m1 = Some (merged (visited ds src n ?b') src ?dst, m2)" "mask_wf n m2"
          "\<forall>j. mask_bit m2 j \<longleftrightarrow> mask_bit m1 j \<or> j \<in> set (visited ds src n ?b')"
        by auto
      have nb: "b \<notin> set (visited ds src n ?b')"
        using visited_range [of b ds src n ?b'] by (auto simp: fd_size_def)
      have "merged (visited ds src n ?b') src ?dst = merged (b # visited ds src n ?b') src dst"
        by (rule nth_equalityI) (use b "1.prems" nb in \<open>auto simp: merged_nth nth_list_update\<close>)
      with b True m1 m2 "1.prems" show ?thesis
        by (auto simp: merge_loop.simps [of ds src n b] visited.simps [of ds src n b])
    qed
  qed
qed

lemma merge_value_eq:
  assumes "value_typed d dest" "value_typed d src" "same_type dest src"
    and "lib_equal_type lib dest (Some src)" "mask_wf (fd_size d) m"
  shows "\<exists>m'. merge_value lib dest m src =
      Some (dest\<lparr>pv_fields := merged (visited (pv_desc src) (pv_fields src) (fd_size d) 0) (pv_fields src) (pv_fields dest)\<rparr>, m') \<and>
    mask_wf (fd_size d) m' \<and>
    (\<forall>j. mask_bit m' j \<longleftrightarrow> mask_bit m j \<or> j \<in> set (visited (pv_desc src) (pv_fields src) (fd_size d) 0))"
proof -
  have l: "fd_size d \<le> length (pv_fields src)" "fd_size d \<le> length (pv_fields dest)" "fd_size d \<le> length (pv_desc src)"
    using assms(1,2) by (simp_all add: value_typed_def)
  from merge_loop_visited [OF l assms(5), of 0] obtain m' where
    "merge_loop (pv_desc src) (pv_fields src) (fd_size d) 0 (pv_fields dest) m =
       Some (merged (visited (pv_desc src) (pv_fields src) (fd_size d) 0) (pv_fields src) (pv_fields dest), m')"
    "mask_wf (fd_size d) m'"
    "\<forall>j. mask_bit m' j \<longleftrightarrow> mask_bit m j \<or> j \<in> set (visited (pv_desc src) (pv_fields src) (fd_size d) 0)"
    by blast
  then show ?thesis
    using assms(2,4,5) by (auto simp: merge_value_def value_typed_def mask_wf_def)
qed

lemma merged_typed:
  assumes "value_typed d dest" "value_typed d src" "same_type dest src"
  shows "value_typed d (dest\<lparr>pv_fields := merged bs (pv_fields src) (pv_fields dest)\<rparr>)"
    and "same_type (dest\<lparr>pv_fields := merged bs (pv_fields src) (pv_fields dest)\<rparr>) dest"
proof -
  have l: "length (pv_fields src) = fd_size d" "length (pv_fields dest) = fd_size d"
    using assms by (simp_all add: value_typed_def)
  have ok: "fl_code (merged bs (pv_fields src) (pv_fields dest) ! j) = fl_code (pv_fields dest ! j) \<and>
      content_ok (fl_code (pv_fields dest ! j)) (fl_content (merged bs (pv_fields src) (pv_fields dest) ! j))"
    if j: "j < fd_size d" for j
  proof -
    have c: "content_ok (fl_code (pv_fields src ! j)) (fl_content (pv_fields src ! j))"
      "content_ok (fl_code (pv_fields dest ! j)) (fl_content (pv_fields dest ! j))"
      using j l assms(1,2) by (simp_all add: value_typed_def list_all_length)
    have e: "fl_code (pv_fields src ! j) = fl_code (pv_fields dest ! j)"
      using j l same_type_code [OF assms(3), of j] by simp
    from merge_field_ok [OF c e, of j] c(2) show ?thesis
      using j l by (cases "j \<in> set bs") (simp_all add: merged_nth)
  qed
  show "value_typed d (dest\<lparr>pv_fields := merged bs (pv_fields src) (pv_fields dest)\<rparr>)"
    using assms(1) l by (simp add: value_typed_def list_all_length value_desc_def ok)
  show "same_type (dest\<lparr>pv_fields := merged bs (pv_fields src) (pv_fields dest)\<rparr>) dest"
    unfolding same_type_def
  proof
    show "map fl_code (pv_fields (dest\<lparr>pv_fields := merged bs (pv_fields src) (pv_fields dest)\<rparr>)) = map fl_code (pv_fields dest)"
      by (rule nth_equalityI) (simp_all add: ok l)
  qed simp
qed

subsection \<open>The mask of a full update\<close>

definition ready :: "field_desc \<Rightarrow> pva_value option \<Rightarrow> bitmask \<Rightarrow> bool" where
  "ready d v m \<longleftrightarrow> (\<exists>w. v = Some w \<and> value_typed d w) \<and> mask_wf (fd_size d) m"

lemma valid_to_mask_eq:
  assumes "ready d v m"
  shows "\<exists>m'. valid_to_mask v m = Some m' \<and> mask_wf (fd_size d) m' \<and>
    (\<forall>j < fd_size d. mask_bit m' j = fl_valid (pv_fields (the v) ! j))"
proof -
  obtain w where w: "v = Some w" "value_typed d w" using assms by (auto simp: ready_def)
  let ?f = "\<lambda>b m. Option.bind (vec_at (pv_fields w) b) (\<lambda>f. mask_set b (fl_valid f) m)"
  have "\<exists>m'. foldM ?f [0 ..< k] m = Some m' \<and> mask_wf (fd_size d) m' \<and>
      (\<forall>j < k. mask_bit m' j = fl_valid (pv_fields w ! j))" if "k \<le> fd_size d" for k
    using that
  proof (induction k)
    case 0
    then show ?case using assms by (simp add: ready_def)
  next
    case (Suc k)
    then obtain m1 where m1: "foldM ?f [0 ..< k] m = Some m1" "mask_wf (fd_size d) m1"
      "\<forall>j < k. mask_bit m1 j = fl_valid (pv_fields w ! j)" by auto
    from Suc.prems w(2) have k: "k < fd_size d" "k < length (pv_fields w)" by (simp_all add: value_typed_def)
    from mask_set_ok [OF m1(2) k(1)] obtain m2 where
      "mask_set k (fl_valid (pv_fields w ! k)) m1 = Some m2" "mask_wf (fd_size d) m2"
      "\<And>j. mask_bit m2 j = (if j = k then fl_valid (pv_fields w ! k) else mask_bit m1 j)" by blast
    with m1 k show ?case by (auto simp: foldM_append less_Suc_eq)
  qed
  from this [OF order_refl] w assms show ?thesis
    by (auto simp: valid_to_mask_def value_typed_def ready_def mask_wf_def)
qed

end
