(* ===== verification/Pva_Queue.thy ===== *)
theory Pva_Queue
  imports Pva_Values
begin

text \<open>
  The update queue of the pvAccess sender: it holds exactly the channels with a pending update, once
  each. The queue contract of \<open>Update_Queue\<close> holds for both kinds of marks, and every operation of the
  run loop keeps the invariant.
\<close>

definition pva_chans_inv :: "pva_channel list \<Rightarrow> nat list \<Rightarrow> bool" where
  "pva_chans_inv chs q \<longleftrightarrow>
     (\<forall>i < length chs. pc_index (chs ! i) = i) \<and> distinct q \<and>
     set q = {i. i < length chs \<and> pc_pending (chs ! i) \<noteq> UT_None}"

definition pva_queue_inv :: "pva_sender \<Rightarrow> bool" where
  "pva_queue_inv st \<longleftrightarrow> pva_chans_inv (ps_channels st) (ps_deque st)"

definition pva_index_ok :: "pva_sender \<Rightarrow> nat \<Rightarrow> bool" where
  "pva_index_ok st i \<longleftrightarrow> i < length (ps_channels st)"

lemma pva_set_channel_fields [simp]:
  "ps_channels (pva_set_channel i c st) = (ps_channels st)[i := c]" "ps_deque (pva_set_channel i c st) = ps_deque st"
  "ps_seq_no (pva_set_channel i c st) = ps_seq_no st" "ps_buffer (pva_set_channel i c st) = ps_buffer st"
  "ps_cache (pva_set_channel i c st) = ps_cache st" "ps_sent (pva_set_channel i c st) = ps_sent st"
  "ps_monitors (pva_set_channel i c st) = ps_monitors st"
  by (simp_all add: pva_set_channel_def)

text \<open>Replacing a channel by one with the same number and pending update.\<close>

lemma pva_inv_update:
  assumes "pva_chans_inv chs q" "i < length chs" "pc_index c = i" "pc_pending c = pc_pending (chs ! i)"
  shows "pva_chans_inv (chs[i := c]) q"
  using assms by (auto simp: pva_chans_inv_def nth_list_update)

lemma pva_inv_pending:
  assumes "pva_chans_inv chs q" "i < length chs" "pc_index c = i" "pc_pending c \<noteq> UT_None"
  shows "pva_chans_inv (chs[i := c]) (if i \<in> set q then q else q @ [i])"
  using assms by (auto simp: pva_chans_inv_def nth_list_update split: if_splits)

lemma pva_inv_clear:
  assumes "pva_chans_inv chs (i # q)" "i < length chs" "pc_index c = i" "pc_pending c = UT_None"
  shows "pva_chans_inv (chs[i := c]) q"
proof -
  have "set q = {j. j < length chs \<and> pc_pending (chs ! j) \<noteq> UT_None} - {i}"
    using assms(1) by (auto simp: pva_chans_inv_def)
  moreover have "{j. j < length chs \<and> pc_pending (chs[i := c] ! j) \<noteq> UT_None} =
      {j. j < length chs \<and> pc_pending (chs ! j) \<noteq> UT_None} - {i}"
    using assms(2,4) by (auto simp: nth_list_update)
  ultimately show ?thesis
    using assms by (simp add: pva_chans_inv_def nth_list_update)
qed

lemma pva_mark_inv:
  assumes inv: "pva_queue_inv st" and i: "i < length (ps_channels st)" and k: "kind \<noteq> UT_None"
    and m: "pva_mark_update kind i st = Some st'"
  shows "pva_queue_inv st'" "length (ps_channels st') = length (ps_channels st)"
    "ps_deque st' = (if i \<in> set (ps_deque st) then ps_deque st else ps_deque st @ [i])"
proof -
  let ?c = "ps_channels st ! i"
  have c: "pc_index ?c = i" "i \<in> set (ps_deque st) \<longleftrightarrow> pc_pending ?c \<noteq> UT_None"
    using inv i by (auto simp: pva_queue_inv_def pva_chans_inv_def)
  consider "pc_pending ?c = UT_None" | "pc_pending ?c \<noteq> UT_None" by blast
  then have "\<exists>c'. ps_channels st' = (ps_channels st)[i := c'] \<and> pc_index c' = i \<and> pc_pending c' \<noteq> UT_None \<and>
      ps_deque st' = (if i \<in> set (ps_deque st) then ps_deque st else ps_deque st @ [i])"
  proof cases
    case 1
    obtain n where "st' = (pva_set_channel i (?c\<lparr>pc_pending := kind, pc_changed := n,
        pc_updates_since_last_hb := pc_updates_since_last_hb ?c + 1\<rparr>) st)\<lparr>ps_deque := ps_deque st @ [i]\<rparr>"
      using m i c(1) 1 by (auto simp: pva_mark_update_def bind_eq_Some_conv)
    with 1 c k show ?thesis
      by (intro exI [of _ "?c\<lparr>pc_pending := kind, pc_changed := n,
        pc_updates_since_last_hb := pc_updates_since_last_hb ?c + 1\<rparr>"]) simp
  next
    case 2
    then have s: "st' = st \<or> (\<exists>m. st' = pva_set_channel i (?c\<lparr>pc_pending := kind, pc_changed := m\<rparr>) st)"
      using m i by (auto simp: pva_mark_update_def bind_eq_Some_conv split: if_splits)
    then show ?thesis
    proof
      assume "st' = st"
      with 2 c show ?thesis by (intro exI [of _ ?c]) simp
    next
      assume "\<exists>m. st' = pva_set_channel i (?c\<lparr>pc_pending := kind, pc_changed := m\<rparr>) st"
      then obtain m where "st' = pva_set_channel i (?c\<lparr>pc_pending := kind, pc_changed := m\<rparr>) st" ..
      with 2 c k show ?thesis by (intro exI [of _ "?c\<lparr>pc_pending := kind, pc_changed := m\<rparr>"]) simp
    qed
  qed
  with pva_inv_pending inv i show "pva_queue_inv st'" "length (ps_channels st') = length (ps_channels st)"
    "ps_deque st' = (if i \<in> set (ps_deque st) then ps_deque st else ps_deque st @ [i])"
    by (auto simp: pva_queue_inv_def)
qed

lemma pva_clear_inv:
  assumes inv: "pva_queue_inv st" and q: "ps_deque st = i # qs"
  obtains st' where "pva_clear_update i st = Some st'" "pva_queue_inv st'" "ps_deque st' = qs"
    "ps_channels st' = (ps_channels st)[i := (ps_channels st ! i)\<lparr>pc_changed := clear_mask (pc_changed (ps_channels st ! i)),
       pc_pending := UT_None\<rparr>]" "ps_seq_no st' = ps_seq_no st" "ps_buffer st' = ps_buffer st" "ps_sent st' = ps_sent st"
    "ps_cache st' = ps_cache st"
proof -
  have i: "i < length (ps_channels st)"
    using inv q by (auto simp: pva_queue_inv_def pva_chans_inv_def)
  let ?c = "(ps_channels st ! i)\<lparr>pc_changed := clear_mask (pc_changed (ps_channels st ! i)), pc_pending := UT_None\<rparr>"
  let ?st = "(pva_set_channel i ?c st)\<lparr>ps_deque := qs\<rparr>"
  have s: "pva_clear_update i st = Some ?st" using i q by (simp add: pva_clear_update_def)
  have "pva_queue_inv ?st"
    using pva_inv_clear [of "ps_channels st" i qs ?c] inv q i
    by (simp add: pva_queue_inv_def pva_chans_inv_def)
  from that [OF s this] show ?thesis by simp
qed

subsection \<open>The queue contract\<close>

interpretation pva_partial: update_queue ps_deque "\<lambda>_ i. i" pva_index_ok pva_queue_inv
  "pva_mark_update UT_Partial" pva_clear_update
proof unfold_locales
  fix s i assume a: "pva_queue_inv s" "pva_index_ok s i"
  then have "\<exists>s'. pva_mark_update UT_Partial i s = Some s'"
    by (auto simp: pva_mark_update_def pva_index_ok_def update_type_defs)
  then obtain s' where s': "pva_mark_update UT_Partial i s = Some s'" ..
  from pva_mark_inv [OF a(1) _ _ s'] a(2)
  show "\<exists>s'. pva_mark_update UT_Partial i s = Some s' \<and> pva_queue_inv s' \<and> (\<lambda>i. i) = (\<lambda>i. i) \<and>
      pva_index_ok s' = pva_index_ok s \<and>
      ps_deque s' = (if i \<in> set (ps_deque s) then ps_deque s else ps_deque s @ [i])"
    using s' by (auto simp: pva_index_ok_def update_type_defs fun_eq_iff)
next
  fix s q qs assume "pva_queue_inv s" "ps_deque s = q # qs"
  then obtain s' where "pva_clear_update q s = Some s'" "pva_queue_inv s'" "ps_deque s' = qs"
    "length (ps_channels s') = length (ps_channels s)"
    by (rule pva_clear_inv) auto
  then show "\<exists>s'. pva_clear_update q s = Some s' \<and> pva_queue_inv s' \<and> (\<lambda>i. i) = (\<lambda>i. i) \<and>
      pva_index_ok s' = pva_index_ok s \<and> ps_deque s' = qs"
    by (auto simp: pva_index_ok_def fun_eq_iff)
qed (auto simp: pva_queue_inv_def pva_chans_inv_def pva_index_ok_def)

text \<open>Marks for a full update need a value, a description of which the mask has the size.\<close>

definition pva_ready_chan :: "pva_channel \<Rightarrow> bool" where
  "pva_ready_chan c \<longleftrightarrow> (\<exists>d. ready d (pc_value c) (pc_changed c))"

definition pva_ready :: "pva_sender \<Rightarrow> nat \<Rightarrow> bool" where
  "pva_ready st i \<longleftrightarrow> i < length (ps_channels st) \<and> pva_ready_chan (ps_channels st ! i)"

definition pva_ready_inv :: "pva_sender \<Rightarrow> bool" where
  "pva_ready_inv st \<longleftrightarrow> pva_queue_inv st \<and> (\<forall>q \<in> set (ps_deque st). pva_ready st q)"

lemma ready_clear_mask: "ready d v m \<Longrightarrow> ready d v (clear_mask m)"
  by (simp add: ready_def mask_wf_def clear_mask_def)

lemma pva_ready_update:
  assumes "pva_ready_chan c = pva_ready_chan (ps_channels st ! i)" "ps_channels st' = (ps_channels st)[i := c]"
  shows "pva_ready st' = pva_ready st"
  using assms by (cases "i < length (ps_channels st)") (auto simp: pva_ready_def fun_eq_iff nth_list_update list_update_beyond)

lemma pva_mark_full_ready:
  assumes "pva_queue_inv st" "pva_ready st i"
  shows "\<exists>st'. pva_mark_update UT_Full i st = Some st' \<and> pva_ready st' = pva_ready st"
proof -
  let ?c = "ps_channels st ! i"
  from assms(2) obtain d where i: "i < length (ps_channels st)" and d: "ready d (pc_value ?c) (pc_changed ?c)"
    by (auto simp: pva_ready_def pva_ready_chan_def)
  from valid_to_mask_eq [OF d] obtain m where m: "valid_to_mask (pc_value ?c) (pc_changed ?c) = Some m"
    "mask_wf (fd_size d) m" by blast
  have r: "pva_ready_chan ?c" "pva_ready_chan (?c\<lparr>pc_pending := p, pc_changed := m, pc_updates_since_last_hb := n\<rparr>)"
    "pva_ready_chan (?c\<lparr>pc_pending := p, pc_changed := m\<rparr>)" for p n
    using d m(2) by (auto simp: pva_ready_chan_def ready_def)
  consider "pc_pending ?c = UT_None" | "pc_pending ?c \<noteq> UT_None" "pc_pending ?c \<noteq> UT_Full" | "pc_pending ?c = UT_Full"
    by blast
  then show ?thesis
  proof cases
    case 1
    let ?n = "?c\<lparr>pc_pending := UT_Full, pc_changed := m, pc_updates_since_last_hb := pc_updates_since_last_hb ?c + 1\<rparr>"
    have "pva_mark_update UT_Full i st = Some ((pva_set_channel i ?n st)\<lparr>ps_deque := ps_deque st @ [pc_index ?c]\<rparr>)"
      using i m(1) 1 by (simp add: pva_mark_update_def)
    moreover have "pva_ready ((pva_set_channel i ?n st)\<lparr>ps_deque := ps_deque st @ [pc_index ?c]\<rparr>) = pva_ready st"
      by (rule pva_ready_update [of ?n _ i]) (simp_all add: r)
    ultimately show ?thesis by simp
  next
    case 2
    let ?n = "?c\<lparr>pc_pending := UT_Full, pc_changed := m\<rparr>"
    have "pva_mark_update UT_Full i st = Some (pva_set_channel i ?n st)"
      using i m(1) 2 by (simp add: pva_mark_update_def)
    moreover have "pva_ready (pva_set_channel i ?n st) = pva_ready st"
      by (rule pva_ready_update [of ?n _ i]) (simp_all add: r)
    ultimately show ?thesis by simp
  next
    case 3
    then show ?thesis using i by (simp add: pva_mark_update_def update_type_defs)
  qed
qed

interpretation pva_full: update_queue ps_deque "\<lambda>_ i. i" pva_ready pva_ready_inv
  "pva_mark_update UT_Full" pva_clear_update
proof unfold_locales
  fix s i assume a: "pva_ready_inv s" "pva_ready s i"
  then have inv: "pva_queue_inv s" and i: "i < length (ps_channels s)"
    by (simp_all add: pva_ready_inv_def pva_ready_def)
  from pva_mark_full_ready [OF inv a(2)] obtain s' where
    s': "pva_mark_update UT_Full i s = Some s'" "pva_ready s' = pva_ready s" by blast
  from pva_mark_inv [OF inv i _ s'(1)] a s'
  show "\<exists>s'. pva_mark_update UT_Full i s = Some s' \<and> pva_ready_inv s' \<and> (\<lambda>i. i) = (\<lambda>i. i) \<and>
      pva_ready s' = pva_ready s \<and>
      ps_deque s' = (if i \<in> set (ps_deque s) then ps_deque s else ps_deque s @ [i])"
    by (auto simp: pva_ready_inv_def update_type_defs)
next
  fix s q qs assume a: "pva_ready_inv s" "ps_deque s = q # qs"
  then have "pva_queue_inv s" by (simp add: pva_ready_inv_def)
  then obtain s' where s': "pva_clear_update q s = Some s'" "pva_queue_inv s'" "ps_deque s' = qs"
    "ps_channels s' = (ps_channels s)[q := (ps_channels s ! q)\<lparr>pc_changed := clear_mask (pc_changed (ps_channels s ! q)),
       pc_pending := UT_None\<rparr>]"
    using a(2) by (rule pva_clear_inv) auto
  from a have "pva_ready_chan (ps_channels s ! q)" by (auto simp: pva_ready_inv_def pva_ready_def)
  then have "pva_ready s' = pva_ready s"
    using s'(4) by (intro pva_ready_update) (auto simp: pva_ready_chan_def intro: ready_clear_mask)
  with s' a show "\<exists>s'. pva_clear_update q s = Some s' \<and> pva_ready_inv s' \<and> (\<lambda>i. i) = (\<lambda>i. i) \<and>
      pva_ready s' = pva_ready s \<and> ps_deque s' = qs"
    by (auto simp: pva_ready_inv_def)
qed (auto simp: pva_ready_inv_def pva_queue_inv_def pva_chans_inv_def)

end
