(* ===== verification/Pva_Run.thy ===== *)
theory Pva_Run
  imports Pva_Queue
begin

text \<open>
  The run loop of the pvAccess sender keeps the queue invariant, and a turn that returns leaves the
  queue empty. Both are partial: some turns do not return, as the properties of the sender show.
\<close>

lemma pva_queue_inv_frame [simp]:
  "pva_queue_inv (st\<lparr>ps_seq_no := n\<rparr>) = pva_queue_inv st" "pva_queue_inv (st\<lparr>ps_iteration := k\<rparr>) = pva_queue_inv st"
  "pva_queue_inv (pva_send p (st\<lparr>ps_buffer := b\<rparr>)) = pva_queue_inv st"
  "pva_queue_inv (pva_arrivals evs st) = pva_queue_inv st"
  "pva_queue_inv (st\<lparr>ps_work := wk\<rparr>) = pva_queue_inv st" "pva_queue_inv (st\<lparr>ps_monitors := ms\<rparr>) = pva_queue_inv st"
  by (simp_all add: pva_queue_inv_def pva_send_def pva_arrivals_def)

subsection \<open>Events and heartbeats\<close>

lemma pva_inv_set:
  assumes "pva_queue_inv st" "i < length (ps_channels st)" "pc_index c = pc_index (ps_channels st ! i)"
    "pc_pending c = pc_pending (ps_channels st ! i)"
  shows "pva_queue_inv (pva_set_channel i c st)" "pva_queue_inv ((pva_set_channel i c st)\<lparr>ps_cache := k\<rparr>)"
  using assms pva_inv_update [of "ps_channels st" "ps_deque st" i c]
  by (simp_all add: pva_queue_inv_def pva_chans_inv_def)

lemma vec_at_lt: "vec_at xs i = Some x \<longleftrightarrow> i < length xs \<and> x = xs ! i"
  by (auto simp: vec_at_def)

lemma pva_update_inv:
  assumes "pva_queue_inv st" "pva_update lib i v st = Some st'"
  shows "pva_queue_inv st'"
proof -
  from assms(2) obtain c where c: "i < length (ps_channels st)" "c = ps_channels st ! i"
    by (auto simp: pva_update_def bind_eq_Some_conv vec_at_lt)
  from assms(2) c consider
      d t k where "pva_mark_update UT_Full i ((pva_set_channel i (c\<lparr>pc_connected := True, pc_value := Some v,
        pc_type_id := t, pc_changed := d, pc_update_seq_no := 0\<rparr>) st)\<lparr>ps_cache := k\<rparr>) = Some st'"
    | new m where "pva_mark_update UT_Partial i (pva_set_channel i (c\<lparr>pc_value := Some new, pc_changed := m\<rparr>) st) = Some st'"
    by (auto simp: pva_update_def bind_eq_Some_conv vec_at_lt Let_def case_prod_beta split: if_splits)
  then show ?thesis
  proof cases
    case 1
    then show ?thesis
      by (rule pva_mark_inv(1) [rotated 3]) (use assms(1) c in \<open>auto simp: UT_Full_def UT_None_def intro: pva_inv_set\<close>)
  next
    case 2
    then show ?thesis
      by (rule pva_mark_inv(1) [rotated 3]) (use assms(1) c in \<open>auto simp: UT_Partial_def UT_None_def intro: pva_inv_set\<close>)
  qed
qed

lemma pva_handle_event_inv:
  assumes "pva_queue_inv st" "pva_handle_event lib i e st = Some st'"
  shows "pva_queue_inv st'"
proof (cases e)
  case (PV_Update v)
  with assms show ?thesis by (auto intro: pva_update_inv)
next
  case PV_Disconnect
  with assms(2) obtain c where c: "i < length (ps_channels st)" "c = ps_channels st ! i"
    and m: "pva_mark_update UT_Partial i (pva_set_channel i (c\<lparr>pc_connected := False\<rparr>) st) = Some st'"
    by (auto simp: bind_eq_Some_conv vec_at_lt)
  from m show ?thesis
    by (rule pva_mark_inv(1) [rotated 3]) (use assms(1) c in \<open>auto simp: UT_Partial_def UT_None_def intro: pva_inv_set\<close>)
qed (use assms in auto)

lemma foldM_keeps:
  assumes "foldM f xs s = Some s'" "P s" "\<And>x s s'. P s \<Longrightarrow> f x s = Some s' \<Longrightarrow> P s'"
  shows "P s'"
  using assms(1,2)
  by (induction xs arbitrary: s) (auto simp: bind_eq_Some_conv dest: assms(3))

lemma pva_pop_all_inv:
  assumes "pva_queue_inv st" "pva_pop_all lib i st = Some st'"
  shows "pva_queue_inv st'"
proof -
  from assms(2) obtain evs where "foldM (pva_handle_event lib i) evs (st\<lparr>ps_monitors := (ps_monitors st)[i := []]\<rparr>) = Some st'"
    by (auto simp: pva_pop_all_def bind_eq_Some_conv)
  then show ?thesis
    by (rule foldM_keeps [where P = pva_queue_inv])
      (use assms(1) in \<open>auto intro: pva_handle_event_inv simp: pva_queue_inv_frame\<close>)
qed

lemma pva_work_inv: "pva_queue_inv st \<Longrightarrow> pva_work lib st = Some st' \<Longrightarrow> pva_queue_inv st'"
  unfolding pva_work_def
  by (erule foldM_keeps [where P = pva_queue_inv]) (auto intro: pva_pop_all_inv)

lemma pva_heartbeat_inv:
  assumes "pva_queue_inv st" "pva_mark_heartbeat_update i st = Some (b, st')"
  shows "pva_queue_inv st'" "length (ps_channels st') = length (ps_channels st)"
proof -
  from assms(2) obtain st1 where m: "pva_mark_update UT_Full i st = Some st1"
    and i: "i < length (ps_channels st1)"
    and s: "st' = pva_set_channel i ((ps_channels st1 ! i)\<lparr>pc_updates_since_last_hb := 0\<rparr>) st1"
    by (auto simp: pva_mark_heartbeat_update_def bind_eq_Some_conv vec_at_lt)
  have "i < length (ps_channels st)"
    using m by (auto simp: pva_mark_update_def bind_eq_Some_conv vec_at_lt)
  from pva_mark_inv [OF assms(1) this _ m] i s
  show "pva_queue_inv st'" "length (ps_channels st') = length (ps_channels st)"
    by (auto simp: UT_Full_def UT_None_def intro: pva_inv_set)
qed

lemma pva_heartbeat_step_inv:
  "pva_queue_inv (fst acc) \<Longrightarrow> pva_heartbeat_step i acc = Some acc' \<Longrightarrow> pva_queue_inv (fst acc')"
  by (cases acc) (auto simp: pva_heartbeat_step_def bind_eq_Some_conv intro: pva_heartbeat_inv)

lemma pva_heartbeats_inv:
  assumes "pva_queue_inv st" "pva_mark_heartbeat_updates st = Some r"
  shows "pva_queue_inv (fst r)"
proof -
  from assms(2) obtain acc where "foldM pva_heartbeat_step [0 ..< length (ps_channels st)] (st, 0, 0) = Some acc"
    and "fst r = fst acc"
    by (auto simp: pva_mark_heartbeat_updates_def Let_def bind_eq_Some_conv split: if_splits)
  then have "pva_queue_inv (fst acc)"
    by (elim foldM_keeps [where P = "\<lambda>acc. pva_queue_inv (fst acc)"])
      (use assms(1) in \<open>auto intro: pva_heartbeat_step_inv\<close>)
  with \<open>fst r = fst acc\<close> show ?thesis by simp
qed

subsection \<open>Sending\<close>

lemma send_typedef_packet_frame:
  "send_typedef_packet lib i st = Some (j, st') \<Longrightarrow> ps_channels st' = ps_channels st \<and> ps_deque st' = ps_deque st"
  by (auto simp: send_typedef_packet_def Let_def bind_eq_Some_conv pva_send_def split: prod.splits)

lemma typedef_loop_frame:
  "typedef_loop lib i st = Some st' \<Longrightarrow> ps_channels st' = ps_channels st \<and> ps_deque st' = ps_deque st"
  by (rule typedef_loop.raw_induct [where P = "\<lambda>lib i st st'. ps_channels st' = ps_channels st \<and> ps_deque st' = ps_deque st",
        rotated], assumption)
    (auto simp: bind_eq_Some_conv split: if_splits dest!: send_typedef_packet_frame)

lemma put_update_inv:
  assumes "pva_queue_inv st" "ps_deque st = q # qs" "put_update lib q st s = Some (ok, st', s')"
  shows "pva_queue_inv st'"
proof -
  from assms(3) obtain c where c: "q < length (ps_channels st)" "c = ps_channels st ! q"
    and o: "if ok then pva_clear_update q (pva_set_channel q (c\<lparr>pc_update_seq_no := pc_update_seq_no c + 1\<rparr>) st) = Some st'
      else st' = st"
    by (auto simp: put_update_def bind_eq_Some_conv vec_at_lt split: if_splits)
  have "pva_queue_inv (pva_set_channel q (c\<lparr>pc_update_seq_no := pc_update_seq_no c + 1\<rparr>) st)"
    using assms(1) c by (intro pva_inv_set) auto
  from pva_clear_inv [OF this] assms(2) obtain st1 where
    "pva_clear_update q (pva_set_channel q (c\<lparr>pc_update_seq_no := pc_update_seq_no c + 1\<rparr>) st) = Some st1" "pva_queue_inv st1"
    by (metis pva_set_channel_fields(2))
  with o assms(1) show ?thesis by (auto split: if_splits)
qed

lemma pva_fill_updates_inv:
  "pva_fill_updates lib st acc = Some r \<Longrightarrow> pva_queue_inv st \<longrightarrow> pva_queue_inv (fst r)"
  by (rule pva_fill_updates.raw_induct [where P = "\<lambda>lib st acc r. pva_queue_inv st \<longrightarrow> pva_queue_inv (fst r)", rotated],
      assumption)
    (auto simp: bind_eq_Some_conv split: list.splits if_splits dest: put_update_inv)

lemma pva_send_packet_inv:
  assumes "pva_send_packet lib st = Some st'" "pva_queue_inv st"
  shows "pva_queue_inv st'"
proof -
  from assms(1) obtain s0 st1 acc p b where
    "pva_fill_updates lib (st\<lparr>ps_seq_no := ps_seq_no st + 1\<rparr>) s0 = Some (st1, acc)"
    and "st' = pva_send p (st1\<lparr>ps_buffer := b\<rparr>)"
    by (auto simp: pva_send_packet_def Let_def bind_eq_Some_conv case_prod_beta)
  with pva_fill_updates_inv assms(2) show ?thesis by fastforce
qed

lemma pva_send_updates_empty:
  "pva_send_updates lib st = Some st' \<Longrightarrow> ps_deque st' = [] \<and> (pva_queue_inv st \<longrightarrow> pva_queue_inv st')"
  by (rule pva_send_updates.raw_induct
        [where P = "\<lambda>lib st st'. ps_deque st' = [] \<and> (pva_queue_inv st \<longrightarrow> pva_queue_inv st')", rotated], assumption)
    (auto simp: bind_eq_Some_conv pva_has_updates_def split: if_splits dest: pva_send_packet_inv)

lemma pva_run_iteration_inv:
  assumes "pva_queue_inv st" "pva_run_iteration lib evs st = Some st'"
  shows "pva_queue_inv st'" "ps_deque st' = []"
proof -
  from assms(2) obtain st1 st2 where w: "pva_work lib (pva_arrivals evs st) = Some st1"
    and h: "(if ps_iteration (st1\<lparr>ps_iteration := ps_iteration st1 + 1\<rparr>) mod ps_hb_iterations st1 = 0
      then do { st \<leftarrow> send_typedef_updates lib (st1\<lparr>ps_iteration := ps_iteration st1 + 1\<rparr>);
                map_option fst (pva_mark_heartbeat_updates st) }
      else Some (st1\<lparr>ps_iteration := ps_iteration st1 + 1\<rparr>)) = Some st2"
    and s: "pva_send_updates lib st2 = Some st'"
    by (auto simp: pva_run_iteration_def Let_def bind_eq_Some_conv)
  have i1: "pva_queue_inv st1" using pva_work_inv [OF _ w] assms(1) by simp
  have "pva_queue_inv st2"
  proof (cases "ps_iteration (st1\<lparr>ps_iteration := ps_iteration st1 + 1\<rparr>) mod ps_hb_iterations st1 = 0")
    case True
    with h obtain st3 r where t: "send_typedef_updates lib (st1\<lparr>ps_iteration := ps_iteration st1 + 1\<rparr>) = Some st3"
      and m: "pva_mark_heartbeat_updates st3 = Some r" "st2 = fst r"
      by (auto simp: bind_eq_Some_conv)
    from typedef_loop_frame t i1 have "pva_queue_inv st3"
      by (fastforce simp: send_typedef_updates_def pva_queue_inv_def)
    with m show ?thesis using pva_heartbeats_inv by blast
  next
    case False
    with h i1 show ?thesis by auto
  qed
  with pva_send_updates_empty [OF s] show "pva_queue_inv st'" "ps_deque st' = []" by simp_all
qed

lemma pva_run_loop_inv:
  "pva_queue_inv st \<Longrightarrow> ps_deque st = [] \<Longrightarrow> pva_run_loop lib limited n turns st = Some (b, st') \<Longrightarrow>
   pva_queue_inv st' \<and> ps_deque st' = []"
proof (induction turns arbitrary: st)
  case (Cons evs turns)
  from Cons.prems(3) obtain st1 where r: "pva_run_iteration lib evs st = Some st1"
    and l: "st' = st1 \<or> pva_run_loop lib limited n turns st1 = Some (b, st')"
    by (auto simp: bind_eq_Some_conv split: if_splits)
  from pva_run_iteration_inv [OF Cons.prems(1) r] l Cons.IH [of st1] show ?case by auto
qed simp

lemma pva_sender_init_inv: "pva_sender_init lib cfg startup = Some st \<Longrightarrow> pva_queue_inv st \<and> ps_deque st = []"
  by (auto simp: pva_sender_init_def Let_def case_prod_beta bind_eq_Some_conv pva_create_channels_def pva_queue_inv_def
      pva_chans_inv_def new_pva_channel_def split: if_splits)

end
