(* ===== verification/Pva_Frames.thy ===== *)
theory Pva_Frames
  imports Pva_Run CA_Packets
begin

text \<open>
  The frame the pvAccess sender puts around the entries of a packet: after the fixed header a
  submessage header, a number, and the count of the entries, which is written last; then the entries,
  padded. Data and type definition packets are framed alike.
\<close>

definition frame_head :: "u8 \<Rightarrow> u16 \<Rightarrow> bytes" where
  "frame_head i x = enc_subheader \<lparr>sh_id = i, sh_flags = LittleEndian, sh_next = 0\<rparr> @ le_bytes 2 (unat x)"

definition pva_frame :: "u8 \<Rightarrow> u16 \<Rightarrow> u16 \<Rightarrow> bytes \<Rightarrow> bytes" where
  "pva_frame i x count es =
     frame_head i x @ le_bytes 2 (unat count) @ (es @ replicate (pad_len 8 (length es)) 0)"

lemma length_pva_frame: "length (pva_frame i x count es) = 8 + length es + pad_len 8 (length es)"
  by (simp add: pva_frame_def frame_head_def)

text \<open>The cursor after the head was written into the buffer \<open>B\<close>, with a count of 0.\<close>

definition opened :: "u8 \<Rightarrow> u16 \<Rightarrow> bytes \<Rightarrow> serializer" where
  "opened i x B = written (frame_head i x @ le_bytes 2 0) (advance Header_size (ser_of B))"

lemma start_fields:
  assumes "length B = MAX_MESSAGE_SIZE"
  shows "ser_wf (advance Header_size (ser_of B))" "ser_good (advance Header_size (ser_of B))"
    "remaining (advance Header_size (ser_of B)) = 65480"
  using assms by (simp_all add: ser_wf_def remaining_def ser_fields Header_size_def MAX_MESSAGE_SIZE_def)

lemma opened_fields:
  assumes "length B = MAX_MESSAGE_SIZE"
  shows "ser_wf (opened i x B)" "remaining (opened i x B) = 65472" "ser_good (opened i x B)" "ser_pos (opened i x B) = 32"
    "length (ser_mem (opened i x B)) = 65504" "ser_limit (opened i x B) = 65504"
proof -
  note s = start_fields [OF assms]
  have l: "length (frame_head i x @ le_bytes 2 0) = 8" by (simp add: frame_head_def)
  show "ser_wf (opened i x B)" "remaining (opened i x B) = 65472"
    using written_wf [OF s(1), of "frame_head i x @ le_bytes 2 0"] l s(3) by (simp_all add: opened_def)
  show "ser_good (opened i x B)" "ser_pos (opened i x B) = 32" "ser_limit (opened i x B) = 65504"
    "length (ser_mem (opened i x B)) = 65504"
    using assms written_mem(1) [of "advance Header_size (ser_of B)" "frame_head i x @ le_bytes 2 0"] l
    by (simp_all add: opened_def ser_fields Header_size_def MAX_MESSAGE_SIZE_def)
qed

lemma open_frame:
  assumes "length B = MAX_MESSAGE_SIZE"
  shows "ensure (Submessage_size + 4) (advance Header_size (ser_of B)) = (True, advance Header_size (ser_of B))"
    "put_subheader \<lparr>sh_id = i, sh_flags = LittleEndian, sh_next = 0\<rparr> (advance Header_size (ser_of B)) =
      Some (written (enc_subheader \<lparr>sh_id = i, sh_flags = LittleEndian, sh_next = 0\<rparr>) (advance Header_size (ser_of B)))"
    "put_pva_data \<lparr>pd_seq_no = x, pd_channel_count = 0\<rparr>
      (written (enc_subheader \<lparr>sh_id = i, sh_flags = LittleEndian, sh_next = 0\<rparr>) (advance Header_size (ser_of B))) =
      Some (opened i x B)"
    "put_pva_typedef \<lparr>td_start_id = x, td_typedef_count = 0\<rparr>
      (written (enc_subheader \<lparr>sh_id = i, sh_flags = LittleEndian, sh_next = 0\<rparr>) (advance Header_size (ser_of B))) =
      Some (opened i x B)"
proof -
  let ?s = "advance Header_size (ser_of B)"
  let ?sh = "\<lparr>sh_id = i, sh_flags = LittleEndian, sh_next = 0\<rparr>"
  note s = start_fields [OF assms]
  show "ensure (Submessage_size + 4) ?s = (True, ?s)"
    using s(2,3) by (simp add: ensure_True Submessage_size_def)
  show "put_subheader ?sh ?s = Some (written (enc_subheader ?sh) ?s)"
    using subheader.put_ok [OF s(2)] s by (simp add: Submessage_size_def ser_write_wf_fits)
  let ?w = "written (enc_subheader ?sh) ?s"
  have w: "ser_wf ?w" "remaining ?w = 65476" "ser_good ?w"
    using written_wf [OF s(1), of "enc_subheader ?sh"] s(2,3) by (simp_all add: written_fields)
  have o: "written b ?w = opened i x B" if "b = le_bytes 2 (unat x) @ le_bytes 2 0" for b
    unfolding opened_def frame_head_def that append_assoc
    by (rule written_append) (simp add: ser_fields assms Header_size_def MAX_MESSAGE_SIZE_def)
  show "put_pva_data \<lparr>pd_seq_no = x, pd_channel_count = 0\<rparr> ?w = Some (opened i x B)"
    using pva_data.put_ok [of ?w "\<lparr>pd_seq_no = x, pd_channel_count = 0\<rparr>"] w o
    by (simp add: PVADataMessage_size_def ser_write_wf_fits enc_pva_data_def)
  show "put_pva_typedef \<lparr>td_start_id = x, td_typedef_count = 0\<rparr> ?w = Some (opened i x B)"
    using pva_typedef.put_ok [of ?w "\<lparr>td_start_id = x, td_typedef_count = 0\<rparr>"] w o
    by (simp add: PVATypeDefMessage_size_def ser_write_wf_fits enc_pva_typedef_def)
qed

text \<open>
  The cursor when the bytes \<open>X\<close> follow the head; what the rest of the buffer holds does not matter, an
  encoder that found no room may have left something there.
\<close>

definition filled :: "u8 \<Rightarrow> u16 \<Rightarrow> bytes \<Rightarrow> bytes \<Rightarrow> serializer \<Rightarrow> bool" where
  "filled i x B X t \<longleftrightarrow>
     ser_pos t = 32 + length X \<and> length X \<le> 65472 \<and> ser_limit t = 65504 \<and> length (ser_mem t) = 65504 \<and>
     take (32 + length X) (ser_mem t) = take 24 B @ frame_head i x @ le_bytes 2 0 @ X"

lemma filled_wf: "filled i x B X t \<Longrightarrow> ser_wf t \<and> remaining t = 65472 - length X"
  by (auto simp: filled_def ser_wf_def remaining_def)

lemma filled_opened:
  assumes "length B = MAX_MESSAGE_SIZE"
  shows "filled i x B [] (opened i x B)"
  using opened_fields [OF assms, of i x] assms
    written_mem(2) [of "advance Header_size (ser_of B)" "frame_head i x @ le_bytes 2 0"]
  by (simp add: filled_def opened_def ser_fields Header_size_def MAX_MESSAGE_SIZE_def frame_head_def)

lemma filled_written:
  assumes "filled i x B X t" "length b \<le> remaining t"
  shows "filled i x B (X @ b) (written b t)"
proof -
  have r: "remaining t = 65472 - length X" using filled_wf [OF assms(1)] by simp
  then have "ser_pos t + length b \<le> length (ser_mem t)" "length (X @ b) \<le> 65472"
    using assms by (auto simp: filled_def)
  then show ?thesis
    using assms(1) written_mem [of t b] by (simp add: filled_def written_fields add.assoc)
qed

lemma filled_inside:
  assumes "filled i x B X t" "inside t t'"
  shows "\<exists>J. filled i x B (X @ J) t'"
proof -
  let ?J = "segment (ser_pos t) (ser_pos t' - ser_pos t) (ser_mem t')"
  have p: "ser_pos t \<le> ser_pos t'" "ser_pos t' \<le> 65504" "length (ser_mem t') = 65504" "ser_limit t' = 65504"
    using assms by (auto simp: filled_def inside_def ser_wf_def)
  then have "length ?J = ser_pos t' - ser_pos t" by (intro length_segment) simp
  moreover have "take (ser_pos t') (ser_mem t') = take (ser_pos t) (ser_mem t') @ ?J"
    using p(1) take_add [of "ser_pos t" "ser_pos t' - ser_pos t" "ser_mem t'"] by (simp add: segment_def)
  ultimately have "filled i x B (X @ ?J) t'"
    using assms p by (auto simp: filled_def inside_def)
  then show ?thesis ..
qed

text \<open>Closing the frame: the padding, then the count at its place.\<close>

lemma take_patch_field:
  assumes "take n m = a @ z @ r" "length c = length z" "n = length (a @ z @ r)" "n \<le> length m"
  shows "take n (patch (length a) c m) = a @ c @ r"
proof -
  have "take n (patch (length a) c m) = patch (length a) c (take n m)"
    using assms(2-4) by (simp add: patch_def drop_take min_absorb1)
  also have "\<dots> = a @ c @ r" using assms(2) by (simp add: assms(1) patch_def)
  finally show ?thesis .
qed

lemma close_frame:
  assumes B: "length B = MAX_MESSAGE_SIZE" and t: "filled i x B X t"
  shows "\<exists>s1 s2 s3. pad_align Submessage_alignment 0 t = Some s1 \<and> set_position 30 s1 = Some s2 \<and>
    put_u16 count s2 = Some s3 \<and>
    take (distance s1) (ser_mem s3) = take Header_size B @ pva_frame i x count X \<and>
    take Header_size (ser_mem s3) = take Header_size B \<and> length (ser_mem s3) = length B"
proof -
  let ?P = "replicate (pad_len 8 (length X)) (0 :: u8)"
  let ?a = "take 24 B @ frame_head i x" and ?r = "X @ ?P"
  let ?s1 = "written ?P t"
  have X: "ser_pos t = 32 + length X" "length (ser_mem t) = 65504" "length X \<le> 65472" "ser_limit t = 65504"
    "take (32 + length X) (ser_mem t) = take 24 B @ frame_head i x @ le_bytes 2 0 @ X"
    using t by (simp_all add: filled_def)
  have lB: "length B = 65504" using B by (simp add: MAX_MESSAGE_SIZE_def)
  then have la: "length ?a = 30" by (simp add: frame_head_def)
  have padded: "length X + length ?P \<le> 65472"
    using pad_len_bound [of 8 65472 "length X"] X(3) by simp
  have "pad_align 8 0 t = ser_write (replicate (pad_len 8 (ser_pos t)) 0) t"
    by (rule pad_align_write) (use X padded in simp_all)
  also have "\<dots> = ser_write ?P t"
    using pad_len_shift [of 32 "length X"] by (simp only: X(1)) simp
  also have "\<dots> = Some ?s1"
    by (rule ser_write_fits) (use X padded in simp)
  finally have pad: "pad_align Submessage_alignment 0 t = Some ?s1" by (simp add: Submessage_alignment_def)
  have m1: "length (ser_mem ?s1) = 65504" "ser_limit ?s1 = 65504" "ser_pos ?s1 = 32 + length ?r"
    "take (32 + length ?r) (ser_mem ?s1) = ?a @ le_bytes 2 0 @ ?r"
    using written_mem [of t ?P] X padded by (simp_all add: written_fields add.assoc)
  let ?s2 = "?s1\<lparr>ser_pos := 30\<rparr>" and ?m = "patch (length ?a) (le_bytes 2 (unat count)) (ser_mem ?s1)"
  let ?s3 = "?s2\<lparr>ser_mem := ?m, ser_pos := 32\<rparr>"
  have "set_position 30 ?s1 = Some ?s2" "put_u16 count ?s2 = Some ?s3"
    unfolding la using m1 by (simp_all add: set_position_def put_write ser_write_def)
  moreover have c: "take (32 + length ?r) ?m = ?a @ le_bytes 2 (unat count) @ ?r"
    by (rule take_patch_field [OF m1(4)]) (use lB m1(1) padded in \<open>simp_all add: frame_head_def\<close>)
  moreover have "take 24 ?m = take 24 B"
    using arg_cong [OF c, of "take 24"] lB by simp
  moreover have "length ?m = length B"
    unfolding la using m1(1) lB by (simp add: length_patch)
  ultimately show ?thesis
    using pad m1(3) by (auto simp: distance_def Header_size_def pva_frame_def)
qed

end
