(* ===== verification/Pva_Packets.thy ===== *)
theory Pva_Packets
  imports Pva_Frames
begin

text \<open>
  The packet the pvAccess sender makes of its queue when everything fits. The library's encoder of
  marked values is described by \<open>enc\<close>: it writes \<open>enc v m\<close> or marks its buffer faulty.
\<close>

definition lib_writes :: "pva_lib \<Rightarrow> (pva_value \<Rightarrow> bitmask \<Rightarrow> bytes) \<Rightarrow> bool" where
  "lib_writes lib enc \<longleftrightarrow> (\<forall>v m. encodes (lib_to_wire_valid lib v m) (enc v m))"

definition pva_entry_bytes :: "(pva_value \<Rightarrow> bitmask \<Rightarrow> bytes) \<Rightarrow> pva_channel \<Rightarrow> bytes" where
  "pva_entry_bytes enc c =
     enc_pva_channel_data (pva_channel_message c) @
     (case pc_value c of None \<Rightarrow> [] | Some v \<Rightarrow> enc v (pc_changed c))"

definition sent_channel :: "pva_channel \<Rightarrow> pva_channel" where
  "sent_channel c = c\<lparr>pc_update_seq_no := pc_update_seq_no c + 1, pc_changed := clear_mask (pc_changed c), pc_pending := UT_None\<rparr>"

definition send_channels :: "nat list \<Rightarrow> pva_channel list \<Rightarrow> pva_channel list" where
  "send_channels qs chs = fold (\<lambda>q chs. chs[q := sent_channel (chs ! q)]) qs chs"

lemma written_fixed_buf: "give_back s (written bs (fixed_buf s)) =
    (if ser_pos s + length bs \<le> ser_limit s then Some (written bs s) else None)"
  by (cases s) (auto simp: give_back_def set_position_def written_def fixed_buf_def)

lemma serialize_value_fits:
  assumes "lib_writes lib enc" "ser_wf s" "ser_good s" "pcd_update_type m \<noteq> UT_Disconnected"
    and "length (enc v msk) \<le> remaining s"
  shows "serialize_value lib m (Some v) msk s = Some (True, written (enc v msk) s)"
proof -
  have "encodes (lib_to_wire_valid lib v msk) (enc v msk)" using assms(1) by (simp add: lib_writes_def)
  from encodesD [OF this, of "fixed_buf s"] assms(2) obtain b where
    "lib_to_wire_valid lib v msk (fixed_buf s) = Some b" "encoded (enc v msk) (fixed_buf s) b" by auto
  then have "lib_to_wire_valid lib v msk (fixed_buf s) = Some (written (enc v msk) (fixed_buf s))"
    using assms(5) by (simp add: encoded_def)
  moreover have "ser_pos s + length (enc v msk) \<le> ser_limit s"
    using assms(2,5) by (auto simp: remaining_wf ser_wf_def)
  ultimately show ?thesis
    using assms(3,4) by (simp add: serialize_value_def written_fixed_buf written_fields)
qed

lemma put_update_fits:
  assumes "lib_writes lib enc" "pva_queue_inv st" "ps_deque st = q # qs" "pc_value (ps_channels st ! q) \<noteq> None"
    and "ser_wf s" "ser_good s" "length (pva_entry_bytes enc (ps_channels st ! q)) \<le> remaining s"
  obtains st' where "put_update lib q st s = Some (True, st', written (pva_entry_bytes enc (ps_channels st ! q)) s)"
    "pva_queue_inv st'" "ps_deque st' = qs" "ps_channels st' = (ps_channels st)[q := sent_channel (ps_channels st ! q)]"
    "ps_seq_no st' = ps_seq_no st" "ps_buffer st' = ps_buffer st" "ps_sent st' = ps_sent st"
proof -
  let ?c = "ps_channels st ! q"
  let ?h = "enc_pva_channel_data (pva_channel_message ?c)"
  let ?st = "pva_set_channel q (?c\<lparr>pc_update_seq_no := pc_update_seq_no ?c + 1\<rparr>) st"
  obtain v where v: "pc_value ?c = Some v" using assms(4) by blast
  let ?b = "enc v (pc_changed ?c)"
  have e: "pva_entry_bytes enc ?c = ?h @ ?b" by (simp add: pva_entry_bytes_def v)
  have q: "q < length (ps_channels st)" and p: "pc_pending ?c \<noteq> UT_None"
    using assms(2,3) by (auto simp: pva_queue_inv_def pva_chans_inv_def)
  have h: "put_pva_channel_data (pva_channel_message ?c) s = Some (written ?h s)"
    using assms(5-7) e by (intro put_pva_channel_data_fits) (simp_all split: if_splits)
  have w: "ser_wf (written ?h s)" "remaining (written ?h s) = remaining s - length ?h" "ser_good (written ?h s)"
    using written_wf [OF assms(5), of ?h] assms(6,7) e by (simp_all add: written_fields split: if_splits)
  have sv: "serialize_value lib (pva_channel_message ?c) (Some v) (pc_changed ?c) (written ?h s) =
      Some (True, written ?b (written ?h s))"
    using w assms(1,7) e p by (intro serialize_value_fits) (auto simp: pva_channel_message_def update_type_defs)
  have "ser_pos s + length ?h + length ?b \<le> length (ser_mem s)"
    using assms(5,7) e by (auto simp: remaining_wf ser_wf_def)
  then have ww: "written ?b (written ?h s) = written (?h @ ?b) s"
    by (rule written_append)
  have "pva_queue_inv ?st" "ps_deque ?st = q # qs"
    using assms(2,3) q by (auto intro: pva_inv_set)
  then obtain st' where c: "pva_clear_update q ?st = Some st'" "pva_queue_inv st'" "ps_deque st' = qs"
    "ps_channels st' = (ps_channels st)[q := sent_channel ?c]" "ps_seq_no st' = ps_seq_no st"
    "ps_buffer st' = ps_buffer st" "ps_sent st' = ps_sent st"
    by (rule pva_clear_inv) (use q in \<open>simp add: sent_channel_def\<close>)
  have "put_update lib q st s = Some (True, st', written (pva_entry_bytes enc ?c) s)"
    using q h sv ww c(1) by (simp add: put_update_def v e)
  with c show ?thesis using that by blast
qed

lemma send_channels_nth: "q \<notin> set qs \<Longrightarrow> send_channels qs chs ! q = chs ! q"
  by (induction qs arbitrary: chs) (auto simp: send_channels_def)

lemma pva_fill_fits:
  assumes "lib_writes lib enc" "pva_queue_inv st" "ps_deque st = qs"
    and "\<forall>q \<in> set qs. pc_value (ps_channels st ! q) \<noteq> None"
    and "ser_wf s" "ser_good s" "length (concat (map (\<lambda>q. pva_entry_bytes enc (ps_channels st ! q)) qs)) \<le> remaining s"
  shows "\<exists>st'. pva_fill_updates lib st (s, n) =
      Some (st', written (concat (map (\<lambda>q. pva_entry_bytes enc (ps_channels st ! q)) qs)) s, n + of_nat (length qs)) \<and>
    pva_queue_inv st' \<and> ps_deque st' = [] \<and> ps_channels st' = send_channels qs (ps_channels st) \<and>
    ps_seq_no st' = ps_seq_no st \<and> ps_buffer st' = ps_buffer st \<and> ps_sent st' = ps_sent st"
  using assms(2-7)
proof (induction qs arbitrary: st s n)
  case Nil
  then show ?case by (subst pva_fill_updates.simps) (simp add: send_channels_def)
next
  case (Cons q qs)
  let ?e = "pva_entry_bytes enc (ps_channels st ! q)"
  let ?r = "concat (map (\<lambda>q. pva_entry_bytes enc (ps_channels st ! q)) qs)"
  have dist: "q \<notin> set qs"
    using Cons.prems(1,2) by (auto simp: pva_queue_inv_def pva_chans_inv_def)
  have vq: "pc_value (ps_channels st ! q) \<noteq> None" and lq: "length ?e \<le> remaining s"
    using Cons.prems(3,6) by simp_all
  obtain st1 where st1: "put_update lib q st s = Some (True, st1, written ?e s)" "pva_queue_inv st1"
    "ps_deque st1 = qs" "ps_channels st1 = (ps_channels st)[q := sent_channel (ps_channels st ! q)]"
    "ps_seq_no st1 = ps_seq_no st" "ps_buffer st1 = ps_buffer st" "ps_sent st1 = ps_sent st"
    by (rule put_update_fits [OF assms(1) Cons.prems(1,2) vq Cons.prems(4,5) lq])
  have same: "ps_channels st1 ! p = ps_channels st ! p" if "p \<in> set qs" for p
    using that dist st1(4) by (metis nth_list_update_neq)
  have r: "concat (map (\<lambda>q. pva_entry_bytes enc (ps_channels st1 ! q)) qs) = ?r"
    by (rule arg_cong [where f = concat]) (use same in auto)
  have w: "ser_wf (written ?e s)" "remaining (written ?e s) = remaining s - length ?e" "ser_good (written ?e s)"
    using written_wf [OF Cons.prems(4), of ?e] Cons.prems(5,6) by (simp_all add: written_fields)
  have "ser_pos s + length ?e + length ?r \<le> length (ser_mem s)"
    using Cons.prems(4,6) by (auto simp: remaining_wf ser_wf_def)
  then have ww: "written ?r (written ?e s) = written (?e @ ?r) s"
    by (rule written_append)
  have "\<forall>p \<in> set qs. pc_value (ps_channels st1 ! p) \<noteq> None"
    using Cons.prems(3) same by simp
  note ih = Cons.IH [OF st1(2,3) this w(1,3), of "n + 1", unfolded r]
  have "length ?r \<le> remaining (written ?e s)" using Cons.prems(6) w(2) by simp
  from ih [OF this] obtain st2 where
    "pva_fill_updates lib st1 (written ?e s, n + 1) = Some (st2, written (?e @ ?r) s, n + 1 + of_nat (length qs))"
    "pva_queue_inv st2" "ps_deque st2 = []" "ps_channels st2 = send_channels qs (ps_channels st1)"
    "ps_seq_no st2 = ps_seq_no st" "ps_buffer st2 = ps_buffer st" "ps_sent st2 = ps_sent st"
    unfolding ww st1(5-7) by blast
  then show ?case
    using Cons.prems(2) st1(1,4)
    by (subst pva_fill_updates.simps) (simp add: send_channels_def add.assoc)
qed

subsection \<open>The packet\<close>

definition queued_entries :: "(pva_value \<Rightarrow> bitmask \<Rightarrow> bytes) \<Rightarrow> pva_sender \<Rightarrow> bytes" where
  "queued_entries enc st = concat (map (\<lambda>q. pva_entry_bytes enc (ps_channels st ! q)) (ps_deque st))"

definition pva_packet :: "(pva_value \<Rightarrow> bitmask \<Rightarrow> bytes) \<Rightarrow> pva_sender \<Rightarrow> bytes" where
  "pva_packet enc st =
     take Header_size (ps_buffer st) @
     pva_frame PVA_DATA_MESSAGE (ps_seq_no st) (of_nat (length (ps_deque st))) (queued_entries enc st)"

text \<open>Everything queued has a value and fits one packet.\<close>

definition one_packet :: "(pva_value \<Rightarrow> bitmask \<Rightarrow> bytes) \<Rightarrow> pva_sender \<Rightarrow> bool" where
  "one_packet enc st \<longleftrightarrow>
     pva_queue_inv st \<and> ps_deque st \<noteq> [] \<and> length (ps_buffer st) = MAX_MESSAGE_SIZE \<and>
     list_all (\<lambda>q. pc_value (ps_channels st ! q) \<noteq> None) (ps_deque st) \<and> length (queued_entries enc st) \<le> data_room"

lemma pva_send_packet_spec:
  assumes lib: "lib_writes lib enc" and one: "one_packet enc st"
  shows "\<exists>st'. pva_send_packet lib st = Some st' \<and> ps_deque st' = [] \<and> pva_queue_inv st' \<and>
    ps_channels st' = send_channels (ps_deque st) (ps_channels st) \<and>
    ps_sent st' = ps_sent st @ [pva_packet enc st] \<and> ps_seq_no st' = ps_seq_no st + 1 \<and>
    take Header_size (ps_buffer st') = take Header_size (ps_buffer st)"
proof -
  let ?B = "ps_buffer st" and ?X = "queued_entries enc st" and ?n = "of_nat (length (ps_deque st)) :: u16"
  let ?st = "st\<lparr>ps_seq_no := ps_seq_no st + 1\<rparr>"
  have inv: "pva_queue_inv ?st" and len: "length ?B = MAX_MESSAGE_SIZE" and room: "length ?X \<le> 65472"
    and vals: "\<forall>q \<in> set (ps_deque st). pc_value (ps_channels st ! q) \<noteq> None"
    using one by (auto simp: one_packet_def data_room_def size_defs list_all_iff)
  note o = opened_fields [OF len, of PVA_DATA_MESSAGE "ps_seq_no st"] and f = open_frame [OF len]
  from pva_fill_fits [OF lib inv, of "ps_deque st" "opened PVA_DATA_MESSAGE (ps_seq_no st) ?B" 0] o room vals obtain st1 where
    fl: "pva_fill_updates lib ?st (opened PVA_DATA_MESSAGE (ps_seq_no st) ?B, 0) =
      Some (st1, written ?X (opened PVA_DATA_MESSAGE (ps_seq_no st) ?B), ?n)"
    "pva_queue_inv st1" "ps_deque st1 = []" "ps_channels st1 = send_channels (ps_deque st) (ps_channels st)"
    "ps_seq_no st1 = ps_seq_no st + 1" "ps_sent st1 = ps_sent st"
    unfolding queued_entries_def by auto
  have "filled PVA_DATA_MESSAGE (ps_seq_no st) ?B ?X (written ?X (opened PVA_DATA_MESSAGE (ps_seq_no st) ?B))"
    using filled_written [OF filled_opened [OF len], of ?X] o(2) room by simp
  from close_frame [OF len this, of ?n] obtain s1 s2 s3 where
    c: "pad_align Submessage_alignment 0 (written ?X (opened PVA_DATA_MESSAGE (ps_seq_no st) ?B)) = Some s1"
      "set_position 30 s1 = Some s2" "put_u16 ?n s2 = Some s3"
      "take (distance s1) (ser_mem s3) = pva_packet enc st"
      "take Header_size (ser_mem s3) = take Header_size ?B"
    unfolding pva_packet_def by blast
  let ?st' = "pva_send (pva_packet enc st) (st1\<lparr>ps_buffer := ser_mem s3\<rparr>)"
  have e4: "Submessage_size + PVADataMessage_size = Submessage_size + 4" by (simp add: PVADataMessage_size_def)
  have "pva_send_packet lib st = Some ?st'"
    unfolding pva_send_packet_def e4 Let_def f(1) prod.case make_subheader_0 bind.simps f(2,3) o(4)
    by (simp add: fl(1) c(1-4))
  then show ?thesis
    using fl(2-6) c(5) by (simp add: pva_send_def pva_queue_inv_def)
qed

lemma pva_send_updates_one:
  assumes "lib_writes lib enc" "one_packet enc st"
  shows "\<exists>st'. pva_send_updates lib st = Some st' \<and> ps_deque st' = [] \<and> pva_queue_inv st' \<and>
    ps_channels st' = send_channels (ps_deque st) (ps_channels st) \<and>
    ps_sent st' = ps_sent st @ [pva_packet enc st] \<and> ps_seq_no st' = ps_seq_no st + 1"
proof -
  from pva_send_packet_spec [OF assms] obtain st' where s: "pva_send_packet lib st = Some st'" "ps_deque st' = []"
    "pva_queue_inv st'" "ps_channels st' = send_channels (ps_deque st) (ps_channels st)"
    "ps_sent st' = ps_sent st @ [pva_packet enc st]" "ps_seq_no st' = ps_seq_no st + 1" by blast
  have "pva_send_updates lib st' = Some st'"
    using s(2) by (subst pva_send_updates.simps) (simp add: pva_has_updates_def)
  moreover have "pva_has_updates st" using assms(2) by (simp add: one_packet_def pva_has_updates_def)
  ultimately have "pva_send_updates lib st = Some st'"
    using s(1) by (subst pva_send_updates.simps) simp
  with s show ?thesis by blast
qed

end
