(* ===== verification/Pva_Receiver.thy ===== *)
theory Pva_Receiver
  imports Pva_Protocol CA_Receiver
begin

text \<open>
  The pvAccess receiver (\<open>src/pva_receiver.cpp\<close>): acceptance of packets, full and partial updates of
  the last value of each channel, the cache of received types, and the detection of channels without
  updates. \<open>pr_calls\<close> is the trace of the callback's invocations. Times are nanoseconds of the steady
  clock, as in the Channel Access receiver, whose clock conversions are shared.
\<close>

record prx_channel =
  px_id :: nat
  px_name :: string
  px_last_update_seqno :: u16
  px_last_value :: "pva_value option"
  px_disconnected :: bool
  px_last_update :: int

record prx_call =
  pcb_id :: u32
  pcb_value :: "pva_value option"

record pva_receiver =
  pr_config_hash :: u64
  pr_heartbeat_period :: double
  pr_buffer :: bytes
  pr_fragment :: serializer
  pr_last_seq_no :: u16
  pr_active_fragment_seq_no :: u16
  pr_last_fragment_seq_no :: u16
  pr_last_startup_time :: u64
  pr_channels :: "prx_channel list"
  pr_cache :: type_cache
  pr_now :: int
  pr_last_heartbeat :: int
  pr_calls :: "prx_call list"

subsection \<open>Construction\<close>

definition MAX_PVA_DATA_SIZE :: nat where "MAX_PVA_DATA_SIZE = 16 * 1024 * 1024"

definition new_prx_channel :: "nat \<Rightarrow> string \<Rightarrow> prx_channel" where
  "new_prx_channel i n =
     \<lparr>px_id = i, px_name = n, px_last_update_seqno = 0, px_last_value = None, px_disconnected = False,
      px_last_update = 0\<rparr>"

text \<open>One channel per configured record; extra and polled fields get none.\<close>

definition prx_create_channels :: "config \<Rightarrow> prx_channel list option" where
  "prx_create_channels cfg =
     (if total_channel_count cfg \<le> 2 ^ 32 - 1
      then Some (map (\<lambda>(i, cc). new_prx_channel i (cc_name cc)) (enumerate 0 (cfg_channels cfg))) else None)"

definition pva_receiver_init :: "pva_lib \<Rightarrow> config \<Rightarrow> int \<Rightarrow> pva_receiver option" where
  "pva_receiver_init lib cfg now =
     map_option (\<lambda>chs.
       \<lparr>pr_config_hash = cfg_hash cfg, pr_heartbeat_period = cfg_heartbeat_period cfg,
        pr_buffer = replicate MAX_MESSAGE_SIZE 0,
        pr_fragment = ser_make (replicate MAX_PVA_DATA_SIZE 0) 0,
        pr_last_seq_no = - 1, pr_active_fragment_seq_no = - 1, pr_last_fragment_seq_no = - 1,
        pr_last_startup_time = 0, pr_channels = chs, pr_cache = fst (build_type_cache lib []),
        pr_now = 0, pr_last_heartbeat = now, pr_calls = []\<rparr>) (prx_create_channels cfg)"

subsection \<open>Acceptance\<close>

definition pva_validate_order :: "u16 \<Rightarrow> pva_receiver \<Rightarrow> bool \<times> pva_receiver" where
  "pva_validate_order seq_no rc =
     (let diff = seq_no - pr_last_seq_no rc in
      (diff < of_nat (65535 div 2), rc\<lparr>pr_last_seq_no := seq_no\<rparr>))"

definition pva_validate_fragment_order :: "u16 \<Rightarrow> u16 \<Rightarrow> pva_receiver \<Rightarrow> bool \<times> pva_receiver" where
  "pva_validate_fragment_order seq_no fragment_seq_no rc =
     (if fragment_seq_no = 0 then
        let (ok, rc) = pva_validate_order seq_no rc in
        if \<not> ok then (False, rc)
        else (True, rc\<lparr>pr_active_fragment_seq_no := seq_no, pr_last_fragment_seq_no := 0\<rparr>)
      else if pr_active_fragment_seq_no rc \<noteq> seq_no
      then (False, rc\<lparr>pr_active_fragment_seq_no := - 1\<rparr>)
      else
        let rc = rc\<lparr>pr_last_fragment_seq_no := pr_last_fragment_seq_no rc + 1\<rparr> in
        if pr_last_fragment_seq_no rc = fragment_seq_no then (True, rc)
        else (False, rc\<lparr>pr_active_fragment_seq_no := - 1\<rparr>))"

definition pva_validate_sender :: "u64 \<Rightarrow> pva_receiver \<Rightarrow> bool \<times> pva_receiver" where
  "pva_validate_sender startup_time rc =
     (if startup_time = pr_last_startup_time rc then (True, rc)
      else if startup_time > pr_last_startup_time rc
      then (True, rc\<lparr>pr_last_startup_time := startup_time, pr_last_seq_no := - 1\<rparr>)
      else (False, rc))"

subsection \<open>Channel updates\<close>

definition pva_call_back :: "u32 \<Rightarrow> pva_value option \<Rightarrow> pva_receiver \<Rightarrow> pva_receiver" where
  "pva_call_back i v rc = rc\<lparr>pr_calls := pr_calls rc @ [\<lparr>pcb_id = i, pcb_value = v\<rparr>]\<rparr>"

definition pva_set_rx :: "nat \<Rightarrow> prx_channel \<Rightarrow> pva_receiver \<Rightarrow> pva_receiver" where
  "pva_set_rx i c rc = rc\<lparr>pr_channels := (pr_channels rc)[i := c]\<rparr>"

text \<open>
  The value an update starts from: \<open>None\<close> drops it. A partial update needs a value and the next
  number; any other type is taken for a full update and needs a known type.
\<close>

definition update_base :: "pva_lib \<Rightarrow> type_cache \<Rightarrow> pva_channel_data \<Rightarrow> prx_channel \<Rightarrow> pva_value option" where
  "update_base lib cache cd c =
     (if pcd_update_type cd = UT_Partial then
        if px_last_update_seqno c + 1 = pcd_update_seq_no cd then px_last_value c else None
      else if unat (pcd_type_id cd) < length cache then
        case cache ! unat (pcd_type_id cd) of
          None \<Rightarrow> None
        | Some t \<Rightarrow> (case px_last_value c of None \<Rightarrow> Some (lib_clone_empty lib t) | Some v \<Rightarrow> Some v)
      else None)"

definition accept_update :: "pva_channel_data \<Rightarrow> pva_value option \<Rightarrow> prx_channel \<Rightarrow> pva_receiver \<Rightarrow> pva_receiver" where
  "accept_update cd v c rc =
     pva_call_back (pcd_id cd) v
       (pva_set_rx (unat (pcd_id cd)) (c\<lparr>px_last_value := v, px_last_update_seqno := pcd_update_seq_no cd,
          px_last_update := pr_now rc\<rparr>) rc)"

text \<open>The rest of an entry after its head; a dropped update leaves the cursor at its value.\<close>

definition apply_update ::
  "pva_lib \<Rightarrow> pva_channel_data \<Rightarrow> serializer \<Rightarrow> pva_receiver \<Rightarrow> (serializer \<times> pva_receiver) option" where
  "apply_update lib cd s rc =
     (let i = unat (pcd_id cd) in
      if i < length (pr_channels rc) then
        let c = (pr_channels rc ! i)\<lparr>px_disconnected := (pcd_update_type cd = UT_Disconnected)\<rparr> in
        if px_disconnected c then Some (s, accept_update cd None c rc)
        else case update_base lib (pr_cache rc) cd c of
          None \<Rightarrow> Some (s, pva_set_rx i c rc)
        | Some v \<Rightarrow> do {
            (v, s) \<leftarrow> get_value lib (Some (lib_unmark lib v)) s;
            Some (s, accept_update cd v c rc)
          }
      else Some (s, rc))"

definition pva_entry :: "pva_lib \<Rightarrow> serializer \<Rightarrow> pva_receiver \<Rightarrow> (serializer \<times> pva_receiver) option" where
  "pva_entry lib s rc = do { (cd, s) \<leftarrow> get_pva_channel_data s; apply_update lib cd s rc }"

fun pva_entries :: "pva_lib \<Rightarrow> nat \<Rightarrow> serializer \<Rightarrow> pva_receiver \<Rightarrow> (serializer \<times> pva_receiver) option" where
  "pva_entries lib 0 s rc = Some (s, rc)"
| "pva_entries lib (Suc n) s rc =
     (let (ok, s) = ensure PVAChannelData_size s in
      if ok then Option.bind (pva_entry lib s rc) (\<lambda>(s, rc). pva_entries lib n s rc)
      else pva_entries lib n s rc)"

definition receive_pva_data :: "pva_lib \<Rightarrow> serializer \<Rightarrow> pva_receiver \<Rightarrow> (serializer \<times> pva_receiver) option" where
  "receive_pva_data lib s rc =
     (let (ok, s) = ensure PVADataMessage_size s in
      if ok then do {
        (m, s) \<leftarrow> get_pva_data s;
        let (valid, rc) = pva_validate_order (pd_seq_no m) rc;
        if valid then pva_entries lib (unat (pd_channel_count m)) s rc else Some (s, rc)
      } else Some (s, rc))"

subsection \<open>Type definitions\<close>

text \<open>A known type is never replaced; the vector grows with empty entries.\<close>

definition learn_type :: "u16 \<Rightarrow> pva_value option \<Rightarrow> type_cache \<Rightarrow> type_cache" where
  "learn_type ix v cache =
     (let cache = (if unat ix \<ge> length cache then resize (unat ix + 1) None cache else cache) in
      if cache ! unat ix = None then cache[unat ix := v] else cache)"

definition typedef_entry :: "pva_lib \<Rightarrow> u16 \<Rightarrow> nat \<Rightarrow> serializer \<times> pva_receiver \<Rightarrow> (serializer \<times> pva_receiver) option" where
  "typedef_entry lib start i acc =
     do { (ok, v, s) \<leftarrow> typedef_deserialize lib (fst acc);
          Some (s, (snd acc)\<lparr>pr_cache := learn_type (start + of_nat i) v (pr_cache (snd acc))\<rparr>) }"

definition typedef_message :: "pva_lib \<Rightarrow> serializer \<Rightarrow> pva_receiver \<Rightarrow> (serializer \<times> pva_receiver) option" where
  "typedef_message lib s rc =
     (let (ok, s) = ensure PVATypeDefMessage_size s in
      if ok then do {
        (m, s) \<leftarrow> get_pva_typedef s;
        foldM (typedef_entry lib (td_start_id m)) [0 ..< unat (td_typedef_count m)] (s, rc)
      } else Some (s, rc))"

subsection \<open>A packet\<close>

definition pva_dispatch ::
  "pva_lib \<Rightarrow> subheader \<Rightarrow> serializer \<Rightarrow> pva_receiver \<Rightarrow> (serializer \<times> pva_receiver) option" where
  "pva_dispatch lib sh s rc =
     (if sh_id sh = PVA_DATA_MESSAGE then receive_pva_data lib s rc
      else if sh_id sh = PVA_TYPEDEF_MESSAGE then typedef_message lib s rc
      else Some (s, rc))"

text \<open>The loop is left when \<open>try_position\<close> succeeds, as in the Channel Access receiver.\<close>

definition pva_submessage ::
  "pva_lib \<Rightarrow> serializer \<Rightarrow> pva_receiver \<Rightarrow> (bool \<times> serializer \<times> pva_receiver) option" where
  "pva_submessage lib s rc =
     do {
       (sh, s) \<leftarrow> get_subheader s;
       if and (sh_flags sh) LittleEndian = 0 then Some (False, s, rc)
       else do {
         let payload_pos = ser_pos s;
         (s, rc) \<leftarrow> pva_dispatch lib sh s rc;
         if sh_next sh = 0 then Some (False, s, rc)
         else let (positioned, s) = try_position (payload_pos + unat (sh_next sh)) s in
           if positioned then Some (False, s, rc) else Some (True, s, rc)
       }
     }"

partial_function (option) pva_submessages ::
  "pva_lib \<Rightarrow> serializer \<Rightarrow> pva_receiver \<Rightarrow> (serializer \<times> pva_receiver) option" where
  "pva_submessages lib s rc =
     (if ser_good s \<and> Submessage_size \<le> remaining s
      then Option.bind (pva_submessage lib s rc)
        (\<lambda>(go, s, rc). if go then pva_submessages lib s rc else Some (s, rc))
      else Some (s\<lparr>ser_good := False\<rparr>, rc))"

definition pva_accept_header :: "serializer \<Rightarrow> pva_receiver \<Rightarrow> (bool \<times> serializer \<times> pva_receiver) option" where
  "pva_accept_header s rc =
     (let (ok, s) = ensure Header_size s in
      if ok then do {
        (h, s) \<leftarrow> get_header s;
        if \<not> header_validate h then Some (False, s, rc)
        else if hd_config_hash h \<noteq> pr_config_hash rc then Some (False, s, rc)
        else let (valid, rc) = pva_validate_sender (hd_startup_time h) rc in Some (valid, s, rc)
      } else Some (True, s, rc))"

definition pva_receive_packet :: "pva_lib \<Rightarrow> bytes \<Rightarrow> pva_receiver \<Rightarrow> pva_receiver option" where
  "pva_receive_packet lib pkt rc =
     (let pkt = take (length (pr_buffer rc)) pkt;
          rc = rc\<lparr>pr_buffer := patch 0 pkt (pr_buffer rc)\<rparr>
      in do {
        (valid, s, rc) \<leftarrow> pva_accept_header (ser_make (pr_buffer rc) (length pkt)) rc;
        if valid then map_option snd (pva_submessages lib s rc) else Some rc
      })"

definition pva_receive_updates :: "pva_lib \<Rightarrow> bytes option \<Rightarrow> pva_receiver \<Rightarrow> (bool \<times> pva_receiver) option" where
  "pva_receive_updates lib recv rc =
     (case recv of
        None \<Rightarrow> Some (False, rc)
      | Some pkt \<Rightarrow> if pkt = [] then Some (False, rc)
                    else map_option (Pair True) (pva_receive_packet lib pkt rc))"

subsection \<open>The run loop\<close>

text \<open>A silent channel is reported with an empty value; its last value stays.\<close>

definition pva_invalidate_channel :: "nat \<Rightarrow> pva_receiver \<Rightarrow> pva_receiver" where
  "pva_invalidate_channel i rc =
     (let c = pr_channels rc ! i in
      if \<not> px_disconnected c \<and>
         in_secs (pr_now rc - px_last_update c) \<ge> 2 * dval (pr_heartbeat_period rc)
      then pva_call_back (of_nat (px_id c)) None (pva_set_rx i (c\<lparr>px_disconnected := True\<rparr>) rc)
      else rc)"

definition pva_check_no_updates :: "pva_receiver \<Rightarrow> pva_receiver" where
  "pva_check_no_updates rc =
     (if in_secs (pr_now rc - pr_last_heartbeat rc) \<ge> dval (pr_heartbeat_period rc)
      then (fold pva_invalidate_channel [0 ..< length (pr_channels rc)] rc)\<lparr>pr_last_heartbeat := pr_now rc\<rparr>
      else rc)"

fun pva_receive_batch ::
  "pva_lib \<Rightarrow> nat \<Rightarrow> bytes option list \<Rightarrow> pva_receiver \<Rightarrow> (bytes option list \<times> pva_receiver) option" where
  "pva_receive_batch lib 0 rs rc = Some (rs, rc)"
| "pva_receive_batch lib (Suc n) [] rc = Some ([], rc)"
| "pva_receive_batch lib (Suc n) (r # rs) rc =
     do { (more, rc) \<leftarrow> pva_receive_updates lib r rc;
          if more then pva_receive_batch lib n rs rc else Some (rs, rc) }"

fun pva_receiver_loop ::
  "pva_lib \<Rightarrow> double \<Rightarrow> int \<Rightarrow> int list \<Rightarrow> bytes option list \<Rightarrow> pva_receiver \<Rightarrow> (bool \<times> pva_receiver) option" where
  "pva_receiver_loop lib runtime start [] rs rc = Some (False, rc)"
| "pva_receiver_loop lib runtime start (now # nows) rs rc =
     do {
       (rs, rc) \<leftarrow> pva_receive_batch lib MAX_PACKETS_AT_ONCE rs rc;
       let rc = pva_check_no_updates (rc\<lparr>pr_now := now\<rparr>);
       if dval runtime > 0 \<and> in_secs (now - start) \<ge> dval runtime then Some (True, rc)
       else pva_receiver_loop lib runtime start nows rs rc
     }"

end
