(* ===== verification/Pva_Contract.thy ===== *)
theory Pva_Contract
  imports Pva_Values
begin

text \<open>
  What the proofs about the pvAccess link use of the PVXS library's encoding of marked values
  (\<open>to_wire_valid\<close>, \<open>from_wire_valid\<close>, \<open>unmark\<close>, \<open>equalType\<close>): the sender writes the fields that
  are both marked in the mask and valid in the value, a structure with everything below it; the
  receiver reads them into a value of the same type and leaves the other fields as they are. The handle
  of an array stands for the array's elements, which the library never changes once they are shared.
\<close>

subsection \<open>Contents\<close>

definition content :: "pva_value \<Rightarrow> nat \<Rightarrow> field_content" where
  "content v k = fl_content (pv_fields v ! k)"

text \<open>The field exists and stores something: a structure does not, its members do.\<close>

definition stores :: "pva_value \<Rightarrow> nat \<Rightarrow> bool" where
  "stores v k \<longleftrightarrow> k < length (pv_fields v) \<and> fl_code (pv_fields v ! k) \<noteq> ST_Null"

text \<open>A field the value's source has given: it stores something and its mark is set.\<close>

definition given :: "pva_value \<Rightarrow> nat \<Rightarrow> bool" where
  "given v k \<longleftrightarrow> stores v k \<and> fl_valid (pv_fields v ! k)"

text \<open>\<open>r\<close> is a value of the type of \<open>v\<close> and shows every field given in \<open>v\<close>.\<close>

definition agrees :: "pva_value \<Rightarrow> pva_value \<Rightarrow> bool" where
  "agrees r v \<longleftrightarrow> same_type r v \<and> (\<forall>k. given v k \<longrightarrow> content r k = content v k)"

text \<open>A marked field covers itself and, for a structure, the fields below it.\<close>

definition covers :: "field_desc list \<Rightarrow> (nat \<Rightarrow> bool) \<Rightarrow> nat \<Rightarrow> bool" where
  "covers ds P k \<longleftrightarrow> (\<exists>b \<le> k. P b \<and> k < b + fd_size (ds ! b))"

definition sent_field :: "pva_value \<Rightarrow> bitmask \<Rightarrow> nat \<Rightarrow> bool" where
  "sent_field v m k \<longleftrightarrow> covers (pv_desc v) (\<lambda>b. mask_bit m b \<and> fl_valid (pv_fields v ! b)) k"

text \<open>\<open>r\<close> is \<open>old\<close> with the sent fields of \<open>v\<close>.\<close>

definition updated :: "pva_value \<Rightarrow> pva_value \<Rightarrow> bitmask \<Rightarrow> pva_value \<Rightarrow> bool" where
  "updated old v m r \<longleftrightarrow>
     same_type r v \<and>
     (\<forall>k. stores v k \<longrightarrow> content r k = (if sent_field v m k then content v k else content old k))"

text \<open>The mask has the marks of the value, as \<open>valid_to_mask\<close> gives it for a full update.\<close>

definition marks_given :: "pva_value \<Rightarrow> bitmask \<Rightarrow> bool" where
  "marks_given v m \<longleftrightarrow> (\<forall>b < length (pv_fields v). fl_valid (pv_fields v ! b) \<longrightarrow> mask_bit m b)"

lemma agrees_iff:
  "agrees r v \<longleftrightarrow> same_type r v \<and>
     (\<forall>k < length (pv_fields v). fl_valid (pv_fields v ! k) \<and> fl_code (pv_fields v ! k) \<noteq> ST_Null \<longrightarrow>
        fl_content (pv_fields r ! k) = fl_content (pv_fields v ! k))"
  by (auto simp: agrees_def given_def stores_def content_def)

lemma given_stores: "given v k \<Longrightarrow> stores v k"
  by (simp add: given_def)

lemma given_sent: "given v k \<Longrightarrow> mask_bit m k \<Longrightarrow> sent_field v m k"
  by (auto simp: given_def sent_field_def covers_def)

lemma marks_given_sent: "marks_given v m \<Longrightarrow> given v k \<Longrightarrow> sent_field v m k"
  by (auto simp: marks_given_def given_def stores_def intro: given_sent [unfolded given_def stores_def])

lemma same_type_sym: "same_type v w \<Longrightarrow> same_type w v"
  by (simp add: same_type_def)

lemma same_type_trans: "same_type u v \<Longrightarrow> same_type v w \<Longrightarrow> same_type u w"
  by (simp add: same_type_def)

lemma same_type_length: "same_type v w \<Longrightarrow> length (pv_fields v) = length (pv_fields w)"
  by (metis same_type_def length_map)

text \<open>An update whose base differs in sent fields only makes the values agree.\<close>

lemma updated_agrees:
  assumes "updated old v m r" "\<And>k. given v k \<Longrightarrow> mask_bit m k \<or> content old k = content v k"
  shows "agrees r v"
  using assms given_sent given_stores by (fastforce simp: updated_def agrees_def)

lemma updated_full: "updated old v m r \<Longrightarrow> marks_given v m \<Longrightarrow> agrees r v"
  using marks_given_sent given_stores by (fastforce simp: updated_def agrees_def)

subsection \<open>The contract\<close>

text \<open>
  For the values of \<open>U\<close>, those the channels have: reading the encoding of \<open>v\<close> under a mask of its size
  over a value of the same type gives \<open>app\<close>. Nothing is said about a value of another type: the
  receiver does not check the type of a full update (a \<open>TODO\<close> in \<open>pva_receiver.cpp\<close>), and the
  library reads by the type of the value it is given.
\<close>

definition lib_reads ::
  "pva_lib \<Rightarrow> (pva_value \<Rightarrow> bitmask \<Rightarrow> bytes) \<Rightarrow> (pva_value \<Rightarrow> pva_value \<Rightarrow> bitmask \<Rightarrow> pva_value) \<Rightarrow>
   (pva_value \<Rightarrow> bool) \<Rightarrow> bool" where
  "lib_reads lib enc app U \<longleftrightarrow>
     (\<forall>old v m. U v \<and> same_type old v \<and> mask_wf (length (pv_fields v)) m \<longrightarrow>
        decodes_to (lib_from_wire_valid lib old) (enc v m) (app old v m))"

definition lib_assigns ::
  "pva_lib \<Rightarrow> (pva_value \<Rightarrow> pva_value \<Rightarrow> bitmask \<Rightarrow> pva_value) \<Rightarrow> (pva_value \<Rightarrow> bool) \<Rightarrow> bool" where
  "lib_assigns lib app U \<longleftrightarrow>
     (\<forall>v w. same_type v w \<longrightarrow> lib_equal_type lib v (Some w)) \<and>
     (\<forall>v. same_type (lib_unmark lib v) v \<and> (\<forall>k. stores v k \<longrightarrow> content (lib_unmark lib v) k = content v k)) \<and>
     (\<forall>old v m. U v \<and> same_type old v \<and> mask_wf (length (pv_fields v)) m \<longrightarrow> updated old v m (app old v m))"

lemma same_type_stores: "same_type v w \<Longrightarrow> stores v k \<longleftrightarrow> stores w k"
  using same_type_length [of v w] same_type_code [of v w k] by (auto simp: stores_def)

lemma updated_unmarked:
  assumes "lib_assigns lib app U" "U v" "same_type old v" "mask_wf (length (pv_fields v)) m"
  shows "updated old v m (app (lib_unmark lib old) v m)"
proof -
  have u: "same_type (lib_unmark lib old) old" "\<And>k. stores old k \<Longrightarrow> content (lib_unmark lib old) k = content old k"
    using assms(1) by (simp_all add: lib_assigns_def)
  from same_type_trans [OF u(1) assms(3)] assms have "updated (lib_unmark lib old) v m (app (lib_unmark lib old) v m)"
    by (simp add: lib_assigns_def)
  with u(2) same_type_stores [OF assms(3)] show ?thesis by (simp add: updated_def)
qed

end
