(* ===== verification/Pva_Link.thy ===== *)
theory Pva_Link
  imports Pva_Packets Pva_Receiver CA_Reception Pva_Contract
begin

text \<open>
  The two ends of the pvAccess link: what the receiver's callback sees when the packet of the sender
  arrives in order, and how the receiver's acceptance relates to that of the Channel Access diode.
  The library's encoder and decoder are used by their contract (\<open>Pva_Contract\<close>).
\<close>

subsection \<open>Entries\<close>

text \<open>An entry as the sender means it: the channel's message, value and mask.\<close>

type_synonym pva_update_entry = "pva_channel_data \<times> pva_value \<times> bitmask"

definition entry_enc :: "(pva_value \<Rightarrow> bitmask \<Rightarrow> bytes) \<Rightarrow> pva_update_entry \<Rightarrow> bytes" where
  "entry_enc enc e = enc_pva_channel_data (fst e) @ enc (fst (snd e)) (snd (snd e))"

definition sent_type :: "pva_channel_data \<Rightarrow> pva_channel_data" where
  "sent_type m = m\<lparr>pcd_type_id := if pcd_update_type m = UT_Full then pcd_type_id m else 0\<rparr>"

definition entry_base :: "pva_lib \<Rightarrow> pva_receiver \<Rightarrow> pva_update_entry \<Rightarrow> pva_value option" where
  "entry_base lib rc e = update_base lib (pr_cache rc) (sent_type (fst e)) (pr_channels rc ! unat (pcd_id (fst e)))"

text \<open>The receiver takes the update: the channel exists and there is a value to start from.\<close>

definition deliverable :: "pva_lib \<Rightarrow> pva_receiver \<Rightarrow> pva_update_entry \<Rightarrow> bool" where
  "deliverable lib rc e \<longleftrightarrow>
     unat (pcd_id (fst e)) < length (pr_channels rc) \<and> pcd_update_type (fst e) \<noteq> UT_Disconnected \<and>
     entry_base lib rc e \<noteq> None"

text \<open>It can also read it: the value is one of those the contract is about, and the base has its type.\<close>

definition readable_entry :: "(pva_value \<Rightarrow> bool) \<Rightarrow> pva_lib \<Rightarrow> pva_receiver \<Rightarrow> pva_update_entry \<Rightarrow> bool" where
  "readable_entry U lib rc e \<longleftrightarrow>
     deliverable lib rc e \<and> U (fst (snd e)) \<and> mask_wf (length (pv_fields (fst (snd e)))) (snd (snd e)) \<and>
     same_type (the (entry_base lib rc e)) (fst (snd e))"

definition new_value ::
  "pva_lib \<Rightarrow> (pva_value \<Rightarrow> pva_value \<Rightarrow> bitmask \<Rightarrow> pva_value) \<Rightarrow> pva_receiver \<Rightarrow> pva_update_entry \<Rightarrow> pva_value" where
  "new_value lib app rc e = app (lib_unmark lib (the (entry_base lib rc e))) (fst (snd e)) (snd (snd e))"

definition apply_entry ::
  "pva_lib \<Rightarrow> (pva_value \<Rightarrow> pva_value \<Rightarrow> bitmask \<Rightarrow> pva_value) \<Rightarrow> pva_update_entry \<Rightarrow> pva_receiver \<Rightarrow> pva_receiver" where
  "apply_entry lib app e rc =
     accept_update (sent_type (fst e)) (Some (new_value lib app rc e))
       ((pr_channels rc ! unat (pcd_id (fst e)))\<lparr>px_disconnected := False\<rparr>) rc"

lemma update_base_disconnected [simp]:
  "update_base lib cache cd (c\<lparr>px_disconnected := b\<rparr>) = update_base lib cache cd c"
  by (cases "cache ! unat (pcd_type_id cd)") (simp_all add: update_base_def)

lemma sent_type_fields [simp]:
  "pcd_id (sent_type m) = pcd_id m" "pcd_update_type (sent_type m) = pcd_update_type m"
  "pcd_update_seq_no (sent_type m) = pcd_update_seq_no m"
  by (simp_all add: sent_type_def)

lemma get_value_enc:
  assumes "decodes_to (lib_from_wire_valid lib old) bs w" "ser_wf s" "length bs \<le> remaining s"
    and "at_cursor bs s"
  shows "get_value lib (Some old) s = Some (Some w, advance (length bs) s)"
proof -
  have "at_cursor bs (fixed_buf s)" using assms(4) by (simp add: at_cursor_def)
  then have "lib_from_wire_valid lib old (fixed_buf s) = Some (w, advance (length bs) (fixed_buf s))"
    using assms(1-3) by (simp add: decodes_to_def)
  moreover have "give_back s (advance (length bs) (fixed_buf s)) = Some (advance (length bs) s)"
    using assms(2,3) by (cases s) (auto simp: give_back_def set_position_def advance_def fixed_buf_def remaining_wf ser_wf_def)
  ultimately show ?thesis by (simp add: get_value_def)
qed

lemma pva_entry_apply:
  assumes "lib_reads lib enc app U" "ser_wf s" "ser_good s" "length (entry_enc enc e) \<le> remaining s"
    and "at_cursor (entry_enc enc e) s" "readable_entry U lib rc e" "lib_assigns lib app U"
  shows "pva_entry lib s rc = Some (advance (length (entry_enc enc e)) s, apply_entry lib app e rc)"
proof -
  let ?h = "enc_pva_channel_data (fst e)" and ?b = "enc (fst (snd e)) (snd (snd e))"
  have at: "at_cursor ?h s" "at_cursor ?b (advance (length ?h) s)"
    using assms(5) by (simp_all only: entry_enc_def at_cursor_append)
  have len: "length (entry_enc enc e) = length ?h + length ?b" by (simp add: entry_enc_def)
  have g: "get_pva_channel_data s = Some (sent_type (fst e), advance (length ?h) s)"
    using get_pva_channel_data_enc [OF assms(3) _ at(1) _ assms(2)] assms(4) len
    by (simp add: sent_type_def split: if_splits)
  have del: "deliverable lib rc e" using assms(6) by (simp add: readable_entry_def)
  then obtain w where w: "entry_base lib rc e = Some w" by (auto simp: deliverable_def)
  have d: "decodes_to (lib_from_wire_valid lib (lib_unmark lib w)) ?b (app (lib_unmark lib w) (fst (snd e)) (snd (snd e)))"
  proof -
    have "same_type (lib_unmark lib w) (fst (snd e))"
      using assms(6,7) w same_type_trans [of "lib_unmark lib w" w] by (simp add: lib_assigns_def readable_entry_def)
    with assms(1,6) show ?thesis by (simp add: lib_reads_def readable_entry_def)
  qed
  have adv: "ser_wf (advance (length ?h) s)" "remaining (advance (length ?h) s) = remaining s - length ?h"
    using advance_wf [OF assms(2), of "length ?h"] assms(4) len by linarith+
  have "length ?b \<le> remaining (advance (length ?h) s)" using adv(2) assms(4) len by linarith
  from get_value_enc [OF d adv(1) this at(2)]
  have v: "get_value lib (Some (lib_unmark lib w)) (advance (length ?h) s) =
      Some (Some (app (lib_unmark lib w) (fst (snd e)) (snd (snd e))), advance (length (entry_enc enc e)) s)"
    by (simp only: len advance_advance)
  show ?thesis
    using del w unfolding pva_entry_def g bind.simps prod.case apply_update_def Let_def
    by (simp add: deliverable_def entry_base_def v apply_entry_def new_value_def del: length_enc_pva)
qed

lemma apply_entry_frame:
  "length (pr_channels (apply_entry lib app e rc)) = length (pr_channels rc)"
  "pr_cache (apply_entry lib app e rc) = pr_cache rc"
  "i \<noteq> unat (pcd_id (fst e)) \<Longrightarrow> pr_channels (apply_entry lib app e rc) ! i = pr_channels rc ! i"
  "pr_calls (apply_entry lib app e rc) =
     pr_calls rc @ [\<lparr>pcb_id = pcd_id (fst e), pcb_value = Some (new_value lib app rc e)\<rparr>]"
  by (simp_all add: apply_entry_def accept_update_def pva_call_back_def pva_set_rx_def)

text \<open>Applying an update to one channel does not change what another channel's update starts from.\<close>

lemma entry_base_other:
  "pcd_id (fst e') \<noteq> pcd_id (fst e) \<Longrightarrow> entry_base lib (apply_entry lib app e rc) e' = entry_base lib rc e'"
proof -
  assume "pcd_id (fst e') \<noteq> pcd_id (fst e)"
  then have "unat (pcd_id (fst e')) \<noteq> unat (pcd_id (fst e))" by (metis word_unat_eq_iff)
  then show ?thesis by (simp add: entry_base_def apply_entry_frame)
qed

lemma pva_entries_apply:
  assumes "lib_reads lib enc app U" "lib_assigns lib app U"
  shows "ser_wf s \<Longrightarrow> ser_good s \<Longrightarrow> length (concat (map (entry_enc enc) es)) \<le> remaining s \<Longrightarrow>
    at_cursor (concat (map (entry_enc enc) es)) s \<Longrightarrow> distinct (map (\<lambda>e. pcd_id (fst e)) es) \<Longrightarrow>
    \<forall>e \<in> set es. readable_entry U lib rc e \<Longrightarrow>
    pva_entries lib (length es) s rc =
      Some (advance (length (concat (map (entry_enc enc) es))) s, fold (apply_entry lib app) es rc) \<and>
    pr_calls (fold (apply_entry lib app) es rc) =
      pr_calls rc @ map (\<lambda>e. \<lparr>pcb_id = pcd_id (fst e), pcb_value = Some (new_value lib app rc e)\<rparr>) es"
proof (induction es arbitrary: s rc)
  case Nil
  then show ?case by simp
next
  case (Cons e es)
  let ?b = "entry_enc enc e" and ?r = "concat (map (entry_enc enc) es)"
  let ?rc = "apply_entry lib app e rc"
  have at: "at_cursor ?b s" "at_cursor ?r (advance (length ?b) s)"
    using Cons.prems(4) by (simp_all add: at_cursor_append)
  have lb: "length ?b \<le> remaining s" using Cons.prems(3) by simp
  have five: "5 \<le> remaining s" using lb by (simp add: entry_enc_def split: if_splits)
  have "readable_entry U lib rc e" using Cons.prems(6) by simp
  from pva_entry_apply [OF assms(1) Cons.prems(1,2) lb at(1) this assms(2)]
  have step: "pva_entries lib (length (e # es)) s rc = pva_entries lib (length es) (advance (length ?b) s) ?rc"
    using Cons.prems(2) five by (simp add: ensure_True PVAChannelData_size_def)
  have adv: "ser_wf (advance (length ?b) s)" "length ?r \<le> remaining (advance (length ?b) s)" "ser_good (advance (length ?b) s)"
    using advance_wf [OF Cons.prems(1) lb] Cons.prems(2,3) by (simp_all add: ser_fields)
  have other: "entry_base lib ?rc e' = entry_base lib rc e'" if "e' \<in> set es" for e'
  proof (rule entry_base_other)
    have "pcd_id (fst e) \<notin> set (map (\<lambda>e. pcd_id (fst e)) es)" using Cons.prems(5) by simp
    moreover have "pcd_id (fst e') \<in> set (map (\<lambda>e. pcd_id (fst e)) es)"
      unfolding set_map using that by (rule imageI)
    ultimately show "pcd_id (fst e') \<noteq> pcd_id (fst e)" by metis
  qed
  then have "\<forall>e \<in> set es. readable_entry U lib ?rc e"
    using Cons.prems(6) by (auto simp: readable_entry_def deliverable_def apply_entry_frame)
  from Cons.IH [OF adv(1,3,2) at(2) _ this] Cons.prems(5)
  have ih: "pva_entries lib (length es) (advance (length ?b) s) ?rc =
      Some (advance (length ?r) (advance (length ?b) s), fold (apply_entry lib app) es ?rc)"
    "pr_calls (fold (apply_entry lib app) es ?rc) =
      pr_calls ?rc @ map (\<lambda>e. \<lparr>pcb_id = pcd_id (fst e), pcb_value = Some (new_value lib app ?rc e)\<rparr>) es"
    by auto
  have "map (\<lambda>e. \<lparr>pcb_id = pcd_id (fst e), pcb_value = Some (new_value lib app ?rc e)\<rparr>) es =
      map (\<lambda>e. \<lparr>pcb_id = pcd_id (fst e), pcb_value = Some (new_value lib app rc e)\<rparr>) es"
    using other by (auto simp: new_value_def)
  with ih step show ?case
    by (simp add: apply_entry_frame add.commute)
qed

subsection \<open>A packet with one submessage\<close>

definition pva_link_ready :: "header \<Rightarrow> bytes \<Rightarrow> pva_receiver \<Rightarrow> bool" where
  "pva_link_ready h reserved rc \<longleftrightarrow>
     good_header h \<and> length reserved = 3 \<and> hd_config_hash h = pr_config_hash rc \<and>
     pr_last_startup_time rc \<le> hd_startup_time h \<and> length (pr_buffer rc) = MAX_MESSAGE_SIZE"

definition pva_admit :: "header \<Rightarrow> pva_receiver \<Rightarrow> pva_receiver" where
  "pva_admit h rc = snd (pva_validate_sender (hd_startup_time h) rc)"

definition pva_packet_cursor :: "bytes \<Rightarrow> pva_receiver \<Rightarrow> serializer" where
  "pva_packet_cursor pkt rc = advance 28 (ser_make (patch 0 pkt (pr_buffer rc)) (length pkt))"

definition pva_in_order :: "u16 \<Rightarrow> pva_receiver \<Rightarrow> bool" where
  "pva_in_order q rc \<longleftrightarrow> q - pr_last_seq_no rc < 32767"

lemma pva_admit_fields [simp]:
  "pr_channels (pva_admit h rc) = pr_channels rc" "pr_calls (pva_admit h rc) = pr_calls rc"
  "pr_cache (pva_admit h rc) = pr_cache rc" "pr_now (pva_admit h rc) = pr_now rc"
  by (simp_all add: pva_admit_def pva_validate_sender_def)

lemma pva_submessages_last:
  assumes "ser_good s" "Submessage_size \<le> remaining s"
    and "at_cursor (enc_subheader \<lparr>sh_id = i, sh_flags = LittleEndian, sh_next = 0\<rparr>) s"
  shows "pva_submessages lib s rc =
    pva_dispatch lib \<lparr>sh_id = i, sh_flags = LittleEndian, sh_next = 0\<rparr> (advance 4 s) rc"
proof -
  let ?d = "pva_dispatch lib \<lparr>sh_id = i, sh_flags = LittleEndian, sh_next = 0\<rparr> (advance 4 s) rc"
  have "get_subheader s = Some (\<lparr>sh_id = i, sh_flags = LittleEndian, sh_next = 0\<rparr>, advance 4 s)"
    using subheader.get_ok [OF assms(1-3)] by (simp add: Submessage_size_def)
  then have "pva_submessage lib s rc = map_option (\<lambda>x. (False, x)) ?d"
    by (cases ?d) (auto simp: pva_submessage_def LittleEndian_def)
  with assms(1,2) show ?thesis
    by (subst pva_submessages.simps) (cases ?d, auto)
qed

lemma pva_receive_packet_single:
  fixes body :: bytes
  assumes pkt: "pkt = enc_header reserved h @
      enc_subheader \<lparr>sh_id = i, sh_flags = LittleEndian, sh_next = 0\<rparr> @ body"
    and ready: "pva_link_ready h reserved rc" and len: "length pkt \<le> MAX_MESSAGE_SIZE"
  shows "pva_receive_packet lib pkt rc = map_option snd (pva_dispatch lib
      \<lparr>sh_id = i, sh_flags = LittleEndian, sh_next = 0\<rparr> (pva_packet_cursor pkt rc)
      (pva_admit h (rc\<lparr>pr_buffer := patch 0 pkt (pr_buffer rc)\<rparr>)))"
    and "at_cursor body (pva_packet_cursor pkt rc)" "ser_wf (pva_packet_cursor pkt rc)"
    "ser_good (pva_packet_cursor pkt rc)" "remaining (pva_packet_cursor pkt rc) = length body"
proof -
  let ?B = "pr_buffer rc"
  let ?m = "patch 0 pkt ?B"
  let ?s = "ser_make ?m (length pkt)"
  let ?rc = "rc\<lparr>pr_buffer := ?m\<rparr>"
  have lB: "length ?B = 65504" and lr: "length reserved = 3" and gh: "good_header h"
    using ready by (simp_all add: pva_link_ready_def MAX_MESSAGE_SIZE_def)
  have lh: "length (enc_header reserved h) = 24"
    using lr gh by (rule length_enc_header)
  then have lp: "length pkt = 28 + length body" by (simp add: pkt)
  have lm: "length ?m = 65504"
    using len lB by (simp add: length_patch MAX_MESSAGE_SIZE_def)
  have wf: "ser_wf ?s"
    using len lm by (simp add: MAX_MESSAGE_SIZE_def)
  have rem: "remaining ?s = 28 + length body"
    using remaining_wf [OF wf] lp by (simp add: ser_fields)
  have cur: "at_cursor pkt ?s"
    using len lB segment_patch [of 0 pkt ?B] by (simp add: at_cursor_def ser_fields length_patch MAX_MESSAGE_SIZE_def)
  have c: "at_cursor (enc_header reserved h) ?s"
    "at_cursor (enc_subheader \<lparr>sh_id = i, sh_flags = LittleEndian, sh_next = 0\<rparr>) (advance 24 ?s)"
    "at_cursor body (advance 28 ?s)"
    using cur unfolding pkt at_cursor_append lh by simp_all
  have good: "ser_good ?s" by (simp add: ser_fields)
  have gh': "get_header ?s = Some (h, advance 24 ?s)"
    using get_header_cursor [OF c(1) lr _ good] gh rem by (simp add: Header_size_def good_header_def MAGIC_def)
  have valid: "pva_validate_sender (hd_startup_time h) ?rc = (True, pva_admit h ?rc)"
    using ready by (auto simp: pva_validate_sender_def pva_admit_def pva_link_ready_def)
  have acc: "pva_accept_header ?s ?rc = Some (True, advance 24 ?s, pva_admit h ?rc)"
    using ready rem good
    by (simp add: pva_accept_header_def ensure_True Header_size_def gh' valid pva_link_ready_def header_validate_def
        good_header_def)
  note a24 = advance_wf [OF wf, of 24] and a28 = advance_wf [OF wf, of 28]
  have sub: "pva_submessages lib (advance 24 ?s) (pva_admit h ?rc) = pva_dispatch lib
      \<lparr>sh_id = i, sh_flags = LittleEndian, sh_next = 0\<rparr> (advance 28 ?s) (pva_admit h ?rc)"
    using pva_submessages_last [OF _ _ c(2), of lib "pva_admit h ?rc"] a24 rem good
    by (simp add: ser_fields Submessage_size_def)
  have tk: "take (length ?B) pkt = pkt"
    using len lB by (simp add: MAX_MESSAGE_SIZE_def)
  show "pva_receive_packet lib pkt rc = map_option snd (pva_dispatch lib
      \<lparr>sh_id = i, sh_flags = LittleEndian, sh_next = 0\<rparr> (pva_packet_cursor pkt rc) (pva_admit h ?rc))"
    by (simp add: pva_receive_packet_def tk acc sub pva_packet_cursor_def)
  show "at_cursor body (pva_packet_cursor pkt rc)" "ser_wf (pva_packet_cursor pkt rc)"
    "ser_good (pva_packet_cursor pkt rc)" "remaining (pva_packet_cursor pkt rc) = length body"
    using c(3) a28 rem good by (simp_all add: pva_packet_cursor_def ser_fields)
qed

subsection \<open>The sender's packet at the receiver\<close>

definition queue_entries :: "pva_sender \<Rightarrow> pva_update_entry list" where
  "queue_entries st =
     map (\<lambda>q. let c = ps_channels st ! q in (pva_channel_message c, the (pc_value c), pc_changed c)) (ps_deque st)"

lemma queued_entries_enc:
  assumes "one_packet enc st"
  shows "queued_entries enc st = concat (map (entry_enc enc) (queue_entries st))"
proof -
  have "pva_entry_bytes enc (ps_channels st ! q) =
      entry_enc enc (let c = ps_channels st ! q in (pva_channel_message c, the (pc_value c), pc_changed c))"
    if "q \<in> set (ps_deque st)" for q
    using assms that by (auto simp: one_packet_def list_all_iff pva_entry_bytes_def entry_enc_def Let_def)
  then have "map (\<lambda>q. pva_entry_bytes enc (ps_channels st ! q)) (ps_deque st) = map (entry_enc enc) (queue_entries st)"
    unfolding queue_entries_def by simp
  then show ?thesis by (simp only: queued_entries_def)
qed

lemma queue_entry_ids:
  assumes "pva_queue_inv st" "length (ps_channels st) \<le> 2 ^ 32"
  shows "map (\<lambda>e. pcd_id (fst e)) (queue_entries st) = map of_nat (ps_deque st)"
    and "distinct (map (\<lambda>e. pcd_id (fst e)) (queue_entries st))"
proof -
  have q: "q < 2 ^ 32 \<and> pc_index (ps_channels st ! q) = q" if "q \<in> set (ps_deque st)" for q
    using assms that by (auto simp: pva_queue_inv_def pva_chans_inv_def)
  then show ids: "map (\<lambda>e. pcd_id (fst e)) (queue_entries st) = map of_nat (ps_deque st)"
    by (simp add: queue_entries_def pva_channel_message_def Let_def)
  have "inj_on (of_nat :: nat \<Rightarrow> u32) (set (ps_deque st))"
  proof (rule inj_onI)
    fix x y assume xy: "x \<in> set (ps_deque st)" "y \<in> set (ps_deque st)" "(of_nat x :: u32) = of_nat y"
    then have "unat (of_nat x :: u32) = unat (of_nat y :: u32)" by simp
    with q [OF xy(1)] q [OF xy(2)] show "x = y" by simp
  qed
  moreover have "distinct (ps_deque st)" using assms(1) by (simp add: pva_queue_inv_def pva_chans_inv_def)
  ultimately show "distinct (map (\<lambda>e. pcd_id (fst e)) (queue_entries st))"
    unfolding ids by (simp add: distinct_map)
qed

text \<open>The receiver after the sender's packet, before the updates are applied.\<close>

definition packet_taken :: "(pva_value \<Rightarrow> bitmask \<Rightarrow> bytes) \<Rightarrow> header \<Rightarrow> pva_sender \<Rightarrow> pva_receiver \<Rightarrow> pva_receiver" where
  "packet_taken enc h st rc =
     (pva_admit h (rc\<lparr>pr_buffer := patch 0 (pva_packet enc st) (pr_buffer rc)\<rparr>))\<lparr>pr_last_seq_no := ps_seq_no st\<rparr>"

lemma packet_taken_fields [simp]:
  "pr_channels (packet_taken enc h st rc) = pr_channels rc" "pr_calls (packet_taken enc h st rc) = pr_calls rc"
  "pr_cache (packet_taken enc h st rc) = pr_cache rc" "pr_last_seq_no (packet_taken enc h st rc) = ps_seq_no st"
  by (simp_all add: packet_taken_def)

lemma pva_receive_queue_state:
  assumes "lib_reads lib enc app U" "one_packet enc st" "length (ps_channels st) \<le> 2 ^ 32"
    and hdr: "take Header_size (ps_buffer st) = enc_header reserved h"
    and ready: "pva_link_ready h reserved rc" and ord: "pva_in_order (ps_seq_no st) (pva_admit h rc)"
    and del: "\<forall>e \<in> set (queue_entries st). readable_entry U lib rc e" and lib: "lib_assigns lib app U"
  shows "length (pva_packet enc st) \<le> MAX_MESSAGE_SIZE \<and>
    pva_receive_packet lib (pva_packet enc st) rc =
      Some (fold (apply_entry lib app) (queue_entries st) (packet_taken enc h st rc)) \<and>
    pr_calls (fold (apply_entry lib app) (queue_entries st) (packet_taken enc h st rc)) = pr_calls rc @
      map (\<lambda>e. \<lparr>pcb_id = pcd_id (fst e), pcb_value = Some (new_value lib app rc e)\<rparr>) (queue_entries st)"
proof -
  let ?pkt = "pva_packet enc st"
  let ?X = "queued_entries enc st"
  let ?n = "of_nat (length (ps_deque st)) :: u16"
  let ?dm = "\<lparr>pd_seq_no = ps_seq_no st, pd_channel_count = ?n\<rparr>"
  let ?P = "replicate (pad_len 8 (length ?X)) (0 :: u8)"
  let ?body = "enc_pva_data ?dm @ ?X @ ?P"
  let ?es = "queue_entries st"
  have inv: "pva_queue_inv st" and room: "length ?X \<le> 65472"
    using assms(2) by (auto simp: one_packet_def data_room_def size_defs)
  have X: "?X = concat (map (entry_enc enc) ?es)" by (rule queued_entries_enc [OF assms(2)])
  have pkt: "?pkt = enc_header reserved h @
      enc_subheader \<lparr>sh_id = PVA_DATA_MESSAGE, sh_flags = LittleEndian, sh_next = 0\<rparr> @ ?body"
    by (simp add: pva_packet_def hdr pva_frame_def frame_head_def enc_pva_data_def)
  have "length ?X + length ?P \<le> 65472"
    using pad_len_bound [of 8 65472 "length ?X"] room by simp
  moreover have "length (enc_header reserved h) = 24"
    using ready by (simp add: pva_link_ready_def length_enc_header)
  ultimately have len: "length ?pkt \<le> MAX_MESSAGE_SIZE"
    by (simp add: pkt MAX_MESSAGE_SIZE_def)
  note r = pva_receive_packet_single [OF pkt ready len]
  let ?s = "pva_packet_cursor ?pkt rc"
  let ?rc = "pva_admit h (rc\<lparr>pr_buffer := patch 0 ?pkt (pr_buffer rc)\<rparr>)"
  have c: "at_cursor (enc_pva_data ?dm) ?s" "at_cursor ?X (advance 4 ?s)"
    using r(2) by (simp_all add: at_cursor_append)
  have rem: "remaining ?s = 4 + length ?X + length ?P"
    using r(5) by simp
  have g: "get_pva_data ?s = Some (?dm, advance 4 ?s)"
    using pva_data.get_ok [OF r(4) _ c(1)] rem by (simp add: PVADataMessage_size_def)
  have a: "ser_wf (advance 4 ?s)" "remaining (advance 4 ?s) = length ?X + length ?P" "ser_good (advance 4 ?s)"
    using advance_wf [OF r(3), of 4] rem r(4) by (simp_all add: ser_fields)
  have cnt: "unat ?n = length ?es"
  proof -
    have "length (concat (map (entry_enc enc) es)) \<ge> length es" for es
      by (induction es) (auto simp: entry_enc_def)
    then have "length ?es \<le> 65472" using room X by (metis le_trans)
    then show ?thesis by (simp add: queue_entries_def)
  qed
  have buf: "?rc = (pva_admit h rc)\<lparr>pr_buffer := patch 0 ?pkt (pr_buffer rc)\<rparr>"
    by (simp add: pva_admit_def pva_validate_sender_def)
  let ?rq = "?rc\<lparr>pr_last_seq_no := ps_seq_no st\<rparr>"
  have vo: "pva_validate_order (ps_seq_no st) ?rc = (True, ?rq)"
    using ord unfolding buf by (simp add: pva_validate_order_def pva_in_order_def)
  have same: "entry_base lib ?rq e = entry_base lib rc e" for e
    by (simp add: entry_base_def)
  then have "\<forall>e \<in> set ?es. readable_entry U lib ?rq e"
    using del by (simp add: readable_entry_def deliverable_def)
  then have en: "pva_entries lib (length ?es) (advance 4 ?s) ?rq =
      Some (advance (length ?X) (advance 4 ?s), fold (apply_entry lib app) ?es ?rq) \<and>
    pr_calls (fold (apply_entry lib app) ?es ?rq) =
      pr_calls ?rq @ map (\<lambda>e. \<lparr>pcb_id = pcd_id (fst e), pcb_value = Some (new_value lib app ?rq e)\<rparr>) ?es"
    using pva_entries_apply [OF assms(1) lib a(1,3), of ?es ?rq] a(2) c(2) queue_entry_ids(2) [OF inv assms(3)]
    by (simp add: X)
  have "receive_pva_data lib ?s ?rc = Some (advance (length ?X) (advance 4 ?s), fold (apply_entry lib app) ?es ?rq)"
    using r(4) rem cnt en by (simp add: receive_pva_data_def ensure_True PVADataMessage_size_def g vo)
  moreover have "?rq = packet_taken enc h st rc" by (simp add: packet_taken_def)
  ultimately show ?thesis
    using r(1) en same len by (simp add: pva_dispatch_def new_value_def)
qed

text \<open>The calls an accepted queue makes: in queue order, each with the sent fields over the value before.\<close>

definition entry_call :: "pva_lib \<Rightarrow> pva_receiver \<Rightarrow> pva_update_entry \<Rightarrow> prx_call \<Rightarrow> bool" where
  "entry_call lib rc e c \<longleftrightarrow>
     pcb_id c = pcd_id (fst e) \<and>
     (\<exists>r. pcb_value c = Some r \<and> updated (the (entry_base lib rc e)) (fst (snd e)) (snd (snd e)) r)"

lemma new_value_updated:
  assumes "readable_entry U lib rc e" "lib_assigns lib app U"
  shows "updated (the (entry_base lib rc e)) (fst (snd e)) (snd (snd e)) (new_value lib app rc e)"
  unfolding new_value_def using assms by (intro updated_unmarked [of lib app U]) (simp_all add: readable_entry_def)

lemma pva_receive_queue:
  assumes "lib_reads lib enc app U" "one_packet enc st" "length (ps_channels st) \<le> 2 ^ 32"
    and "take Header_size (ps_buffer st) = enc_header reserved h"
    and "pva_link_ready h reserved rc" "pva_in_order (ps_seq_no st) (pva_admit h rc)"
    and "\<forall>e \<in> set (queue_entries st). readable_entry U lib rc e" "lib_assigns lib app U"
  shows "\<exists>rc' calls. pva_receive_packet lib (pva_packet enc st) rc = Some rc' \<and>
    pr_calls rc' = pr_calls rc @ calls \<and> list_all2 (entry_call lib rc) (queue_entries st) calls"
proof -
  let ?calls = "map (\<lambda>e. \<lparr>pcb_id = pcd_id (fst e), pcb_value = Some (new_value lib app rc e)\<rparr>) (queue_entries st)"
  have "list_all2 (entry_call lib rc) (queue_entries st) ?calls"
    using assms(7) new_value_updated [OF _ assms(8)]
    by (simp add: list_all2_map2 list_all2_same entry_call_def list.rel_map)
  with pva_receive_queue_state [OF assms] show ?thesis by blast
qed

text \<open>What applying updates of different channels makes of the channels.\<close>

lemma apply_entry_taken:
  "unat (pcd_id (fst e)) < length (pr_channels rc) \<Longrightarrow>
   px_last_value (pr_channels (apply_entry lib app e rc) ! unat (pcd_id (fst e))) = Some (new_value lib app rc e) \<and>
   px_last_update_seqno (pr_channels (apply_entry lib app e rc) ! unat (pcd_id (fst e))) = pcd_update_seq_no (fst e)"
  by (simp add: apply_entry_def accept_update_def pva_call_back_def pva_set_rx_def)

lemma apply_entries_frame:
  "length (pr_channels (fold (apply_entry lib app) es rc)) = length (pr_channels rc)"
  "pr_cache (fold (apply_entry lib app) es rc) = pr_cache rc"
  "pr_last_seq_no (fold (apply_entry lib app) es rc) = pr_last_seq_no rc"
  "pr_config_hash (fold (apply_entry lib app) es rc) = pr_config_hash rc"
  "pr_last_startup_time (fold (apply_entry lib app) es rc) = pr_last_startup_time rc"
  "pr_buffer (fold (apply_entry lib app) es rc) = pr_buffer rc"
  by (induction es arbitrary: rc)
    (simp_all add: apply_entry_frame, simp_all add: apply_entry_def accept_update_def pva_call_back_def pva_set_rx_def)

lemma apply_entries_other:
  "\<forall>e \<in> set es. unat (pcd_id (fst e)) \<noteq> j \<Longrightarrow>
   pr_channels (fold (apply_entry lib app) es rc) ! j = pr_channels rc ! j"
  by (induction es arbitrary: rc) (simp_all add: apply_entry_frame)

lemma apply_entries_taken:
  assumes "distinct (map (\<lambda>e. pcd_id (fst e)) es)" "e \<in> set es" "\<forall>e \<in> set es. unat (pcd_id (fst e)) < length (pr_channels rc)"
  shows "px_last_value (pr_channels (fold (apply_entry lib app) es rc) ! unat (pcd_id (fst e))) = Some (new_value lib app rc e) \<and>
    px_last_update_seqno (pr_channels (fold (apply_entry lib app) es rc) ! unat (pcd_id (fst e))) = pcd_update_seq_no (fst e)"
  using assms
proof (induction es arbitrary: rc)
  case (Cons a es)
  have other: "pcd_id (fst e') \<noteq> pcd_id (fst a)" if "e' \<in> set es" for e'
  proof
    assume "pcd_id (fst e') = pcd_id (fst a)"
    with that Cons.prems(1) show False by (auto simp: image_iff)
  qed
  show ?case
  proof (cases "e \<in> set es")
    case True
    have "new_value lib app (apply_entry lib app a rc) e = new_value lib app rc e"
      using entry_base_other [OF other [OF True]] by (simp add: new_value_def)
    with Cons.IH [of "apply_entry lib app a rc"] True Cons.prems show ?thesis by (simp add: apply_entry_frame)
  next
    case False
    then have "e = a" using Cons.prems(2) by simp
    moreover have "\<forall>e' \<in> set es. unat (pcd_id (fst e')) \<noteq> unat (pcd_id (fst a))"
      using other by (metis word_unat_eq_iff)
    ultimately show ?thesis
      using apply_entries_other [of es "unat (pcd_id (fst a))" lib app "apply_entry lib app a rc"]
        apply_entry_taken [of a rc lib app] Cons.prems(3) by simp
  qed
qed simp

subsection \<open>Acceptance as in the Channel Access receiver\<close>

text \<open>The checks of both receivers on a stream of numbers.\<close>

datatype order_check = Sender_Check u64 | Data_Check u16 | Fragment_Check u16 u16

fun ca_check :: "order_check \<Rightarrow> ca_receiver \<Rightarrow> bool \<times> ca_receiver" where
  "ca_check (Sender_Check t) rc = validate_sender t rc"
| "ca_check (Data_Check q) rc = validate_order q rc"
| "ca_check (Fragment_Check q f) rc = validate_fragment_order q f rc"

fun pva_check :: "order_check \<Rightarrow> pva_receiver \<Rightarrow> bool \<times> pva_receiver" where
  "pva_check (Sender_Check t) rc = pva_validate_sender t rc"
| "pva_check (Data_Check q) rc = pva_validate_order q rc"
| "pva_check (Fragment_Check q f) rc = pva_validate_fragment_order q f rc"

fun run_checks :: "(order_check \<Rightarrow> 'r \<Rightarrow> bool \<times> 'r) \<Rightarrow> order_check list \<Rightarrow> 'r \<Rightarrow> bool list" where
  "run_checks f [] rc = []"
| "run_checks f (x # xs) rc = fst (f x rc) # run_checks f xs (snd (f x rc))"

definition same_progress :: "ca_receiver \<Rightarrow> pva_receiver \<Rightarrow> bool" where
  "same_progress rc pr \<longleftrightarrow>
     rc_last_seq_no rc = pr_last_seq_no pr \<and> rc_active_fragment_seq_no rc = pr_active_fragment_seq_no pr \<and>
     rc_last_fragment_seq_no rc = pr_last_fragment_seq_no pr \<and> rc_last_startup_time rc = pr_last_startup_time pr"

lemma check_step:
  assumes "same_progress rc pr"
  shows "fst (ca_check x rc) = fst (pva_check x pr)" "same_progress (snd (ca_check x rc)) (snd (pva_check x pr))"
  using assms
  by (cases x; auto simp: same_progress_def validate_order_def pva_validate_order_def validate_sender_def
      pva_validate_sender_def validate_fragment_order_def pva_validate_fragment_order_def Let_def)+

lemma run_checks_same: "same_progress rc pr \<Longrightarrow> run_checks ca_check xs rc = run_checks pva_check xs pr"
  by (induction xs arbitrary: rc pr) (simp_all add: check_step)

end
