(* ===== verification/Pva_Construct.thy ===== *)
theory Pva_Construct
  imports Pva_Link CA_Construct
begin

text \<open>
  Construction of the two ends of the pvAccess link (the constructors of \<open>Sender::Impl\<close> and
  \<open>Receiver::Impl\<close> in \<open>src/pva_sender.cpp\<close> and \<open>src/pva_receiver.cpp\<close>) and what a sender and a receiver
  built for one configuration agree on.
\<close>

definition pva_sender_construct ::
  "pva_lib \<Rightarrow> bool \<Rightarrow> config \<Rightarrow> u64 \<Rightarrow> construct_error + pva_sender \<times> udp_sender" where
  "pva_sender_construct lib created cfg startup =
     (case udp_sender_create created (cfg_rate_limit_mbs cfg) of
        Inl e \<Rightarrow> Inl (TransportFailed e)
      | Inr u \<Rightarrow> (case pva_sender_init lib cfg startup of
                    None \<Rightarrow> Inl TooManyChannels
                  | Some st \<Rightarrow> Inr (st, u)))"

definition pva_receiver_construct ::
  "pva_lib \<Rightarrow> (string \<Rightarrow> int \<Rightarrow> 'a option) \<Rightarrow> bool \<Rightarrow> ('a \<Rightarrow> bool) \<Rightarrow> bool \<Rightarrow> int \<Rightarrow> string \<Rightarrow> config \<Rightarrow> int \<Rightarrow>
   construct_error + pva_receiver \<times> 'a" where
  "pva_receiver_construct lib aToIPAddr created bind_ok timeout_ok port listening_address cfg now =
     (case fst (udp_receiver_init aToIPAddr created bind_ok timeout_ok port listening_address) of
        Inl e \<Rightarrow> Inl (TransportFailed e)
      | Inr a \<Rightarrow>
          (case pva_receiver_init lib cfg now of
             None \<Rightarrow> Inl TooManyChannels
           | Some rc \<Rightarrow> Inr (rc, a)))"

lemma pva_sender_init_spec:
  assumes "pva_sender_init lib cfg t = Some st"
  shows "length (ps_buffer st) = MAX_MESSAGE_SIZE" "ps_seq_no st = 0" "ps_sent st = []" "ps_deque st = []"
    "take Header_size (ps_buffer st) = enc_header [0, 0, 0] (make_header t (cfg_hash cfg))"
    "ps_channels st = map new_pva_channel [0 ..< length (cfg_channels cfg)]"
    "ps_cache st = fst (build_type_cache lib [])" "ps_builtin st = snd (build_type_cache lib [])"
    "length (ps_channels st) \<le> 2 ^ 32"
proof -
  from assms obtain buf chs where b: "initial_buffer t (cfg_hash cfg) = Some buf"
    and c: "pva_create_channels cfg = Some chs"
    and s: "ps_buffer st = buf" "ps_channels st = chs" "ps_seq_no st = 0" "ps_sent st = []" "ps_deque st = []"
      "ps_cache st = fst (build_type_cache lib [])" "ps_builtin st = snd (build_type_cache lib [])"
    by (auto simp: pva_sender_init_def Let_def case_prod_beta bind_eq_Some_conv)
  have n: "total_channel_count cfg \<le> 2 ^ 32 - 1" "chs = map new_pva_channel [0 ..< length (cfg_channels cfg)]"
    using c by (auto simp: pva_create_channels_def split: if_splits)
  have "a + length xs \<le> fold (\<lambda>ch n. n + channel_width ch) xs a" for xs a
  proof (induction xs arbitrary: a)
    case (Cons x xs)
    from Cons.IH [of "a + channel_width x"] show ?case by (simp add: channel_width_def)
  qed simp
  from this [of 0 "cfg_channels cfg"] have "length (cfg_channels cfg) \<le> total_channel_count cfg"
    by (simp add: total_channel_count_def)
  with n have "length chs \<le> 2 ^ 32" by simp
  with s n initial_buffer_spec [of t "cfg_hash cfg"] b
  show "length (ps_buffer st) = MAX_MESSAGE_SIZE" "ps_seq_no st = 0" "ps_sent st = []" "ps_deque st = []"
    "take Header_size (ps_buffer st) = enc_header [0, 0, 0] (make_header t (cfg_hash cfg))"
    "ps_channels st = map new_pva_channel [0 ..< length (cfg_channels cfg)]"
    "ps_cache st = fst (build_type_cache lib [])" "ps_builtin st = snd (build_type_cache lib [])"
    "length (ps_channels st) \<le> 2 ^ 32"
    by auto
qed

text \<open>Both ends start with the built-in types, one channel per configured record, and each other's header.\<close>

lemma pva_constructed_ready:
  assumes "pva_sender_construct lib created cfg t = Inr (st, u)"
    and "pva_receiver_construct lib f rcreated ok tok port s cfg now = Inr (rc, a)"
  shows "pva_queue_inv st" "ps_deque st = []" "ps_sent st = []" "pr_calls rc = []"
    "pva_link_ready (make_header t (cfg_hash cfg)) [0, 0, 0] rc"
    "pva_in_order (ps_seq_no st) (pva_admit (make_header t (cfg_hash cfg)) rc)"
    "length (pr_channels rc) = length (ps_channels st)" "pr_cache rc = ps_cache st"
proof -
  have si: "pva_sender_init lib cfg t = Some st"
    using assms(1) by (auto simp: pva_sender_construct_def split: sum.splits option.splits)
  have ri: "pva_receiver_init lib cfg now = Some rc"
    using assms(2) by (auto simp: pva_receiver_construct_def split: sum.splits option.splits)
  note s' = pva_sender_init_spec [OF si]
  from ri obtain chs where c: "prx_create_channels cfg = Some chs" and
    r: "pr_config_hash rc = cfg_hash cfg" "pr_last_startup_time rc = 0" "pr_last_seq_no rc = - 1"
      "length (pr_buffer rc) = MAX_MESSAGE_SIZE" "pr_channels rc = chs" "pr_calls rc = []"
      "pr_cache rc = fst (build_type_cache lib [])"
    by (auto simp: pva_receiver_init_def)
  show "pva_queue_inv st" "ps_deque st = []"
    using pva_sender_init_inv [OF si] by simp_all
  show "ps_sent st = []" "pr_calls rc = []" "pr_cache rc = ps_cache st"
    using s' r by simp_all
  show "pva_link_ready (make_header t (cfg_hash cfg)) [0, 0, 0] rc"
    using r by (simp add: pva_link_ready_def good_header_def make_header_def)
  show "pva_in_order (ps_seq_no st) (pva_admit (make_header t (cfg_hash cfg)) rc)"
    using r s' by (auto simp: pva_in_order_def pva_admit_def pva_validate_sender_def)
  show "length (pr_channels rc) = length (ps_channels st)"
    using c unfolding r(5) s'(6) prx_create_channels_def by (cases "total_channel_count cfg \<le> 2 ^ 32 - 1") auto
qed

end
