(* ===== verification/Programs.thy ===== *)
theory Programs
  imports Dbgen Diode_Ioc Pva_Construct
begin

text \<open>
  The command line programs around the links: \<open>src/diode_sender.cpp\<close>, \<open>src/diode_receiver.cpp\<close>,
  \<open>src/pvadiode_sender.cpp\<close> and \<open>src/pvadiode_receiver.cpp\<close>, with the callback that publishes received
  values as process variables; and the numbers all programs give to the channels of a configuration.
\<close>

subsection \<open>Arguments\<close>


text \<open>The senders want exactly one address; the senders' run time comes from the option \<open>r\<close>.\<close>

definition sender_arguments ::
  "(string \<Rightarrow> double option) \<Rightarrow> getopt list \<Rightarrow> string list \<Rightarrow> int + options \<times> string" where
  "sender_arguments scan_double events rest =
     (case run_options scan_double (CHR ''r'') False events default_options of
        Inl status \<Rightarrow> Inl status
      | Inr opts \<Rightarrow> (case rest of [a] \<Rightarrow> Inr (opts, a) | _ \<Rightarrow> Inl 1))"

text \<open>The receivers want at most one port; what is not a number is ignored, a number is cut to an \<open>int\<close>.\<close>

definition to_int :: "u64 \<Rightarrow> int" where
  "to_int w = sint (ucast w :: u32)"

definition receiver_arguments ::
  "(string \<Rightarrow> double option) \<Rightarrow> (string \<Rightarrow> u64 option) \<Rightarrow> int \<Rightarrow> getopt list \<Rightarrow> string list \<Rightarrow> int + options \<times> int" where
  "receiver_arguments scan_double scan_ulong default_port events rest =
     (case run_options scan_double (CHR ''r'') True events default_options of
        Inl status \<Rightarrow> Inl status
      | Inr opts \<Rightarrow>
          (case rest of
             [] \<Rightarrow> Inr (opts, default_port)
           | [p] \<Rightarrow> Inr (opts, (case scan_ulong p of None \<Rightarrow> default_port | Some w \<Rightarrow> to_int w))
           | _ \<Rightarrow> Inl 1))"

subsection \<open>The Channel Access programs\<close>

text \<open>
  The result is the exit status, with the final state of the link's end if it ran. An exception of the
  configuration or the constructor is status 1; the first failed assertion is \<open>None\<close>.
\<close>

definition load_from :: "('h, 'a) os_env \<Rightarrow> options \<Rightarrow> config_error + config" where
  "load_from os opts = get_configuration (os_yajl os) (os_yajl_handle os) (os_files os (op_config opts))"

definition diode_sender_main ::
  "('h, 'a) os_env \<Rightarrow> (string \<Rightarrow> double option) \<Rightarrow> ca_env \<Rightarrow> ca_event list list \<Rightarrow> getopt list \<Rightarrow> string list \<Rightarrow>
   (int \<times> ca_sender option) option" where
  "diode_sender_main os scan_double env turns events rest =
     (case sender_arguments scan_double events rest of
        Inl status \<Rightarrow> Some (status, None)
      | Inr (opts, address) \<Rightarrow>
          (case load_from os opts of
             Inl e \<Rightarrow> Some (1, None)
           | Inr cfg \<Rightarrow>
               (case sender_construct (os_created os) (os_context os) (os_ca_create os) cfg (os_startup os) of
                  Inl TooManyChannels \<Rightarrow> None
                | Inl e \<Rightarrow> Some (1, None)
                | Inr (st, u) \<Rightarrow> map_option (\<lambda>(left, st). (0, Some st)) (sender_run env (op_seconds opts) turns st))))"

text \<open>A line of the receiver: the channel's name and what is printed of a call (at most 100 elements).\<close>

datatype printed = Disconnected_Line string | Value_Line string u16 u32 "bytes option"

definition print_update :: "string list \<Rightarrow> rx_call \<Rightarrow> printed option" where
  "print_update names c =
     do {
       name \<leftarrow> vec_at names (unat (cb_id c));
       Some (if cb_count c = - 1 then Disconnected_Line name
             else Value_Line name (cb_type c) (min 100 (cb_count c)) (cb_value c))
     }"

definition diode_receiver_main ::
  "('h, 'a) os_env \<Rightarrow> (string \<Rightarrow> double option) \<Rightarrow> (string \<Rightarrow> u64 option) \<Rightarrow> ca_env \<Rightarrow>
   int \<Rightarrow> int list \<Rightarrow> bytes option list \<Rightarrow> getopt list \<Rightarrow> string list \<Rightarrow> (int \<times> printed list) option" where
  "diode_receiver_main os scan_double scan_ulong env start nows rs events rest =
     (case receiver_arguments scan_double scan_ulong EPICS_DIODE_DEFAULT_PORT events rest of
        Inl status \<Rightarrow> Some (status, [])
      | Inr (opts, port) \<Rightarrow>
          (case load_from os opts of
             Inl e \<Rightarrow> Some (1, [])
           | Inr cfg \<Rightarrow>
               (case receiver_construct (os_aToIPAddr os) (os_created os) (os_bind_ok os) (os_timeout_ok os)
                       port (op_address opts) cfg (os_now os) of
                  Inl TooManyChannels \<Rightarrow> None
                | Inl e \<Rightarrow> Some (1, [])
                | Inr (rc, a) \<Rightarrow> do {
                    (left, rc) \<leftarrow> receiver_loop env (op_seconds opts) start nows rs rc;
                    ps \<leftarrow> those (map (print_update (flat_channel_names cfg)) (rc_calls rc));
                    Some (0, ps)
                  })))"

subsection \<open>The pvAccess programs\<close>

definition pvadiode_sender_main ::
  "('h, 'a) os_env \<Rightarrow> (string \<Rightarrow> double option) \<Rightarrow> pva_lib \<Rightarrow> (nat list \<times> pva_event list list) list \<Rightarrow>
   getopt list \<Rightarrow> string list \<Rightarrow> (int \<times> pva_sender option) option" where
  "pvadiode_sender_main os scan_double lib turns events rest =
     (case sender_arguments scan_double events rest of
        Inl status \<Rightarrow> Some (status, None)
      | Inr (opts, address) \<Rightarrow>
          (case load_from os opts of
             Inl e \<Rightarrow> Some (1, None)
           | Inr cfg \<Rightarrow>
               (case pva_sender_construct lib (os_created os) cfg (os_startup os) of
                  Inl TooManyChannels \<Rightarrow> None
                | Inl e \<Rightarrow> Some (1, None)
                | Inr (st, u) \<Rightarrow> map_option (\<lambda>(left, st). (0, Some st)) (pva_sender_run lib (op_seconds opts) turns st))))"

text \<open>A process variable of the server: none yet, open, or closed; and what is done with it.\<close>

datatype shared_pv = No_PV | Open_PV | Closed_PV

datatype pv_action = Build_PV nat | Open_With nat pva_value | Add_PV string nat | Post_To nat pva_value | Close_PV nat

text \<open>The name is looked up in the flat names, by the number the receiver gave to the channel.\<close>

definition publish ::
  "string list \<Rightarrow> prx_call \<Rightarrow> shared_pv list \<times> pv_action list \<Rightarrow> (shared_pv list \<times> pv_action list) option" where
  "publish names c acc =
     (let i = unat (pcb_id c); (pvs, done) = acc in
      do {
        name \<leftarrow> vec_at names i;
        pv \<leftarrow> vec_at pvs i;
        Some (case pv of
            No_PV \<Rightarrow> (case pcb_value c of
                None \<Rightarrow> (pvs, done)
              | Some v \<Rightarrow> (pvs[i := Open_PV], done @ [Build_PV i, Open_With i v, Add_PV (''x'' @ name) i]))
          | Open_PV \<Rightarrow> (case pcb_value c of
                None \<Rightarrow> (pvs[i := Closed_PV], done @ [Close_PV i])
              | Some v \<Rightarrow> (pvs, done @ [Post_To i v]))
          | Closed_PV \<Rightarrow> (case pcb_value c of
                None \<Rightarrow> (pvs, done @ [Close_PV i])
              | Some v \<Rightarrow> (pvs[i := Open_PV], done @ [Open_With i v])))
      })"

definition pvadiode_receiver_main ::
  "('h, 'a) os_env \<Rightarrow> (string \<Rightarrow> double option) \<Rightarrow> (string \<Rightarrow> u64 option) \<Rightarrow> pva_lib \<Rightarrow>
   int \<Rightarrow> int list \<Rightarrow> bytes option list \<Rightarrow> getopt list \<Rightarrow> string list \<Rightarrow> (int \<times> pv_action list) option" where
  "pvadiode_receiver_main os scan_double scan_ulong lib start nows rs events rest =
     (case receiver_arguments scan_double scan_ulong EPICS_PVADIODE_DEFAULT_PORT events rest of
        Inl status \<Rightarrow> Some (status, [])
      | Inr (opts, port) \<Rightarrow>
          (case load_from os opts of
             Inl e \<Rightarrow> Some (1, [])
           | Inr cfg \<Rightarrow>
               let names = flat_channel_names cfg in
               (case pva_receiver_construct lib (os_aToIPAddr os) (os_created os) (os_bind_ok os) (os_timeout_ok os)
                       port (op_address opts) cfg (os_now os) of
                  Inl TooManyChannels \<Rightarrow> None
                | Inl e \<Rightarrow> Some (1, [])
                | Inr (rc, a) \<Rightarrow> do {
                    (left, rc) \<leftarrow> pva_receiver_loop lib (op_seconds opts) start nows rs rc;
                    (pvs, done) \<leftarrow> foldM (publish names) (pr_calls rc) (replicate (length names) No_PV, []);
                    Some (0, done)
                  })))"

subsection \<open>Numbers\<close>

lemma group_base_eq_index:
  "j \<le> length (cfg_channels cfg) \<Longrightarrow>
   j = group_base cfg j \<longleftrightarrow> (\<forall>cc \<in> set (take j (cfg_channels cfg)). cc_extra cc = [] \<and> cc_polled cc = [])"
proof -
  have "length xs \<le> sum_list (map channel_width xs) \<and>
      (length xs = sum_list (map channel_width xs) \<longleftrightarrow> (\<forall>cc \<in> set xs. cc_extra cc = [] \<and> cc_polled cc = []))" for xs
    by (induction xs) (auto simp: channel_width_def)
  from this [of "take j (cfg_channels cfg)"] show "j \<le> length (cfg_channels cfg) \<Longrightarrow> ?thesis"
    by (simp add: group_base_def)
qed

text \<open>What the first value of channel \<open>j\<close> publishes.\<close>

lemma publish_first:
  assumes "unat (pcb_id c) < length names" "length names = length pvs" "pvs ! unat (pcb_id c) = No_PV" "pcb_value c = Some v"
  shows "publish names c (pvs, done) = Some (pvs[unat (pcb_id c) := Open_PV],
    done @ [Build_PV (unat (pcb_id c)), Open_With (unat (pcb_id c)) v, Add_PV (''x'' @ names ! unat (pcb_id c)) (unat (pcb_id c))])"
  using assms by (simp add: publish_def Let_def)

text \<open>The text generated for one channel starts with its head.\<close>

lemma dbgen_channel_head:
  assumes "dbgen_channel lib answer cc st = Some st'" "dispatch_kind lib (dl_to_DBR_CTRL lib (an_type (answer (cc_name cc)))) \<noteq> None"
  shows "\<exists>post. dg_out st' = dg_out st @
    record_head (dg_index st) (an_name (answer (cc_name cc))) (an_record_type (answer (cc_name cc))) @ post"
proof -
  let ?a = "answer (cc_name cc)"
  let ?h = "record_head (dg_index st) (an_name ?a) (an_record_type ?a)"
  have enum: "\<exists>post. out' = out @ post" if "foldM (enum_item strs) ns out = Some out'" for strs ns out out'
    using that by (induction ns arbitrary: out) (fastforce simp: enum_item_def bind_eq_Some_conv)+
  obtain k where "dispatch_kind lib (dl_to_DBR_CTRL lib (an_type ?a)) = Some k" using assms(2) by blast
  then obtain out where o: "generate_from lib ?a (dg_index st) (an_data ?a k) = Some out" "dg_out st' = dg_out st @ out"
    using assms(1) by (auto simp: dbgen_channel_def Let_def bind_eq_Some_conv)
  have "\<exists>post. out = ?h @ post"
  proof (cases "an_data ?a k")
    case (Ctrl_Enum n strs)
    then obtain out0 where "foldM (enum_item strs) [0 ..< nat n] ?h = Some out0" "out = out0 @ [record_tail]"
      using o(1) by (auto simp: generate_from_def generate_record_from_enum_def Let_def)
    with enum show ?thesis by fastforce
  qed (use o(1) in \<open>auto simp: generate_from_def generate_record_from_ctrl_def Let_def bind_eq_Some_conv\<close>)
  with o(2) show ?thesis by auto
qed

lemma dbgen_out_grows:
  "foldM (dbgen_channel lib answer) ccs st = Some st' \<Longrightarrow> \<exists>post. dg_out st' = dg_out st @ post"
  by (induction ccs arbitrary: st) (fastforce simp: dbgen_channel_def Let_def bind_eq_Some_conv)+

lemma name_at_base:
  assumes "j < length (cfg_channels cfg)"
  shows "group_base cfg j < length (flat_channel_names cfg)"
    "flat_channel_names cfg ! group_base cfg j = cc_name (cfg_channels cfg ! j)"
  using flat_name_at [OF assms, of 0] by (simp_all add: channel_width_def channel_names_def)

text \<open>
  C25: the programs agree on the number of a record: in the flat numbering, which the Channel Access
  sender and receiver use, channel \<open>j\<close> of the configuration has the number \<open>group_base cfg j\<close>; the
  receiver task of the IOC assigns its name to that number, and the database generator writes that
  number into the head of the record it generates for the channel.
\<close>

theorem programs_number_alike:
  assumes "j < length (cfg_channels cfg)" "length (flat_channel_names cfg) \<le> DIODE_LUT_SIZE" "ds_names st = None"
    and "dbgen_records lib answer cfg out = Some dg" "a = answer (cc_name (cfg_channels cfg ! j))"
    and "dispatch_kind lib (dl_to_DBR_CTRL lib (an_type a)) \<noteq> None"
  shows "flat_channel_names cfg ! group_base cfg j = cc_name (cfg_channels cfg ! j) \<and>
    (\<exists>st' t. assign_config cfg st = Some st' \<and> ds_names st' = Some t \<and>
      t (group_base cfg j) = Some (cc_name (cfg_channels cfg ! j))) \<and>
    (\<exists>pre post. dg_out dg = pre @ record_head (of_nat (group_base cfg j)) (an_name a) (an_record_type a) @ post)"
proof (intro conjI)
  note n = name_at_base [OF assms(1)]
  show "flat_channel_names cfg ! group_base cfg j = cc_name (cfg_channels cfg ! j)" by (rule n(2))
  from assign_names_fresh [OF assms(3,2)] n(1) obtain st' where
    "assign_names 0 (flat_channel_names cfg) st = Some st'" "names_table (flat_channel_names cfg) st'" by fastforce
  then show "\<exists>st' t. assign_config cfg st = Some st' \<and> ds_names st' = Some t \<and>
      t (group_base cfg j) = Some (cc_name (cfg_channels cfg ! j))"
    using n by (auto simp: assign_config_names names_table_def)
  let ?cs = "cfg_channels cfg"
  have split: "?cs = take j ?cs @ (?cs ! j) # drop (Suc j) ?cs"
    using assms(1) by (rule id_take_nth_drop)
  with assms(4) have "foldM (dbgen_channel lib answer) (take j ?cs @ (?cs ! j) # drop (Suc j) ?cs) (dbgen_start out) = Some dg"
    by (simp add: dbgen_records_def)
  then obtain s1 s2 where s: "foldM (dbgen_channel lib answer) (take j ?cs) (dbgen_start out) = Some s1"
    "dbgen_channel lib answer (?cs ! j) s1 = Some s2" "foldM (dbgen_channel lib answer) (drop (Suc j) ?cs) s2 = Some dg"
    by (auto simp: foldM_append bind_eq_Some_conv)
  have "dg_index s1 = of_nat (group_base cfg j)"
    using dbgen_index [OF s(1)] by (simp add: dbgen_start_def group_base_def)
  with dbgen_channel_head [OF s(2)] assms(5,6) obtain post where
    "dg_out s2 = dg_out s1 @ record_head (of_nat (group_base cfg j)) (an_name a) (an_record_type a) @ post" by auto
  moreover obtain post' where "dg_out dg = dg_out s2 @ post'" using dbgen_out_grows [OF s(3)] by blast
  ultimately have "dg_out dg = dg_out s1 @ record_head (of_nat (group_base cfg j)) (an_name a) (an_record_type a) @ (post @ post')"
    by simp
  then show "\<exists>pre post. dg_out dg = pre @ record_head (of_nat (group_base cfg j)) (an_name a) (an_record_type a) @ post"
    by blast
qed

definition demo_names_cfg :: config where
  "demo_names_cfg = default_config\<lparr>cfg_channels :=
     [\<lparr>cc_name = ''A'', cc_extra = [''EGU''], cc_polled = []\<rparr>, \<lparr>cc_name = ''B'', cc_extra = [], cc_polled = []\<rparr>]\<rparr>"

definition demo_dbgen_lib :: dbgen_lib where
  "demo_dbgen_lib = \<lparr>dl_dbr_text = [''DBR_STRING''], dl_to_DBR_CTRL = (\<lambda>t. 28), dl_DBR_CTRL = (\<lambda>k. 28)\<rparr>"

definition demo_answer :: "string \<Rightarrow> dbgen_answer" where
  "demo_answer n = \<lparr>an_result = ECA_NORMAL, an_name = n, an_record_type = ''ai'', an_type = 0, an_count = 1,
     an_data = (\<lambda>k. Sts_String)\<rparr>"

lemma demo_names: "flat_channel_names demo_names_cfg = [''A'', ''A.EGU'', ''B'']" "group_base demo_names_cfg 1 = 2"
  by (simp_all add: flat_channel_names_def demo_names_cfg_def channel_names_def field_name_def group_base_def channel_width_def)

theorem programs_number_alike_witness:
  "\<exists>st' t dg pre post. assign_config demo_names_cfg demo_state = Some st' \<and> ds_names st' = Some t \<and> t 2 = Some ''B'' \<and>
    dbgen_records demo_dbgen_lib demo_answer demo_names_cfg [] = Some dg \<and>
    dg_out dg = pre @ record_head 2 ''B'' ''ai'' @ post"
proof -
  have "\<exists>dg. dbgen_records demo_dbgen_lib demo_answer demo_names_cfg [] = Some dg"
    by (simp add: dbgen_records_def demo_names_cfg_def dbgen_channel_def Let_def dispatch_kind_def demo_dbgen_lib_def
        demo_answer_def generate_from_def generate_record_from_ctrl_def waveform_types_def)
  then obtain dg where dg: "dbgen_records demo_dbgen_lib demo_answer demo_names_cfg [] = Some dg" ..
  have c: "cfg_channels demo_names_cfg ! 1 = \<lparr>cc_name = ''B'', cc_extra = [], cc_polled = []\<rparr>" "1 < length (cfg_channels demo_names_cfg)"
    by (simp_all add: demo_names_cfg_def)
  have d: "dispatch_kind demo_dbgen_lib (dl_to_DBR_CTRL demo_dbgen_lib (an_type (demo_answer ''B''))) \<noteq> None"
    by (simp add: dispatch_kind_def demo_dbgen_lib_def)
  have "ds_names demo_state = None" "length (flat_channel_names demo_names_cfg) \<le> DIODE_LUT_SIZE"
    by (simp_all add: demo_state_def demo_names DIODE_LUT_SIZE_def)
  from programs_number_alike [OF c(2) this(2,1) dg refl] d dg
  show ?thesis unfolding demo_names(2) c(1) by (auto simp: demo_answer_def)
qed

text \<open>
  C18: the pvAccess receiver numbers only the records, while the program that publishes its values looks
  the number up in the names of all records and fields: the first value of record \<open>j\<close> is published
  under the \<open>j\<close>-th flat name. With distinct names that is the record's own name exactly when no
  earlier record has extra or polled fields.
\<close>

theorem published_name_shifted:
  assumes "prx_create_channels cfg = Some chs" "j < length chs" "distinct (flat_channel_names cfg)"
    and "pcb_id c = of_nat j" "pcb_value c = Some v"
  shows "px_name (chs ! j) = cc_name (cfg_channels cfg ! j) \<and>
    (\<exists>pvs. publish (flat_channel_names cfg) c (replicate (length (flat_channel_names cfg)) No_PV, []) =
      Some (pvs, [Build_PV j, Open_With j v, Add_PV (''x'' @ flat_channel_names cfg ! j) j])) \<and>
    (flat_channel_names cfg ! j = px_name (chs ! j) \<longleftrightarrow>
      (\<forall>cc \<in> set (take j (cfg_channels cfg)). cc_extra cc = [] \<and> cc_polled cc = []))"
proof -
  have chs: "total_channel_count cfg \<le> 2 ^ 32 - 1"
    "chs = map (\<lambda>(i, cc). new_prx_channel i (cc_name cc)) (enumerate 0 (cfg_channels cfg))"
    using assms(1) by (auto simp: prx_create_channels_def split: if_splits)
  then have j: "j < length (cfg_channels cfg)" using assms(2) by simp
  have name: "px_name (chs ! j) = cc_name (cfg_channels cfg ! j)"
    using j by (simp add: chs(2) nth_enumerate_eq new_prx_channel_def)
  note b = name_at_base [OF j]
  have "length xs \<le> sum_list (map channel_width xs)" for xs
    by (induction xs) (auto simp: channel_width_def)
  from this [of "take j (cfg_channels cfg)"] j have "j \<le> group_base cfg j"
    by (simp add: group_base_def)
  with b(1) have jf: "j < length (flat_channel_names cfg)" by linarith
  have u: "unat (pcb_id c) = j"
  proof -
    have "j < 2 ^ 32" using jf chs(1) by (simp add: total_channel_count_flat)
    then show ?thesis using assms(4) by simp
  qed
  have "flat_channel_names cfg ! j = px_name (chs ! j) \<longleftrightarrow> j = group_base cfg j"
    unfolding name b(2) [symmetric] using nth_eq_iff_index_eq [OF assms(3) jf b(1)] .
  moreover have "\<exists>pvs. publish (flat_channel_names cfg) c (replicate (length (flat_channel_names cfg)) No_PV, []) =
      Some (pvs, [Build_PV j, Open_With j v, Add_PV (''x'' @ flat_channel_names cfg ! j) j])"
    using publish_first [of c "flat_channel_names cfg" "replicate (length (flat_channel_names cfg)) No_PV" v "[]"] jf assms(5)
    by (simp add: u)
  ultimately show ?thesis using name group_base_eq_index [of j cfg] j by simp
qed

text \<open>The record B, after a record with an extra field, is published as that field.\<close>

theorem published_name_shifted_witness:
  "\<exists>chs pvs. prx_create_channels demo_names_cfg = Some chs \<and> px_name (chs ! 1) = ''B'' \<and>
    publish (flat_channel_names demo_names_cfg) \<lparr>pcb_id = 1, pcb_value = Some \<lparr>pv_desc = [], pv_fields = []\<rparr>\<rparr>
      (replicate (length (flat_channel_names demo_names_cfg)) No_PV, []) =
      Some (pvs, [Build_PV 1, Open_With 1 \<lparr>pv_desc = [], pv_fields = []\<rparr>, Add_PV ''xA.EGU'' 1])"
proof -
  have p: "\<exists>chs. prx_create_channels demo_names_cfg = Some chs \<and> length chs = 2"
    by (simp add: prx_create_channels_def total_channel_count_flat demo_names) (simp add: demo_names_cfg_def)
  then obtain chs where chs: "prx_create_channels demo_names_cfg = Some chs" "length chs = 2" by blast
  have d: "distinct (flat_channel_names demo_names_cfg)" "1 < length chs"
    "cfg_channels demo_names_cfg ! 1 = \<lparr>cc_name = ''B'', cc_extra = [], cc_polled = []\<rparr>"
    using chs(2) by (simp_all add: demo_names) (simp add: demo_names_cfg_def)
  from published_name_shifted [OF chs(1) d(2,1), of "\<lparr>pcb_id = 1, pcb_value = Some \<lparr>pv_desc = [], pv_fields = []\<rparr>\<rparr>"
      "\<lparr>pv_desc = [], pv_fields = []\<rparr>"] d(3) chs(1)
  show ?thesis by (auto simp: demo_names(1))
qed

end
