(* ===== verification/Pva_Types.thy ===== *)
theory Pva_Types
  imports Pva_Link
begin

text \<open>
  The exchange of type definitions: the sender packs the types behind the built-in ones of its cache
  into as many packets as it takes, the receiver enters them into its own cache. The library's
  encoding of types is described by \<open>tenc\<close>; reading it gives an empty value \<open>blank v\<close> of that type.
\<close>

definition lib_types :: "pva_lib \<Rightarrow> (pva_value \<Rightarrow> bytes) \<Rightarrow> (pva_value \<Rightarrow> pva_value) \<Rightarrow> bool" where
  "lib_types lib tenc blank \<longleftrightarrow>
     (\<forall>v. encodes (lib_to_wire_type lib (pv_desc v)) (tenc v) \<and>
       decodes_to (lib_from_wire_type lib) (tenc v) (Some (blank v)))"

definition types_bytes :: "(pva_value \<Rightarrow> bytes) \<Rightarrow> pva_value list \<Rightarrow> bytes" where
  "types_bytes tenc vs = concat (map tenc vs)"

lemma types_bytes_simps [simp]:
  "types_bytes tenc [] = []" "types_bytes tenc (v # vs) = tenc v @ types_bytes tenc vs"
  by (simp_all add: types_bytes_def)

lemma types_bytes_member: "v \<in> set vs \<Longrightarrow> length (tenc v) \<le> length (types_bytes tenc vs)"
  by (induction vs) auto

lemma data_room_eq: "data_room = 65472"
  by (simp add: data_room_def size_defs)

subsection \<open>The sender\<close>

lemma typedef_serialize_fits:
  assumes "lib_types lib tenc blank" "ser_wf s" "length (tenc v) \<le> remaining s"
  shows "typedef_serialize lib (Some v) s = Some (True, written (tenc v) s)"
proof -
  have "encodes (lib_to_wire_type lib (pv_desc v)) (tenc v)" using assms(1) by (simp add: lib_types_def)
  from encodesD [OF this, of "fixed_buf s"] assms(2) obtain b where
    "lib_to_wire_type lib (pv_desc v) (fixed_buf s) = Some b" "encoded (tenc v) (fixed_buf s) b" by auto
  then have "lib_to_wire_type lib (pv_desc v) (fixed_buf s) = Some (written (tenc v) (fixed_buf s))"
    using assms(3) by (simp add: encoded_def)
  moreover have "ser_pos s + length (tenc v) \<le> ser_limit s"
    using assms(2,3) by (auto simp: remaining_wf ser_wf_def)
  ultimately show ?thesis by (simp add: typedef_serialize_def written_fixed_buf written_fields)
qed

lemma typedef_serialize_cut:
  assumes "lib_types lib tenc blank" "ser_wf s" "remaining s < length (tenc v)"
  shows "\<exists>s'. typedef_serialize lib (Some v) s = Some (False, s') \<and> inside s s'"
proof -
  have "encodes (lib_to_wire_type lib (pv_desc v)) (tenc v)" using assms(1) by (simp add: lib_types_def)
  from encodesD [OF this, of "fixed_buf s"] assms(2) obtain b where b:
    "lib_to_wire_type lib (pv_desc v) (fixed_buf s) = Some b" "encoded (tenc v) (fixed_buf s) b" by auto
  then have w: "inside (fixed_buf s) b" and "\<not> ser_good b" using assms(3) by (simp_all add: encoded_def)
  then have "typedef_serialize lib (Some v) s = Some (False, b\<lparr>ser_good := ser_good s\<rparr>)"
    using b(1) give_back_within [OF w] by (simp add: typedef_serialize_def)
  moreover have "inside s (b\<lparr>ser_good := ser_good s\<rparr>)" using w by (simp add: inside_def ser_wf_def)
  ultimately show ?thesis by blast
qed

text \<open>
  One packet takes \<open>k\<close> whole types, and after them the cut off beginning \<open>J\<close> of the next one if it did
  not fit; none is taken only if the first one alone does not fit.
\<close>

lemma typedef_fill_spec:
  assumes lib: "lib_types lib tenc blank" and vs: "length vs < 2 ^ 16"
  shows "filled m x B X s \<Longrightarrow> unat i \<le> length vs \<Longrightarrow>
    \<exists>k J s'. typedef_fill lib (map Some vs) i s n = Some (i + of_nat k, s', n + of_nat k) \<and>
      unat i + k \<le> length vs \<and> filled m x B (X @ types_bytes tenc (take k (drop (unat i) vs)) @ J) s' \<and>
      (k = 0 \<longrightarrow> unat i = length vs \<or> 65472 < length X + length (tenc (vs ! unat i)))"
proof (induction "length vs - unat i" arbitrary: i X s n)
  case 0
  then have "\<not> unat i < length vs" by simp
  then have "typedef_fill lib (map Some vs) i s n = Some (i + of_nat 0, s, n + of_nat 0)"
    by (subst typedef_fill.simps) simp
  moreover have "filled m x B (X @ types_bytes tenc (take 0 (drop (unat i) vs)) @ []) s"
    using 0 by simp
  ultimately show ?case using 0 by (intro exI [of _ 0] exI [of _ "[]"] exI [of _ s]) simp
next
  case (Suc d)
  let ?v = "vs ! unat i"
  have i: "unat i < length vs" using Suc.hyps(2) by simp
  note wf = filled_wf [OF Suc.prems(1)]
  show ?case
  proof (cases "length (tenc ?v) \<le> remaining s")
    case False
    from typedef_serialize_cut [OF lib, of s ?v] wf False obtain s' where
      s': "typedef_serialize lib (Some ?v) s = Some (False, s')" "inside s s'" by auto
    from filled_inside [OF Suc.prems(1) s'(2)] obtain J where "filled m x B (X @ J) s'" ..
    moreover have "typedef_fill lib (map Some vs) i s n = Some (i + of_nat 0, s', n + of_nat 0)"
      using i s'(1) by (subst typedef_fill.simps) simp
    moreover have "65472 < length X + length (tenc ?v)"
      using False wf Suc.prems(1) by (auto simp: filled_def)
    ultimately show ?thesis
      using i by (intro exI [of _ 0] exI [of _ J] exI [of _ s']) simp
  next
    case True
    have ui: "unat (i + 1) = unat i + 1"
      using i vs by (simp add: unat_word_ariths(1))
    from typedef_serialize_fits [OF lib _ True] wf
    have step: "typedef_fill lib (map Some vs) i s n = typedef_fill lib (map Some vs) (i + 1) (written (tenc ?v) s) (n + 1)"
      using i by (subst typedef_fill.simps) simp
    have "d = length vs - unat (i + 1)" "unat (i + 1) \<le> length vs"
      using Suc.hyps(2) i ui by simp_all
    from Suc.hyps(1) [OF this(1) filled_written [OF Suc.prems(1) True] this(2), of "n + 1"] obtain k J s' where
      k: "typedef_fill lib (map Some vs) (i + 1) (written (tenc ?v) s) (n + 1) = Some (i + 1 + of_nat k, s', n + 1 + of_nat k)"
        "unat (i + 1) + k \<le> length vs"
        "filled m x B ((X @ tenc ?v) @ types_bytes tenc (take k (drop (unat (i + 1)) vs)) @ J) s'" by blast
    have "take (Suc k) (drop (unat i) vs) = ?v # take k (drop (unat (i + 1)) vs)"
      using i by (simp add: ui Cons_nth_drop_Suc [symmetric])
    with k step ui show ?thesis
      by (intro exI [of _ "Suc k"] exI [of _ J] exI [of _ s']) (simp add: add.assoc)
  qed
qed

text \<open>A packet of \<open>n\<close> types from number \<open>i\<close> on, whose entries start with the encodings of \<open>ws\<close>.\<close>

definition typedef_packet :: "bytes \<Rightarrow> u16 \<Rightarrow> nat \<Rightarrow> bytes \<Rightarrow> bytes" where
  "typedef_packet h i n X = h @ pva_frame PVA_TYPEDEF_MESSAGE i (of_nat n) X"

text \<open>What sending type definitions leaves alone.\<close>

definition typedefs_frame :: "pva_sender \<Rightarrow> pva_sender \<Rightarrow> bool" where
  "typedefs_frame st st' \<longleftrightarrow>
     ps_channels st' = ps_channels st \<and> ps_deque st' = ps_deque st \<and> ps_seq_no st' = ps_seq_no st \<and>
     ps_cache st' = ps_cache st \<and> ps_builtin st' = ps_builtin st \<and>
     length (ps_buffer st') = length (ps_buffer st) \<and>
     take Header_size (ps_buffer st') = take Header_size (ps_buffer st)"

lemma typedefs_frame_refl: "typedefs_frame st st"
  by (simp add: typedefs_frame_def)

lemma typedefs_frame_trans: "typedefs_frame st st1 \<Longrightarrow> typedefs_frame st1 st2 \<Longrightarrow> typedefs_frame st st2"
  by (simp add: typedefs_frame_def)

lemma send_typedef_packet_spec:
  assumes lib: "lib_types lib tenc blank" and vs: "ps_cache st = map Some vs" "length vs < 2 ^ 16"
    and B: "length (ps_buffer st) = MAX_MESSAGE_SIZE" and i: "unat i \<le> length vs"
  shows "\<exists>k J st'. send_typedef_packet lib i st = Some (i + of_nat k, st') \<and> unat i + k \<le> length vs \<and>
    length (types_bytes tenc (take k (drop (unat i) vs)) @ J) \<le> 65472 \<and>
    (k = 0 \<longrightarrow> unat i = length vs \<or> 65472 < length (tenc (vs ! unat i))) \<and> typedefs_frame st st' \<and>
    ps_sent st' = ps_sent st @ [typedef_packet (take Header_size (ps_buffer st)) i k
      (types_bytes tenc (take k (drop (unat i) vs)) @ J)]"
proof -
  let ?B = "ps_buffer st"
  note o = opened_fields [OF B, of PVA_TYPEDEF_MESSAGE i] and f = open_frame [OF B]
  from typedef_fill_spec [OF lib vs(2) filled_opened [OF B, of PVA_TYPEDEF_MESSAGE i] i, of 0] obtain k J s' where
    k: "typedef_fill lib (map Some vs) i (opened PVA_TYPEDEF_MESSAGE i ?B) 0 = Some (i + of_nat k, s', 0 + of_nat k)"
      "unat i + k \<le> length vs" "filled PVA_TYPEDEF_MESSAGE i ?B ([] @ types_bytes tenc (take k (drop (unat i) vs)) @ J) s'"
      "k = 0 \<longrightarrow> unat i = length vs \<or> 65472 < length ([] :: bytes) + length (tenc (vs ! unat i))"
    by (elim exE conjE) (rule that)
  let ?X = "types_bytes tenc (take k (drop (unat i) vs)) @ J"
  from close_frame [OF B k(3), of "of_nat k"] obtain s1 s2 s3 where
    c: "pad_align Submessage_alignment 0 s' = Some s1" "set_position 30 s1 = Some s2" "put_u16 (of_nat k) s2 = Some s3"
      "take (distance s1) (ser_mem s3) = typedef_packet (take Header_size ?B) i k ?X"
      "take Header_size (ser_mem s3) = take Header_size ?B" "length (ser_mem s3) = length ?B"
    unfolding typedef_packet_def by auto
  let ?st' = "pva_send (typedef_packet (take Header_size ?B) i k ?X) (st\<lparr>ps_buffer := ser_mem s3\<rparr>)"
  have e4: "Submessage_size + PVATypeDefMessage_size = Submessage_size + 4" by (simp add: PVATypeDefMessage_size_def)
  have "send_typedef_packet lib i st = Some (i + of_nat k, ?st')"
    unfolding send_typedef_packet_def e4 Let_def f(1) prod.case make_subheader_0 bind.simps f(2,4) o(4) vs(1)
    by (simp add: k(1) c(1-4))
  moreover have "typedefs_frame st ?st'"
    using c(5,6) by (simp add: typedefs_frame_def pva_send_def)
  moreover have "ps_sent ?st' = ps_sent st @ [typedef_packet (take Header_size ?B) i k ?X]"
    by (simp add: pva_send_def)
  moreover have "length ?X \<le> 65472" using k(3) by (simp add: filled_def)
  ultimately show ?thesis using k(2,4) by (intro exI [of _ k] exI [of _ J] exI [of _ ?st']) simp
qed

subsection \<open>The receiver\<close>

text \<open>The cache as a map: a number behind its end has no type yet.\<close>

definition cache_at :: "type_cache \<Rightarrow> nat \<Rightarrow> pva_value option" where
  "cache_at cache j = (if j < length cache then cache ! j else None)"

lemma cache_at_learn:
  "cache_at (learn_type ix v cache) j = (if j = unat ix \<and> cache_at cache j = None then v else cache_at cache j)"
proof (cases "unat ix < length cache")
  case True
  then show ?thesis by (auto simp: cache_at_def learn_type_def nth_list_update)
next
  case False
  then have "resize (unat ix + 1) None cache = cache @ replicate (unat ix + 1 - length cache) None"
    by (simp add: resize_def)
  with False show ?thesis
    by (auto simp: cache_at_def learn_type_def nth_list_update nth_append less_Suc_eq not_less)
qed

text \<open>Two caches that hold the same types before \<open>a\<close> and teach \<open>ws\<close> from \<open>a\<close> on.\<close>

definition teaches :: "(pva_value \<Rightarrow> pva_value) \<Rightarrow> nat \<Rightarrow> pva_value list \<Rightarrow> type_cache \<Rightarrow> type_cache \<Rightarrow> bool" where
  "teaches blank a ws c c' \<longleftrightarrow>
     (\<forall>j. cache_at c' j =
       (if cache_at c j = None \<and> a \<le> j \<and> j < a + length ws then Some (blank (ws ! (j - a))) else cache_at c j))"

lemma teaches_Nil: "teaches blank a [] c c"
  by (simp add: teaches_def)

lemma teaches_append:
  assumes "teaches blank a us c c1" "teaches blank (a + length us) ws c1 c2"
  shows "teaches blank a (us @ ws) c c2"
  using assms by (fastforce simp: teaches_def nth_append)

lemma teaches_learn:
  assumes "teaches blank a us c c1" "unat ix = a + length us"
  shows "teaches blank a (us @ [w]) c (learn_type ix (Some (blank w)) c1)"
proof -
  have "teaches blank (a + length us) [w] c1 (learn_type ix (Some (blank w)) c1)"
    using assms(2) by (auto simp: teaches_def cache_at_learn)
  with assms(1) show ?thesis by (rule teaches_append)
qed

lemma typedef_deserialize_enc:
  assumes "lib_types lib tenc blank" "ser_wf s" "length (tenc v) \<le> remaining s" "at_cursor (tenc v) s"
  shows "typedef_deserialize lib s = Some (True, Some (blank v), advance (length (tenc v)) s)"
proof -
  have "decodes_to (lib_from_wire_type lib) (tenc v) (Some (blank v))"
    using assms(1) by (simp add: lib_types_def)
  moreover have "at_cursor (tenc v) (fixed_buf s)" using assms(4) by (simp add: at_cursor_def)
  ultimately have "lib_from_wire_type lib (fixed_buf s) = Some (Some (blank v), advance (length (tenc v)) (fixed_buf s))"
    using assms(2,3) by (simp add: decodes_to_def)
  moreover have "give_back s (advance (length (tenc v)) (fixed_buf s)) = Some (advance (length (tenc v)) s)"
    using assms(2,3) by (cases s) (auto simp: give_back_def set_position_def advance_def fixed_buf_def remaining_wf ser_wf_def)
  ultimately show ?thesis by (simp add: typedef_deserialize_def ser_fields)
qed

lemma typedef_entries_taught:
  assumes "lib_types lib tenc blank" "ser_wf s"
  shows "length (types_bytes tenc ws) \<le> remaining s \<Longrightarrow> at_cursor (types_bytes tenc ws) s \<Longrightarrow>
    unat i + length ws < 2 ^ 16 \<Longrightarrow>
    \<exists>c. foldM (typedef_entry lib i) [0 ..< length ws] (s, rc) =
        Some (advance (length (types_bytes tenc ws)) s, rc\<lparr>pr_cache := c\<rparr>) \<and>
      teaches blank (unat i) ws (pr_cache rc) c"
proof (induction ws rule: rev_induct)
  case Nil
  show ?case by (intro exI [of _ "pr_cache rc"]) (simp add: teaches_Nil)
next
  case (snoc w ws)
  let ?b = "types_bytes tenc ws"
  have b: "types_bytes tenc (ws @ [w]) = ?b @ tenc w" by (simp add: types_bytes_def)
  have at: "at_cursor ?b s" "at_cursor (tenc w) (advance (length ?b) s)"
    using snoc.prems(2) unfolding b at_cursor_append by simp_all
  have len: "length ?b \<le> remaining s" using snoc.prems(1) b by simp
  with snoc at obtain c where c: "foldM (typedef_entry lib i) [0 ..< length ws] (s, rc) =
      Some (advance (length ?b) s, rc\<lparr>pr_cache := c\<rparr>)" "teaches blank (unat i) ws (pr_cache rc) c" by auto
  note adv = advance_wf [OF assms(2) len]
  have ix: "unat (i + of_nat (length ws)) = unat i + length ws"
    using snoc.prems(3) by (simp add: unat_word_ariths(1))
  let ?c = "learn_type (i + of_nat (length ws)) (Some (blank w)) c"
  have "typedef_deserialize lib (advance (length ?b) s) = Some (True, Some (blank w), advance (length (types_bytes tenc (ws @ [w]))) s)"
    using typedef_deserialize_enc [OF assms(1) _ _ at(2)] adv snoc.prems(1) b by simp
  then have "foldM (typedef_entry lib i) [0 ..< length (ws @ [w])] (s, rc) =
      Some (advance (length (types_bytes tenc (ws @ [w]))) s, rc\<lparr>pr_cache := ?c\<rparr>)"
    using c(1) by (simp add: foldM_append typedef_entry_def)
  with teaches_learn [OF c(2) ix] show ?case by blast
qed

text \<open>
  A packet of type definitions changes nothing but the buffer and the cache of types; the first packet of
  a sender that has been started again also restarts the numbering of the data packets.
\<close>

definition typed_only :: "header \<Rightarrow> pva_receiver \<Rightarrow> pva_receiver \<Rightarrow> bool" where
  "typed_only h rc rc' \<longleftrightarrow>
     rc' = rc\<lparr>pr_buffer := pr_buffer rc', pr_cache := pr_cache rc'\<rparr> \<or>
     pr_last_startup_time rc < hd_startup_time h \<and>
     rc' = rc\<lparr>pr_buffer := pr_buffer rc', pr_cache := pr_cache rc', pr_last_startup_time := hd_startup_time h,
       pr_last_seq_no := - 1\<rparr>"

definition learns :: "header \<Rightarrow> pva_receiver \<Rightarrow> pva_receiver \<Rightarrow> bool" where
  "learns h rc rc' \<longleftrightarrow>
     pr_last_seq_no (pva_admit h rc') = pr_last_seq_no (pva_admit h rc) \<and> pr_channels rc' = pr_channels rc \<and>
     pr_calls rc' = pr_calls rc \<and> pr_config_hash rc' = pr_config_hash rc \<and>
     length (pr_buffer rc') = length (pr_buffer rc) \<and> typed_only h rc rc'"

lemma typed_only_trans: "typed_only h rc rc1 \<Longrightarrow> typed_only h rc1 rc2 \<Longrightarrow> typed_only h rc rc2"
  by (cases rc; cases rc1; cases rc2) (auto simp: typed_only_def)

lemma typed_only_refl: "typed_only h rc rc"
  by (simp add: typed_only_def)

lemma learns_trans: "learns h rc rc1 \<Longrightarrow> learns h rc1 rc2 \<Longrightarrow> learns h rc rc2"
  using typed_only_trans by (auto simp: learns_def)

lemma pva_receive_typedefs:
  assumes lib: "lib_types lib tenc blank" and ready: "pva_link_ready h reserved rc"
    and X: "X = types_bytes tenc ws @ J" "length X \<le> 65472" and i: "unat i + length ws < 2 ^ 16"
  shows "\<exists>rc'. pva_receive_packet lib (typedef_packet (enc_header reserved h) i (length ws) X) rc = Some rc' \<and>
    pva_link_ready h reserved rc' \<and> learns h rc rc' \<and> teaches blank (unat i) ws (pr_cache rc) (pr_cache rc')"
proof -
  let ?td = "\<lparr>td_start_id = i, td_typedef_count = of_nat (length ws)\<rparr>"
  let ?body = "enc_pva_typedef ?td @ X @ replicate (pad_len 8 (length X)) 0"
  let ?pkt = "typedef_packet (enc_header reserved h) i (length ws) X"
  have pkt: "?pkt = enc_header reserved h @
      enc_subheader \<lparr>sh_id = PVA_TYPEDEF_MESSAGE, sh_flags = LittleEndian, sh_next = 0\<rparr> @ ?body"
    by (simp add: typedef_packet_def pva_frame_def frame_head_def enc_pva_typedef_def)
  have "length X + pad_len 8 (length X) \<le> 65472"
    using pad_len_bound [of 8 65472 "length X"] X(2) by simp
  moreover have "length (enc_header reserved h) = 24"
    using ready by (simp add: pva_link_ready_def length_enc_header)
  ultimately have len: "length ?pkt \<le> MAX_MESSAGE_SIZE"
    by (simp add: pkt MAX_MESSAGE_SIZE_def)
  note r = pva_receive_packet_single [OF pkt ready len]
  let ?s = "pva_packet_cursor ?pkt rc" and ?B = "patch 0 ?pkt (pr_buffer rc)"
  let ?rc = "pva_admit h (rc\<lparr>pr_buffer := ?B\<rparr>)"
  have at: "at_cursor (enc_pva_typedef ?td) ?s" "at_cursor (types_bytes tenc ws) (advance 4 ?s)"
    using r(2) by (simp_all add: at_cursor_append X(1))
  have rem: "remaining ?s = 4 + length X + pad_len 8 (length X)" using r(5) by simp
  have g: "get_pva_typedef ?s = Some (?td, advance 4 ?s)"
    using pva_typedef.get_ok [OF r(4) _ at(1)] rem by (simp add: PVATypeDefMessage_size_def)
  have a: "ser_wf (advance 4 ?s)" "remaining (advance 4 ?s) = length X + pad_len 8 (length X)"
    using advance_wf [OF r(3), of 4] rem by simp_all
  have "length (types_bytes tenc ws) \<le> remaining (advance 4 ?s)"
    unfolding a(2) by (simp add: X(1))
  from typedef_entries_taught [OF lib a(1) this at(2) i, of ?rc] obtain c where c:
    "foldM (typedef_entry lib i) [0 ..< length ws] (advance 4 ?s, ?rc) =
      Some (advance (length (types_bytes tenc ws)) (advance 4 ?s), ?rc\<lparr>pr_cache := c\<rparr>)"
    "teaches blank (unat i) ws (pr_cache rc) c" by auto
  have "unat (of_nat (length ws) :: u16) = length ws" using i by simp
  then have "typedef_message lib ?s ?rc = Some (advance (length (types_bytes tenc ws)) (advance 4 ?s), ?rc\<lparr>pr_cache := c\<rparr>)"
    using r(4) rem g c(1) by (simp add: typedef_message_def ensure_True PVATypeDefMessage_size_def)
  then have "pva_receive_packet lib ?pkt rc = Some (?rc\<lparr>pr_cache := c\<rparr>)"
    using r(1) by (simp add: pva_dispatch_def PVA_DATA_MESSAGE_def PVA_TYPEDEF_MESSAGE_def)
  moreover have "pva_link_ready h reserved (?rc\<lparr>pr_cache := c\<rparr>)" "learns h rc (?rc\<lparr>pr_cache := c\<rparr>)"
    using ready len
    by (auto simp: pva_link_ready_def learns_def typed_only_def pva_admit_def pva_validate_sender_def length_patch)
  ultimately show ?thesis using c(2) by (intro exI [of _ "?rc\<lparr>pr_cache := c\<rparr>"]) simp
qed

subsection \<open>The exchange\<close>

lemma typedef_loop_exchange:
  assumes lib: "lib_types lib tenc blank" and vs: "length vs < 2 ^ 16"
    and fits: "\<forall>v \<in> set (drop a vs). length (tenc v) \<le> 65472"
  shows "ps_cache st = map Some vs \<Longrightarrow> length (ps_buffer st) = MAX_MESSAGE_SIZE \<Longrightarrow>
    take Header_size (ps_buffer st) = enc_header reserved h \<Longrightarrow> pva_link_ready h reserved rc \<Longrightarrow>
    a \<le> unat i \<Longrightarrow> unat i \<le> length vs \<Longrightarrow>
    \<exists>st' pkts rc'. typedef_loop lib i st = Some st' \<and> typedefs_frame st st' \<and> ps_sent st' = ps_sent st @ pkts \<and>
      foldM (pva_receive_packet lib) pkts rc = Some rc' \<and> pva_link_ready h reserved rc' \<and> learns h rc rc' \<and>
      teaches blank (unat i) (drop (unat i) vs) (pr_cache rc) (pr_cache rc')"
proof (induction "length vs - unat i" arbitrary: i st rc rule: less_induct)
  case less
  show ?case
  proof (cases "unat i < length vs")
    case False
    then have "typedef_loop lib i st = Some st" using less.prems(1) by (subst typedef_loop.simps) simp
    with less.prems(4) False show ?thesis
      by (intro exI [of _ st] exI [of _ "[]"] exI [of _ rc]) (simp add: typedefs_frame_refl learns_def typed_only_refl teaches_Nil)
  next
    case True
    from send_typedef_packet_spec [OF lib less.prems(1) vs less.prems(2,6)] obtain k J st1 where
      k: "send_typedef_packet lib i st = Some (i + of_nat k, st1)" "unat i + k \<le> length vs"
        "length (types_bytes tenc (take k (drop (unat i) vs)) @ J) \<le> 65472"
        "k = 0 \<longrightarrow> unat i = length vs \<or> 65472 < length (tenc (vs ! unat i))" "typedefs_frame st st1"
        "ps_sent st1 = ps_sent st @ [typedef_packet (take Header_size (ps_buffer st)) i k
          (types_bytes tenc (take k (drop (unat i) vs)) @ J)]"
      by (elim exE conjE) (rule that)
    have "vs ! unat i \<in> set (drop a vs)"
      using nth_mem [of "unat i - a" "drop a vs"] True less.prems(5) by simp
    with k(4) True fits have "0 < k" by fastforce
    let ?ws = "take k (drop (unat i) vs)"
    let ?pkt = "typedef_packet (enc_header reserved h) i k (types_bytes tenc ?ws @ J)"
    have ws: "length ?ws = k" "unat i + length ?ws < 2 ^ 16" using k(2) vs by simp_all
    have ui: "unat (i + of_nat k) = unat i + k"
      using k(2) vs by (simp add: unat_word_ariths(1))
    have "length vs - unat (i + of_nat k) < length vs - unat i"
      using True \<open>0 < k\<close> ui by simp
    from pva_receive_typedefs [OF lib less.prems(4) refl k(3) ws(2)] obtain rc1 where
      rc1: "pva_receive_packet lib ?pkt rc = Some rc1" "pva_link_ready h reserved rc1" "learns h rc rc1"
        "teaches blank (unat i) ?ws (pr_cache rc) (pr_cache rc1)" unfolding ws(1) by blast
    from k(5) less.prems have st1: "ps_cache st1 = map Some vs" "length (ps_buffer st1) = MAX_MESSAGE_SIZE"
      "take Header_size (ps_buffer st1) = enc_header reserved h" by (simp_all add: typedefs_frame_def)
    have "a \<le> unat (i + of_nat k)" "unat (i + of_nat k) \<le> length vs" using ui k(2) less.prems(5) by simp_all
    from less.hyps [OF _ st1 rc1(2) this] \<open>length vs - unat (i + of_nat k) < length vs - unat i\<close>
    obtain st2 pkts rc2 where
      r: "typedef_loop lib (i + of_nat k) st1 = Some st2" "typedefs_frame st1 st2" "ps_sent st2 = ps_sent st1 @ pkts"
        "foldM (pva_receive_packet lib) pkts rc1 = Some rc2" "pva_link_ready h reserved rc2" "learns h rc1 rc2"
        "teaches blank (unat i + k) (drop (unat i + k) vs) (pr_cache rc1) (pr_cache rc2)"
      unfolding ui by blast
    have "typedef_loop lib i st = Some st2"
      using True less.prems(1) k(1) r(1) by (subst typedef_loop.simps) simp
    moreover have "teaches blank (unat i) (drop (unat i) vs) (pr_cache rc) (pr_cache rc2)"
      using teaches_append [OF rc1(4), of "drop (unat i + k) vs"] r(7) ws(1)
        append_take_drop_id [of k "drop (unat i) vs"] by (simp add: add.commute)
    ultimately show ?thesis
      using r k(6) rc1(1) less.prems(3) typedefs_frame_trans [OF k(5) r(2)] learns_trans [OF rc1(3) r(6)]
      by (intro exI [of _ st2] exI [of _ "?pkt # pkts"] exI [of _ rc2]) simp
  qed
qed

text \<open>The loop cannot get past a type that does not fit an empty packet.\<close>

lemma typedef_loop_stuck:
  assumes lib: "lib_types lib tenc blank" and vs: "length vs < 2 ^ 16"
    and j: "j < length vs" "65472 < length (tenc (vs ! j))"
  shows "ps_cache st = map Some vs \<Longrightarrow> length (ps_buffer st) = MAX_MESSAGE_SIZE \<Longrightarrow> unat i \<le> j \<Longrightarrow>
    typedef_loop lib i st = None"
proof -
  have never: "\<not> (lib' = lib \<and> ps_cache st = map Some vs \<and> length (ps_buffer st) = MAX_MESSAGE_SIZE \<and> unat i \<le> j)"
    if "typedef_loop lib' i st = Some r" for lib' i st r
  proof (rule typedef_loop.raw_induct [where P = "\<lambda>lib' i st r. \<not> (lib' = lib \<and> ps_cache st = map Some vs \<and>
      length (ps_buffer st) = MAX_MESSAGE_SIZE \<and> unat i \<le> j)", rotated, OF that])
    fix f lib' i st r
    assume ih: "\<And>lib' i st r. f lib' i st = Some r \<Longrightarrow>
        \<not> (lib' = lib \<and> ps_cache st = map Some vs \<and> length (ps_buffer st) = MAX_MESSAGE_SIZE \<and> unat i \<le> j)"
      and s: "(if unat i < length (ps_cache st)
        then Option.bind (send_typedef_packet lib' i st) (\<lambda>(i, st). f lib' i st) else Some st) = Some r"
    show "\<not> (lib' = lib \<and> ps_cache st = map Some vs \<and> length (ps_buffer st) = MAX_MESSAGE_SIZE \<and> unat i \<le> j)"
    proof
      assume a: "lib' = lib \<and> ps_cache st = map Some vs \<and> length (ps_buffer st) = MAX_MESSAGE_SIZE \<and> unat i \<le> j"
      then have i: "ps_cache st = map Some vs" "length (ps_buffer st) = MAX_MESSAGE_SIZE" "unat i \<le> length vs"
        using j(1) by simp_all
      from send_typedef_packet_spec [OF lib i(1) vs i(2,3)] obtain k J st1 where
        k: "send_typedef_packet lib i st = Some (i + of_nat k, st1)" "unat i + k \<le> length vs"
          "length (types_bytes tenc (take k (drop (unat i) vs)) @ J) \<le> 65472" "typedefs_frame st st1"
        by (elim exE conjE) (rule that)
      have "unat i + k \<le> j"
      proof (rule ccontr)
        assume "\<not> unat i + k \<le> j"
        with a have "j - unat i < k" "unat i \<le> j" by auto
        then have "vs ! j = take k (drop (unat i) vs) ! (j - unat i)" "j - unat i < length (take k (drop (unat i) vs))"
          using j(1) by simp_all
        then have "vs ! j \<in> set (take k (drop (unat i) vs))" by (metis nth_mem)
        from types_bytes_member [OF this, of tenc] k(3) j(2) show False by simp
      qed
      moreover have "unat (i + of_nat k) = unat i + k"
        using k(2) vs by (simp add: unat_word_ariths(1))
      moreover have "f lib (i + of_nat k) st1 = Some r"
        using s k(1) a j(1) by simp
      ultimately show False
        using ih [of lib "i + of_nat k" st1 r] k(4) i by (simp add: typedefs_frame_def)
    qed
  qed
  show "ps_cache st = map Some vs \<Longrightarrow> length (ps_buffer st) = MAX_MESSAGE_SIZE \<Longrightarrow> unat i \<le> j \<Longrightarrow>
    typedef_loop lib i st = None"
    using never [of lib i st] by (cases "typedef_loop lib i st") auto
qed

end
