(* ===== verification/Pva_Sync.thy ===== *)
theory Pva_Sync
  imports Pva_Types Pva_Construct
begin

text \<open>
  A heartbeat turn of the pvAccess sender: the type definitions, then full updates of all channels.
  A receiver that gets these packets is called back for every channel, whatever it has missed before.
\<close>

subsection \<open>What the events of a turn keep\<close>

text \<open>The cache holds types only, and the type number of a channel with a value is in it.\<close>

definition typed_chan :: "nat \<Rightarrow> pva_channel \<Rightarrow> bool" where
  "typed_chan n c \<longleftrightarrow> pc_value c = None \<or> unat (pc_type_id c) < n"

definition pva_types_ok :: "pva_sender \<Rightarrow> bool" where
  "pva_types_ok st \<longleftrightarrow>
     None \<notin> set (ps_cache st) \<and> unat (ps_builtin st) \<le> length (ps_cache st) \<and>
     (\<forall>i < length (ps_channels st). typed_chan (length (ps_cache st)) (ps_channels st ! i))"

lemma pva_sender_init_types:
  assumes "pva_sender_init lib cfg t = Some st"
  shows "pva_types_ok st"
proof -
  note i = pva_sender_init_spec [OF assms]
  have n: "length (ps_cache st) = 26" "ps_builtin st = 26" "None \<notin> set (ps_cache st)"
    unfolding i(7,8) by (auto simp: build_type_cache_def builtin_scalars_def)
  show ?thesis
    by (auto simp: pva_types_ok_def n i(6) typed_chan_def new_pva_channel_def)
qed

definition same_link :: "pva_sender \<Rightarrow> pva_sender \<Rightarrow> bool" where
  "same_link st st' \<longleftrightarrow>
     length (ps_channels st') = length (ps_channels st) \<and> ps_seq_no st' = ps_seq_no st \<and>
     ps_buffer st' = ps_buffer st \<and> ps_sent st' = ps_sent st \<and> ps_builtin st' = ps_builtin st \<and>
     ps_iteration st' = ps_iteration st \<and> ps_hb_iterations st' = ps_hb_iterations st \<and>
     length (ps_cache st) \<le> length (ps_cache st') \<and>
     (length (ps_cache st') < 2 ^ 16 \<longrightarrow> pva_types_ok st \<longrightarrow> pva_types_ok st')"

lemma same_link_refl: "same_link st st"
  by (simp add: same_link_def)

lemma same_link_trans: "same_link st st1 \<Longrightarrow> same_link st1 st2 \<Longrightarrow> same_link st st2"
  by (auto simp: same_link_def)

text \<open>One channel is replaced, possibly together with new types at the end of the cache.\<close>

lemma same_link_channel:
  assumes "i < length (ps_channels st)" "None \<notin> set t"
    and "length (ps_cache st @ t) < 2 ^ 16 \<Longrightarrow> pva_types_ok st \<Longrightarrow> typed_chan (length (ps_cache st @ t)) c"
  shows "same_link st ((pva_set_channel i c st)\<lparr>ps_cache := ps_cache st @ t, ps_deque := q\<rparr>)"
proof -
  have "typed_chan n c \<Longrightarrow> typed_chan (n + k) c" for n k c by (auto simp: typed_chan_def)
  with assms show ?thesis
    by (auto simp: same_link_def pva_types_ok_def pva_set_channel_def nth_list_update)
qed

lemma same_link_typed:
  assumes "i < length (ps_channels st)" "pc_type_id c = pc_type_id (ps_channels st ! i)"
    and "pc_value (ps_channels st ! i) = None \<Longrightarrow> pc_value c = None"
  shows "same_link st ((pva_set_channel i c st)\<lparr>ps_deque := q\<rparr>)"
proof -
  have "same_link st ((pva_set_channel i c st)\<lparr>ps_cache := ps_cache st @ [], ps_deque := q\<rparr>)"
    using assms by (intro same_link_channel) (auto simp: pva_types_ok_def typed_chan_def)
  then show ?thesis by (simp add: pva_set_channel_def)
qed

text \<open>Marking changes neither value nor type; a full update needs a value.\<close>

lemma valid_to_mask_None [simp]: "valid_to_mask None m = None"
  by (simp add: valid_to_mask_def)

lemma pva_mark_shape:
  assumes "pva_mark_update kind i st = Some st'"
  obtains c q where "i < length (ps_channels st)" "st' = (pva_set_channel i c st)\<lparr>ps_deque := q\<rparr>"
    "pc_value c = pc_value (ps_channels st ! i)" "pc_type_id c = pc_type_id (ps_channels st ! i)"
    "pc_index c = pc_index (ps_channels st ! i)"
    "kind = UT_Full \<Longrightarrow> pc_pending c = UT_Full" "kind = UT_Full \<Longrightarrow> pc_value (ps_channels st ! i) \<noteq> None \<or> st' = st"
    "kind = UT_Full \<Longrightarrow> pc_pending (ps_channels st ! i) = UT_Full \<and> pc_changed c = pc_changed (ps_channels st ! i) \<or>
       valid_to_mask (pc_value (ps_channels st ! i)) (pc_changed (ps_channels st ! i)) = Some (pc_changed c)"
proof -
  let ?c = "ps_channels st ! i"
  from assms have i: "i < length (ps_channels st)" by (auto simp: pva_mark_update_def bind_eq_Some_conv vec_at_lt)
  consider "pc_pending ?c = UT_None" | "pc_pending ?c \<noteq> UT_None" "kind = UT_Full" "pc_pending ?c \<noteq> UT_Full"
    | "pc_pending ?c \<noteq> UT_None" "kind \<noteq> UT_Full \<or> pc_pending ?c = UT_Full" by blast
  then show ?thesis
  proof cases
    case 1
    from assms i 1 obtain m where m: "(if kind = UT_Full then valid_to_mask (pc_value ?c) (pc_changed ?c) else Some (pc_changed ?c)) = Some m"
      "st' = (pva_set_channel i (?c\<lparr>pc_pending := kind, pc_changed := m, pc_updates_since_last_hb := pc_updates_since_last_hb ?c + 1\<rparr>) st)
        \<lparr>ps_deque := ps_deque st @ [pc_index ?c]\<rparr>"
      unfolding pva_mark_update_def by (auto simp: bind_eq_Some_conv split del: if_split)
    have "pc_value ?c \<noteq> None" if "kind = UT_Full" using m(1) that by (cases "pc_value ?c") simp_all
    with m i show ?thesis by (intro that [OF i m(2)]) simp_all
  next
    case 2
    from assms i 2 obtain m where m: "valid_to_mask (pc_value ?c) (pc_changed ?c) = Some m"
      "st' = pva_set_channel i (?c\<lparr>pc_pending := kind, pc_changed := m\<rparr>) st"
      by (auto simp: pva_mark_update_def bind_eq_Some_conv)
    have "pc_value ?c \<noteq> None" using m(1) by (cases "pc_value ?c") simp_all
    with m i 2(2) show ?thesis
      by (intro that [of "ps_deque st" "?c\<lparr>pc_pending := kind, pc_changed := m\<rparr>"]) (simp_all add: pva_set_channel_def)
  next
    case 3
    then have "st' = st" using assms i by (auto simp: pva_mark_update_def)
    with 3 i show ?thesis
      by (intro that [of "ps_deque st" ?c]) (auto simp: pva_set_channel_def)
  qed
qed

lemma pva_mark_same_link: "pva_mark_update kind i st = Some st' \<Longrightarrow> same_link st st'"
  by (elim pva_mark_shape) (auto intro: same_link_typed)

lemma cache_find_bound:
  "cache_find lib v cs n = (r, m) \<Longrightarrow> unat n + length cs < 2 ^ 16 \<Longrightarrow>
   (case r of None \<Rightarrow> unat m = unat n + length cs | Some i \<Rightarrow> unat i < unat n + length cs)"
proof (induction cs arbitrary: n)
  case (Cons c cs)
  have n: "unat (n + 1) = unat n + 1" using Cons.prems(2) by (simp add: unat_word_ariths(1))
  show ?case
  proof (cases "lib_equal_type lib v c")
    case True
    with Cons.prems show ?thesis by auto
  next
    case False
    with Cons.prems have "cache_find lib v cs (n + 1) = (r, m)" "unat (n + 1) + length cs < 2 ^ 16" by (simp_all add: n)
    from Cons.IH [OF this] show ?thesis by (simp add: n split: option.splits)
  qed
qed auto

lemma cache_type_bound:
  assumes "cache_type lib v cache = (i, cache')"
  shows "\<exists>t. cache' = cache @ t \<and> None \<notin> set t \<and> (length cache' < 2 ^ 16 \<longrightarrow> unat i < length cache')"
proof -
  obtain r m where f: "cache_find lib v cache 0 = (r, m)" by fastforce
  show ?thesis
    using assms cache_find_bound [OF f] by (cases r) (auto simp: cache_type_def f)
qed

lemma pva_update_same_link:
  assumes "pva_update lib i v st = Some st'"
  shows "same_link st st'"
proof -
  from assms obtain c where c: "i < length (ps_channels st)" "c = ps_channels st ! i"
    by (auto simp: pva_update_def bind_eq_Some_conv vec_at_lt)
  consider
      d t k where "cache_type lib v (ps_cache st) = (t, k)" "pva_mark_update UT_Full i ((pva_set_channel i (c\<lparr>pc_connected := True,
        pc_value := Some v, pc_type_id := t, pc_changed := d, pc_update_seq_no := 0\<rparr>) st)\<lparr>ps_cache := k\<rparr>) = Some st'"
    | old new m where "pc_value c = Some old"
        "pva_mark_update UT_Partial i (pva_set_channel i (c\<lparr>pc_value := Some new, pc_changed := m\<rparr>) st) = Some st'"
  proof (cases "pc_connected c")
    case True
    with assms c obtain old new m where "pc_value c = Some old"
      "pva_mark_update UT_Partial i (pva_set_channel i (c\<lparr>pc_value := Some new, pc_changed := m\<rparr>) st) = Some st'"
      by (auto simp: pva_update_def bind_eq_Some_conv)
    then show ?thesis by (rule that(2))
  next
    case False
    obtain t k where k: "cache_type lib v (ps_cache st) = (t, k)" by fastforce
    with False assms c obtain d where "pva_mark_update UT_Full i ((pva_set_channel i (c\<lparr>pc_connected := True,
        pc_value := Some v, pc_type_id := t, pc_changed := d, pc_update_seq_no := 0\<rparr>) st)\<lparr>ps_cache := k\<rparr>) = Some st'"
      by (auto simp: pva_update_def bind_eq_Some_conv)
    with k show ?thesis by (rule that(1))
  qed
  then show ?thesis
  proof cases
    case (1 d t k)
    let ?c = "c\<lparr>pc_connected := True, pc_value := Some v, pc_type_id := t, pc_changed := d, pc_update_seq_no := 0\<rparr>"
    from cache_type_bound [OF 1(1)] obtain u where u: "k = ps_cache st @ u" "None \<notin> set u"
      "length k < 2 ^ 16 \<longrightarrow> unat t < length k" by blast
    have "same_link st ((pva_set_channel i ?c st)\<lparr>ps_cache := ps_cache st @ u, ps_deque := ps_deque st\<rparr>)"
      using u by (intro same_link_channel c(1)) (auto simp: typed_chan_def)
    also have "(pva_set_channel i ?c st)\<lparr>ps_cache := ps_cache st @ u, ps_deque := ps_deque st\<rparr> =
        (pva_set_channel i ?c st)\<lparr>ps_cache := k\<rparr>"
      by (simp add: u(1) pva_set_channel_def)
    finally show ?thesis using pva_mark_same_link [OF 1(2)] by (rule same_link_trans)
  next
    case (2 old new m)
    have "same_link st ((pva_set_channel i (c\<lparr>pc_value := Some new, pc_changed := m\<rparr>) st)\<lparr>ps_deque := ps_deque st\<rparr>)"
      using 2(1) c by (intro same_link_typed) auto
    then have "same_link st (pva_set_channel i (c\<lparr>pc_value := Some new, pc_changed := m\<rparr>) st)"
      by (simp add: pva_set_channel_def)
    then show ?thesis using pva_mark_same_link [OF 2(2)] by (rule same_link_trans)
  qed
qed

lemma pva_handle_event_same_link:
  assumes "pva_handle_event lib i e st = Some st'"
  shows "same_link st st'"
proof (cases e)
  case (PV_Update v)
  with assms show ?thesis by (auto intro: pva_update_same_link)
next
  case PV_Disconnect
  with assms obtain c where c: "i < length (ps_channels st)" "c = ps_channels st ! i"
    and m: "pva_mark_update UT_Partial i (pva_set_channel i (c\<lparr>pc_connected := False\<rparr>) st) = Some st'"
    by (auto simp: bind_eq_Some_conv vec_at_lt)
  have "same_link st ((pva_set_channel i (c\<lparr>pc_connected := False\<rparr>) st)\<lparr>ps_deque := ps_deque st\<rparr>)"
    using c by (intro same_link_typed) auto
  then have "same_link st (pva_set_channel i (c\<lparr>pc_connected := False\<rparr>) st)"
    by (simp add: pva_set_channel_def)
  then show ?thesis using pva_mark_same_link [OF m] by (rule same_link_trans)
qed (use assms in \<open>auto simp: same_link_refl\<close>)

lemma same_link_frame:
  "same_link st (st\<lparr>ps_monitors := m\<rparr>)" "same_link st (st\<lparr>ps_work := wk\<rparr>)" "same_link st (pva_arrivals evs st)"
  by (simp_all add: same_link_def pva_types_ok_def pva_arrivals_def)

lemma foldM_same_link:
  assumes "foldM f xs st = Some st'" "\<And>x s s'. f x s = Some s' \<Longrightarrow> same_link s s'"
  shows "same_link st st'"
  by (rule foldM_keeps [where P = "same_link st", OF assms(1)])
    (auto simp: same_link_refl intro: same_link_trans assms(2))

lemma pva_work_same_link:
  assumes "pva_work lib (pva_arrivals evs st) = Some st'"
  shows "same_link st st'"
proof -
  have pop: "same_link s s'" if "pva_pop_all lib i s = Some s'" for i s s'
  proof -
    from that obtain evs where "foldM (pva_handle_event lib i) evs (s\<lparr>ps_monitors := (ps_monitors s)[i := []]\<rparr>) = Some s'"
      by (auto simp: pva_pop_all_def bind_eq_Some_conv)
    then have "same_link (s\<lparr>ps_monitors := (ps_monitors s)[i := []]\<rparr>) s'"
      by (rule foldM_same_link) (rule pva_handle_event_same_link)
    with same_link_frame(1) show ?thesis by (rule same_link_trans)
  qed
  from assms have "same_link ((pva_arrivals evs st)\<lparr>ps_work := []\<rparr>) st'"
    unfolding pva_work_def by (rule foldM_same_link) (rule pop)
  with same_link_trans [OF same_link_frame(3) same_link_frame(2)] show ?thesis by (rule same_link_trans)
qed

subsection \<open>Heartbeats\<close>

lemma pva_heartbeat_shape:
  assumes "pva_mark_heartbeat_update i st = Some (b, st')"
  obtains c q where "b" "i < length (ps_channels st)" "st' = (pva_set_channel i c st)\<lparr>ps_deque := q\<rparr>"
    "pc_value c = pc_value (ps_channels st ! i)" "pc_type_id c = pc_type_id (ps_channels st ! i)"
    "pc_pending c = UT_Full" "pc_pending (ps_channels st ! i) = UT_Full \<and> pc_changed c = pc_changed (ps_channels st ! i) \<or>
       valid_to_mask (pc_value (ps_channels st ! i)) (pc_changed (ps_channels st ! i)) = Some (pc_changed c)"
proof -
  from assms obtain st1 where m: "pva_mark_update UT_Full i st = Some st1" and b: "b" "i < length (ps_channels st1)"
    and s: "st' = pva_set_channel i ((ps_channels st1 ! i)\<lparr>pc_updates_since_last_hb := 0\<rparr>) st1"
    by (auto simp: pva_mark_heartbeat_update_def bind_eq_Some_conv vec_at_lt)
  from m show ?thesis
  proof (rule pva_mark_shape)
    fix c q
    assume c: "i < length (ps_channels st)" "st1 = (pva_set_channel i c st)\<lparr>ps_deque := q\<rparr>"
      "pc_value c = pc_value (ps_channels st ! i)" "pc_type_id c = pc_type_id (ps_channels st ! i)"
      "UT_Full = UT_Full \<Longrightarrow> pc_pending c = UT_Full"
      "UT_Full = UT_Full \<Longrightarrow> pc_pending (ps_channels st ! i) = UT_Full \<and> pc_changed c = pc_changed (ps_channels st ! i) \<or>
         valid_to_mask (pc_value (ps_channels st ! i)) (pc_changed (ps_channels st ! i)) = Some (pc_changed c)"
    from b(1) c(1) show ?thesis
      by (rule that [where c = "c\<lparr>pc_updates_since_last_hb := 0\<rparr>" and q = q])
        (use c in \<open>simp_all add: s pva_set_channel_def\<close>)
  qed
qed

lemma pva_heartbeat_ready:
  assumes "pva_queue_inv st" "pva_ready st i"
  shows "\<exists>st'. pva_mark_heartbeat_update i st = Some (True, st') \<and> pva_ready st' = pva_ready st"
proof -
  from pva_mark_full_ready [OF assms] obtain st1 where m: "pva_mark_update UT_Full i st = Some st1" "pva_ready st1 = pva_ready st"
    by blast
  then have r: "pva_ready st1 i" using assms(2) by simp
  then have i: "i < length (ps_channels st1)" by (simp add: pva_ready_def)
  let ?st = "pva_set_channel i ((ps_channels st1 ! i)\<lparr>pc_updates_since_last_hb := 0\<rparr>) st1"
  have "pva_ready ?st = pva_ready st1"
    by (rule pva_ready_update [of "(ps_channels st1 ! i)\<lparr>pc_updates_since_last_hb := 0\<rparr>" _ i])
      (simp_all add: pva_ready_chan_def)
  with m i show ?thesis by (simp add: pva_mark_heartbeat_update_def)
qed

text \<open>A full update that is pending has the marks of its value.\<close>

definition full_marks :: "pva_channel \<Rightarrow> bool" where
  "full_marks c \<longleftrightarrow> (pc_pending c = UT_Full \<longrightarrow> marks_given (the (pc_value c)) (pc_changed c))"

lemma valid_mask_given:
  assumes "ready d v m" "valid_to_mask v m = Some m'"
  shows "marks_given (the v) m'"
  using assms valid_to_mask_eq [OF assms(1)] by (auto simp: marks_given_def ready_def value_typed_def)

text \<open>The first \<open>k\<close> channels are marked for a full update.\<close>

definition refreshed :: "nat \<Rightarrow> pva_sender \<Rightarrow> pva_sender \<Rightarrow> bool" where
  "refreshed k st st' \<longleftrightarrow>
     length (ps_channels st') = length (ps_channels st) \<and> ps_seq_no st' = ps_seq_no st \<and>
     ps_buffer st' = ps_buffer st \<and> ps_sent st' = ps_sent st \<and> ps_cache st' = ps_cache st \<and>
     (\<forall>i < length (ps_channels st). pc_value (ps_channels st' ! i) = pc_value (ps_channels st ! i) \<and>
        pc_type_id (ps_channels st' ! i) = pc_type_id (ps_channels st ! i)) \<and>
     (\<forall>i < k. pc_pending (ps_channels st' ! i) = UT_Full \<and> full_marks (ps_channels st' ! i)) \<and>
     (\<forall>i \<ge> k. ps_channels st' ! i = ps_channels st ! i)"

lemma refreshed_step:
  assumes "refreshed k st st1" "pva_mark_heartbeat_update k st1 = Some (b, st2)" "pva_ready st k" "full_marks (ps_channels st ! k)"
  shows "refreshed (Suc k) st st2"
  using assms(2)
proof (rule pva_heartbeat_shape)
  fix c q
  let ?c = "ps_channels st1 ! k"
  assume c: "k < length (ps_channels st1)" "st2 = (pva_set_channel k c st1)\<lparr>ps_deque := q\<rparr>"
    "pc_value c = pc_value ?c" "pc_type_id c = pc_type_id ?c" "pc_pending c = UT_Full"
    and m: "pc_pending ?c = UT_Full \<and> pc_changed c = pc_changed ?c \<or>
      valid_to_mask (pc_value ?c) (pc_changed ?c) = Some (pc_changed c)"
  have same: "?c = ps_channels st ! k" using assms(1) by (simp add: refreshed_def)
  then obtain d where d: "ready d (pc_value ?c) (pc_changed ?c)"
    using assms(3) by (auto simp: pva_ready_def pva_ready_chan_def)
  have "full_marks c"
    using m assms(4) valid_mask_given [OF d] c(3) same by (auto simp: full_marks_def)
  with c show ?thesis
    using assms(1) by (auto simp: refreshed_def nth_list_update less_Suc_eq)
qed

lemma heartbeat_prefix:
  assumes "pva_queue_inv st" "\<forall>i < length (ps_channels st). pva_ready st i \<and> full_marks (ps_channels st ! i)"
    and "k \<le> length (ps_channels st)"
  shows "\<exists>st' a b. foldM pva_heartbeat_step [0 ..< k] (st, 0, 0) = Some (st', a, b) \<and> pva_queue_inv st' \<and>
    pva_ready st' = pva_ready st \<and> refreshed k st st'"
  using assms(3)
proof (induction k)
  case 0
  show ?case using assms(1) by (simp add: refreshed_def)
next
  case (Suc k)
  then obtain st1 a b where s: "foldM pva_heartbeat_step [0 ..< k] (st, 0, 0) = Some (st1, a, b)" "pva_queue_inv st1"
    "pva_ready st1 = pva_ready st" "refreshed k st st1" by auto
  have r0: "pva_ready st k" "full_marks (ps_channels st ! k)" using assms(2) Suc.prems by simp_all
  then have "pva_ready st1 k" using s(3) by simp
  from pva_heartbeat_ready [OF s(2) this] obtain st2 where
    h: "pva_mark_heartbeat_update k st1 = Some (True, st2)" "pva_ready st2 = pva_ready st1" by blast
  note inv = pva_heartbeat_inv [OF s(2) h(1)] and r = refreshed_step [OF s(4) h(1) r0]
  have "k < length (ps_channels st2)" using r Suc.prems by (simp add: refreshed_def)
  then obtain a' b' where "pva_heartbeat_step k (st1, a, b) = Some (st2, a', b')"
    by (auto simp: pva_heartbeat_step_def h(1))
  then have "foldM pva_heartbeat_step [0 ..< Suc k] (st, 0, 0) = Some (st2, a', b')"
    using s(1) by (simp add: foldM_append)
  with inv(1) h(2) s(3) r show ?case by auto
qed

lemma heartbeat_all:
  assumes "pva_queue_inv st" "\<forall>i < length (ps_channels st). pva_ready st i \<and> full_marks (ps_channels st ! i)"
    and "ps_channels st \<noteq> []"
  shows "\<exists>st'. map_option fst (pva_mark_heartbeat_updates st) = Some st' \<and> pva_queue_inv st' \<and>
    refreshed (length (ps_channels st)) st st' \<and> set (ps_deque st') = {0 ..< length (ps_channels st)} \<and>
    distinct (ps_deque st') \<and> pva_ready st' = pva_ready st"
proof -
  from heartbeat_prefix [OF assms(1,2) order_refl] obtain st' a b where
    s: "foldM pva_heartbeat_step [0 ..< length (ps_channels st)] (st, 0, 0) = Some (st', a, b)" "pva_queue_inv st'"
      "refreshed (length (ps_channels st)) st st'" "pva_ready st' = pva_ready st" by blast
  then have "set (ps_deque st') = {0 ..< length (ps_channels st)}" "distinct (ps_deque st')"
    by (auto simp: pva_queue_inv_def pva_chans_inv_def refreshed_def update_type_defs)
  with s assms(3) show ?thesis by (auto simp: pva_mark_heartbeat_updates_def Let_def)
qed

text \<open>A channel that has never had a value stops the heartbeats, and with them the turn.\<close>

lemma heartbeat_stuck_prefix:
  assumes "i < n" "foldM pva_heartbeat_step [0 ..< i] (st, 0, 0) = None \<or>
    (\<forall>r. foldM pva_heartbeat_step [0 ..< i] (st, 0, 0) = Some r \<longrightarrow> pva_heartbeat_step i r = None)"
  shows "foldM pva_heartbeat_step [0 ..< n] (st, 0, 0) = None"
proof -
  have "[0 ..< n] = [0 ..< i] @ i # [Suc i ..< n]"
    using assms(1) upt_add_eq_append [of 0 i "n - i"] by (simp add: upt_conv_Cons)
  then show ?thesis
    using assms(2) by (cases "foldM pva_heartbeat_step [0 ..< i] (st, 0, 0)") (auto simp: foldM_append)
qed

lemma heartbeat_step_marks:
  "pva_heartbeat_step i (st, a, b) = Some (st', a', b') \<Longrightarrow> \<exists>r. pva_mark_heartbeat_update i st = Some (r, st')"
  by (auto simp: pva_heartbeat_step_def bind_eq_Some_conv)

lemma heartbeat_keeps_later:
  assumes "foldM pva_heartbeat_step [0 ..< k] (st, 0, 0) = Some (st', a, b)" "k \<le> i"
  shows "ps_channels st' ! i = ps_channels st ! i"
  using assms
proof (induction k arbitrary: st' a b)
  case (Suc k)
  from Suc.prems(1) obtain st1 a1 b1 r where s: "foldM pva_heartbeat_step [0 ..< k] (st, 0, 0) = Some (st1, a1, b1)"
    and h: "pva_mark_heartbeat_update k st1 = Some (r, st')"
    by (fastforce simp: foldM_append bind_eq_Some_conv dest: heartbeat_step_marks)
  have "ps_channels st' ! i = ps_channels st1 ! i"
    using h by (rule pva_heartbeat_shape) (use Suc.prems(2) in simp)
  with Suc.IH [OF s] Suc.prems(2) show ?case by simp
qed simp

lemma heartbeat_needs_value:
  assumes "i < length (ps_channels st)" "pc_value (ps_channels st ! i) = None" "pc_pending (ps_channels st ! i) \<noteq> UT_Full"
  shows "pva_mark_heartbeat_updates st = None"
proof -
  have "pva_heartbeat_step i (st', a, b) = None"
    if "foldM pva_heartbeat_step [0 ..< i] (st, 0, 0) = Some (st', a, b)" for st' a b
  proof -
    have c: "ps_channels st' ! i = ps_channels st ! i" using heartbeat_keeps_later [OF that] by simp
    have "pva_mark_heartbeat_update i st' = None"
      using assms(2,3) by (simp add: pva_mark_heartbeat_update_def pva_mark_update_def vec_at_def c)
    then show ?thesis by (simp add: pva_heartbeat_step_def)
  qed
  then have "foldM pva_heartbeat_step [0 ..< length (ps_channels st)] (st, 0, 0) = None"
    using assms(1) by (intro heartbeat_stuck_prefix) auto
  then show ?thesis by (simp add: pva_mark_heartbeat_updates_def Let_def)
qed

subsection \<open>The turn\<close>

text \<open>
  What a heartbeat needs: every channel has a value among those of \<open>U\<close> with a mask of its size, which
  has the marks of the value if a full update is pending already; the types fit a packet each, and the
  full updates of all channels fit one packet: \<open>g\<close> gives the room for each channel's value.
\<close>

definition beat_fits ::
  "(pva_value \<Rightarrow> bitmask \<Rightarrow> bytes) \<Rightarrow> (pva_value \<Rightarrow> bool) \<Rightarrow> nat \<Rightarrow> pva_channel \<Rightarrow> bool" where
  "beat_fits enc U n c \<longleftrightarrow>
     full_marks c \<and> U (the (pc_value c)) \<and>
     (\<forall>m. mask_wf (length (pv_fields (the (pc_value c)))) m \<longrightarrow> length (enc (the (pc_value c)) m) \<le> n)"

definition heartbeat_fits ::
  "(pva_value \<Rightarrow> bytes) \<Rightarrow> (pva_value \<Rightarrow> bitmask \<Rightarrow> bytes) \<Rightarrow> (pva_value \<Rightarrow> bool) \<Rightarrow> (nat \<Rightarrow> nat) \<Rightarrow> pva_sender \<Rightarrow> bool" where
  "heartbeat_fits tenc enc U g st \<longleftrightarrow>
     ps_channels st \<noteq> [] \<and> length (ps_channels st) \<le> 2 ^ 32 \<and> length (ps_cache st) < 2 ^ 16 \<and>
     list_all (pva_ready st) [0 ..< length (ps_channels st)] \<and>
     list_all (\<lambda>v. length (tenc (the v)) \<le> data_room) (drop (unat (ps_builtin st)) (ps_cache st)) \<and>
     list_all (\<lambda>i. beat_fits enc U (g i) (ps_channels st ! i)) [0 ..< length (ps_channels st)] \<and>
     sum_list (map (\<lambda>i. 9 + g i) [0 ..< length (ps_channels st)]) \<le> data_room"

lemma ready_mask:
  "pva_ready st i \<Longrightarrow> mask_wf (length (pv_fields (the (pc_value (ps_channels st ! i))))) (pc_changed (ps_channels st ! i))"
  by (auto simp: pva_ready_def pva_ready_chan_def ready_def value_typed_def)

lemma queued_entries_bound:
  assumes enc: "\<forall>i < n. length (enc (the (pc_value (ps_channels st ! i))) (pc_changed (ps_channels st ! i))) \<le> g i"
    and q: "set (ps_deque st) \<subseteq> {0 ..< n}" "distinct (ps_deque st)"
    and v: "\<forall>i \<in> set (ps_deque st). pc_value (ps_channels st ! i) \<noteq> None"
  shows "length (queued_entries enc st) \<le> sum_list (map (\<lambda>i. 9 + g i) [0 ..< n])"
proof -
  have "length (pva_entry_bytes enc (ps_channels st ! i)) \<le> 9 + g i" if "i \<in> set (ps_deque st)" for i
  proof -
    have "i < n" using that q(1) by auto
    moreover from v that obtain w where "pc_value (ps_channels st ! i) = Some w" by blast
    ultimately show ?thesis using enc by (force simp: pva_entry_bytes_def)
  qed
  then have "length (queued_entries enc st) \<le> sum_list (map (\<lambda>i. 9 + g i) (ps_deque st))"
    unfolding queued_entries_def length_concat map_map comp_def by (intro sum_list_mono) simp
  also have "\<dots> = sum (\<lambda>i. 9 + g i) (set (ps_deque st))"
    by (rule sum_list_distinct_conv_sum_set [OF q(2)])
  also have "\<dots> \<le> sum (\<lambda>i. 9 + g i) {0 ..< n}" using q(1) by (intro sum_mono2) auto
  also have "\<dots> = sum_list (map (\<lambda>i. 9 + g i) [0 ..< n])"
    using sum_list_distinct_conv_sum_set [of "[0 ..< n]" "\<lambda>i. 9 + g i"] by simp
  finally show ?thesis .
qed

text \<open>
  The calls that tell the receiver's user about every channel of the sender: one call for each, with a
  value that agrees with the channel's.
\<close>

definition tells_all :: "pva_channel list \<Rightarrow> prx_call list \<Rightarrow> bool" where
  "tells_all chs calls \<longleftrightarrow>
     distinct (map pcb_id calls) \<and> set (map pcb_id calls) = of_nat ` {0 ..< length chs} \<and>
     (\<forall>c \<in> set calls. \<exists>r v. pcb_value c = Some r \<and> pc_value (chs ! unat (pcb_id c)) = Some v \<and> agrees r v)"

definition queue_entry :: "pva_channel \<Rightarrow> pva_update_entry" where
  "queue_entry c = (pva_channel_message c, the (pc_value c), pc_changed c)"

lemma queue_entry_seq_no [simp]: "pcd_update_seq_no (fst (queue_entry c)) = pc_update_seq_no c"
  by (simp add: queue_entry_def pva_channel_message_def)

lemma queue_entries_map: "queue_entries st = map (\<lambda>q. queue_entry (ps_channels st ! q)) (ps_deque st)"
  by (simp add: queue_entries_def queue_entry_def Let_def)

text \<open>The value a full update starts from: the receiver's own, or an empty one of the type it knows or learns.\<close>

definition first_base :: "pva_lib \<Rightarrow> (pva_value \<Rightarrow> pva_value) \<Rightarrow> pva_sender \<Rightarrow> pva_receiver \<Rightarrow> nat \<Rightarrow> pva_value" where
  "first_base lib blank st rc i =
     (let j = unat (pc_type_id (ps_channels st ! i)) in
      case px_last_value (pr_channels rc ! i) of
        Some r \<Rightarrow> r
      | None \<Rightarrow> lib_clone_empty lib (case cache_at (pr_cache rc) j of Some t \<Rightarrow> t | None \<Rightarrow> blank (the (ps_cache st ! j))))"

text \<open>What a full update starts from at a receiver that has been taught the types.\<close>

lemma full_base:
  assumes "teaches blank a (drop a (map the cache)) (pr_cache rc) (pr_cache rc1)" "pr_channels rc1 = pr_channels rc"
    and "ps_cache st = cache" "a \<le> length cache" "unat (pc_type_id (ps_channels st ! i)) < length cache"
    and "i < 2 ^ 32" "pc_index c = i" "pc_pending c = UT_Full" "pc_type_id c = pc_type_id (ps_channels st ! i)"
    and "entry_base lib rc1 (queue_entry c) = Some w"
  shows "w = first_base lib blank st rc i"
proof -
  let ?j = "unat (pc_type_id (ps_channels st ! i))"
  have u: "unat (of_nat i :: u32) = i" using assms(6) by (intro unat_word_of_nat_small) simp
  from assms(2,7-10) u obtain t where t: "?j < length (pr_cache rc1)" "pr_cache rc1 ! ?j = Some t"
    "w = (case px_last_value (pr_channels rc ! i) of None \<Rightarrow> lib_clone_empty lib t | Some v \<Rightarrow> v)"
    by (auto simp: entry_base_def queue_entry_def pva_channel_message_def update_base_def sent_type_def update_type_defs
        split: if_splits option.splits)
  then have k: "cache_at (pr_cache rc1) ?j = Some t" by (simp add: cache_at_def)
  with assms(1) have "Some t = (if cache_at (pr_cache rc) ?j = None \<and> a \<le> ?j \<and> ?j < a + length (drop a (map the cache))
      then Some (blank (drop a (map the cache) ! (?j - a))) else cache_at (pr_cache rc) ?j)"
    by (simp add: teaches_def)
  moreover have "drop a (map the cache) ! (?j - a) = the (cache ! ?j)" if "a \<le> ?j"
    using that assms(5) by simp
  ultimately have "t = (case cache_at (pr_cache rc) ?j of Some t \<Rightarrow> t | None \<Rightarrow> blank (the (cache ! ?j)))"
    by (cases "cache_at (pr_cache rc) ?j") (auto split: if_splits)
  with t(3) assms(3) show ?thesis by (simp add: first_base_def Let_def split: option.split)
qed

text \<open>
  The turn up to its data packet: types are taught, every channel is marked for a full update, and the
  receiver can take all of them.
\<close>

definition heartbeat_state ::
  "pva_lib \<Rightarrow> (pva_value \<Rightarrow> bitmask \<Rightarrow> bytes) \<Rightarrow> (pva_value \<Rightarrow> bool) \<Rightarrow> (pva_value \<Rightarrow> pva_value) \<Rightarrow> header \<Rightarrow> bytes \<Rightarrow>
   pva_sender \<Rightarrow> pva_receiver \<Rightarrow> pva_sender \<Rightarrow> pva_sender \<Rightarrow> bytes list \<Rightarrow> pva_receiver \<Rightarrow> bool" where
  "heartbeat_state lib enc U blank h reserved st rc st1 st2 pkts rc1 \<longleftrightarrow>
     send_typedef_updates lib st = Some st1 \<and> typedefs_frame st st1 \<and>
     map_option fst (pva_mark_heartbeat_updates st1) = Some st2 \<and> pva_queue_inv st2 \<and>
     refreshed (length (ps_channels st)) st1 st2 \<and> set (ps_deque st2) = {0 ..< length (ps_channels st)} \<and>
     one_packet enc st2 \<and> length (ps_channels st2) \<le> 2 ^ 32 \<and> take Header_size (ps_buffer st2) = enc_header reserved h \<and>
     ps_sent st2 = ps_sent st @ pkts \<and> foldM (pva_receive_packet lib) pkts rc = Some rc1 \<and>
     pva_link_ready h reserved rc1 \<and> learns h rc rc1 \<and>
     teaches blank (unat (ps_builtin st)) (drop (unat (ps_builtin st)) (map the (ps_cache st))) (pr_cache rc) (pr_cache rc1) \<and>
     pva_in_order (ps_seq_no st2) (pva_admit h rc1) \<and> (\<forall>e \<in> set (queue_entries st2). readable_entry U lib rc1 e)"

text \<open>The value each full update starts from has the type of the value that is sent.\<close>

definition bases_typed :: "pva_lib \<Rightarrow> (pva_value \<Rightarrow> pva_value) \<Rightarrow> pva_sender \<Rightarrow> pva_receiver \<Rightarrow> bool" where
  "bases_typed lib blank st rc \<longleftrightarrow>
     (\<forall>i < length (ps_channels st). same_type (first_base lib blank st rc i) (the (pc_value (ps_channels st ! i))))"

lemma bases_iteration [simp]: "bases_typed lib blank (st\<lparr>ps_iteration := k\<rparr>) rc \<longleftrightarrow> bases_typed lib blank st rc"
proof -
  have "first_base lib blank (st\<lparr>ps_iteration := k\<rparr>) rc = first_base lib blank st rc"
    by (rule ext) (simp add: first_base_def Let_def split: option.split)
  then show ?thesis by (simp add: bases_typed_def)
qed

lemma heartbeat_marks:
  assumes lib: "lib_writes lib enc" "lib_reads lib enc app U" "lib_types lib tenc blank" "lib_assigns lib app U"
    and snd: "pva_queue_inv st" "pva_types_ok st" "heartbeat_fits tenc enc U g st" "length (ps_buffer st) = MAX_MESSAGE_SIZE"
    and hdr: "take Header_size (ps_buffer st) = enc_header reserved h"
    and rcv: "pva_link_ready h reserved rc" "pva_in_order (ps_seq_no st) (pva_admit h rc)"
      "length (pr_channels rc) = length (ps_channels st)" "\<forall>j < unat (ps_builtin st). cache_at (pr_cache rc) j \<noteq> None"
    and base: "bases_typed lib blank st rc"
  shows "\<exists>st1 st2 pkts rc1. heartbeat_state lib enc U blank h reserved st rc st1 st2 pkts rc1"
proof -
  let ?n = "length (ps_channels st)" and ?vs = "map the (ps_cache st)" and ?a = "unat (ps_builtin st)"
  have n: "ps_channels st \<noteq> []" "?n \<le> 2 ^ 32" "length ?vs < 2 ^ 16" "\<forall>i < ?n. pva_ready st i"
    and room: "sum_list (map (\<lambda>i. 9 + g i) [0 ..< ?n]) \<le> data_room"
    and bf: "\<forall>i < ?n. beat_fits enc U (g i) (ps_channels st ! i)"
    using snd(3) by (auto simp: heartbeat_fits_def list_all_iff)
  have vs: "ps_cache st = map Some ?vs"
  proof -
    have "None \<notin> set (ps_cache st)" using snd(2) by (simp add: pva_types_ok_def)
    then have "map (\<lambda>x. Some (the x)) (ps_cache st) = ps_cache st"
      by (intro map_idI) (metis option.exhaust_sel)
    then show ?thesis by (simp add: comp_def)
  qed
  have fits: "\<forall>v \<in> set (drop ?a ?vs). length (tenc v) \<le> 65472"
    using snd(3) by (auto simp: heartbeat_fits_def list_all_iff data_room_eq drop_map)
  have a: "?a \<le> length ?vs" using snd(2) by (simp add: pva_types_ok_def)
  from typedef_loop_exchange [OF lib(3) n(3) fits vs snd(4) hdr rcv(1) order_refl a] obtain st1 pkts rc1 where
    t: "typedef_loop lib (ps_builtin st) st = Some st1" "typedefs_frame st st1" "ps_sent st1 = ps_sent st @ pkts"
      "foldM (pva_receive_packet lib) pkts rc = Some rc1" "pva_link_ready h reserved rc1" "learns h rc rc1"
      "teaches blank ?a (drop ?a ?vs) (pr_cache rc) (pr_cache rc1)"
    by (elim exE conjE) (rule that)
  have f1: "ps_channels st1 = ps_channels st" "ps_deque st1 = ps_deque st" "ps_seq_no st1 = ps_seq_no st"
    "length (ps_buffer st1) = MAX_MESSAGE_SIZE" "take Header_size (ps_buffer st1) = enc_header reserved h"
    using t(2) snd(4) hdr by (simp_all add: typedefs_frame_def)
  have "pva_queue_inv st1" "\<forall>i < length (ps_channels st1). pva_ready st1 i \<and> full_marks (ps_channels st1 ! i)"
    "ps_channels st1 \<noteq> []"
    using snd(1) n f1 bf by (simp_all add: pva_queue_inv_def pva_ready_def beat_fits_def)
  from heartbeat_all [OF this] obtain st2 where
    h: "map_option fst (pva_mark_heartbeat_updates st1) = Some st2" "pva_queue_inv st2" "refreshed ?n st1 st2"
      "set (ps_deque st2) = {0 ..< ?n}" "distinct (ps_deque st2)" "pva_ready st2 = pva_ready st1"
    unfolding f1 by blast
  have val: "\<forall>i < ?n. pc_value (ps_channels st ! i) \<noteq> None"
    using n(4) by (auto simp: pva_ready_def pva_ready_chan_def ready_def)
  have c2: "length (ps_channels st2) = ?n" "\<And>i. i < ?n \<Longrightarrow> pc_value (ps_channels st2 ! i) = pc_value (ps_channels st ! i)"
    "\<And>i. i < ?n \<Longrightarrow> pc_type_id (ps_channels st2 ! i) = pc_type_id (ps_channels st ! i)"
    "\<And>i. i < ?n \<Longrightarrow> pc_pending (ps_channels st2 ! i) = UT_Full"
    "ps_seq_no st2 = ps_seq_no st" "ps_buffer st2 = ps_buffer st1" "ps_sent st2 = ps_sent st1"
    using h(3) f1 by (simp_all add: refreshed_def)
  have mwf: "mask_wf (length (pv_fields (the (pc_value (ps_channels st2 ! i))))) (pc_changed (ps_channels st2 ! i))"
    if "i < ?n" for i
    using that n(4) h(6) f1(1) by (intro ready_mask) (simp add: pva_ready_def)
  have one: "one_packet enc st2"
  proof -
    have "\<forall>i < ?n. length (enc (the (pc_value (ps_channels st2 ! i))) (pc_changed (ps_channels st2 ! i))) \<le> g i"
      using bf mwf c2(2) by (simp add: beat_fits_def)
    from queued_entries_bound [OF this _ h(5)] h(4) val room c2(2)
    have "length (queued_entries enc st2) \<le> data_room" by auto
    moreover have "ps_deque st2 \<noteq> []" using h(4) n(1) by auto
    ultimately show ?thesis
      using h(2,4) c2(2,6) f1(4) val by (auto simp: one_packet_def list_all_iff)
  qed
  have known: "\<exists>w. j < length (pr_cache rc1) \<and> pr_cache rc1 ! j = Some w" if "j < length ?vs" for j
  proof -
    have "cache_at (pr_cache rc1) j \<noteq> None"
      using t(7) rcv(4) that a by (auto simp: teaches_def not_less)
    then show ?thesis by (auto simp: cache_at_def split: if_splits)
  qed
  have del: "\<forall>e \<in> set (queue_entries st2). readable_entry U lib rc1 e"
  proof
    fix e assume "e \<in> set (queue_entries st2)"
    then obtain q where q: "q \<in> set (ps_deque st2)" and eq: "e = queue_entry (ps_channels st2 ! q)"
      by (auto simp: queue_entries_map)
    then have e: "fst e = pva_channel_message (ps_channels st2 ! q)" by (simp add: queue_entry_def)
    have qn: "q < ?n" using q h(4) by simp
    have ix: "pc_index (ps_channels st2 ! q) = q" using h(2) qn c2(1) by (simp add: pva_queue_inv_def pva_chans_inv_def)
    have "unat (of_nat q :: u32) = q" using qn n(2) by (intro unat_word_of_nat_small) simp
    moreover have tid: "unat (pc_type_id (ps_channels st ! q)) < length ?vs"
      using snd(2) qn val by (auto simp: pva_types_ok_def typed_chan_def)
    from known [OF tid] obtain w where "unat (pc_type_id (ps_channels st ! q)) < length (pr_cache rc1)"
      "pr_cache rc1 ! unat (pc_type_id (ps_channels st ! q)) = Some w" by blast
    moreover have "length (pr_channels rc1) = ?n" using t(6) rcv(3) by (simp add: learns_def)
    ultimately have d: "deliverable lib rc1 e"
      using qn ix c2(3,4) [OF qn]
      by (auto simp: deliverable_def entry_base_def update_base_def e pva_channel_message_def sent_type_def
          update_type_defs split: option.split)
    then obtain w where w: "entry_base lib rc1 (queue_entry (ps_channels st2 ! q)) = Some w"
      by (auto simp: deliverable_def eq)
    have "pr_channels rc1 = pr_channels rc" "?a \<le> length (ps_cache st)"
        "unat (pc_type_id (ps_channels st ! q)) < length (ps_cache st)" "q < 2 ^ 32"
      using t(6) a tid qn n(2) by (simp_all add: learns_def)
    from full_base [OF t(7) this(1) refl this(2-4) ix c2(4,3) [OF qn] w]
    have "w = first_base lib blank st rc q" .
    with base qn have "same_type w (the (pc_value (ps_channels st ! q)))" by (simp add: bases_typed_def)
    with d w bf mwf [OF qn] qn c2(2) [OF qn] show "readable_entry U lib rc1 e"
      by (simp add: readable_entry_def eq beat_fits_def) (simp add: queue_entry_def)
  qed
  have ord: "pva_in_order (ps_seq_no st2) (pva_admit h rc1)"
    using rcv(2) t(6) c2(5) by (simp add: pva_in_order_def learns_def)
  have len: "length (ps_channels st2) \<le> 2 ^ 32" using n(2) c2(1) by simp
  have head: "take Header_size (ps_buffer st2) = enc_header reserved h" using f1(5) c2(6) by simp
  have "heartbeat_state lib enc U blank h reserved st rc st1 st2 pkts rc1"
    unfolding heartbeat_state_def using t h one del ord len head c2(7) by (simp add: send_typedef_updates_def)
  then show ?thesis by blast
qed

lemma heartbeat_turn:
  assumes lib: "lib_writes lib enc" "lib_reads lib enc app U" "lib_types lib tenc blank" "lib_assigns lib app U"
    and snd: "pva_queue_inv st" "pva_types_ok st" "heartbeat_fits tenc enc U g st" "length (ps_buffer st) = MAX_MESSAGE_SIZE"
    and hdr: "take Header_size (ps_buffer st) = enc_header reserved h"
    and rcv: "pva_link_ready h reserved rc" "pva_in_order (ps_seq_no st) (pva_admit h rc)"
      "length (pr_channels rc) = length (ps_channels st)" "\<forall>j < unat (ps_builtin st). cache_at (pr_cache rc) j \<noteq> None"
    and base: "bases_typed lib blank st rc"
  shows "\<exists>st1 st2 st3 pkts rc' calls. send_typedef_updates lib st = Some st1 \<and>
    map_option fst (pva_mark_heartbeat_updates st1) = Some st2 \<and> pva_send_updates lib st2 = Some st3 \<and>
    ps_deque st3 = [] \<and> ps_sent st3 = ps_sent st @ pkts \<and> foldM (pva_receive_packet lib) pkts rc = Some rc' \<and>
    pr_calls rc' = pr_calls rc @ calls \<and> tells_all (ps_channels st) calls"
proof -
  let ?n = "length (ps_channels st)"
  have n: "?n \<le> 2 ^ 32" using snd(3) by (simp add: heartbeat_fits_def)
  from heartbeat_marks [OF lib snd hdr rcv base] obtain st1 st2 pkts rc1 where
    "heartbeat_state lib enc U blank h reserved st rc st1 st2 pkts rc1" by blast
  then have t: "send_typedef_updates lib st = Some st1" "typedefs_frame st st1"
      "map_option fst (pva_mark_heartbeat_updates st1) = Some st2" "ps_sent st2 = ps_sent st @ pkts"
      "foldM (pva_receive_packet lib) pkts rc = Some rc1" "learns h rc rc1"
    and h: "pva_queue_inv st2" "refreshed ?n st1 st2" "set (ps_deque st2) = {0 ..< ?n}"
    and r0: "one_packet enc st2" "length (ps_channels st2) \<le> 2 ^ 32" "take Header_size (ps_buffer st2) = enc_header reserved h"
      "pva_link_ready h reserved rc1" "pva_in_order (ps_seq_no st2) (pva_admit h rc1)"
      "\<forall>e \<in> set (queue_entries st2). readable_entry U lib rc1 e"
    by (simp_all add: heartbeat_state_def)
  have c2: "length (ps_channels st2) = ?n" "\<And>i. i < ?n \<Longrightarrow> pc_value (ps_channels st2 ! i) = pc_value (ps_channels st ! i)"
    using h(2) t(2) by (simp_all add: refreshed_def typedefs_frame_def)
  from pva_send_updates_one [OF lib(1) r0(1)] obtain st3 where
    s: "pva_send_updates lib st2 = Some st3" "ps_deque st3 = []" "ps_sent st3 = ps_sent st2 @ [pva_packet enc st2]" by blast
  from pva_receive_queue [OF lib(2) r0 lib(4)] obtain rc2 calls where
    r: "pva_receive_packet lib (pva_packet enc st2) rc1 = Some rc2" "pr_calls rc2 = pr_calls rc1 @ calls"
      "list_all2 (entry_call lib rc1) (queue_entries st2) calls" by blast
  have "map pcb_id calls = map (\<lambda>e. pcd_id (fst e)) (queue_entries st2)"
    using r(3) by (auto simp: list_all2_conv_all_nth entry_call_def intro!: nth_equalityI)
  then have ids: "map pcb_id calls = map of_nat (ps_deque st2)" "distinct (map pcb_id calls)"
    using queue_entry_ids [OF h(1) r0(2)] by simp_all
  have tell: "\<exists>r v. pcb_value c = Some r \<and> pc_value (ps_channels st ! unat (pcb_id c)) = Some v \<and> agrees r v"
    if "c \<in> set calls" for c
  proof -
    from that r(3) obtain e where e: "e \<in> set (queue_entries st2)" "entry_call lib rc1 e c"
      by (metis in_set_conv_nth list_all2_conv_all_nth)
    from e(1) obtain q where q: "q \<in> set (ps_deque st2)" and eq: "e = queue_entry (ps_channels st2 ! q)"
      by (auto simp: queue_entries_map)
    let ?c = "ps_channels st2 ! q"
    have qn: "q < ?n" using q h(3) by simp
    have "pc_index ?c = q" using h(1) qn c2(1) by (simp add: pva_queue_inv_def pva_chans_inv_def)
    moreover have "unat (of_nat q :: u32) = q" using qn n by (intro unat_word_of_nat_small) simp
    ultimately have id: "unat (pcb_id c) = q"
      using e(2) by (simp add: entry_call_def eq queue_entry_def pva_channel_message_def)
    from e(2) obtain r where v: "pcb_value c = Some r" "updated (the (entry_base lib rc1 e)) (the (pc_value ?c)) (pc_changed ?c) r"
      by (auto simp: entry_call_def eq queue_entry_def)
    have "marks_given (the (pc_value ?c)) (pc_changed ?c)"
      using h(2) qn by (simp add: refreshed_def full_marks_def)
    from updated_full [OF v(2) this] have "agrees r (the (pc_value (ps_channels st ! q)))" using c2(2) [OF qn] by simp
    moreover obtain w where "pc_value (ps_channels st ! q) = Some w"
      using r0(1) q c2(2) [OF qn] by (fastforce simp: one_packet_def list_all_iff)
    ultimately show ?thesis using v(1) id by simp
  qed
  have "tells_all (ps_channels st) calls"
    unfolding tells_all_def using ids h(3) tell by simp
  moreover have "foldM (pva_receive_packet lib) (pkts @ [pva_packet enc st2]) rc = Some rc2"
    using t(5) r(1) by (simp add: foldM_append)
  moreover have "pr_calls rc2 = pr_calls rc @ calls" using r(2) t(6) by (simp add: learns_def)
  moreover have "ps_sent st3 = ps_sent st @ (pkts @ [pva_packet enc st2])" using s(3) t(4) by simp
  ultimately show ?thesis
    using t(1,3) s(1,2) by blast
qed

end
