(* ===== verification/Pva_Reach.thy ===== *)
theory Pva_Reach
  imports Pva_Sync
begin

text \<open>
  What a sender that was constructed and has run keeps, whatever its events were: the preset header of
  the send buffer, the length of the buffer, the number of channels and of built-in types, and a cache
  that knows the type of every value. Every statement is about the turns that return.
\<close>

subsection \<open>The encoders stay in the frame\<close>

lemma write_inside:
  "ser_wf s \<Longrightarrow> ser_limit s = length (ser_mem s) \<Longrightarrow> ser_write bs s = Some s' \<Longrightarrow> inside s s'"
  by (auto simp: inside_def ser_write_def ser_wf_def buf_simps split: if_splits)

lemma inside_good [simp]: "inside s (t\<lparr>ser_good := g\<rparr>) = inside s t"
  by (simp add: inside_def ser_wf_def)

lemma put_pva_channel_data_inside:
  assumes "ser_wf s" "ser_limit s = length (ser_mem s)" "put_pva_channel_data m s = Some s'"
  shows "inside s s'"
proof (cases "ser_good s \<and> 5 \<le> remaining s")
  case False
  with assms(1,3) show ?thesis by (auto simp: put_pva_channel_data_alt split: if_splits)
next
  case True
  with assms(3) obtain t where t: "ser_write (enc_pva_channel_head m) s = Some t"
    and u: "s' = t \<or> s' = t\<lparr>ser_good := False\<rparr> \<or> ser_write (le_bytes 2 (unat (pcd_type_id m))) t = Some s'"
    by (auto simp: put_pva_channel_data_alt bind_eq_Some_conv split: if_splits)
  from write_inside [OF assms(1,2) t] have i: "inside s t" .
  then have "ser_wf t" "ser_limit t = length (ser_mem t)" using assms(2) by (simp_all add: inside_def)
  from write_inside [OF this] u i show ?thesis by (auto intro: within_trans)
qed

lemma serialize_value_inside:
  assumes "lib_writes lib enc" "ser_wf s" "serialize_value lib m v msk s = Some (ok, s')"
  shows "inside s s'"
proof (cases "ser_good s \<and> pcd_update_type m \<noteq> UT_Disconnected")
  case False
  with assms(2,3) show ?thesis by (auto simp: serialize_value_def)
next
  case True
  with assms(3) obtain w b where v: "lib_to_wire_valid lib w msk (fixed_buf s) = Some b" "give_back s b = Some s'"
    by (auto simp: serialize_value_def bind_eq_Some_conv)
  have "encodes (lib_to_wire_valid lib w msk) (enc w msk)" using assms(1) by (simp add: lib_writes_def)
  from encodesD [OF this, of "fixed_buf s"] assms(2) v(1) have "inside (fixed_buf s) b" by (auto simp: encoded_def)
  from this give_back_within [OF this] v(2) show ?thesis by (auto simp: inside_def ser_wf_def)
qed

lemma typedef_serialize_inside:
  assumes "lib_types lib tenc blank" "ser_wf s" "typedef_serialize lib v s = Some (ok, s')"
  shows "inside s s'"
proof -
  from assms(3) obtain w :: pva_value and b where v: "lib_to_wire_type lib (pv_desc w) (fixed_buf s) = Some b" "give_back s b = Some s'"
    by (auto simp: typedef_serialize_def bind_eq_Some_conv)
  have "encodes (lib_to_wire_type lib (pv_desc w)) (tenc w)" using assms(1) by (simp add: lib_types_def)
  from encodesD [OF this, of "fixed_buf s"] assms(2) v(1) have "inside (fixed_buf s) b" by (auto simp: encoded_def)
  from this give_back_within [OF this] v(2) show ?thesis by (auto simp: inside_def ser_wf_def)
qed

text \<open>A cursor somewhere in a frame.\<close>

definition framed :: "u8 \<Rightarrow> u16 \<Rightarrow> bytes \<Rightarrow> serializer \<Rightarrow> bool" where
  "framed i x B t \<longleftrightarrow> (\<exists>X. filled i x B X t)"

lemma framed_inside: "framed i x B t \<Longrightarrow> inside t t' \<Longrightarrow> framed i x B t'"
  unfolding framed_def using filled_inside by blast

lemma framed_wf: "framed i x B t \<Longrightarrow> ser_wf t \<and> ser_limit t = length (ser_mem t)"
  using filled_wf by (auto simp: framed_def filled_def)

lemma framed_typedef:
  "lib_types lib tenc blank \<Longrightarrow> framed i x B s \<Longrightarrow> typedef_serialize lib v s = Some (ok, s') \<Longrightarrow> framed i x B s'"
  using framed_wf framed_inside typedef_serialize_inside by blast

lemma typedef_fill_framed:
  "typedef_fill lib cache i s n = Some r \<Longrightarrow> lib_types lib tenc blank \<longrightarrow> framed k x B s \<longrightarrow> framed k x B (fst (snd r))"
  by (rule typedef_fill.raw_induct
        [where P = "\<lambda>l c i s n r. lib_types l tenc blank \<longrightarrow> framed k x B s \<longrightarrow> framed k x B (fst (snd r))", rotated],
      assumption)
    (auto simp: bind_eq_Some_conv split: if_splits, (blast dest: framed_typedef)+)

text \<open>A frame that is closed leaves the header alone.\<close>

lemma framed_close:
  assumes "length B = MAX_MESSAGE_SIZE" "framed i x B t" "pad_align Submessage_alignment 0 t = Some s1"
    "set_position 30 s1 = Some s2" "put_u16 n s2 = Some s3"
  shows "length (ser_mem s3) = length B \<and> take Header_size (ser_mem s3) = take Header_size B"
  using assms(2-5) close_frame [OF assms(1), of i x _ t n] by (auto simp: framed_def)

subsection \<open>The frame of a sender\<close>

definition same_frame :: "pva_sender \<Rightarrow> pva_sender \<Rightarrow> bool" where
  "same_frame st st' \<longleftrightarrow>
     length (ps_channels st') = length (ps_channels st) \<and> ps_builtin st' = ps_builtin st \<and>
     length (ps_buffer st') = length (ps_buffer st) \<and>
     take Header_size (ps_buffer st') = take Header_size (ps_buffer st) \<and>
     length (ps_cache st) \<le> length (ps_cache st') \<and>
     (length (ps_cache st') < 2 ^ 16 \<longrightarrow> pva_types_ok st \<longrightarrow> pva_types_ok st')"

lemma same_frame_refl: "same_frame st st"
  by (simp add: same_frame_def)

lemma same_frame_trans: "same_frame st st1 \<Longrightarrow> same_frame st1 st2 \<Longrightarrow> same_frame st st2"
  by (auto simp: same_frame_def)

lemma same_frame_length: "same_frame st st' \<Longrightarrow> length (ps_buffer st') = length (ps_buffer st)"
  by (simp add: same_frame_def)

lemma same_link_same_frame: "same_link st st' \<Longrightarrow> same_frame st st'"
  by (simp add: same_link_def same_frame_def)

lemma same_frame_buffer:
  assumes "length B = length (ps_buffer st) \<and> take Header_size B = take Header_size (ps_buffer st)"
  shows "same_frame st (pva_send p (st\<lparr>ps_buffer := B\<rparr>))"
  using assms by (simp add: same_frame_def pva_send_def pva_types_ok_def)

lemma same_frame_counters: "same_frame st (st\<lparr>ps_iteration := n\<rparr>)" "same_frame st (st\<lparr>ps_seq_no := q\<rparr>)"
  by (simp_all add: same_frame_def pva_types_ok_def)

text \<open>Heartbeats.\<close>

lemma pva_heartbeat_same_link:
  "pva_mark_heartbeat_update i st = Some (b, st') \<Longrightarrow> same_link st st'"
  by (erule pva_heartbeat_shape) (auto intro: same_link_typed)

lemma pva_heartbeats_same_frame:
  assumes "map_option fst (pva_mark_heartbeat_updates st) = Some st'"
  shows "same_frame st st'"
proof -
  from assms obtain acc where "foldM pva_heartbeat_step [0 ..< length (ps_channels st)] (st, 0, 0) = Some acc"
    and s: "st' = fst acc"
    by (auto simp: pva_mark_heartbeat_updates_def Let_def bind_eq_Some_conv split: if_splits)
  then have "same_link st (fst acc)"
    by (elim foldM_keeps [where P = "\<lambda>acc. same_link st (fst acc)"])
      (auto simp: same_link_refl pva_heartbeat_step_def bind_eq_Some_conv Let_def case_prod_beta,
        metis pva_heartbeat_same_link same_link_trans)
  with s show ?thesis by (simp add: same_link_same_frame)
qed

text \<open>Type definitions.\<close>

lemma send_typedef_packet_same_frame:
  assumes "lib_types lib tenc blank" "length (ps_buffer st) = MAX_MESSAGE_SIZE"
    and "send_typedef_packet lib i st = Some (j, st')"
  shows "same_frame st st'"
proof -
  let ?o = "opened PVA_TYPEDEF_MESSAGE i (ps_buffer st)"
  have m: "make_subheader PVA_TYPEDEF_MESSAGE LittleEndian 0 = Some \<lparr>sh_id = PVA_TYPEDEF_MESSAGE, sh_flags = LittleEndian, sh_next = 0\<rparr>"
    by (simp add: make_subheader_def LittleEndian_def)
  note o = open_frame [OF assms(2)]
  have p: "ser_pos ?o - 2 = 30" using opened_fields(4) [OF assms(2)] by simp
  from assms(3) obtain s n s1 s2 s3 where
    f: "typedef_fill lib (ps_cache st) i ?o 0 = Some (j, s, n)" "pad_align Submessage_alignment 0 s = Some s1"
      "set_position 30 s1 = Some s2" "put_u16 n s2 = Some s3"
    and st': "st' = pva_send (take (distance s1) (ser_mem s3)) (st\<lparr>ps_buffer := ser_mem s3\<rparr>)"
    by (auto simp: send_typedef_packet_def PVATypeDefMessage_size_def m o(1,2,4) p Let_def bind_eq_Some_conv)
  have "framed PVA_TYPEDEF_MESSAGE i (ps_buffer st) ?o" using filled_opened [OF assms(2)] by (auto simp: framed_def)
  with typedef_fill_framed [OF f(1)] assms(1) have "framed PVA_TYPEDEF_MESSAGE i (ps_buffer st) s" by simp
  from framed_close [OF assms(2) this f(2-4)] show ?thesis unfolding st' by (rule same_frame_buffer)
qed

lemma typedef_loop_same_frame:
  "typedef_loop lib i st = Some st' \<Longrightarrow>
   lib_types lib tenc blank \<longrightarrow> length (ps_buffer st) = MAX_MESSAGE_SIZE \<longrightarrow> same_frame st st'"
  by (rule typedef_loop.raw_induct
        [where P = "\<lambda>lib i st st'. lib_types lib tenc blank \<longrightarrow> length (ps_buffer st) = MAX_MESSAGE_SIZE \<longrightarrow> same_frame st st'",
          rotated], assumption)
    (auto simp: bind_eq_Some_conv same_frame_refl split: if_splits,
      (metis send_typedef_packet_same_frame same_frame_length same_frame_trans)+)

text \<open>Data packets: an update that is taken changes neither the value nor the type of its channel.\<close>

lemma put_update_same_link:
  assumes "put_update lib q st s = Some (ok, st', s')"
  shows "same_link st st'"
proof -
  from assms obtain c where c: "q < length (ps_channels st)" "c = ps_channels st ! q"
    and o: "if ok then pva_clear_update q (pva_set_channel q (c\<lparr>pc_update_seq_no := pc_update_seq_no c + 1\<rparr>) st) = Some st'
      else st' = st"
    by (auto simp: put_update_def bind_eq_Some_conv vec_at_lt split: if_splits)
  show ?thesis
  proof (cases ok)
    case True
    with o c obtain d r where "st' = (pva_set_channel q d st)\<lparr>ps_deque := r\<rparr>" "pc_value d = pc_value c"
      "pc_type_id d = pc_type_id c"
      by (auto simp: pva_clear_update_def bind_eq_Some_conv vec_at_lt pva_set_channel_def split: list.splits)
    with c show ?thesis by (auto intro: same_link_typed)
  qed (use o in \<open>simp add: same_link_refl\<close>)
qed

lemma put_update_framed:
  assumes "lib_writes lib enc" "framed i x B s" "put_update lib q st s = Some (ok, st', s')"
  shows "framed i x B s'"
proof -
  from assms(3) obtain c t where c: "put_pva_channel_data (pva_channel_message c) s = Some t"
    "serialize_value lib (pva_channel_message c) (pc_value c) (pc_changed c) t = Some (ok, s')"
    by (auto simp: put_update_def bind_eq_Some_conv split: if_splits)
  note w = framed_wf [OF assms(2)]
  have t: "framed i x B t" using put_pva_channel_data_inside [OF _ _ c(1)] w framed_inside [OF assms(2)] by blast
  with framed_wf [OF t] show ?thesis using serialize_value_inside [OF assms(1) _ c(2)] framed_inside by blast
qed

lemma pva_fill_updates_same_link: "pva_fill_updates lib st acc = Some r \<Longrightarrow> same_link st (fst r)"
  by (rule pva_fill_updates.raw_induct [where P = "\<lambda>lib st acc r. same_link st (fst r)", rotated], assumption)
    (auto simp: bind_eq_Some_conv same_link_refl split: list.splits if_splits,
      (metis put_update_same_link same_link_trans)+)

lemma pva_fill_updates_framed:
  "pva_fill_updates lib st acc = Some r \<Longrightarrow> lib_writes lib enc \<longrightarrow> framed i x B (fst acc) \<longrightarrow> framed i x B (fst (snd r))"
  by (rule pva_fill_updates.raw_induct
        [where P = "\<lambda>lib st acc r. lib_writes lib enc \<longrightarrow> framed i x B (fst acc) \<longrightarrow> framed i x B (fst (snd r))", rotated],
      assumption)
    (auto simp: bind_eq_Some_conv split: list.splits if_splits, (blast dest: put_update_framed)+)

lemma pva_send_packet_same_frame:
  assumes "lib_writes lib enc" "length (ps_buffer st) = MAX_MESSAGE_SIZE" "pva_send_packet lib st = Some st'"
  shows "same_frame st st'"
proof -
  let ?o = "opened PVA_DATA_MESSAGE (ps_seq_no st) (ps_buffer st)"
  have m: "make_subheader PVA_DATA_MESSAGE LittleEndian 0 = Some \<lparr>sh_id = PVA_DATA_MESSAGE, sh_flags = LittleEndian, sh_next = 0\<rparr>"
    by (simp add: make_subheader_def LittleEndian_def)
  note o = open_frame [OF assms(2)]
  have p: "ser_pos ?o - 2 = 30" using opened_fields(4) [OF assms(2)] by simp
  from assms(3) obtain st1 s n s1 s2 s3 where
    f: "pva_fill_updates lib (st\<lparr>ps_seq_no := ps_seq_no st + 1\<rparr>) (?o, 0) = Some (st1, s, n)"
      "pad_align Submessage_alignment 0 s = Some s1" "set_position 30 s1 = Some s2" "put_u16 n s2 = Some s3"
    and st': "st' = pva_send (take (distance s1) (ser_mem s3)) (st1\<lparr>ps_buffer := ser_mem s3\<rparr>)"
    by (auto simp: pva_send_packet_def PVADataMessage_size_def m o(1,2,3) p Let_def bind_eq_Some_conv)
  have l: "same_link (st\<lparr>ps_seq_no := ps_seq_no st + 1\<rparr>) st1" using pva_fill_updates_same_link [OF f(1)] by simp
  then have b: "ps_buffer st1 = ps_buffer st" by (simp add: same_link_def)
  have "framed PVA_DATA_MESSAGE (ps_seq_no st) (ps_buffer st) ?o"
    using filled_opened [OF assms(2)] by (auto simp: framed_def)
  with pva_fill_updates_framed [OF f(1)] assms(1) have "framed PVA_DATA_MESSAGE (ps_seq_no st) (ps_buffer st) s" by simp
  from framed_close [OF assms(2) this f(2-4)] have "same_frame st1 st'"
    unfolding st' by (intro same_frame_buffer) (simp add: b)
  with same_frame_trans [OF same_frame_counters(2) same_link_same_frame [OF l]] show ?thesis by (rule same_frame_trans)
qed

lemma pva_send_updates_same_frame:
  "pva_send_updates lib st = Some st' \<Longrightarrow>
   lib_writes lib enc \<longrightarrow> length (ps_buffer st) = MAX_MESSAGE_SIZE \<longrightarrow> same_frame st st'"
  by (rule pva_send_updates.raw_induct
        [where P = "\<lambda>lib st st'. lib_writes lib enc \<longrightarrow> length (ps_buffer st) = MAX_MESSAGE_SIZE \<longrightarrow> same_frame st st'",
          rotated], assumption)
    (auto simp: bind_eq_Some_conv same_frame_refl split: if_splits,
      (metis pva_send_packet_same_frame same_frame_length same_frame_trans)+)

subsection \<open>Turns and runs\<close>

lemma pva_run_iteration_same_frame:
  assumes "lib_writes lib enc" "lib_types lib tenc blank" "length (ps_buffer st) = MAX_MESSAGE_SIZE"
    and "pva_run_iteration lib evs st = Some st'"
  shows "same_frame st st'"
proof -
  from assms(4) obtain st1 st2 where w: "pva_work lib (pva_arrivals evs st) = Some st1"
    and h: "(if ps_iteration (st1\<lparr>ps_iteration := ps_iteration st1 + 1\<rparr>) mod ps_hb_iterations st1 = 0
      then do { st \<leftarrow> send_typedef_updates lib (st1\<lparr>ps_iteration := ps_iteration st1 + 1\<rparr>);
                map_option fst (pva_mark_heartbeat_updates st) }
      else Some (st1\<lparr>ps_iteration := ps_iteration st1 + 1\<rparr>)) = Some st2"
    and s: "pva_send_updates lib st2 = Some st'"
    by (auto simp: pva_run_iteration_def Let_def bind_eq_Some_conv)
  let ?st = "st1\<lparr>ps_iteration := ps_iteration st1 + 1\<rparr>"
  have f1: "same_frame st ?st"
    using same_frame_trans [OF same_link_same_frame [OF pva_work_same_link [OF w]] same_frame_counters(1)] .
  then have l1: "length (ps_buffer ?st) = MAX_MESSAGE_SIZE" using assms(3) same_frame_length by metis
  have f2: "same_frame ?st st2"
  proof (cases "ps_iteration ?st mod ps_hb_iterations st1 = 0")
    case True
    with h obtain st3 where t: "send_typedef_updates lib ?st = Some st3" and b: "map_option fst (pva_mark_heartbeat_updates st3) = Some st2"
      by (auto simp: bind_eq_Some_conv)
    from typedef_loop_same_frame [OF t [unfolded send_typedef_updates_def]] assms(2) l1 have "same_frame ?st st3" by blast
    then show ?thesis using pva_heartbeats_same_frame [OF b] by (rule same_frame_trans)
  qed (use h in \<open>simp add: same_frame_refl\<close>)
  then have "length (ps_buffer st2) = MAX_MESSAGE_SIZE" using l1 same_frame_length by metis
  with pva_send_updates_same_frame [OF s] assms(1) have "same_frame st2 st'" by blast
  with same_frame_trans [OF f1 f2] show ?thesis by (rule same_frame_trans)
qed

lemma pva_run_loop_same_frame:
  assumes "lib_writes lib enc" "lib_types lib tenc blank"
  shows "length (ps_buffer st) = MAX_MESSAGE_SIZE \<Longrightarrow> pva_run_loop lib limited n turns st = Some (b, st') \<Longrightarrow> same_frame st st'"
proof (induction turns arbitrary: st)
  case (Cons evs turns)
  from Cons.prems(2) obtain st1 where r: "pva_run_iteration lib evs st = Some st1"
    and l: "st' = st1 \<or> pva_run_loop lib limited n turns st1 = Some (b, st')"
    by (auto simp: bind_eq_Some_conv split: if_splits)
  note f = pva_run_iteration_same_frame [OF assms Cons.prems(1) r]
  then have "length (ps_buffer st1) = MAX_MESSAGE_SIZE" using Cons.prems(1) same_frame_length by metis
  from Cons.IH [OF this] l f show ?case by (auto intro: same_frame_trans)
qed (simp add: same_frame_refl)

text \<open>The state of a sender between two turns.\<close>

lemma pva_sender_reached:
  assumes "lib_writes lib enc" "lib_types lib tenc blank"
    and "pva_sender_init lib cfg t = Some st" "pva_sender_run lib runtime turns st = Some (b, st')"
  shows "pva_queue_inv st'" "ps_deque st' = []" "length (ps_buffer st') = MAX_MESSAGE_SIZE"
    "take Header_size (ps_buffer st') = enc_header [0, 0, 0] (make_header t (cfg_hash cfg))"
    "length (ps_channels st') = length (cfg_channels cfg)" "unat (ps_builtin st') = 26"
    "length (ps_cache st') < 2 ^ 16 \<Longrightarrow> pva_types_ok st'"
proof -
  note i = pva_sender_init_spec [OF assms(3)]
  have r: "pva_run_loop lib (dval runtime > 0)
      (word_of_int (cround (fdiv (dval runtime) (dval (ps_update_period st))))) turns st = Some (b, st')"
    using assms(4) by (simp add: pva_sender_run_def)
  show "pva_queue_inv st'" "ps_deque st' = []"
    using pva_run_loop_inv [OF _ _ r] pva_sender_init_inv [OF assms(3)] by simp_all
  note f = pva_run_loop_same_frame [OF assms(1,2) i(1) r]
  have b: "snd (build_type_cache lib []) = 26"
    by (simp add: build_type_cache_def builtin_scalars_def)
  show "length (ps_buffer st') = MAX_MESSAGE_SIZE" "length (ps_channels st') = length (cfg_channels cfg)"
    "take Header_size (ps_buffer st') = enc_header [0, 0, 0] (make_header t (cfg_hash cfg))" "unat (ps_builtin st') = 26"
    using f i(1,5,6,8) b by (simp_all add: same_frame_def)
  show "length (ps_cache st') < 2 ^ 16 \<Longrightarrow> pva_types_ok st'"
    using f pva_sender_init_types [OF assms(3)] by (simp add: same_frame_def)
qed

end
