(* ===== verification/Pva_Steady.thy ===== *)
theory Pva_Steady
  imports Pva_Reach
begin

text \<open>
  A sender whose channels stay connected and keep their types: what the events of a turn, a heartbeat
  and the sending of its packet do to a channel's value and mask. A template per channel says which
  type its values have, and \<open>F\<close> which contents their fields may have.
\<close>

subsection \<open>Values of a channel\<close>

definition width :: "pva_value \<Rightarrow> nat" where
  "width t = fd_size (pv_desc t ! 0)"

definition typed_as :: "pva_value \<Rightarrow> pva_value \<Rightarrow> bool" where
  "typed_as t v \<longleftrightarrow> value_typed (pv_desc t ! 0) v \<and> same_type v t"

type_synonym content_range = "pva_value \<Rightarrow> nat \<Rightarrow> field_content \<Rightarrow> bool"

definition value_in :: "content_range \<Rightarrow> pva_value \<Rightarrow> pva_value \<Rightarrow> bool" where
  "value_in F t v \<longleftrightarrow> typed_as t v \<and> (\<forall>k < width t. F t k (content v k))"

definition values_in :: "content_range \<Rightarrow> pva_value list \<Rightarrow> pva_value \<Rightarrow> bool" where
  "values_in F ts v \<longleftrightarrow> (\<exists>t \<in> set ts. value_in F t v)"

text \<open>
  No field holds a value of its own (a union or an \<open>any\<close>), the encodings of the values of each type are
  bounded, and the bounds of all channels fit a packet together with the heads of their entries.
\<close>

definition plain :: "pva_value \<Rightarrow> bool" where
  "plain t \<longleftrightarrow> list_all (\<lambda>f. fl_code f \<noteq> ST_Compound) (pv_fields t)"

definition link_fits ::
  "(pva_value \<Rightarrow> bitmask \<Rightarrow> bytes) \<Rightarrow> content_range \<Rightarrow> (pva_value \<Rightarrow> nat) \<Rightarrow> pva_value list \<Rightarrow> bool" where
  "link_fits enc F B ts \<longleftrightarrow>
     list_all plain ts \<and>
     (\<forall>t \<in> set ts. \<forall>v m. value_in F t v \<and> mask_wf (width t) m \<longrightarrow> length (enc v m) \<le> B t) \<and>
     sum_list (map (\<lambda>t. 9 + B t) ts) \<le> data_room"

lemma typed_length: "typed_as t v \<Longrightarrow> length (pv_fields v) = width t"
  by (simp add: typed_as_def value_typed_def width_def)

lemma same_type_as: "typed_as t v \<Longrightarrow> typed_as t w \<Longrightarrow> same_type v w"
  by (simp add: typed_as_def same_type_def)

lemma plain_code:
  assumes "plain t" "typed_as t v" "k < width t"
  shows "fl_code (pv_fields v ! k) \<noteq> ST_Compound"
proof -
  have "length (pv_fields t) = width t" "fl_code (pv_fields v ! k) = fl_code (pv_fields t ! k)"
    using assms(2,3) typed_length [OF assms(2)] same_type_length [of v t] same_type_code [of v t k]
    by (simp_all add: typed_as_def)
  with assms(1,3) show ?thesis by (simp add: plain_def list_all_length)
qed

subsection \<open>Channels of the sender\<close>

text \<open>A connected channel with a value of its type and a mask for it.\<close>

definition chan_steady :: "content_range \<Rightarrow> pva_value \<Rightarrow> pva_channel \<Rightarrow> bool" where
  "chan_steady F t c \<longleftrightarrow>
     pc_connected c \<and> mask_wf (width t) (pc_changed c) \<and> pc_pending c \<in> {UT_None, UT_Partial, UT_Full} \<and>
     full_marks c \<and> (\<exists>v. pc_value c = Some v \<and> value_in F t v)"

fun event_fits :: "content_range \<Rightarrow> pva_value \<Rightarrow> pva_event \<Rightarrow> bool" where
  "event_fits F t (PV_Update u) \<longleftrightarrow> value_in F t u"
| "event_fits F t PV_Disconnect \<longleftrightarrow> False"
| "event_fits F t e \<longleftrightarrow> True"

definition steady :: "content_range \<Rightarrow> pva_value list \<Rightarrow> pva_sender \<Rightarrow> bool" where
  "steady F ts st \<longleftrightarrow>
     length (ps_channels st) = length ts \<and> length (ps_monitors st) = length ts \<and>
     (\<forall>i \<in> set (ps_work st). i < length ts) \<and>
     (\<forall>i < length ts. chan_steady F (ts ! i) (ps_channels st ! i) \<and>
        (\<forall>e \<in> set (ps_monitors st ! i). event_fits F (ts ! i) e))"

text \<open>What happens to a channel between the start of a turn and its heartbeat or packet.\<close>

definition evolves :: "pva_value \<Rightarrow> pva_channel \<Rightarrow> pva_channel \<Rightarrow> bool" where
  "evolves t c c' \<longleftrightarrow>
     pc_update_seq_no c' = pc_update_seq_no c \<and> (pc_pending c' = UT_Full \<longleftrightarrow> pc_pending c = UT_Full) \<and>
     (\<forall>b. mask_bit (pc_changed c) b \<longrightarrow> mask_bit (pc_changed c') b) \<and>
     (\<forall>k < width t. fl_valid (pv_fields (the (pc_value c')) ! k) = fl_valid (pv_fields (the (pc_value c)) ! k)) \<and>
     (\<forall>k < width t. content (the (pc_value c')) k = content (the (pc_value c)) k \<or> mask_bit (pc_changed c') k) \<and>
     (pc_pending c' = UT_None \<longrightarrow> pc_pending c = UT_None \<and>
        (\<forall>k < width t. content (the (pc_value c')) k = content (the (pc_value c)) k))"

lemma evolves_refl: "evolves t c c"
  by (simp add: evolves_def)

lemma evolves_trans: "evolves t c c1 \<Longrightarrow> evolves t c1 c2 \<Longrightarrow> evolves t c c2"
  unfolding evolves_def by metis

text \<open>Merging an update of its type into a channel's value, and marking it.\<close>

lemma merge_steady:
  assumes c: "chan_steady F t c" and u: "value_in F t u" and lib: "lib_assigns lib app U" and p: "plain t"
  shows "\<exists>v v' m. pc_value c = Some v \<and> merge_value lib v (pc_changed c) u = Some (v', m) \<and>
    chan_steady F t (c\<lparr>pc_value := Some v', pc_changed := m\<rparr>) \<and>
    (\<forall>b. mask_bit (pc_changed c) b \<longrightarrow> mask_bit m b) \<and>
    (\<forall>k < width t. fl_valid (pv_fields v' ! k) = fl_valid (pv_fields v ! k) \<and>
       (content v' k = content v k \<or> mask_bit m k))"
proof -
  let ?d = "pv_desc t ! 0"
  from c obtain v where v: "pc_value c = Some v" "value_in F t v" by (auto simp: chan_steady_def)
  let ?bs = "visited (pv_desc u) (pv_fields u) (fd_size ?d) 0"
  let ?v = "v\<lparr>pv_fields := merged ?bs (pv_fields u) (pv_fields v)\<rparr>"
  have as: "typed_as t v" "typed_as t u" using v(2) u by (simp_all add: value_in_def)
  then have ty: "value_typed ?d v" "value_typed ?d u" "same_type v u"
    using same_type_as [OF as] by (simp_all add: typed_as_def)
  have w: "mask_wf (fd_size ?d) (pc_changed c)" using c by (simp add: chan_steady_def width_def)
  have eq: "lib_equal_type lib v (Some u)" using lib ty(3) by (simp add: lib_assigns_def)
  from merge_value_eq [OF ty eq w] obtain m where
    m: "merge_value lib v (pc_changed c) u = Some (?v, m)" "mask_wf (fd_size ?d) m"
      "\<forall>j. mask_bit m j \<longleftrightarrow> mask_bit (pc_changed c) j \<or> j \<in> set ?bs" by blast
  have l: "length (pv_fields v) = width t" by (rule typed_length [OF as(1)])
  have valid: "fl_valid (pv_fields ?v ! b) = fl_valid (pv_fields v ! b)" if "b < width t" for b
  proof -
    have "fl_valid (merge_field b (pv_fields u ! b) (pv_fields v ! b)) = fl_valid (pv_fields v ! b)"
      by (cases "fl_code (pv_fields v ! b)") (simp_all add: merge_field_def)
    then show ?thesis using that l by (simp add: merged_nth)
  qed
  have ct: "content ?v k = content v k \<or> content ?v k = content u k" if k: "k < width t" for k
  proof -
    have "fl_code (pv_fields v ! k) \<noteq> ST_Compound" by (rule plain_code [OF p as(1) k])
    then show ?thesis using k l
      by (cases "fl_code (pv_fields v ! k)") (simp_all add: content_def merged_nth merge_field_def)
  qed
  have "typed_as t ?v"
    using merged_typed [OF ty, of ?bs] as(1) by (simp add: typed_as_def same_type_def)
  moreover have "F t k (content ?v k)" if "k < width t" for k
    using ct [OF that] v(2) u that by (auto simp: value_in_def)
  ultimately have "value_in F t ?v" by (simp add: value_in_def)
  moreover have "full_marks (c\<lparr>pc_value := Some ?v, pc_changed := m\<rparr>)"
    using c m(3) valid l by (auto simp: chan_steady_def full_marks_def marks_given_def v(1))
  ultimately have "chan_steady F t (c\<lparr>pc_value := Some ?v, pc_changed := m\<rparr>)"
    using c m(2) by (simp add: chan_steady_def width_def)
  moreover have "content ?v k = content v k \<or> mask_bit m k" if "k < width t" for k
    using that l m(3) by (auto simp: content_def merged_nth)
  ultimately show ?thesis using v(1) m(1,3) valid by (intro exI [of _ v] exI [of _ ?v] exI [of _ m]) simp
qed

lemma pva_update_steady:
  assumes st: "steady F ts st" "pva_queue_inv st" and i: "i < length ts" and u: "value_in F (ts ! i) u"
    and lib: "lib_assigns lib app U" and p: "plain (ts ! i)"
  shows "\<exists>c q. pva_update lib i u st = Some ((pva_set_channel i c st)\<lparr>ps_deque := q\<rparr>) \<and>
    chan_steady F (ts ! i) c \<and> evolves (ts ! i) (ps_channels st ! i) c"
proof -
  let ?c = "ps_channels st ! i"
  have c: "chan_steady F (ts ! i) ?c" and n: "i < length (ps_channels st)" and ix: "pc_index ?c = i"
    using st i by (auto simp: steady_def pva_queue_inv_def pva_chans_inv_def)
  from merge_steady [OF c u lib p] obtain v v' m where m: "pc_value ?c = Some v"
    "merge_value lib v (pc_changed ?c) u = Some (v', m)" "chan_steady F (ts ! i) (?c\<lparr>pc_value := Some v', pc_changed := m\<rparr>)"
    "\<forall>b. mask_bit (pc_changed ?c) b \<longrightarrow> mask_bit m b"
    "\<forall>k < width (ts ! i). fl_valid (pv_fields v' ! k) = fl_valid (pv_fields v ! k) \<and> (content v' k = content v k \<or> mask_bit m k)"
    by (elim exE conjE) (rule that)
  let ?d = "?c\<lparr>pc_value := Some v', pc_changed := m\<rparr>"
  let ?e = "if pc_pending ?c = UT_None
    then ?c\<lparr>pc_value := Some v', pc_pending := UT_Partial, pc_changed := m,
      pc_updates_since_last_hb := pc_updates_since_last_hb ?c + 1\<rparr> else ?d"
  have "pc_connected ?c" using c by (simp add: chan_steady_def)
  then have "pva_update lib i u st = pva_mark_update UT_Partial i (pva_set_channel i ?d st)"
    using n m(1,2) by (simp add: pva_update_def)
  moreover have "pva_mark_update UT_Partial i (pva_set_channel i ?d st) =
      Some ((pva_set_channel i ?e st)\<lparr>ps_deque := if pc_pending ?c = UT_None then ps_deque st @ [i] else ps_deque st\<rparr>)"
    using n ix by (cases "pc_pending ?c = UT_None") (simp_all add: pva_mark_update_def pva_set_channel_def update_type_defs)
  moreover have "chan_steady F (ts ! i) ?e"
    using m(3) by (auto simp: chan_steady_def full_marks_def update_type_defs)
  moreover have "evolves (ts ! i) ?c ?e"
    using m c by (auto simp: evolves_def chan_steady_def update_type_defs)
  ultimately show ?thesis by auto
qed

subsection \<open>The events of a turn\<close>

definition events_fit :: "content_range \<Rightarrow> pva_value list \<Rightarrow> nat list \<times> pva_event list list \<Rightarrow> bool" where
  "events_fit F ts evs \<longleftrightarrow>
     (\<forall>i \<in> set (fst evs). i < length ts) \<and> length (snd evs) = length ts \<and>
     (\<forall>i < length ts. \<forall>e \<in> set (snd evs ! i). event_fits F (ts ! i) e)"

definition worked :: "content_range \<Rightarrow> pva_value list \<Rightarrow> pva_sender \<Rightarrow> pva_sender \<Rightarrow> bool" where
  "worked F ts st st' \<longleftrightarrow>
     steady F ts st' \<and> pva_queue_inv st' \<and> ps_cache st' = ps_cache st \<and>
     (\<forall>i < length ts. evolves (ts ! i) (ps_channels st ! i) (ps_channels st' ! i))"

lemma steady_set:
  assumes "steady F ts st" "i < length ts" "chan_steady F (ts ! i) c"
  shows "steady F ts ((pva_set_channel i c st)\<lparr>ps_deque := q\<rparr>)"
  using assms by (auto simp: steady_def pva_set_channel_def nth_list_update)

lemma event_worked:
  assumes w: "worked F ts st0 st" and i: "i < length ts" and e: "event_fits F (ts ! i) e" and lib: "lib_assigns lib app U" "plain (ts ! i)"
  shows "\<exists>st'. pva_handle_event lib i e st = Some st' \<and> worked F ts st0 st'"
proof (cases e)
  case (PV_Update u)
  have s: "steady F ts st" "pva_queue_inv st" using w by (simp_all add: worked_def)
  from e PV_Update have "value_in F (ts ! i) u" by simp
  from pva_update_steady [OF s i this lib] obtain c q where
    u: "pva_update lib i u st = Some ((pva_set_channel i c st)\<lparr>ps_deque := q\<rparr>)" "chan_steady F (ts ! i) c"
      "evolves (ts ! i) (ps_channels st ! i) c" by blast
  have "evolves (ts ! j) (ps_channels st0 ! j) ((ps_channels st)[i := c] ! j)" if "j < length ts" for j
    using w that u(3) s(1) i by (auto simp: worked_def steady_def nth_list_update intro: evolves_trans)
  then have "worked F ts st0 ((pva_set_channel i c st)\<lparr>ps_deque := q\<rparr>)"
    using w steady_set [OF s(1) i u(2)] pva_update_inv [OF s(2) u(1)] by (simp add: worked_def)
  with u(1) PV_Update show ?thesis by simp
qed (use assms in auto)

lemma work_steady:
  assumes st: "steady F ts st" "pva_queue_inv st" and evs: "events_fit F ts evs" and lib: "lib_assigns lib app U" "list_all plain ts"
  shows "\<exists>st1. pva_work lib (pva_arrivals evs st) = Some st1 \<and> worked F ts st st1"
proof -
  have pop: "\<exists>s'. pva_pop_all lib i s = Some s' \<and> worked F ts st s'" if i: "i < length ts" and w: "worked F ts st s" for i s
  proof -
    have s: "steady F ts s" using w by (simp add: worked_def)
    let ?s = "s\<lparr>ps_monitors := (ps_monitors s)[i := []]\<rparr>"
    have "steady F ts ?s" using s i by (auto simp: steady_def nth_list_update split: if_splits)
    then have w1: "worked F ts st ?s" using w by (simp add: worked_def)
    have "\<exists>s'. foldM (pva_handle_event lib i) (ps_monitors s ! i) ?s = Some s' \<and> worked F ts st s'"
    proof (rule foldM_inv [where P = "worked F ts st", OF _ w1])
      fix e s' assume "e \<in> set (ps_monitors s ! i)" "worked F ts st s'"
      with s i lib show "\<exists>s''. pva_handle_event lib i e s' = Some s'' \<and> worked F ts st s''"
        by (intro event_worked) (auto simp: steady_def list_all_length)
    qed
    with s i show ?thesis by (simp add: pva_pop_all_def steady_def)
  qed
  let ?st = "(pva_arrivals evs st)\<lparr>ps_work := []\<rparr>"
  have "steady F ts ?st"
    using st(1) evs by (auto simp: steady_def events_fit_def pva_arrivals_def)
  then have w: "worked F ts st ?st"
    using st(2) by (simp add: worked_def evolves_refl) (simp add: pva_arrivals_def evolves_refl)
  have ix: "\<forall>i \<in> set (ps_work (pva_arrivals evs st)). i < length ts"
    using st(1) evs by (auto simp: steady_def events_fit_def pva_arrivals_def)
  show ?thesis unfolding pva_work_def
    by (rule foldM_inv [where P = "worked F ts st", OF _ w]) (use pop ix in blast)
qed

subsection \<open>Heartbeats\<close>

definition full_marked :: "content_range \<Rightarrow> pva_value list \<Rightarrow> pva_sender \<Rightarrow> pva_sender \<Rightarrow> bool" where
  "full_marked F ts st st' \<longleftrightarrow>
     steady F ts st' \<and>
     (\<forall>i < length ts. pc_value (ps_channels st' ! i) = pc_value (ps_channels st ! i) \<and>
        pc_update_seq_no (ps_channels st' ! i) = pc_update_seq_no (ps_channels st ! i))"

lemma chan_steady_ready:
  assumes "chan_steady F t c"
  shows "ready (pv_desc t ! 0) (pc_value c) (pc_changed c)"
  using assms by (auto simp: chan_steady_def ready_def value_in_def typed_as_def width_def)

lemma steady_ready: "steady F ts st \<Longrightarrow> i < length ts \<Longrightarrow> pva_ready st i"
  by (auto simp: steady_def pva_ready_def pva_ready_chan_def dest: chan_steady_ready)

lemma valid_mask_steady:
  assumes "chan_steady F t c" "valid_to_mask (pc_value c) (pc_changed c) = Some m"
  shows "mask_wf (width t) m \<and> marks_given (the (pc_value c)) m"
  using valid_to_mask_eq [OF chan_steady_ready [OF assms(1)]] assms(2)
    valid_mask_given [OF chan_steady_ready [OF assms(1)] assms(2)]
  by (auto simp: width_def)

lemma mark_full_steady:
  assumes st: "full_marked F ts st0 st" and i: "i < length ts" and m: "pva_mark_update UT_Full i st = Some st'"
  shows "full_marked F ts st0 st'"
proof -
  let ?c = "ps_channels st ! i"
  have s: "steady F ts st" using st by (simp add: full_marked_def)
  have c: "chan_steady F (ts ! i) ?c" and n: "i < length (ps_channels st)"
    using s i by (simp_all add: steady_def)
  have set: "full_marked F ts st0 ((pva_set_channel i c st)\<lparr>ps_deque := q\<rparr>)"
    if "chan_steady F (ts ! i) c" "pc_value c = pc_value ?c" "pc_update_seq_no c = pc_update_seq_no ?c" for c q
    using steady_set [OF s i that(1)] st that(2,3) n by (auto simp: full_marked_def nth_list_update)
  have marked: "chan_steady F (ts ! i) (?c\<lparr>pc_pending := UT_Full, pc_changed := w, pc_updates_since_last_hb := k\<rparr>)"
    if "valid_to_mask (pc_value ?c) (pc_changed ?c) = Some w" for w k
    using c valid_mask_steady [OF c that] by (simp add: chan_steady_def full_marks_def)
  show ?thesis
  proof (cases "pc_pending ?c = UT_None")
    case True
    with m n obtain w where w: "valid_to_mask (pc_value ?c) (pc_changed ?c) = Some w"
      and e: "st' = (pva_set_channel i (?c\<lparr>pc_pending := UT_Full, pc_changed := w,
        pc_updates_since_last_hb := pc_updates_since_last_hb ?c + 1\<rparr>) st)\<lparr>ps_deque := ps_deque st @ [pc_index ?c]\<rparr>"
      by (auto simp: pva_mark_update_def bind_eq_Some_conv)
    show ?thesis unfolding e by (rule set [OF marked [OF w]]) simp_all
  next
    case False
    show ?thesis
    proof (cases "pc_pending ?c = UT_Full")
      case True
      with False m n st show ?thesis by (simp add: pva_mark_update_def)
    next
      case no: False
      with False m n obtain w where w: "valid_to_mask (pc_value ?c) (pc_changed ?c) = Some w"
        and e: "st' = (pva_set_channel i (?c\<lparr>pc_pending := UT_Full, pc_changed := w,
          pc_updates_since_last_hb := pc_updates_since_last_hb ?c\<rparr>) st)\<lparr>ps_deque := ps_deque st\<rparr>"
        by (auto simp: pva_mark_update_def bind_eq_Some_conv pva_set_channel_def)
      show ?thesis unfolding e by (rule set [OF marked [OF w]]) simp_all
    qed
  qed
qed

lemma heartbeats_full_marked:
  assumes "steady F ts st" "map_option fst (pva_mark_heartbeat_updates st) = Some st'"
  shows "full_marked F ts st st'"
proof -
  from assms(2) obtain acc where f: "foldM pva_heartbeat_step [0 ..< length (ps_channels st)] (st, 0, 0) = Some acc"
    "st' = fst acc"
    by (auto simp: pva_mark_heartbeat_updates_def Let_def bind_eq_Some_conv split: if_splits)
  have step: "full_marked F ts st (fst a')" if a: "full_marked F ts st (fst a)" and h: "pva_heartbeat_step i a = Some a'" for i a a'
  proof -
    obtain s k l where s: "a = (s, k, l)" by (cases a)
    from h s obtain b where h: "pva_mark_heartbeat_update i s = Some (b, fst a')"
      by (auto simp: pva_heartbeat_step_def bind_eq_Some_conv)
    then obtain s1 where m: "pva_mark_update UT_Full i s = Some s1"
      and e: "fst a' = pva_set_channel i ((ps_channels s1 ! i)\<lparr>pc_updates_since_last_hb := 0\<rparr>) s1"
      by (auto simp: pva_mark_heartbeat_update_def bind_eq_Some_conv vec_at_lt)
    from m have "i < length (ps_channels s)" by (auto simp: pva_mark_update_def bind_eq_Some_conv vec_at_lt)
    then have i: "i < length ts" using a s by (simp add: full_marked_def steady_def)
    have f: "full_marked F ts st s1" using mark_full_steady [OF _ i m] a s by simp
    then have "steady F ts ((pva_set_channel i ((ps_channels s1 ! i)\<lparr>pc_updates_since_last_hb := 0\<rparr>) s1)\<lparr>ps_deque := ps_deque s1\<rparr>)"
      by (intro steady_set [OF _ i]) (use i in \<open>auto simp: full_marked_def steady_def chan_steady_def full_marks_def\<close>)
    then have "steady F ts (fst a')" by (simp add: e pva_set_channel_def)
    moreover have "\<forall>j < length ts. pc_value (ps_channels (fst a') ! j) = pc_value (ps_channels st ! j) \<and>
        pc_update_seq_no (ps_channels (fst a') ! j) = pc_update_seq_no (ps_channels st ! j)"
      using f i by (auto simp: full_marked_def e nth_list_update steady_def)
    ultimately show ?thesis by (simp add: full_marked_def)
  qed
  have "full_marked F ts st (fst acc)"
    by (rule foldM_keeps [where P = "\<lambda>a. full_marked F ts st (fst a)", OF f(1)])
      (simp add: full_marked_def assms(1), rule step)
  with f(2) show ?thesis by simp
qed

subsection \<open>Sending\<close>

text \<open>What packets leave alone: pending events and the type cache.\<close>

definition aside :: "pva_sender \<Rightarrow> pva_event list list \<times> nat list \<times> type_cache" where
  "aside st = (ps_monitors st, ps_work st, ps_cache st)"

lemma typedef_loop_aside: "typedef_loop lib i st = Some st' \<Longrightarrow> aside st' = aside st"
  by (rule typedef_loop.raw_induct [where P = "\<lambda>lib i st st'. aside st' = aside st", rotated], assumption)
    (auto simp: bind_eq_Some_conv send_typedef_packet_def Let_def pva_send_def aside_def split: if_splits prod.splits)

lemma aside_set [simp]: "aside (pva_set_channel i c st) = aside st" "aside (st\<lparr>ps_deque := q\<rparr>) = aside st"
  by (simp_all add: aside_def pva_set_channel_def)

lemma pva_clear_update_aside: "pva_clear_update q st = Some st' \<Longrightarrow> aside st' = aside st"
  by (cases "ps_deque st") (auto simp: pva_clear_update_def bind_eq_Some_conv)

lemma put_update_aside: "put_update lib q st s = Some (ok, st', s') \<Longrightarrow> aside st' = aside st"
  by (auto simp: put_update_def bind_eq_Some_conv split: if_splits dest: pva_clear_update_aside)

lemma pva_fill_updates_aside: "pva_fill_updates lib st acc = Some r \<Longrightarrow> aside st = x \<longrightarrow> aside (fst r) = x"
  by (rule pva_fill_updates.raw_induct [where P = "\<lambda>lib st acc r. aside st = x \<longrightarrow> aside (fst r) = x", rotated], assumption)
    (auto simp: bind_eq_Some_conv split: list.splits if_splits dest: put_update_aside)

lemma pva_send_packet_aside:
  assumes "pva_send_packet lib st = Some st'"
  shows "aside st' = aside st"
proof -
  from assms obtain s0 st1 acc p b where
    "pva_fill_updates lib (st\<lparr>ps_seq_no := ps_seq_no st + 1\<rparr>) s0 = Some (st1, acc)"
    and "st' = pva_send p (st1\<lparr>ps_buffer := b\<rparr>)"
    by (auto simp: pva_send_packet_def Let_def bind_eq_Some_conv case_prod_beta)
  with pva_fill_updates_aside [of lib "st\<lparr>ps_seq_no := ps_seq_no st + 1\<rparr>" s0 "(st1, acc)" "aside st"]
  show ?thesis by (simp add: aside_def pva_send_def)
qed

lemma pva_send_updates_aside: "pva_send_updates lib st = Some st' \<Longrightarrow> aside st = x \<longrightarrow> aside st' = x"
  by (rule pva_send_updates.raw_induct [where P = "\<lambda>lib st st'. aside st = x \<longrightarrow> aside st' = x", rotated], assumption)
    (auto simp: bind_eq_Some_conv split: if_splits dest: pva_send_packet_aside)

lemma send_channels_taken:
  "distinct qs \<Longrightarrow> q \<in> set qs \<Longrightarrow> \<forall>q \<in> set qs. q < length chs \<Longrightarrow> send_channels qs chs ! q = sent_channel (chs ! q)"
proof (induction qs arbitrary: chs)
  case (Cons a qs)
  show ?case
  proof (cases "q = a")
    case True
    with Cons.prems send_channels_nth [of q qs "chs[a := sent_channel (chs ! a)]"] show ?thesis
      by (simp add: send_channels_def)
  next
    case False
    with Cons.prems Cons.IH [of "chs[a := sent_channel (chs ! a)]"] show ?thesis by (simp add: send_channels_def)
  qed
qed simp

lemma length_send_channels [simp]: "length (send_channels qs chs) = length chs"
  by (induction qs arbitrary: chs) (simp_all add: send_channels_def)

lemma sent_steady: "chan_steady F t c \<Longrightarrow> chan_steady F t (sent_channel c)"
  by (auto simp: chan_steady_def full_marks_def sent_channel_def mask_wf_def clear_mask_def update_type_defs)

text \<open>A queue that fits a packet is sent; steadiness stays.\<close>

lemma send_steady:
  assumes st: "steady F ts st" "one_packet enc st" and lib: "lib_writes lib enc"
  shows "\<exists>st'. pva_send_updates lib st = Some st' \<and> steady F ts st' \<and> pva_queue_inv st' \<and> ps_deque st' = [] \<and>
    ps_channels st' = send_channels (ps_deque st) (ps_channels st) \<and> ps_cache st' = ps_cache st \<and>
    ps_sent st' = ps_sent st @ [pva_packet enc st] \<and> ps_seq_no st' = ps_seq_no st + 1"
proof -
  from pva_send_updates_one [OF lib st(2)] obtain st' where s: "pva_send_updates lib st = Some st'" "ps_deque st' = []"
    "pva_queue_inv st'" "ps_channels st' = send_channels (ps_deque st) (ps_channels st)"
    "ps_sent st' = ps_sent st @ [pva_packet enc st]" "ps_seq_no st' = ps_seq_no st + 1" by blast
  have a: "aside st' = aside st" using pva_send_updates_aside [OF s(1)] by blast
  have d: "distinct (ps_deque st)" "\<forall>q \<in> set (ps_deque st). q < length (ps_channels st)"
    using st(2) by (auto simp: one_packet_def pva_queue_inv_def pva_chans_inv_def)
  have "chan_steady F (ts ! i) (ps_channels st' ! i)" if "i < length ts" for i
    using st(1) that sent_steady send_channels_taken [OF d(1) _ d(2), of i] send_channels_nth [of i "ps_deque st" "ps_channels st"]
    by (cases "i \<in> set (ps_deque st)") (simp_all add: s(4) steady_def)
  then have "steady F ts st'" using st(1) a by (simp add: steady_def aside_def s(4))
  with s a show ?thesis by (simp add: aside_def)
qed

end
