(* ===== verification/Pva_Mirror.thy ===== *)
theory Pva_Mirror
  imports Pva_Steady
begin

text \<open>
  The receiver as a mirror of the sender: once a heartbeat has gone through, every further turn of the
  run loop leaves the receiver's value of each channel equal to the sender's in every field the sender
  has been given, as long as packets arrive, channels stay connected and keep their types.
\<close>

subsection \<open>Receiving\<close>

text \<open>The receiver's channel holds the sender's value and expects its next update.\<close>

definition mirrors :: "pva_channel \<Rightarrow> prx_channel \<Rightarrow> bool" where
  "mirrors c x \<longleftrightarrow>
     px_last_update_seqno x + 1 = pc_update_seq_no c \<and>
     (\<exists>r. px_last_value x = Some r \<and> agrees r (the (pc_value c)))"

text \<open>The value the update of a channel starts from differs from the sender's in marked fields only.\<close>

definition base_agrees :: "pva_lib \<Rightarrow> pva_channel \<Rightarrow> pva_receiver \<Rightarrow> bool" where
  "base_agrees lib c rc \<longleftrightarrow>
     (\<exists>w. entry_base lib rc (queue_entry c) = Some w \<and> same_type w (the (pc_value c)) \<and>
        (\<forall>k. given (the (pc_value c)) k \<longrightarrow>
           mask_bit (pc_changed c) k \<or> content w k = content (the (pc_value c)) k))"

lemma new_value_agrees:
  assumes "base_agrees lib c rc" "readable_entry U lib rc (queue_entry c)" "lib_assigns lib app U"
  shows "agrees (new_value lib app rc (queue_entry c)) (the (pc_value c))"
  using updated_agrees [OF new_value_updated [OF assms(2,3)]] assms(1)
  by (auto simp: base_agrees_def) (simp_all add: queue_entry_def)

lemma packet_taken_ready:
  assumes "pva_link_ready h reserved rc" "length (pva_packet enc st) \<le> MAX_MESSAGE_SIZE"
  shows "pva_link_ready h reserved (fold (apply_entry lib app) es (packet_taken enc h st rc))"
    "pva_in_order (ps_seq_no st + 1) (pva_admit h (fold (apply_entry lib app) es (packet_taken enc h st rc)))"
proof -
  have s: "pr_last_startup_time (packet_taken enc h st rc) = hd_startup_time h"
    using assms(1) by (auto simp: packet_taken_def pva_admit_def pva_validate_sender_def pva_link_ready_def)
  have b: "length (pr_buffer (packet_taken enc h st rc)) = MAX_MESSAGE_SIZE"
    "pr_config_hash (packet_taken enc h st rc) = pr_config_hash rc"
    using assms
    by (auto simp: packet_taken_def pva_admit_def pva_validate_sender_def pva_link_ready_def length_patch)
  show "pva_link_ready h reserved (fold (apply_entry lib app) es (packet_taken enc h st rc))"
    using assms(1) s b by (simp add: pva_link_ready_def apply_entries_frame)
  show "pva_in_order (ps_seq_no st + 1) (pva_admit h (fold (apply_entry lib app) es (packet_taken enc h st rc)))"
    by (simp add: pva_in_order_def pva_admit_def pva_validate_sender_def apply_entries_frame s)
qed

lemma receive_steady:
  assumes lib: "lib_reads lib enc app (values_in F ts)" "lib_assigns lib app (values_in F ts)"
    and st: "steady F ts st" "one_packet enc st" "length ts \<le> 2 ^ 32" "take Header_size (ps_buffer st) = enc_header reserved h"
    and rc: "pva_link_ready h reserved rc" "pva_in_order (ps_seq_no st) (pva_admit h rc)" "length (pr_channels rc) = length ts"
    and base: "\<forall>q \<in> set (ps_deque st). base_agrees lib (ps_channels st ! q) rc"
  shows "\<exists>rc'. pva_receive_packet lib (pva_packet enc st) rc = Some rc' \<and> length (pr_channels rc') = length ts \<and>
    pr_cache rc' = pr_cache rc \<and> pva_link_ready h reserved rc' \<and> pva_in_order (ps_seq_no st + 1) (pva_admit h rc') \<and>
    (\<forall>q \<in> set (ps_deque st). mirrors (sent_channel (ps_channels st ! q)) (pr_channels rc' ! q)) \<and>
    (\<forall>q < length ts. q \<notin> set (ps_deque st) \<longrightarrow> pr_channels rc' ! q = pr_channels rc ! q)"
proof -
  let ?e = "\<lambda>q. queue_entry (ps_channels st ! q)"
  let ?es = "queue_entries st"
  have n: "length (ps_channels st) = length ts" using st(1) by (simp add: steady_def)
  have inv: "pva_queue_inv st" using st(2) by (simp add: one_packet_def)
  have q: "q < length ts \<and> unat (pcd_id (fst (?e q))) = q \<and> pc_pending (ps_channels st ! q) \<noteq> UT_None"
    if "q \<in> set (ps_deque st)" for q
  proof -
    have "q < length ts" "pc_index (ps_channels st ! q) = q" "pc_pending (ps_channels st ! q) \<noteq> UT_None"
      using inv that n by (auto simp: pva_queue_inv_def pva_chans_inv_def)
    moreover from this st(3) have "unat (of_nat q :: u32) = q" by (intro unat_word_of_nat_small) simp
    ultimately show ?thesis by (simp add: queue_entry_def pva_channel_message_def)
  qed
  have rd: "readable_entry (values_in F ts) lib rc (?e i)" if i: "i \<in> set (ps_deque st)" for i
  proof -
    have c: "chan_steady F (ts ! i) (ps_channels st ! i)" using st(1) q [OF i] by (simp add: steady_def)
    then obtain v where v: "pc_value (ps_channels st ! i) = Some v" "value_in F (ts ! i) v" by (auto simp: chan_steady_def)
    from bspec [OF base i] obtain w where w: "entry_base lib rc (?e i) = Some w" "same_type w v" by (auto simp: base_agrees_def v(1))
    have "length (pv_fields v) = width (ts ! i)" using v(2) by (intro typed_length) (simp add: value_in_def)
    moreover have "values_in F ts v" using v(2) q [OF i] by (auto simp: values_in_def)
    moreover have "deliverable lib rc (?e i)"
      using q [OF i] w(1) rc(3)
      by (simp add: deliverable_def) (simp add: queue_entry_def pva_channel_message_def update_type_defs)
    ultimately show ?thesis using c w v(1) by (simp add: readable_entry_def chan_steady_def) (simp add: queue_entry_def v(1))
  qed
  then have del: "\<forall>e \<in> set ?es. readable_entry (values_in F ts) lib rc e"
    by (simp add: queue_entries_map)
  have len: "length (ps_channels st) \<le> 2 ^ 32" using st(3) n by simp
  note r = pva_receive_queue_state [OF lib(1) st(2) len st(4) rc(1,2) del lib(2)]
  let ?rc = "fold (apply_entry lib app) ?es (packet_taken enc h st rc)"
  have dist: "distinct (map (\<lambda>e. pcd_id (fst e)) ?es)" by (rule queue_entry_ids(2) [OF inv len])
  have lt: "\<forall>e \<in> set ?es. unat (pcd_id (fst e)) < length (pr_channels (packet_taken enc h st rc))"
    using q rc(3) by (auto simp: queue_entries_map)
  have "mirrors (sent_channel (ps_channels st ! i)) (pr_channels ?rc ! i)" if i: "i \<in> set (ps_deque st)" for i
  proof -
    have "?e i \<in> set ?es" using i by (simp add: queue_entries_map)
    from apply_entries_taken [OF dist this lt] q [OF i] have
      t: "px_last_value (pr_channels ?rc ! i) = Some (new_value lib app (packet_taken enc h st rc) (?e i))"
        "px_last_update_seqno (pr_channels ?rc ! i) = pcd_update_seq_no (fst (?e i))" by simp_all
    have same: "new_value lib app (packet_taken enc h st rc) (?e i) = new_value lib app rc (?e i)"
      by (simp add: new_value_def entry_base_def)
    from new_value_agrees [OF bspec [OF base i] rd [OF i] lib(2)] t show ?thesis
      by (simp add: mirrors_def same sent_channel_def)
  qed
  moreover have "pr_channels ?rc ! i = pr_channels rc ! i" if "i \<notin> set (ps_deque st)" for i
  proof -
    have "\<forall>e \<in> set ?es. unat (pcd_id (fst e)) \<noteq> i" using that q by (auto simp: queue_entries_map)
    then show ?thesis by (simp add: apply_entries_other)
  qed
  ultimately show ?thesis
    using r packet_taken_ready [OF rc(1), of enc st lib app ?es] rc(3)
    by (intro exI [of _ ?rc]) (simp add: apply_entries_frame)
qed

subsection \<open>Turns\<close>

text \<open>Both ends of a link on which each learned type fits a packet.\<close>

definition linked_up ::
  "(pva_value \<Rightarrow> bytes) \<Rightarrow> content_range \<Rightarrow> header \<Rightarrow> bytes \<Rightarrow> pva_value list \<Rightarrow> pva_sender \<Rightarrow> pva_receiver \<Rightarrow> bool" where
  "linked_up tenc F h reserved ts st rc \<longleftrightarrow>
     steady F ts st \<and> pva_queue_inv st \<and> length (ps_buffer st) = MAX_MESSAGE_SIZE \<and>
     take Header_size (ps_buffer st) = enc_header reserved h \<and> pva_types_ok st \<and> length (ps_cache st) < 2 ^ 16 \<and>
     list_all (\<lambda>v. length (tenc (the v)) \<le> data_room) (drop (unat (ps_builtin st)) (ps_cache st)) \<and>
     ts \<noteq> [] \<and> length ts \<le> 2 ^ 32 \<and>
     pva_link_ready h reserved rc \<and> pva_in_order (ps_seq_no st) (pva_admit h rc) \<and>
     length (pr_channels rc) = length ts \<and> (\<forall>j < unat (ps_builtin st). cache_at (pr_cache rc) j \<noteq> None)"

definition mirrored :: "pva_value list \<Rightarrow> pva_sender \<Rightarrow> pva_receiver \<Rightarrow> bool" where
  "mirrored ts st rc \<longleftrightarrow> (\<forall>i < length ts. mirrors (ps_channels st ! i) (pr_channels rc ! i))"

lemma steady_value:
  assumes "steady F ts st" "i < length ts"
  obtains v where "pc_value (ps_channels st ! i) = Some v" "value_in F (ts ! i) v" "typed_as (ts ! i) v" "same_type v (ts ! i)"
  using assms by (force simp: steady_def chan_steady_def value_in_def typed_as_def)

lemma mirrored_bases:
  assumes "mirrored ts st rc" "steady F ts st" "steady F ts st1"
  shows "bases_typed lib blank st1 rc"
  unfolding bases_typed_def
proof (intro allI impI)
  fix i assume "i < length (ps_channels st1)"
  then have i: "i < length ts" using assms(3) by (simp add: steady_def)
  from steady_value [OF assms(2) i] obtain v where v: "pc_value (ps_channels st ! i) = Some v" "same_type v (ts ! i)" .
  from steady_value [OF assms(3) i] obtain w where w: "pc_value (ps_channels st1 ! i) = Some w" "same_type w (ts ! i)" .
  from assms(1) i v(1) obtain r where r: "px_last_value (pr_channels rc ! i) = Some r" "agrees r v"
    by (auto simp: mirrored_def mirrors_def)
  have "same_type r w"
    using r(2) v(2) same_type_sym [OF w(2)] same_type_trans by (simp add: agrees_def) blast
  with r(1) w(1) show "same_type (first_base lib blank st1 rc i) (the (pc_value (ps_channels st1 ! i)))"
    by (simp add: first_base_def Let_def)
qed

lemma room_sum: "sum_list (map (\<lambda>i. 9 + B (ts ! i)) [0 ..< length ts]) = sum_list (map (\<lambda>t. 9 + B t) ts)" for B :: "'a \<Rightarrow> nat"
  using map_nth [of ts] by (metis (no_types, lifting) map_map comp_apply map_cong)

text \<open>Every queue of a steady sender fits a packet.\<close>

lemma steady_bound:
  assumes "steady F ts st" "link_fits enc F B ts" "i < length ts" "mask_wf (width (ts ! i)) m"
  shows "length (enc (the (pc_value (ps_channels st ! i))) m) \<le> B (ts ! i)"
proof -
  from steady_value [OF assms(1,3)] obtain v where "pc_value (ps_channels st ! i) = Some v" "value_in F (ts ! i) v" .
  with assms(2-4) show ?thesis by (simp add: link_fits_def)
qed

lemma queue_fits:
  assumes "steady F ts st" "pva_queue_inv st" "length (ps_buffer st) = MAX_MESSAGE_SIZE" "ps_deque st \<noteq> []"
    and fits: "link_fits enc F B ts"
  shows "one_packet enc st"
proof -
  have n: "length (ps_channels st) = length ts" using assms(1) by (simp add: steady_def)
  have q: "set (ps_deque st) \<subseteq> {0 ..< length ts}" "distinct (ps_deque st)"
    using assms(2) n by (auto simp: pva_queue_inv_def pva_chans_inv_def)
  have val: "\<forall>i \<in> set (ps_deque st). pc_value (ps_channels st ! i) \<noteq> None"
    using q(1) steady_value [OF assms(1)] by (metis atLeastLessThan_iff option.distinct(1) subsetD)
  have "\<forall>i < length ts. length (enc (the (pc_value (ps_channels st ! i))) (pc_changed (ps_channels st ! i))) \<le> B (ts ! i)"
    using steady_bound [OF assms(1) fits] assms(1) by (simp add: steady_def chan_steady_def)
  from queued_entries_bound [OF this q val] fits have "length (queued_entries enc st) \<le> data_room"
    by (simp add: link_fits_def room_sum)
  with assms(2-4) val show ?thesis by (simp add: one_packet_def list_all_iff)
qed

text \<open>So does every heartbeat.\<close>

lemma steady_heartbeat:
  assumes "linked_up tenc F h reserved ts st rc" "link_fits enc F B ts"
  shows "heartbeat_fits tenc enc (values_in F ts) (\<lambda>i. B (ts ! i)) st"
proof -
  have s: "steady F ts st" using assms(1) by (simp add: linked_up_def)
  have n: "length (ps_channels st) = length ts" using s by (simp add: steady_def)
  have "beat_fits enc (values_in F ts) (B (ts ! i)) (ps_channels st ! i)" if i: "i < length ts" for i
  proof -
    from steady_value [OF s i] obtain v where v: "pc_value (ps_channels st ! i) = Some v" "value_in F (ts ! i) v"
      "typed_as (ts ! i) v" .
    have "values_in F ts v" using v(2) i by (auto simp: values_in_def)
    moreover have "full_marks (ps_channels st ! i)" using s i by (simp add: steady_def chan_steady_def)
    ultimately show ?thesis
      using steady_bound [OF s assms(2) i] by (simp add: beat_fits_def v(1) typed_length [OF v(3)])
  qed
  moreover have "list_all (pva_ready st) [0 ..< length ts]" using steady_ready [OF s] by (simp add: list_all_iff)
  moreover have "ps_channels st \<noteq> []" using assms(1) n by (auto simp: linked_up_def)
  ultimately show ?thesis
    using assms n by (simp add: linked_up_def heartbeat_fits_def link_fits_def room_sum list_all_iff)
qed

text \<open>After the updates are sent and received.\<close>

lemma data_exchanged:
  assumes lib: "lib_writes lib enc" "lib_reads lib enc app (values_in F ts)" "lib_assigns lib app (values_in F ts)"
    and link: "linked_up tenc F h reserved ts st rc" and one: "one_packet enc st"
    and base: "\<forall>q \<in> set (ps_deque st). base_agrees lib (ps_channels st ! q) rc"
    and idle: "\<forall>q < length ts. q \<notin> set (ps_deque st) \<longrightarrow> mirrors (ps_channels st ! q) (pr_channels rc ! q)"
  shows "\<exists>st' rc'. pva_send_updates lib st = Some st' \<and> ps_deque st' = [] \<and> ps_sent st' = ps_sent st @ [pva_packet enc st] \<and>
    pva_receive_packet lib (pva_packet enc st) rc = Some rc' \<and> linked_up tenc F h reserved ts st' rc' \<and>
    mirrored ts st' rc' \<and> ps_cache st' = ps_cache st"
proof -
  from link have l: "steady F ts st" "length ts \<le> 2 ^ 32" "take Header_size (ps_buffer st) = enc_header reserved h"
    "pva_link_ready h reserved rc" "pva_in_order (ps_seq_no st) (pva_admit h rc)" "length (pr_channels rc) = length ts"
    "length (ps_buffer st) = MAX_MESSAGE_SIZE"
    by (simp_all add: linked_up_def)
  from send_steady [OF l(1) one lib(1)] obtain st' where s: "pva_send_updates lib st = Some st'" "steady F ts st'"
    "pva_queue_inv st'" "ps_deque st' = []" "ps_channels st' = send_channels (ps_deque st) (ps_channels st)"
    "ps_cache st' = ps_cache st" "ps_sent st' = ps_sent st @ [pva_packet enc st]" "ps_seq_no st' = ps_seq_no st + 1"
    by (elim exE conjE) (rule that)
  from receive_steady [OF lib(2,3) l(1) one l(2-6) base] obtain rc' where
    r: "pva_receive_packet lib (pva_packet enc st) rc = Some rc'" "length (pr_channels rc') = length ts"
      "pr_cache rc' = pr_cache rc" "pva_link_ready h reserved rc'" "pva_in_order (ps_seq_no st + 1) (pva_admit h rc')"
      "\<forall>q \<in> set (ps_deque st). mirrors (sent_channel (ps_channels st ! q)) (pr_channels rc' ! q)"
      "\<forall>q < length ts. q \<notin> set (ps_deque st) \<longrightarrow> pr_channels rc' ! q = pr_channels rc ! q"
    by (elim exE conjE) (rule that)
  have f: "same_frame st st'" using pva_send_updates_same_frame [OF s(1)] lib(1) l(7) by blast
  then have "linked_up tenc F h reserved ts st' rc'"
    using link s(2,3,6,8) r(2-5) by (simp add: linked_up_def same_frame_def)
  moreover have "mirrors (ps_channels st' ! i) (pr_channels rc' ! i)" if i: "i < length ts" for i
  proof -
    have d: "distinct (ps_deque st)" "\<forall>q \<in> set (ps_deque st). q < length (ps_channels st)"
      using one by (auto simp: one_packet_def pva_queue_inv_def pva_chans_inv_def)
    show ?thesis
    proof (cases "i \<in> set (ps_deque st)")
      case True
      with r(6) send_channels_taken [OF d(1) True d(2)] show ?thesis by (simp add: s(5))
    next
      case False
      with r(7) idle i send_channels_nth [OF False, of "ps_channels st"] show ?thesis by (simp add: s(5))
    qed
  qed
  ultimately show ?thesis using s(1,4,6,7) r(1) by (auto simp: mirrored_def)
qed

text \<open>What the receiver shows of a channel while its value evolves.\<close>

lemma evolves_agrees:
  assumes "evolves t c c'" "typed_as t v" "typed_as t v'" "pc_value c = Some v" "pc_value c' = Some v'" "agrees r v"
  shows "same_type r v'" "given v' k \<Longrightarrow> mask_bit (pc_changed c') k \<or> content r k = content v' k"
    "pc_pending c' = UT_None \<Longrightarrow> agrees r v'"
proof -
  have ty: "same_type v v'" by (rule same_type_as [OF assms(2,3)])
  with assms(6) show r: "same_type r v'" using same_type_trans by (simp add: agrees_def) blast
  have g: "k < width t \<and> given v k" if "given v' k" for k
  proof -
    have "k < width t" using that typed_length [OF assms(3)] by (simp add: given_def stores_def)
    with that assms(1,4,5) same_type_stores [OF ty, of k] show ?thesis by (simp add: given_def evolves_def)
  qed
  show "mask_bit (pc_changed c') k \<or> content r k = content v' k" if "given v' k"
    using g [OF that] assms(1,4-6) by (auto simp: evolves_def agrees_def)
  show "agrees r v'" if "pc_pending c' = UT_None"
    using g r that assms(1,4-6) by (simp add: evolves_def agrees_def)
qed

text \<open>A turn without a heartbeat, from the events on: updates of the marked fields.\<close>

lemma partial_turn:
  assumes lib: "lib_writes lib enc" "lib_reads lib enc app (values_in F ts)" "lib_assigns lib app (values_in F ts)"
    and fits: "link_fits enc F B ts"
    and old: "steady F ts st" "pva_queue_inv st" "ps_deque st = []" "mirrored ts st rc" "worked F ts st st1"
    and link: "linked_up tenc F h reserved ts st1 rc"
  shows "\<exists>st' pkts rc'. pva_send_updates lib st1 = Some st' \<and> ps_deque st' = [] \<and> ps_sent st' = ps_sent st1 @ pkts \<and>
    foldM (pva_receive_packet lib) pkts rc = Some rc' \<and> linked_up tenc F h reserved ts st' rc' \<and> mirrored ts st' rc' \<and>
    ps_cache st' = ps_cache st1"
proof -
  from link have l: "steady F ts st1" "pva_queue_inv st1" "length (ps_buffer st1) = MAX_MESSAGE_SIZE"
    "length (pr_channels rc) = length ts" "length ts \<le> 2 ^ 32"
    by (simp_all add: linked_up_def)
  have n: "length (ps_channels st) = length ts" "length (ps_channels st1) = length ts"
    using old(1) l(1) by (simp_all add: steady_def)
  have ev: "evolves (ts ! i) (ps_channels st ! i) (ps_channels st1 ! i)" if "i < length ts" for i
    using old(5) that by (simp add: worked_def)
  have none: "pc_pending (ps_channels st ! i) = UT_None" if "i < length ts" for i
    using old(2,3) that n(1) by (auto simp: pva_queue_inv_def pva_chans_inv_def)
  have shown: "\<exists>r v. px_last_update_seqno (pr_channels rc ! q) + 1 = pc_update_seq_no (ps_channels st1 ! q) \<and>
      px_last_value (pr_channels rc ! q) = Some r \<and> pc_value (ps_channels st1 ! q) = Some v \<and> same_type r v \<and>
      (\<forall>k. given v k \<longrightarrow> mask_bit (pc_changed (ps_channels st1 ! q)) k \<or> content r k = content v k) \<and>
      (pc_pending (ps_channels st1 ! q) = UT_None \<longrightarrow> agrees r v)" if q: "q < length ts" for q
  proof -
    from steady_value [OF old(1) q] obtain v where v: "pc_value (ps_channels st ! q) = Some v" "typed_as (ts ! q) v" .
    from steady_value [OF l(1) q] obtain w where w: "pc_value (ps_channels st1 ! q) = Some w" "typed_as (ts ! q) w" .
    from old(4) q v(1) obtain r where r: "px_last_update_seqno (pr_channels rc ! q) + 1 = pc_update_seq_no (ps_channels st ! q)"
      "px_last_value (pr_channels rc ! q) = Some r" "agrees r v" by (auto simp: mirrored_def mirrors_def)
    from evolves_agrees [OF ev [OF q] v(2) w(2) v(1) w(1) r(3)] r(1,2) w(1) ev [OF q] show ?thesis
      by (simp add: evolves_def)
  qed
  have idle: "mirrors (ps_channels st1 ! q) (pr_channels rc ! q)" if q: "q < length ts" "q \<notin> set (ps_deque st1)" for q
  proof -
    have "pc_pending (ps_channels st1 ! q) = UT_None"
      using l(2) q n(2) by (auto simp: pva_queue_inv_def pva_chans_inv_def)
    with shown [OF q(1)] show ?thesis by (auto simp: mirrors_def)
  qed
  show ?thesis
  proof (cases "ps_deque st1 = []")
    case True
    then have "pva_send_updates lib st1 = Some st1"
      by (subst pva_send_updates.simps) (simp add: pva_has_updates_def)
    moreover have "mirrored ts st1 rc" using idle True by (simp add: mirrored_def)
    ultimately show ?thesis using link True by (intro exI [of _ st1] exI [of _ "[]"] exI [of _ rc]) simp
  next
    case False
    have one: "one_packet enc st1" by (rule queue_fits [OF l(1-3) False fits])
    have base: "base_agrees lib (ps_channels st1 ! q) rc" if "q \<in> set (ps_deque st1)" for q
    proof -
      let ?c = "ps_channels st1 ! q"
      have q: "q < length ts" "pc_index ?c = q" "pc_pending ?c \<noteq> UT_None"
        using l(2) that n(2) by (auto simp: pva_queue_inv_def pva_chans_inv_def)
      have "chan_steady F (ts ! q) ?c" using l(1) q(1) by (simp add: steady_def)
      then have p: "pc_pending ?c = UT_Partial"
        using q(3) ev [OF q(1)] none [OF q(1)] by (auto simp: chan_steady_def evolves_def update_type_defs)
      from shown [OF q(1)] obtain r v where r: "px_last_update_seqno (pr_channels rc ! q) + 1 = pc_update_seq_no ?c"
        "px_last_value (pr_channels rc ! q) = Some r" "pc_value ?c = Some v" "same_type r v"
        "\<forall>k. given v k \<longrightarrow> mask_bit (pc_changed ?c) k \<or> content r k = content v k" by blast
      have u: "unat (of_nat q :: u32) = q" using q(1) l(5) by (intro unat_word_of_nat_small) simp
      have "entry_base lib rc (queue_entry ?c) = Some r"
        using r(1,2) p q(2) u
        by (simp add: entry_base_def queue_entry_def pva_channel_message_def update_base_def sent_type_def)
      with r(3-5) show ?thesis by (simp add: base_agrees_def)
    qed
    from data_exchanged [OF lib link one] base idle obtain st' rc' where
      "pva_send_updates lib st1 = Some st'" "ps_deque st' = []" "ps_sent st' = ps_sent st1 @ [pva_packet enc st1]"
      "pva_receive_packet lib (pva_packet enc st1) rc = Some rc'" "linked_up tenc F h reserved ts st' rc'"
      "mirrored ts st' rc'" "ps_cache st' = ps_cache st1" by blast
    then show ?thesis by (intro exI [of _ st'] exI [of _ "[pva_packet enc st1]"] exI [of _ rc']) simp
  qed
qed

text \<open>A turn with a heartbeat, from the events on.\<close>

lemma full_turn:
  assumes lib: "lib_writes lib enc" "lib_reads lib enc app (values_in F ts)" "lib_assigns lib app (values_in F ts)"
      "lib_types lib tenc blank"
    and fits: "link_fits enc F B ts"
    and link: "linked_up tenc F h reserved ts st1 rc" and start: "bases_typed lib blank st1 rc"
  shows "\<exists>s1 s2 st' pkts rc'. send_typedef_updates lib st1 = Some s1 \<and>
    map_option fst (pva_mark_heartbeat_updates s1) = Some s2 \<and> pva_send_updates lib s2 = Some st' \<and> ps_deque st' = [] \<and>
    ps_sent st' = ps_sent st1 @ pkts \<and> foldM (pva_receive_packet lib) pkts rc = Some rc' \<and>
    linked_up tenc F h reserved ts st' rc' \<and> mirrored ts st' rc' \<and> ps_cache st' = ps_cache st1"
proof -
  from link have l: "steady F ts st1" "pva_queue_inv st1" "pva_types_ok st1" "length (ps_buffer st1) = MAX_MESSAGE_SIZE"
    "take Header_size (ps_buffer st1) = enc_header reserved h" "pva_link_ready h reserved rc"
    "pva_in_order (ps_seq_no st1) (pva_admit h rc)" "length (pr_channels rc) = length ts"
    "\<forall>j < unat (ps_builtin st1). cache_at (pr_cache rc) j \<noteq> None"
    by (simp_all add: linked_up_def)
  have n: "length (ps_channels st1) = length ts" using l(1) by (simp add: steady_def)
  have rl: "length (pr_channels rc) = length (ps_channels st1)" using l(8) n by simp
  from heartbeat_marks [OF lib(1,2,4,3) l(2,3) steady_heartbeat [OF link fits] l(4-7) rl l(9) start]
  obtain s1 s2 pkts rc1 where "heartbeat_state lib enc (values_in F ts) blank h reserved st1 rc s1 s2 pkts rc1" by blast
  then have t: "send_typedef_updates lib st1 = Some s1" "typedefs_frame st1 s1"
      "map_option fst (pva_mark_heartbeat_updates s1) = Some s2" "ps_sent s2 = ps_sent st1 @ pkts"
      "foldM (pva_receive_packet lib) pkts rc = Some rc1" "learns h rc rc1"
      "teaches blank (unat (ps_builtin st1)) (drop (unat (ps_builtin st1)) (map the (ps_cache st1))) (pr_cache rc) (pr_cache rc1)"
    and m: "pva_queue_inv s2" "refreshed (length ts) s1 s2" "set (ps_deque s2) = {0 ..< length ts}" "one_packet enc s2"
      "take Header_size (ps_buffer s2) = enc_header reserved h"
    and r: "pva_link_ready h reserved rc1" "pva_in_order (ps_seq_no s2) (pva_admit h rc1)"
      "\<forall>e \<in> set (queue_entries s2). readable_entry (values_in F ts) lib rc1 e"
    by (simp_all add: heartbeat_state_def n)
  have tl: "typedef_loop lib (ps_builtin st1) st1 = Some s1" using t(1) by (simp add: send_typedef_updates_def)
  have "steady F ts s1"
    using l(1) t(2) typedef_loop_aside [OF tl] by (simp add: steady_def typedefs_frame_def aside_def)
  from heartbeats_full_marked [OF this t(3)] have s2: "steady F ts s2" by (simp add: full_marked_def)
  have cache: "ps_cache s2 = ps_cache st1" using t(2) m(2) by (simp add: refreshed_def typedefs_frame_def)
  have "same_frame st1 s2"
    using same_frame_trans [OF _ pva_heartbeats_same_frame [OF t(3)]] typedef_loop_same_frame [OF tl] lib(4) l(4) by blast
  then have link2: "linked_up tenc F h reserved ts s2 rc1"
    using link s2 m(1,5) r(1,2) t(6,7) cache l(9)
    by (auto simp: linked_up_def same_frame_def learns_def teaches_def)
  have base: "base_agrees lib (ps_channels s2 ! q) rc1" if "q \<in> set (ps_deque s2)" for q
  proof -
    let ?c = "ps_channels s2 ! q"
    have q: "q < length ts" using that m(3) by simp
    have "readable_entry (values_in F ts) lib rc1 (queue_entry ?c)" using r(3) that by (simp add: queue_entries_map)
    then obtain w where w: "entry_base lib rc1 (queue_entry ?c) = Some w" "same_type w (the (pc_value ?c))"
      by (auto simp: readable_entry_def deliverable_def) (auto simp: queue_entry_def)
    have "marks_given (the (pc_value ?c)) (pc_changed ?c)" using m(2) q by (simp add: refreshed_def full_marks_def)
    then have "mask_bit (pc_changed ?c) k" if "given (the (pc_value ?c)) k" for k
      using that by (simp add: marks_given_def given_def stores_def)
    with w show ?thesis by (auto simp: base_agrees_def)
  qed
  from data_exchanged [OF lib(1-3) link2 m(4)] base m(3) obtain st' rc' where
    d: "pva_send_updates lib s2 = Some st'" "ps_deque st' = []" "ps_sent st' = ps_sent s2 @ [pva_packet enc s2]"
      "pva_receive_packet lib (pva_packet enc s2) rc1 = Some rc'" "linked_up tenc F h reserved ts st' rc'"
      "mirrored ts st' rc'" "ps_cache st' = ps_cache s2" by fastforce
  have "foldM (pva_receive_packet lib) (pkts @ [pva_packet enc s2]) rc = Some rc'"
    using t(5) d(4) by (simp add: foldM_append)
  then show ?thesis
    using t(1,3,4) d cache
    by (intro exI [of _ s1] exI [of _ s2] exI [of _ st'] exI [of _ "pkts @ [pva_packet enc s2]"] exI [of _ rc']) simp
qed

subsection \<open>Runs\<close>

lemma linked_up_iteration [simp]: "linked_up tenc F h reserved ts (st\<lparr>ps_iteration := k\<rparr>) rc = linked_up tenc F h reserved ts st rc"
  by (simp add: linked_up_def steady_def pva_queue_inv_def pva_types_ok_def)

lemma worked_link:
  assumes "linked_up tenc F h reserved ts st rc" "pva_work lib (pva_arrivals evs st) = Some st1" "worked F ts st st1"
  shows "linked_up tenc F h reserved ts st1 rc" "ps_sent st1 = ps_sent st"
  using assms(1,3) pva_work_same_link [OF assms(2)] by (simp_all add: linked_up_def same_link_def worked_def)

lemma mirror_turn:
  assumes lib: "lib_writes lib enc" "lib_reads lib enc app (values_in F ts)" "lib_assigns lib app (values_in F ts)" "lib_types lib tenc blank"
    and fits: "link_fits enc F B ts"
    and st: "linked_up tenc F h reserved ts st rc" "ps_deque st = []" "mirrored ts st rc" and evs: "events_fit F ts evs"
  shows "\<exists>st' pkts rc'. pva_run_iteration lib evs st = Some st' \<and> ps_deque st' = [] \<and> ps_sent st' = ps_sent st @ pkts \<and>
    foldM (pva_receive_packet lib) pkts rc = Some rc' \<and> linked_up tenc F h reserved ts st' rc' \<and> mirrored ts st' rc'"
proof -
  from st(1) have l: "steady F ts st" "pva_queue_inv st" by (simp_all add: linked_up_def)
  have "list_all plain ts" using fits by (simp add: link_fits_def)
  from work_steady [OF l evs lib(3) this] obtain s where w: "pva_work lib (pva_arrivals evs st) = Some s" "worked F ts st s" by blast
  let ?s = "s\<lparr>ps_iteration := ps_iteration s + 1\<rparr>"
  have link: "linked_up tenc F h reserved ts ?s rc" and sent: "ps_sent ?s = ps_sent st"
    using worked_link [OF st(1) w] by simp_all
  have w1: "worked F ts st ?s" using w(2) by (simp add: worked_def steady_def)
  show ?thesis
  proof (cases "ps_iteration ?s mod ps_hb_iterations ?s = 0")
    case True
    have "steady F ts ?s" using w1 by (simp add: worked_def)
    from full_turn [OF lib fits link mirrored_bases [OF st(3) l(1) this]] obtain s1 s2 st' pkts rc' where
      f: "send_typedef_updates lib ?s = Some s1" "map_option fst (pva_mark_heartbeat_updates s1) = Some s2"
        "pva_send_updates lib s2 = Some st'" "ps_deque st' = []" "ps_sent st' = ps_sent ?s @ pkts"
        "foldM (pva_receive_packet lib) pkts rc = Some rc'" "linked_up tenc F h reserved ts st' rc'" "mirrored ts st' rc'"
      by (elim exE conjE) (rule that)
    have "pva_run_iteration lib evs st = Some st'"
      using True by (simp add: pva_run_iteration_def w(1) f(1-3))
    with f(4-8) sent show ?thesis by (intro exI [of _ st'] exI [of _ pkts] exI [of _ rc']) simp
  next
    case False
    from partial_turn [OF lib(1-3) fits l st(2,3) w1 link] obtain st' pkts rc' where
      f: "pva_send_updates lib ?s = Some st'" "ps_deque st' = []" "ps_sent st' = ps_sent ?s @ pkts"
        "foldM (pva_receive_packet lib) pkts rc = Some rc'" "linked_up tenc F h reserved ts st' rc'" "mirrored ts st' rc'"
      by (elim exE conjE) (rule that)
    have "pva_run_iteration lib evs st = Some st'"
      using False f(1) by (simp add: pva_run_iteration_def w(1))
    with f(2-6) sent show ?thesis by (intro exI [of _ st'] exI [of _ pkts] exI [of _ rc']) simp
  qed
qed

lemma mirror_run:
  assumes lib: "lib_writes lib enc" "lib_reads lib enc app (values_in F ts)" "lib_assigns lib app (values_in F ts)" "lib_types lib tenc blank"
    and fits: "link_fits enc F B ts"
  shows "linked_up tenc F h reserved ts st rc \<Longrightarrow> ps_deque st = [] \<Longrightarrow> mirrored ts st rc \<Longrightarrow>
    list_all (events_fit F ts) turns \<Longrightarrow>
    \<exists>st' pkts rc'. pva_run_loop lib False k turns st = Some (False, st') \<and> ps_sent st' = ps_sent st @ pkts \<and>
      foldM (pva_receive_packet lib) pkts rc = Some rc' \<and> linked_up tenc F h reserved ts st' rc' \<and> mirrored ts st' rc'"
proof (induction turns arbitrary: st rc)
  case Nil
  then show ?case by (intro exI [of _ st] exI [of _ "[]"] exI [of _ rc]) simp
next
  case (Cons evs turns)
  have e: "events_fit F ts evs" "list_all (events_fit F ts) turns" using Cons.prems(4) by simp_all
  from mirror_turn [OF lib fits Cons.prems(1-3) e(1)] obtain st1 p rc1 where
    t: "pva_run_iteration lib evs st = Some st1" "ps_deque st1 = []" "ps_sent st1 = ps_sent st @ p"
      "foldM (pva_receive_packet lib) p rc = Some rc1" "linked_up tenc F h reserved ts st1 rc1" "mirrored ts st1 rc1"
    by (elim exE conjE) (rule that)
  from Cons.IH [OF t(5,2,6) e(2)] obtain st' q rc' where
    r: "pva_run_loop lib False k turns st1 = Some (False, st')" "ps_sent st' = ps_sent st1 @ q"
      "foldM (pva_receive_packet lib) q rc1 = Some rc'" "linked_up tenc F h reserved ts st' rc'" "mirrored ts st' rc'"
    by (elim exE conjE) (rule that)
  then show ?case
    using t(1,3,4) by (intro exI [of _ st'] exI [of _ "p @ q"] exI [of _ rc']) (simp add: foldM_append)
qed

text \<open>Every channel is shown.\<close>

lemma mirrored_values:
  assumes "linked_up tenc F h reserved ts st rc" "mirrored ts st rc" "i < length ts"
  shows "\<exists>v r. pc_value (ps_channels st ! i) = Some v \<and> px_last_value (pr_channels rc ! i) = Some r \<and> agrees r v"
proof -
  have "steady F ts st" using assms(1) by (simp add: linked_up_def)
  from steady_value [OF this assms(3)] obtain v where "pc_value (ps_channels st ! i) = Some v" .
  with assms(2,3) show ?thesis by (auto simp: mirrored_def mirrors_def)
qed

end
