(* ===== verification/Pva_Demo.thy ===== *)
theory Pva_Demo
  imports Pva_Mirror
begin

text \<open>
  A concrete library for the contract of \<open>Pva_Contract\<close>: values whose fields are structures, numbers
  and strings. An update is one flag for each field, followed by the field's content where the field is
  sent; the reader follows the fields of the value it reads into. On it the theorems about the link are
  applied to small systems.
\<close>

subsection \<open>Fields on the wire\<close>

definition text_bytes :: "string \<Rightarrow> bytes" where
  "text_bytes s = map (\<lambda>c. of_nat (of_char c)) s"

definition bytes_text :: "bytes \<Rightarrow> string" where
  "bytes_text bs = map (\<lambda>b. char_of (unat b)) bs"

fun enc_content :: "store_type \<Rightarrow> field_content \<Rightarrow> bytes" where
  "enc_content ST_Null c = []"
| "enc_content ST_String c = (case c of Text s \<Rightarrow> of_nat (length s) # text_bytes s | _ \<Rightarrow> [0])"
| "enc_content t c = wire_bytes False (le_bytes 8 (case c of Number w \<Rightarrow> unat w | _ \<Rightarrow> 0))"

definition enc_field :: "bool \<times> field \<Rightarrow> bytes" where
  "enc_field f = (if fst f then 1 # enc_content (fl_code (snd f)) (fl_content (snd f)) else [0])"

definition get_block :: "nat \<Rightarrow> serializer \<Rightarrow> (bytes \<times> serializer) option" where
  "get_block n s = (if \<not> fb_ensure n s then Some ([], fault s) else ser_read n s)"

fun get_content :: "store_type \<Rightarrow> field_content \<Rightarrow> serializer \<Rightarrow> (field_content \<times> serializer) option" where
  "get_content ST_Null c s = Some (c, s)"
| "get_content ST_String c s =
     do { (n, s) \<leftarrow> from_wire_u8 0 s; (bs, s) \<leftarrow> get_block (unat n) s; Some (Text (bytes_text bs), s) }"
| "get_content t c s = do { (w, s) \<leftarrow> from_wire_u64 False 0 s; Some (Number w, s) }"

definition get_field :: "field \<Rightarrow> serializer \<Rightarrow> (field \<times> serializer) option" where
  "get_field f s =
     do { (b, s) \<leftarrow> from_wire_u8 0 s;
          if b = 0 then Some (f, s)
          else do { (c, s) \<leftarrow> get_content (fl_code f) (fl_content f) s;
                    Some (f\<lparr>fl_valid := True, fl_content := c\<rparr>, s) } }"

fun get_fields :: "field list \<Rightarrow> serializer \<Rightarrow> (field list \<times> serializer) option" where
  "get_fields [] s = Some ([], s)"
| "get_fields (f # fs) s = do { (g, s) \<leftarrow> get_field f s; (gs, s) \<leftarrow> get_fields fs s; Some (g # gs, s) }"

text \<open>What the reader makes of a field it had before.\<close>

definition read_over :: "field \<Rightarrow> bool \<times> field \<Rightarrow> field" where
  "read_over f g =
     (if fst g
      then f\<lparr>fl_valid := True, fl_content := (if fl_code f = ST_Null then fl_content f else fl_content (snd g))\<rparr>
      else f)"

text \<open>Fields this library is for.\<close>

definition writable :: "field \<Rightarrow> bool" where
  "writable f \<longleftrightarrow>
     fl_code f \<notin> {ST_Array, ST_Compound} \<and> content_ok (fl_code f) (fl_content f) \<and>
     (case fl_content f of Text s \<Rightarrow> length s < 256 | _ \<Rightarrow> True)"

lemma bytes_text_back [simp]: "bytes_text (text_bytes s) = s"
proof -
  have "of_char c < (256 :: nat)" for c :: char by simp
  then have "char_of (unat (of_nat (of_char c) :: u8)) = c" for c :: char
    by (simp add: unat_of_nat)
  then show ?thesis by (induction s) (simp_all add: bytes_text_def text_bytes_def)
qed

lemma decodes_to_map:
  assumes "decodes_to f a x"
  shows "decodes_to (\<lambda>s. Option.bind (f s) (\<lambda>(x, s). Some (h x, s))) a (h x)"
  using decodes_to_then [where g = "\<lambda>x s. Some (h x, s)", OF assms decodes_to_return] by simp

lemma get_text_enc:
  assumes "length x < 256"
  shows "decodes_to (get_content ST_String c) (of_nat (length x) # text_bytes x) (Text x)"
proof -
  have "length (text_bytes x) = unat (of_nat (length x) :: u8)"
    using assms by (simp add: text_bytes_def unat_of_nat)
  from decodes_to_block [OF this] have b: "decodes_to (get_block (unat (of_nat (length x) :: u8))) (text_bytes x) (text_bytes x)"
    by (simp add: get_block_def [abs_def])
  have "get_content ST_String c = (\<lambda>s. Option.bind (from_wire_u8 0 s) (\<lambda>(n, s). Option.bind (get_block (unat n) s)
      (\<lambda>(bs, s). Some (Text (bytes_text bs), s))))" by (rule ext) simp
  with decodes_to_then [where g = "\<lambda>n s. Option.bind (get_block (unat n) s) (\<lambda>(bs, s). Some (Text (bytes_text bs), s))",
      OF u8_wire.get_enc decodes_to_map [where h = "\<lambda>bs. Text (bytes_text bs)", OF b]]
  show ?thesis by simp
qed

lemma get_content_enc:
  assumes "writable f" "fl_code f = t"
  shows "decodes_to (get_content t c) (enc_content t (fl_content f)) (if t = ST_Null then c else fl_content f)"
proof -
  have num: "decodes_to (\<lambda>s. Option.bind (from_wire_u64 False 0 s) (\<lambda>(w, s). Some (Number w, s)))
      (wire_bytes False (le_bytes 8 (unat w))) (Number w)" for w
    by (rule decodes_to_map [OF u64_wire.get_enc]) simp
  have n: "get_content t c = (\<lambda>s. Option.bind (from_wire_u64 False 0 s) (\<lambda>(w, s). Some (Number w, s)))"
    if "t \<noteq> ST_Null" "t \<noteq> ST_String" using that by (cases t) (auto simp: fun_eq_iff)
  have "get_content ST_Null c = (\<lambda>s. Some (c, s))" by (rule ext) simp
  with n show ?thesis
    using assms num get_text_enc
    by (cases t) (auto simp: writable_def decodes_to_return split: field_content.splits)
qed

lemma get_field_enc:
  assumes "fst g \<Longrightarrow> writable (snd g) \<and> fl_code (snd g) = fl_code f"
  shows "decodes_to (get_field f) (enc_field g) (read_over f g)"
proof (cases "fst g")
  case False
  have "decodes_to (get_field f) ([0] @ []) f"
    unfolding get_field_def [abs_def]
    by (rule decodes_to_then [OF u8_wire.get_enc]) (simp_all add: decodes_to_return)
  with False show ?thesis by (simp add: enc_field_def read_over_def)
next
  case True
  let ?c = "if fl_code f = ST_Null then fl_content f else fl_content (snd g)"
  have w: "writable (snd g)" "fl_code (snd g) = fl_code f" using assms True by simp_all
  have "decodes_to (get_field f) ([1] @ enc_content (fl_code f) (fl_content (snd g)))
      (f\<lparr>fl_valid := True, fl_content := ?c\<rparr>)"
    unfolding get_field_def [abs_def]
    by (rule decodes_to_then [OF u8_wire.get_enc])
      (simp_all add: decodes_to_map [where h = "\<lambda>c. f\<lparr>fl_valid := True, fl_content := c\<rparr>", OF get_content_enc [OF w]])
  with True w(2) show ?thesis by (simp add: enc_field_def read_over_def)
qed

lemma get_fields_enc:
  "list_all2 (\<lambda>f g. fst g \<longrightarrow> writable (snd g) \<and> fl_code (snd g) = fl_code f) fs gs \<Longrightarrow>
   decodes_to (get_fields fs) (concat (map enc_field gs)) (map2 read_over fs gs)"
proof (induction fs gs rule: list_all2_induct)
  case Nil
  then show ?case by (simp add: decodes_to_return)
next
  case (Cons f fs g gs)
  have f: "decodes_to (get_field f) (enc_field g) (read_over f g)" using Cons.hyps by (intro get_field_enc) simp
  from decodes_to_then [where g = "\<lambda>x s. Option.bind (get_fields fs s) (\<lambda>(gs, s). Some (x # gs, s))",
      OF f decodes_to_map [where h = "\<lambda>gs. read_over f g # gs", OF Cons.IH]]
  show ?case by simp
qed

subsection \<open>The library\<close>

definition flagged :: "pva_value \<Rightarrow> bitmask \<Rightarrow> (bool \<times> field) list" where
  "flagged v m = map (\<lambda>k. (sent_field v m k, pv_fields v ! k)) [0 ..< length (pv_fields v)]"

definition demo_enc :: "pva_value \<Rightarrow> bitmask \<Rightarrow> bytes" where
  "demo_enc v m = concat (map enc_field (flagged v m))"

definition demo_app :: "pva_value \<Rightarrow> pva_value \<Rightarrow> bitmask \<Rightarrow> pva_value" where
  "demo_app old v m = old\<lparr>pv_fields := map2 read_over (pv_fields old) (flagged v m)\<rparr>"

definition demo_values :: "pva_value \<Rightarrow> bool" where
  "demo_values v \<longleftrightarrow> list_all writable (pv_fields v)"

definition unmark_fields :: "pva_value \<Rightarrow> pva_value" where
  "unmark_fields v = v\<lparr>pv_fields := map (\<lambda>f. f\<lparr>fl_valid := False\<rparr>) (pv_fields v)\<rparr>"

definition blank_field :: "field \<Rightarrow> field" where
  "blank_field f = f\<lparr>fl_valid := False,
     fl_content := (case fl_code f of ST_Null \<Rightarrow> Empty_Value | ST_String \<Rightarrow> Text [] | _ \<Rightarrow> Number 0)\<rparr>"

definition blank_value :: "pva_value \<Rightarrow> pva_value" where
  "blank_value v = v\<lparr>pv_fields := map blank_field (pv_fields v)\<rparr>"

text \<open>A structure of a number and a string, and a type of a single number.\<close>

definition pair_value :: "bool \<Rightarrow> u64 \<Rightarrow> string \<Rightarrow> pva_value" where
  "pair_value b w x =
     \<lparr>pv_desc = [FieldDesc ''pair'' [(''n'', 1), (''s'', 2)] [] 0 [] TC_Struct,
        FieldDesc [] [] [] 0 [] TC_UInt64, FieldDesc [] [] [] 0 [] TC_String],
      pv_fields = [\<lparr>fl_valid = False, fl_code = ST_Null, fl_content = Empty_Value\<rparr>,
        \<lparr>fl_valid = b, fl_code = ST_UInteger, fl_content = Number w\<rparr>,
        \<lparr>fl_valid = True, fl_code = ST_String, fl_content = Text x\<rparr>]\<rparr>"

definition scalar_desc :: field_desc where
  "scalar_desc = FieldDesc ''scalar'' [] [] 0 [] TC_Struct"

definition scalar_value :: "u64 \<Rightarrow> pva_value" where
  "scalar_value w =
     \<lparr>pv_desc = [scalar_desc], pv_fields = [\<lparr>fl_valid = True, fl_code = ST_UInteger, fl_content = Number w\<rparr>]\<rparr>"

text \<open>A type is one byte: whether it is that of the pair.\<close>

definition demo_tenc :: "field_desc list \<Rightarrow> u8" where
  "demo_tenc ds = (if ds = pv_desc (pair_value True 0 []) then 1 else 0)"

definition demo_type :: "u8 \<Rightarrow> pva_value" where
  "demo_type n = blank_value (if n = 1 then pair_value True 0 [] else scalar_value 0)"

definition demo_lib :: pva_lib where
  "demo_lib =
     \<lparr>lib_nt_scalar = (\<lambda>c. scalar_value 0), lib_nt_enum = scalar_value 0, lib_nt_ndarray = scalar_value 0,
      lib_equal_type = (\<lambda>v w. case w of None \<Rightarrow> False | Some w \<Rightarrow> same_type v w), lib_clone_empty = blank_value,
      lib_resize = (\<lambda>n m. m\<lparr>bm_size := n, bm_words := replicate ((n + 63) div 64) 0\<rparr>),
      lib_to_wire_type = (\<lambda>ds. to_wire_u8 (demo_tenc ds)),
      lib_from_wire_type = (\<lambda>s. Option.bind (from_wire_u8 0 s) (\<lambda>(n, s). Some (Some (demo_type n), s))),
      lib_to_wire_valid = (\<lambda>v m s. if \<not> fb_ensure (length (demo_enc v m)) s then Some (fault s) else ser_write (demo_enc v m) s),
      lib_from_wire_valid =
        (\<lambda>old s. Option.bind (get_fields (pv_fields old) s) (\<lambda>(fs, s). Some (old\<lparr>pv_fields := fs\<rparr>, s))),
      lib_unmark = unmark_fields\<rparr>"

lemma length_flagged [simp]: "length (flagged v m) = length (pv_fields v)"
  by (simp add: flagged_def)

lemma flagged_nth: "k < length (pv_fields v) \<Longrightarrow> flagged v m ! k = (sent_field v m k, pv_fields v ! k)"
  by (simp add: flagged_def)

lemma read_over_code [simp]: "fl_code (read_over f g) = fl_code f"
  by (simp add: read_over_def)

text \<open>The contract holds.\<close>

lemma demo_lib_ok:
  "lib_writes demo_lib demo_enc" "lib_reads demo_lib demo_enc demo_app demo_values" "lib_assigns demo_lib demo_app U"
  "lib_types demo_lib (\<lambda>v. [demo_tenc (pv_desc v)]) (\<lambda>v. demo_type (demo_tenc (pv_desc v)))"
proof -
  show "lib_writes demo_lib demo_enc"
    using encodes_block by (simp add: lib_writes_def demo_lib_def)
  have "decodes_to (lib_from_wire_valid demo_lib old) (demo_enc v m) (demo_app old v m)"
    if "demo_values v" "same_type old v" for old v m
  proof -
    have "list_all2 (\<lambda>f g. fst g \<longrightarrow> writable (snd g) \<and> fl_code (snd g) = fl_code f) (pv_fields old) (flagged v m)"
      using that same_type_length [OF that(2)] same_type_code [OF that(2)]
      by (auto simp: list_all2_conv_all_nth flagged_nth demo_values_def list_all_length)
    from decodes_to_map [OF get_fields_enc [OF this], where h = "\<lambda>fs. old\<lparr>pv_fields := fs\<rparr>"]
    show ?thesis by (simp add: demo_lib_def demo_enc_def demo_app_def)
  qed
  then show "lib_reads demo_lib demo_enc demo_app demo_values" by (simp add: lib_reads_def)
  have "updated old v m (demo_app old v m)" if "same_type old v" for old v m
  proof -
    have l: "length (pv_fields old) = length (pv_fields v)" by (rule same_type_length [OF that])
    have "map fl_code (map2 read_over (pv_fields old) (flagged v m)) = map fl_code (pv_fields old)"
      using l by (intro nth_equalityI) simp_all
    then have "same_type (demo_app old v m) v" using that by (simp add: same_type_def demo_app_def)
    with l same_type_code [OF that] show ?thesis
      by (auto simp: updated_def content_def demo_app_def stores_def flagged_nth read_over_def)
  qed
  moreover have "same_type (unmark_fields v) v \<and> (\<forall>k. stores v k \<longrightarrow> content (unmark_fields v) k = content v k)" for v
    by (simp add: same_type_def unmark_fields_def content_def stores_def comp_def)
  ultimately show "lib_assigns demo_lib demo_app U" by (simp add: lib_assigns_def) (simp add: demo_lib_def)
  have "decodes_to (\<lambda>s. Option.bind (from_wire_u8 0 s) (\<lambda>(n, s). Some (Some (demo_type n), s))) [n] (Some (demo_type n))" for n
    by (rule decodes_to_map [OF u8_wire.get_enc]) simp
  then show "lib_types demo_lib (\<lambda>v. [demo_tenc (pv_desc v)]) (\<lambda>v. demo_type (demo_tenc (pv_desc v)))"
    by (simp add: lib_types_def demo_lib_def encodes_u8)
qed

lemma lib_reads_mono: "lib_reads lib enc app U \<Longrightarrow> (\<And>v. U' v \<Longrightarrow> U v) \<Longrightarrow> lib_reads lib enc app U'"
  by (simp add: lib_reads_def)

subsection \<open>A channel of pairs\<close>

text \<open>Values of the pair's type whose string has at most 40 characters.\<close>

definition demo_range :: content_range where
  "demo_range t k c = (case c of Text x \<Rightarrow> length x \<le> 40 | _ \<Rightarrow> True)"

definition demo_pair :: pva_value where
  "demo_pair = pair_value True 0 []"

lemma demo_pair_fields:
  "fd_size (pv_desc demo_pair ! 0) = 3" "fd_code (pv_desc demo_pair ! 0) = TC_Struct" "length (pv_desc demo_pair) = 3"
  "pv_desc (pair_value b w x) = pv_desc demo_pair" "width demo_pair = 3"
  "map fl_code (pv_fields demo_pair) = [ST_Null, ST_UInteger, ST_String]"
  "length (pv_fields demo_pair) = 3" "pv_desc demo_pair \<noteq> []"
  by (simp_all add: demo_pair_def pair_value_def fd_size_def width_def)

lemma pair_typed:
  "typed_as demo_pair v \<longleftrightarrow> pv_desc v = pv_desc demo_pair \<and>
     (\<exists>f g h w x. pv_fields v = [f, g, h] \<and> fl_code f = ST_Null \<and> fl_code g = ST_UInteger \<and> fl_code h = ST_String \<and>
        fl_content g = Number w \<and> fl_content h = Text x)"
proof -
  have "typed_as demo_pair v \<longleftrightarrow> pv_desc v = pv_desc demo_pair \<and> map fl_code (pv_fields v) = [ST_Null, ST_UInteger, ST_String] \<and>
      list_all (\<lambda>f. content_ok (fl_code f) (fl_content f)) (pv_fields v)"
    unfolding typed_as_def value_typed_def same_type_def demo_pair_fields(1,2,6)
    using arg_cong [of "map fl_code (pv_fields v)" "[ST_Null, ST_UInteger, ST_String]" length] demo_pair_fields(3,8)
    by (auto simp: value_desc_def hd_conv_nth split: list.splits)
  also have "map fl_code (pv_fields v) = [ST_Null, ST_UInteger, ST_String] \<longleftrightarrow>
      (\<exists>f g h. pv_fields v = [f, g, h] \<and> fl_code f = ST_Null \<and> fl_code g = ST_UInteger \<and> fl_code h = ST_String)"
    by (auto simp: map_eq_Cons_conv)
  finally show ?thesis by (auto split: field_content.splits)
qed

lemma pair_in: "value_in demo_range demo_pair (pair_value b w x) \<longleftrightarrow> length x \<le> 40"
proof -
  have "typed_as demo_pair (pair_value b w x)"
    unfolding pair_typed demo_pair_fields(4) by (simp add: pair_value_def)
  then show ?thesis
    by (auto simp: value_in_def demo_pair_fields(5) demo_range_def content_def pair_value_def less_Suc_eq numeral_3_eq_3)
qed

lemma pair_writable:
  assumes "value_in demo_range demo_pair v"
  shows "demo_values v" "length (demo_enc v m) \<le> 52"
proof -
  from assms have t: "typed_as demo_pair v" and r: "\<forall>k < 3. demo_range demo_pair k (content v k)"
    by (simp_all add: value_in_def demo_pair_fields(5))
  from t obtain f g h w x where f: "pv_fields v = [f, g, h]" "fl_code f = ST_Null" "fl_code g = ST_UInteger"
    "fl_code h = ST_String" "fl_content g = Number w" "fl_content h = Text x"
    unfolding pair_typed by blast
  have x: "length x \<le> 40" using r [rule_format, of 2] f(1,6) by (simp add: demo_range_def content_def)
  with r [rule_format, of 0] f show "demo_values v"
    by (auto simp: demo_values_def writable_def demo_range_def content_def split: field_content.splits)
  show "length (demo_enc v m) \<le> 52"
    using f x by (simp add: demo_enc_def flagged_def enc_field_def text_bytes_def)
qed

lemma pairs_contract:
  "lib_reads demo_lib demo_enc demo_app (values_in demo_range [demo_pair])"
  "link_fits demo_enc demo_range (\<lambda>t. 52) [demo_pair]"
proof -
  show "lib_reads demo_lib demo_enc demo_app (values_in demo_range [demo_pair])"
    by (rule lib_reads_mono [OF demo_lib_ok(2)]) (auto simp: values_in_def pair_writable(1))
  show "link_fits demo_enc demo_range (\<lambda>t. 52) [demo_pair]"
    using pair_writable(2) by (simp add: link_fits_def data_room_eq) (simp add: plain_def demo_pair_def pair_value_def)
qed

subsection \<open>A sender and its first heartbeat\<close>

text \<open>One channel; periods of one second: the heartbeat is due in every turn.\<close>

definition demo_pva_cfg :: config where
  "demo_pva_cfg = default_config\<lparr>cfg_channels := [new_config_channel ''A'']\<rparr>"

definition demo_beat_cfg :: config where
  "demo_beat_cfg = demo_pva_cfg\<lparr>cfg_min_update_period := 0x3FF0000000000000, cfg_heartbeat_period := 0x3FF0000000000000\<rparr>"

lemma demo_beat_iterations:
  "iterations_per (dmax (cfg_heartbeat_period demo_beat_cfg) MIN_HB_PERIOD)
     (dmax (cfg_min_update_period demo_beat_cfg) MIN_UPDATE_PERIOD) = 1"
proof -
  have d: "dval 0x3FF0000000000000 = 1" "dval MIN_UPDATE_PERIOD < 1" "dval MIN_HB_PERIOD < 1"
    by (simp_all add: dval_def Let_def MIN_UPDATE_PERIOD_def MIN_HB_PERIOD_def)
  have f: "flog2 (Suc 0) = 0" "pow2 0 = 1" "pow2 1 = 2" "pow2 (- 52) = 1 / 4503599627370496"
    "rne 4503599627370496 = 4503599627370496"
    by (simp_all add: flog2.simps [of "Suc 0"] pow2_def rne_def)
  have "fl 1 = 1" "cround 1 = 1" by (simp_all add: fl_def f cround_def floor_eq_iff)
  with d show ?thesis by (simp add: iterations_per_def demo_beat_cfg_def dmax_def fdiv_def)
qed

definition builtin_demo :: type_cache where
  "builtin_demo = fst (build_type_cache demo_lib [])"

definition pair_mask :: bitmask where
  "pair_mask = \<lparr>bm_words = [6], bm_size = 3\<rparr>"

lemma pair_mask_wf: "mask_wf 3 pair_mask"
  by (simp add: pair_mask_def mask_wf_def)

lemma pair_mask_bits: "k < 3 \<Longrightarrow> mask_bit pair_mask k \<longleftrightarrow> k = 1 \<or> k = 2"
  by (auto simp: pair_mask_def mask_bit_def mask_get_def less_Suc_eq numeral_3_eq_3 bit_iff_odd)

text \<open>The first value of the channel: its type is new, and a full update is pending.\<close>

lemma pair_update:
  assumes "ps_channels st = [new_pva_channel 0]" "ps_cache st = builtin_demo"
  shows "pva_update demo_lib 0 (pair_value True w x) st =
    Some (st\<lparr>ps_channels := [(new_pva_channel 0)\<lparr>pc_connected := True, pc_value := Some (pair_value True w x), pc_type_id := 26,
        pc_changed := pair_mask, pc_pending := UT_Full, pc_updates_since_last_hb := 1\<rparr>],
      ps_cache := builtin_demo @ [Some (blank_value (pair_value True w x))], ps_deque := ps_deque st @ [0]\<rparr>)"
proof -
  have ne: "\<not> same_type (pair_value True w x) (scalar_value 0)"
    by (simp add: same_type_def pair_value_def scalar_value_def)
  have c: "cache_type demo_lib (pair_value True w x) (ps_cache st) =
      (26, builtin_demo @ [Some (blank_value (pair_value True w x))])"
    unfolding assms(2)
    by (simp add: cache_type_def builtin_demo_def build_type_cache_def builtin_scalars_def demo_lib_def ne)
  have d: "value_desc (pair_value True w x) = Some (pv_desc demo_pair ! 0)"
    by (simp add: value_desc_def demo_pair_def pair_value_def)
  have m: "valid_to_mask (Some (pair_value True w x)) (lib_resize demo_lib 3 empty_mask) = Some pair_mask"
    by (simp add: valid_to_mask_def d demo_pair_fields numeral_3_eq_3)
      (simp add: pair_value_def mask_set_def demo_lib_def empty_mask_def pair_mask_def)
  show ?thesis
    using assms m by (simp add: pva_update_def c [unfolded assms(2)] d demo_pair_fields pva_mark_update_def new_pva_channel_def pva_set_channel_def)
qed

text \<open>The turn up to its packets: the events are handled, and the channel is ready for the heartbeat.\<close>

lemma pair_steady:
  assumes "length x \<le> 40"
  shows "chan_steady demo_range demo_pair ((new_pva_channel 0)\<lparr>pc_connected := True, pc_value := Some (pair_value True w x),
    pc_type_id := 26, pc_changed := pair_mask, pc_pending := UT_Full, pc_updates_since_last_hb := 1\<rparr>)"
proof -
  have "marks_given (pair_value True w x) pair_mask"
    using pair_mask_bits by (auto simp: marks_given_def pair_value_def less_Suc_eq numeral_3_eq_3)
  with assms show ?thesis
    by (simp add: chan_steady_def full_marks_def pair_in pair_mask_wf demo_pair_fields(5))
qed

lemma demo_beat:
  assumes "length x \<le> 40"
  shows "\<exists>st st1. pva_sender_init demo_lib demo_beat_cfg 5 = Some st \<and> pva_sender_run demo_lib 0 [] st = Some (False, st) \<and>
     pva_work demo_lib (pva_arrivals ([0], [[PV_Update (pair_value True w x)]]) st) = Some st1 \<and>
     (ps_iteration st + 1) mod ps_hb_iterations st = 0 \<and> ps_seq_no st = 0 \<and> ps_sent st = [] \<and>
     ps_channels st1 = [(new_pva_channel 0)\<lparr>pc_connected := True, pc_value := Some (pair_value True w x), pc_type_id := 26,
       pc_changed := pair_mask, pc_pending := UT_Full, pc_updates_since_last_hb := 1\<rparr>] \<and>
     ps_cache st1 = builtin_demo @ [Some (blank_value (pair_value True w x))] \<and> unat (ps_builtin st1) = 26 \<and>
     steady demo_range [demo_pair] st1"
proof -
  obtain buf where buf: "initial_buffer 5 (cfg_hash demo_beat_cfg) = Some buf"
    using initial_buffer_spec by blast
  have chs: "pva_create_channels demo_beat_cfg = Some [new_pva_channel 0]"
    by (simp add: pva_create_channels_def demo_beat_cfg_def demo_pva_cfg_def total_channel_count_def channel_width_def
        new_config_channel_def)
  obtain st where st: "pva_sender_init demo_lib demo_beat_cfg 5 = Some st" "ps_channels st = [new_pva_channel 0]"
    "ps_cache st = builtin_demo" "ps_work st = []" "ps_monitors st = [[]]" "ps_iteration st = 0" "ps_hb_iterations st = 1"
    "ps_seq_no st = 0" "ps_sent st = []"
    by (simp add: pva_sender_init_def buf chs Let_def case_prod_beta demo_beat_iterations builtin_demo_def)
  have b: "unat (ps_builtin st) = 26"
    using pva_sender_init_spec(8) [OF st(1)] by (simp add: build_type_cache_def builtin_scalars_def)
  let ?st = "(pva_arrivals ([0], [[PV_Update (pair_value True w x)]]) st)\<lparr>ps_work := [], ps_monitors := [[]]\<rparr>"
  from st obtain st1 where w: "pva_work demo_lib (pva_arrivals ([0], [[PV_Update (pair_value True w x)]]) st) = Some st1"
    and u: "pva_update demo_lib 0 (pair_value True w x) ?st = Some st1"
    using pair_update [of ?st w x]
    by (auto simp: pva_work_def pva_arrivals_def pva_pop_all_def vec_at_def)
  have s: "ps_channels st1 = [(new_pva_channel 0)\<lparr>pc_connected := True, pc_value := Some (pair_value True w x), pc_type_id := 26,
       pc_changed := pair_mask, pc_pending := UT_Full, pc_updates_since_last_hb := 1\<rparr>]"
    "ps_cache st1 = builtin_demo @ [Some (blank_value (pair_value True w x))]" "ps_monitors st1 = [[]]" "ps_work st1 = []"
    using u pair_update [of ?st w x] st by (auto simp: pva_arrivals_def)
  have "steady demo_range [demo_pair] st1"
    using s pair_steady [OF assms] by (simp add: steady_def)
  moreover have "ps_builtin st1 = ps_builtin st" using pva_work_same_link [OF w] by (simp add: same_link_def)
  ultimately show ?thesis
    using st w s b by (intro exI [of _ st] exI [of _ st1]) (simp add: pva_sender_run_def)
qed

text \<open>The receiver of the same configuration, and what it starts from.\<close>

lemma demo_pva_receiver_ready:
  obtains rc where "pva_receiver_init demo_lib demo_beat_cfg 0 = Some rc" "pr_calls rc = []" "length (pr_channels rc) = 1"
    "pva_link_ready (make_header 5 (cfg_hash demo_beat_cfg)) [0, 0, 0] rc"
    "pva_in_order 0 (pva_admit (make_header 5 (cfg_hash demo_beat_cfg)) rc)"
    "\<forall>j < 26. cache_at (pr_cache rc) j \<noteq> None" "cache_at (pr_cache rc) 26 = None" "px_last_value (pr_channels rc ! 0) = None"
proof -
  have cfg: "length (cfg_channels demo_beat_cfg) = 1" "total_channel_count demo_beat_cfg = 1"
    by (simp_all add: demo_beat_cfg_def demo_pva_cfg_def total_channel_count_def channel_width_def new_config_channel_def)
  obtain rc where r: "pva_receiver_init demo_lib demo_beat_cfg 0 = Some rc" "pr_calls rc = []"
    "length (pr_channels rc) = 1" "pr_cache rc = fst (build_type_cache demo_lib [])"
    "pr_config_hash rc = cfg_hash demo_beat_cfg" "pr_last_startup_time rc = 0" "pr_last_seq_no rc = - 1"
    "length (pr_buffer rc) = MAX_MESSAGE_SIZE" "px_last_value (pr_channels rc ! 0) = None"
    by (simp add: pva_receiver_init_def prx_create_channels_def cfg new_prx_channel_def case_prod_beta)
  let ?h = "make_header 5 (cfg_hash demo_beat_cfg)"
  have "pva_link_ready ?h [0, 0, 0] rc" "pva_in_order 0 (pva_admit ?h rc)"
    using r(5-8)
    by (simp_all add: pva_link_ready_def good_header_def make_header_def pva_in_order_def pva_admit_def pva_validate_sender_def)
  moreover have "\<forall>j < 26. cache_at (pr_cache rc) j \<noteq> None" "cache_at (pr_cache rc) 26 = None"
    unfolding r(4) by (auto simp: cache_at_def build_type_cache_def builtin_scalars_def less_Suc_eq numeral_eq_Suc)
  ultimately show ?thesis using r(1-3,9) that by blast
qed

lemma demo_bases:
  assumes "ps_channels st1 = [(new_pva_channel 0)\<lparr>pc_connected := True, pc_value := Some (pair_value True w x), pc_type_id := 26,
       pc_changed := pair_mask, pc_pending := UT_Full, pc_updates_since_last_hb := 1\<rparr>]"
    and "ps_cache st1 = builtin_demo @ [Some (blank_value (pair_value True w x))]"
    and "cache_at (pr_cache rc) 26 = None" "px_last_value (pr_channels rc ! 0) = None"
  shows "bases_typed demo_lib (\<lambda>v. demo_type (demo_tenc (pv_desc v))) st1 rc"
proof -
  have "length builtin_demo = 26" by (simp add: builtin_demo_def build_type_cache_def builtin_scalars_def)
  then have "first_base demo_lib (\<lambda>v. demo_type (demo_tenc (pv_desc v))) st1 rc 0 =
      blank_value (blank_value (pair_value True 0 []))"
    using assms by (simp add: first_base_def nth_append demo_lib_def demo_type_def demo_tenc_def blank_value_def)
      (simp add: pair_value_def)
  moreover have "same_type (blank_value (blank_value (pair_value True 0 []))) (pair_value True w x)"
    by (simp add: same_type_def blank_value_def blank_field_def pair_value_def)
  ultimately show ?thesis using assms(1) by (simp add: bases_typed_def)
qed

end
