(* ===== verification/Pva_Delivery.thy ===== *)
theory Pva_Delivery
  imports Pva_Demo
begin

text \<open>
  What the pvAccess link promises. The theorems about values are applied to the library of \<open>Pva_Demo\<close>;
  those about packets and types, to a library for values of one number, a sender with one queued
  channel and a receiver with the same configuration.
\<close>

section \<open>A small system\<close>

definition number_of :: "pva_value \<Rightarrow> u64" where
  "number_of v = (case pv_fields v of [] \<Rightarrow> 0 | f # _ \<Rightarrow> (case fl_content f of Number w \<Rightarrow> w | _ \<Rightarrow> 0))"

definition set_number :: "u64 \<Rightarrow> pva_value \<Rightarrow> pva_value" where
  "set_number w v = v\<lparr>pv_fields := map (\<lambda>f. f\<lparr>fl_valid := True, fl_content := Number w\<rparr>) (pv_fields v)\<rparr>"

text \<open>
  The encoding is that of the number, whatever the mask. A type is encoded as the number of its
  descriptions, and read back as an empty value of that many.
\<close>

definition wide_value :: "u8 \<Rightarrow> pva_value" where
  "wide_value n = \<lparr>pv_desc = replicate (unat n) scalar_desc,
     pv_fields = replicate (unat n) \<lparr>fl_valid = False, fl_code = ST_UInteger, fl_content = Number 0\<rparr>\<rparr>"

definition scalar_width :: "field_desc list \<Rightarrow> u8" where
  "scalar_width ds = of_nat (length ds)"

definition scalar_enc :: "pva_value \<Rightarrow> bitmask \<Rightarrow> bytes" where
  "scalar_enc v m = wire_bytes False (le_bytes 8 (unat (number_of v)))"

definition scalar_lib :: pva_lib where
  "scalar_lib =
     \<lparr>lib_nt_scalar = (\<lambda>c. scalar_value 0), lib_nt_enum = scalar_value 0, lib_nt_ndarray = scalar_value 0,
      lib_equal_type = (\<lambda>v w. map_option pv_desc w = Some (pv_desc v)), lib_clone_empty = set_number 0,
      lib_resize = (\<lambda>n m. m\<lparr>bm_size := n, bm_words := replicate ((n + 63) div 64) 0\<rparr>),
      lib_to_wire_type = (\<lambda>ds. to_wire_u8 (scalar_width ds)),
      lib_from_wire_type = (\<lambda>s. Option.bind (from_wire_u8 0 s) (\<lambda>(n, s). Some (Some (wide_value n), s))),
      lib_to_wire_valid = (\<lambda>v m. to_wire_u64 False (number_of v)),
      lib_from_wire_valid = (\<lambda>old s. Option.bind (from_wire_u64 False 0 s) (\<lambda>(w, s). Some (set_number w old, s))),
      lib_unmark = unmark_fields\<rparr>"

lemma scalar_lib_ok: "lib_writes scalar_lib scalar_enc"
  by (simp add: lib_writes_def scalar_lib_def scalar_enc_def u64_wire.put_law)

lemma scalar_lib_types:
  "lib_types scalar_lib (\<lambda>v. [scalar_width (pv_desc v)]) (\<lambda>v. wide_value (scalar_width (pv_desc v)))"
proof -
  have "decodes_to (\<lambda>s. Option.bind (from_wire_u8 0 s) (\<lambda>(n, s). Some (Some (wide_value n), s))) ([n] @ []) (Some (wide_value n))" for n
    by (rule decodes_to_then [OF u8_wire.get_enc]) (auto intro: decodes_to_return)
  then show ?thesis by (simp add: lib_types_def scalar_lib_def encodes_u8)
qed

definition demo_pva_header :: header where
  "demo_pva_header = make_header 5 7"

definition demo_mask :: bitmask where
  "demo_mask = \<lparr>bm_words = [1], bm_size = 1\<rparr>"

definition demo_pva_sender :: pva_sender where
  "demo_pva_sender =
     \<lparr>ps_channels = [(new_pva_channel 0)\<lparr>pc_connected := True, pc_value := Some (scalar_value 42), pc_changed := demo_mask,
         pc_pending := UT_Full\<rparr>],
      ps_deque = [0], ps_seq_no = 0, ps_buffer = enc_header [0, 0, 0] demo_pva_header @ replicate 65480 0,
      ps_cache = [Some (scalar_value 0)], ps_builtin = 1, ps_iteration = 0, ps_hb_iterations = 1,
      ps_update_period = 0, ps_work = [], ps_monitors = [[]], ps_sent = []\<rparr>"

definition demo_pva_receiver :: pva_receiver where
  "demo_pva_receiver =
     \<lparr>pr_config_hash = 7, pr_heartbeat_period = 0, pr_buffer = replicate 65504 0, pr_fragment = ser_make [] 0,
      pr_last_seq_no = - 1, pr_active_fragment_seq_no = - 1, pr_last_fragment_seq_no = - 1,
      pr_last_startup_time = 0, pr_channels = [new_prx_channel 0 ''a''], pr_cache = [Some (scalar_value 0)],
      pr_now = 0, pr_last_heartbeat = 0, pr_calls = []\<rparr>"

lemma demo_pva_header_length: "length (enc_header [0, 0, 0] demo_pva_header) = 24"
  by (simp add: length_enc_header good_header_def demo_pva_header_def make_header_def)

lemma demo_pva_queued: "queued_entries scalar_enc demo_pva_sender =
    enc_pva_channel_data \<lparr>pcd_id = 0, pcd_update_seq_no = 0, pcd_update_type = UT_Full, pcd_type_id = 0\<rparr> @
    le_bytes 8 42"
  by (simp add: queued_entries_def pva_entry_bytes_def demo_pva_sender_def pva_channel_message_def new_pva_channel_def
      scalar_enc_def number_of_def scalar_value_def wire_bytes_def)

lemma demo_pva_inv: "pva_queue_inv demo_pva_sender"
  by (auto simp: pva_queue_inv_def pva_chans_inv_def demo_pva_sender_def new_pva_channel_def update_type_defs)

lemma demo_pva_ok:
  "length (ps_buffer demo_pva_sender) = MAX_MESSAGE_SIZE"
  "take Header_size (ps_buffer demo_pva_sender) = enc_header [0, 0, 0] demo_pva_header"
  "pva_link_ready demo_pva_header [0, 0, 0] demo_pva_receiver"
proof -
  show "length (ps_buffer demo_pva_sender) = MAX_MESSAGE_SIZE"
    by (simp add: demo_pva_sender_def demo_pva_header_length MAX_MESSAGE_SIZE_def)
  show "take Header_size (ps_buffer demo_pva_sender) = enc_header [0, 0, 0] demo_pva_header"
    by (simp add: demo_pva_sender_def demo_pva_header_length Header_size_def)
  show "pva_link_ready demo_pva_header [0, 0, 0] demo_pva_receiver"
    by (simp add: pva_link_ready_def good_header_def demo_pva_header_def make_header_def demo_pva_receiver_def
        MAX_MESSAGE_SIZE_def)
qed

section \<open>Delivery\<close>

text \<open>
  C5: if the encodings of everything queued fit one packet, \<open>send_updates\<close> of the pvAccess sender
  sends exactly that packet, empties the queue and clears the masks; a receiver of the same
  configuration that can take the updates, and whose values to start from have the types of the values
  sent, calls its callback once for each, in queue order: with a value of that type in which every
  field that was marked in the mask and in the value, and every field below such a structure, is the
  sender's, and every other field is as it was before.
\<close>

theorem pva_link_delivers:
  assumes "lib_writes lib enc" "lib_reads lib enc app U" "lib_assigns lib app U"
    and "one_packet enc st" "length (ps_channels st) \<le> 2 ^ 32"
    and "take Header_size (ps_buffer st) = enc_header reserved h"
    and "pva_link_ready h reserved rc" "pva_in_order (ps_seq_no st) (pva_admit h rc)"
    and "\<forall>e \<in> set (queue_entries st). readable_entry U lib rc e"
  shows "\<exists>st' rc' calls. pva_send_updates lib st = Some st' \<and> ps_deque st' = [] \<and>
    ps_channels st' = send_channels (ps_deque st) (ps_channels st) \<and>
    ps_sent st' = ps_sent st @ [pva_packet enc st] \<and>
    pva_receive_packet lib (pva_packet enc st) rc = Some rc' \<and> pr_calls rc' = pr_calls rc @ calls \<and>
    list_all2 (\<lambda>(m, v, msk) c. pcb_id c = pcd_id m \<and>
        (\<exists>r. pcb_value c = Some r \<and> same_type r v \<and>
          (\<forall>k < length (pv_fields v). fl_code (pv_fields v ! k) \<noteq> ST_Null \<longrightarrow>
             fl_content (pv_fields r ! k) =
               (if sent_field v msk k then fl_content (pv_fields v ! k)
                else fl_content (pv_fields (the (entry_base lib rc (m, v, msk))) ! k)))))
      (queue_entries st) calls"
proof -
  have call: "entry_call lib rc = (\<lambda>(m, v, msk) c. pcb_id c = pcd_id m \<and>
        (\<exists>r. pcb_value c = Some r \<and> same_type r v \<and>
          (\<forall>k < length (pv_fields v). fl_code (pv_fields v ! k) \<noteq> ST_Null \<longrightarrow>
             fl_content (pv_fields r ! k) =
               (if sent_field v msk k then fl_content (pv_fields v ! k)
                else fl_content (pv_fields (the (entry_base lib rc (m, v, msk))) ! k)))))"
    by (auto simp: fun_eq_iff entry_call_def updated_def stores_def content_def)
  from pva_send_updates_one [OF assms(1,4)] pva_receive_queue [OF assms(2,4-9,3)] show ?thesis
    unfolding call by blast
qed

text \<open>
  A channel whose string has changed and a receiver that holds another number: the call has the string
  of the sender and the number of the receiver.
\<close>

definition text_mask :: bitmask where
  "text_mask = \<lparr>bm_words = [4], bm_size = 3\<rparr>"

definition pair_sender :: pva_sender where
  "pair_sender = demo_pva_sender\<lparr>ps_channels := [(new_pva_channel 0)\<lparr>pc_connected := True, pc_value := Some (pair_value True 7 ''on''),
     pc_changed := text_mask, pc_pending := UT_Partial, pc_update_seq_no := 3\<rparr>]\<rparr>"

definition pair_receiver :: pva_receiver where
  "pair_receiver = demo_pva_receiver\<lparr>pr_channels := [(new_prx_channel 0 ''a'')\<lparr>px_last_value := Some (pair_value True 5 ''off''),
     px_last_update_seqno := 2\<rparr>]\<rparr>"

lemma pair_link:
  "one_packet demo_enc pair_sender" "length (ps_channels pair_sender) \<le> 2 ^ 32"
  "take Header_size (ps_buffer pair_sender) = enc_header [0, 0, 0] demo_pva_header"
  "pva_link_ready demo_pva_header [0, 0, 0] pair_receiver"
  "pva_in_order (ps_seq_no pair_sender) (pva_admit demo_pva_header pair_receiver)"
  "queue_entries pair_sender =
     [(\<lparr>pcd_id = 0, pcd_update_seq_no = 3, pcd_update_type = UT_Partial, pcd_type_id = 0\<rparr>, pair_value True 7 ''on'', text_mask)]"
  "entry_base demo_lib pair_receiver (\<lparr>pcd_id = 0, pcd_update_seq_no = 3, pcd_update_type = UT_Partial, pcd_type_id = 0\<rparr>,
     pair_value True 7 ''on'', text_mask) = Some (pair_value True 5 ''off'')"
proof -
  have inv: "pva_queue_inv pair_sender"
    by (auto simp: pva_queue_inv_def pva_chans_inv_def pair_sender_def demo_pva_sender_def new_pva_channel_def update_type_defs)
  have "length (queued_entries demo_enc pair_sender) \<le> 9 + 52"
    using pair_writable(2) [of "pair_value True 7 ''on''" text_mask]
    by (simp add: queued_entries_def pva_entry_bytes_def pair_sender_def demo_pva_sender_def pair_in)
  with inv show "one_packet demo_enc pair_sender"
    using demo_pva_ok(1) by (simp add: one_packet_def data_room_eq) (simp add: pair_sender_def demo_pva_sender_def)
  show "length (ps_channels pair_sender) \<le> 2 ^ 32" by (simp add: pair_sender_def)
  show "take Header_size (ps_buffer pair_sender) = enc_header [0, 0, 0] demo_pva_header"
    using demo_pva_ok(2) by (simp add: pair_sender_def)
  show "pva_link_ready demo_pva_header [0, 0, 0] pair_receiver"
    using demo_pva_ok(3) by (simp add: pva_link_ready_def pair_receiver_def)
  show "pva_in_order (ps_seq_no pair_sender) (pva_admit demo_pva_header pair_receiver)"
    by (simp add: pva_in_order_def pva_admit_def pva_validate_sender_def pair_sender_def pair_receiver_def demo_pva_sender_def
        demo_pva_receiver_def demo_pva_header_def make_header_def)
  show "queue_entries pair_sender =
     [(\<lparr>pcd_id = 0, pcd_update_seq_no = 3, pcd_update_type = UT_Partial, pcd_type_id = 0\<rparr>, pair_value True 7 ''on'', text_mask)]"
    by (simp add: queue_entries_def pair_sender_def demo_pva_sender_def pva_channel_message_def new_pva_channel_def)
  show "entry_base demo_lib pair_receiver (\<lparr>pcd_id = 0, pcd_update_seq_no = 3, pcd_update_type = UT_Partial, pcd_type_id = 0\<rparr>,
     pair_value True 7 ''on'', text_mask) = Some (pair_value True 5 ''off'')"
    by (simp add: entry_base_def update_base_def sent_type_def pair_receiver_def update_type_defs)
qed

theorem pva_link_delivers_witness:
  "\<exists>st' rc' r. pva_send_updates demo_lib pair_sender = Some st' \<and> ps_deque st' = [] \<and>
    pva_receive_packet demo_lib (pva_packet demo_enc pair_sender) pair_receiver = Some rc' \<and>
    map pcb_id (pr_calls rc') = [0] \<and> map pcb_value (pr_calls rc') = [Some r] \<and>
    fl_content (pv_fields r ! 1) = Number 5 \<and> fl_content (pv_fields r ! 2) = Text ''on''"
proof -
  let ?v = "pair_value True 7 ''on''"
  let ?m = "\<lparr>pcd_id = 0, pcd_update_seq_no = 3, pcd_update_type = UT_Partial, pcd_type_id = 0\<rparr>"
  have c: "pr_calls pair_receiver = []" by (simp add: pair_receiver_def demo_pva_receiver_def)
  have ty: "demo_values ?v" "UT_Partial \<noteq> UT_Disconnected" "same_type (pair_value True 5 ''off'') ?v"
    using pair_writable(1) [of ?v] by (simp_all add: pair_in update_type_defs) (simp add: same_type_def pair_value_def)
  have rd: "\<forall>e \<in> set (queue_entries pair_sender). readable_entry demo_values demo_lib pair_receiver e"
    unfolding pair_link(6)
    using ty by (simp add: readable_entry_def deliverable_def pair_link(7))
      (simp add: pair_receiver_def pair_value_def text_mask_def mask_wf_def)
  have bits: "mask_bit text_mask 0 = False" "mask_bit text_mask 1 = False" "mask_bit text_mask 2 = True"
    by (simp_all add: text_mask_def mask_bit_def mask_get_def)
  have "sent_field ?v text_mask 2"
    by (rule given_sent) (simp_all add: bits given_def stores_def pair_value_def)
  moreover have "\<not> sent_field ?v text_mask 1"
  proof
    assume "sent_field ?v text_mask 1"
    then obtain b where "b \<le> 1" "mask_bit text_mask b" by (auto simp: sent_field_def covers_def)
    then show False using bits(1,2) by (cases b) auto
  qed
  ultimately have sent: "\<not> sent_field ?v text_mask 1" "sent_field ?v text_mask 2" by simp_all
  from pva_link_delivers [OF demo_lib_ok(1-3) pair_link(1-5) rd, unfolded pair_link(6) c append_Nil]
  obtain st' rc' b r where
    s: "pva_send_updates demo_lib pair_sender = Some st'" "ps_deque st' = []"
      "pva_receive_packet demo_lib (pva_packet demo_enc pair_sender) pair_receiver = Some rc'" "pr_calls rc' = [b]"
      "pcb_id b = 0" "pcb_value b = Some r"
      "\<forall>k < length (pv_fields ?v). fl_code (pv_fields ?v ! k) \<noteq> ST_Null \<longrightarrow> fl_content (pv_fields r ! k) =
        (if sent_field ?v text_mask k then fl_content (pv_fields ?v ! k)
         else fl_content (pv_fields (the (entry_base demo_lib pair_receiver (?m, ?v, text_mask))) ! k))"
    by (auto simp: list_all2_Cons1)
  note f = s(7) [unfolded pair_link(7) option.sel]
  have "fl_content (pv_fields r ! 1) = Number 5" "fl_content (pv_fields r ! 2) = Text ''on''"
    using f [rule_format, of 1] f [rule_format, of 2] sent by (simp_all add: pair_value_def)
  with s(1-6) show ?thesis by (intro exI [of _ st'] exI [of _ rc'] exI [of _ r]) simp
qed

section \<open>Updates that do not fit\<close>

lemma serialize_value_cut:
  assumes "lib_writes lib enc" "ser_wf s" "ser_good s" "pcd_update_type m \<noteq> UT_Disconnected"
    and "remaining s < length (enc v msk)"
  obtains s' where "serialize_value lib m (Some v) msk s = Some (True, s')" "inside s s'" "ser_good s'"
proof -
  have "encodes (lib_to_wire_valid lib v msk) (enc v msk)" using assms(1) by (simp add: lib_writes_def)
  from encodesD [OF this, of "fixed_buf s"] assms(2) obtain b where b:
    "lib_to_wire_valid lib v msk (fixed_buf s) = Some b" "encoded (enc v msk) (fixed_buf s) b" by auto
  then have w: "inside (fixed_buf s) b" by (simp add: encoded_def)
  have "serialize_value lib m (Some v) msk s = Some (True, b\<lparr>ser_good := True\<rparr>)"
    using assms(3,4) b(1) give_back_within [OF w] by (simp add: serialize_value_def)
  moreover have "inside s (b\<lparr>ser_good := True\<rparr>)" using w by (simp add: inside_def ser_wf_def)
  ultimately show ?thesis using that by simp
qed

text \<open>
  C17: an update whose head fits the rest of the packet and whose value does not is cut off where the
  packet ends, and still taken off the queue: the pending mark and the mask of changed fields are
  cleared and the update's number is used up, as if it had been sent.
\<close>

theorem truncated_update_taken:
  assumes "lib_writes lib enc" "pva_queue_inv st" "ps_deque st = q # qs" "pc_value (ps_channels st ! q) \<noteq> None"
    and "ser_wf s" "ser_good s"
    and "length (enc_pva_channel_data (pva_channel_message (ps_channels st ! q))) \<le> remaining s"
    and "remaining s < length (pva_entry_bytes enc (ps_channels st ! q))"
  shows "\<exists>st' s'. put_update lib q st s = Some (True, st', s') \<and> ser_good s' \<and>
    ser_pos s' - ser_pos s < length (pva_entry_bytes enc (ps_channels st ! q)) \<and>
    ps_deque st' = qs \<and> ps_channels st' = (ps_channels st)[q := sent_channel (ps_channels st ! q)]"
proof -
  let ?c = "ps_channels st ! q"
  let ?h = "enc_pva_channel_data (pva_channel_message ?c)"
  let ?st = "pva_set_channel q (?c\<lparr>pc_update_seq_no := pc_update_seq_no ?c + 1\<rparr>) st"
  obtain v where v: "pc_value ?c = Some v" using assms(4) by blast
  have q: "q < length (ps_channels st)" and p: "pcd_update_type (pva_channel_message ?c) \<noteq> UT_Disconnected"
    using assms(2,3) by (auto simp: pva_queue_inv_def pva_chans_inv_def pva_channel_message_def update_type_defs)
  have h: "put_pva_channel_data (pva_channel_message ?c) s = Some (written ?h s)"
    using assms(5-7) by (intro put_pva_channel_data_fits)
  have w: "inside s (written ?h s)" "ser_wf (written ?h s)" "remaining (written ?h s) = remaining s - length ?h"
    "ser_good (written ?h s)"
    using within_written [OF assms(5,7)] written_wf [OF assms(5,7)] assms(6) by (simp_all add: written_fields)
  have "remaining (written ?h s) < length (enc v (pc_changed ?c))"
    using assms(7,8) w(3) by (simp add: pva_entry_bytes_def v del: length_enc_pva)
  then obtain s' where s': "serialize_value lib (pva_channel_message ?c) (Some v) (pc_changed ?c) (written ?h s) = Some (True, s')"
    "inside (written ?h s) s'" "ser_good s'"
    by (rule serialize_value_cut [where enc = enc, OF assms(1) w(2,4) p])
  have i: "pva_queue_inv ?st" "ps_deque ?st = q # qs"
    using assms(2,3) q by (auto intro: pva_inv_set)
  then obtain st' where c: "pva_clear_update q ?st = Some st'" "ps_deque st' = qs"
    "ps_channels st' = (ps_channels st)[q := sent_channel ?c]"
    by (rule pva_clear_inv) (use q in \<open>simp add: sent_channel_def\<close>)
  have put: "put_update lib q st s = Some (True, st', s')"
    using q h s'(1) c(1) by (simp add: put_update_def v)
  have "inside s s'" using within_trans [OF w(1) s'(2)] .
  then have "ser_pos s' \<le> ser_limit s" by (auto simp: inside_def ser_wf_def)
  then have "ser_pos s' - ser_pos s < length (pva_entry_bytes enc ?c)"
    using assms(5,8) by (auto simp: remaining_wf ser_wf_def)
  with put s'(3) c show ?thesis by blast
qed

theorem truncated_update_taken_witness:
  "\<exists>st' s'. put_update scalar_lib 0 demo_pva_sender (ser_make (replicate 12 0) 12) = Some (True, st', s') \<and> ser_good s' \<and>
    ser_pos s' - 0 < 17 \<and> ps_deque st' = [] \<and>
    ps_channels st' = [sent_channel (ps_channels demo_pva_sender ! 0)]"
proof -
  have e: "length (pva_entry_bytes scalar_enc (ps_channels demo_pva_sender ! 0)) = 17"
    using arg_cong [OF demo_pva_queued, of length]
    by (simp add: queued_entries_def demo_pva_sender_def)
  have h: "length (enc_pva_channel_data (pva_channel_message (ps_channels demo_pva_sender ! 0))) = 9"
    by (simp add: demo_pva_sender_def pva_channel_message_def)
  show ?thesis
    using truncated_update_taken [OF scalar_lib_ok demo_pva_inv, of 0 "[]" "ser_make (replicate 12 0) 12", unfolded e h]
    by (simp add: ser_fields ser_wf_def remaining_def demo_pva_sender_def)
qed

section \<open>Type definitions\<close>


text \<open>A sender that has learned the types of two and of three descriptions.\<close>

lemma demo_types_ready:
  "length (ps_buffer demo_pva_sender) = MAX_MESSAGE_SIZE"
  "take Header_size (ps_buffer demo_pva_sender) = enc_header [0, 0, 0] demo_pva_header"
  "pva_link_ready demo_pva_header [0, 0, 0] demo_pva_receiver"
  using demo_pva_ok by simp_all


text \<open>
  C15: if some type behind the built-in ones does not fit an empty packet, \<open>send_typedef_updates\<close> never
  returns: every packet it sends ends before that type.
\<close>

theorem oversized_typedef_livelock:
  assumes "lib_types lib tenc blank" "ps_cache st = map Some vs" "length vs < 2 ^ 16"
    and "unat (ps_builtin st) \<le> j" "j < length vs" "data_room < length (tenc (vs ! j))"
    and "length (ps_buffer st) = MAX_MESSAGE_SIZE"
  shows "send_typedef_updates lib st = None"
  unfolding send_typedef_updates_def
  by (rule typedef_loop_stuck [OF assms(1,3,5) _ assms(2,7,4)])
    (use assms(6) in \<open>simp add: data_room_eq\<close>)

text \<open>A library whose types take 70000 bytes.\<close>

definition bulky_lib :: pva_lib where
  "bulky_lib = scalar_lib
     \<lparr>lib_to_wire_type := (\<lambda>ds s. if \<not> fb_ensure (length (replicate 70000 (0 :: u8))) s then Some (fault s)
        else ser_write (replicate 70000 0) s),
      lib_from_wire_type := (\<lambda>s. Option.bind (ser_read 70000 s) (\<lambda>(bs, s). Some (Some (scalar_value 0), s)))\<rparr>"

lemma bulky_lib_types: "lib_types bulky_lib (\<lambda>v. replicate 70000 0) (\<lambda>v. scalar_value 0)"
proof -
  have "encodes (\<lambda>s. if \<not> fb_ensure (length (replicate 70000 (0 :: u8))) s then Some (fault s)
      else ser_write (replicate 70000 0) s) (replicate 70000 0)"
    by (rule encodes_block)
  moreover have "decodes_to (\<lambda>s. Option.bind (ser_read 70000 s) (\<lambda>(bs, s). Some (Some (scalar_value 0), s)))
      (replicate 70000 0) (Some (scalar_value 0))"
    by (simp add: decodes_to_def ser_read_cursor)
  ultimately show ?thesis by (simp only: lib_types_def bulky_lib_def) simp
qed

theorem oversized_typedef_livelock_witness:
  "send_typedef_updates bulky_lib (demo_pva_sender\<lparr>ps_cache := [Some (scalar_value 0), Some (wide_value 2)]\<rparr>) = None"
  by (rule oversized_typedef_livelock [OF bulky_lib_types, where vs = "[scalar_value 0, wide_value 2]" and j = 1])
    (simp_all add: demo_types_ready data_room_eq, simp add: demo_pva_sender_def)

section \<open>Heartbeats\<close>



section \<open>The receiver mirrors the sender\<close>



text \<open>
  C16: a turn in which the heartbeat is due never gets past a channel that has not had a value yet,
  unless a full update of it is already pending: the heartbeat follows a null pointer there.
\<close>

theorem unconnected_channel_aborts:
  assumes "pva_work lib (pva_arrivals evs st) = Some st1" "(ps_iteration st1 + 1) mod ps_hb_iterations st1 = 0"
    and "i < length (ps_channels st1)" "pc_value (ps_channels st1 ! i) = None" "pc_pending (ps_channels st1 ! i) \<noteq> UT_Full"
  shows "pva_run_iteration lib evs st = None"
proof -
  let ?st = "st1\<lparr>ps_iteration := ps_iteration st1 + 1\<rparr>"
  have "pva_mark_heartbeat_updates st2 = None" if "send_typedef_updates lib ?st = Some st2" for st2
  proof -
    have "ps_channels st2 = ps_channels st1"
      using typedef_loop_frame [OF that [unfolded send_typedef_updates_def]] by simp
    with assms(3-5) show ?thesis by (intro heartbeat_needs_value [of i]) simp_all
  qed
  then show ?thesis
    using assms(2) by (cases "send_typedef_updates lib ?st") (simp_all add: pva_run_iteration_def assms(1))
qed

theorem unconnected_channel_aborts_witness:
  "pva_run_iteration scalar_lib ([], [[]]) (demo_pva_sender\<lparr>ps_channels := [new_pva_channel 0], ps_deque := []\<rparr>) = None"
  by (rule unconnected_channel_aborts [where i = 0 and
      ?st1.0 = "demo_pva_sender\<lparr>ps_channels := [new_pva_channel 0], ps_deque := []\<rparr>"])
    (simp_all add: pva_work_def pva_arrivals_def demo_pva_sender_def new_pva_channel_def update_type_defs)

section \<open>The queue over a run\<close>

text \<open>
  C12: from construction, after any number of turns of the run loop with any events of the client
  library that return, the queue is empty; and once the next events are handled it holds exactly the
  channels with a pending update, each once.
\<close>

theorem pva_queue_over_run:
  assumes "pva_sender_init lib cfg startup = Some st" "pva_sender_run lib runtime turns st = Some (left, st')"
    and "pva_work lib (pva_arrivals evs st') = Some st''"
  shows "ps_deque st' = [] \<and> distinct (ps_deque st'') \<and>
    set (ps_deque st'') = {i. i < length (ps_channels st'') \<and> pc_pending (ps_channels st'' ! i) \<noteq> UT_None}"
proof -
  have i: "pva_queue_inv st \<and> ps_deque st = []" using pva_sender_init_inv [OF assms(1)] .
  then have r: "pva_queue_inv st' \<and> ps_deque st' = []"
    using pva_run_loop_inv assms(2) unfolding pva_sender_run_def by blast
  then have "pva_queue_inv st''" using pva_work_inv [OF _ assms(3)] by simp
  with r show ?thesis by (simp add: pva_queue_inv_def pva_chans_inv_def)
qed

theorem pva_queue_over_run_witness:
  "\<exists>st'' :: pva_sender. distinct (ps_deque st'') \<and>
     {i. i < length (ps_channels st'') \<and> pc_pending (ps_channels st'' ! i) \<noteq> UT_None} = set (ps_deque st'') \<and>
     map pc_pending (ps_channels st'') = [UT_Full]"
proof -
  from demo_beat [of "[]" 42] obtain st st'' where
    t: "pva_sender_init demo_lib demo_beat_cfg 5 = Some st" "pva_sender_run demo_lib 0 [] st = Some (False, st)"
      "pva_work demo_lib (pva_arrivals ([0], [[PV_Update (pair_value True 42 [])]]) st) = Some st''"
    and m: "map pc_pending (ps_channels st'') = [UT_Full]"
    by auto
  from pva_queue_over_run [OF t] m show ?thesis by (intro exI [of _ st'']) simp
qed

section \<open>Acceptance\<close>

text \<open>
  C13: the pvAccess receiver accepts exactly what the Channel Access receiver accepts: for receivers
  with the same progress, any sequence of start times, sequence numbers and fragment numbers gets the
  same sequence of answers.
\<close>

theorem receivers_accept_alike:
  assumes "same_progress rc pr"
  shows "run_checks ca_check xs rc = run_checks pva_check xs pr"
  using assms by (rule run_checks_same)

theorem receivers_accept_alike_witness:
  "\<exists>rc. run_checks ca_check [Sender_Check 5, Data_Check 0, Data_Check 2, Data_Check 1, Fragment_Check 3 0, Fragment_Check 3 2] rc =
     run_checks pva_check [Sender_Check 5, Data_Check 0, Data_Check 2, Data_Check 1, Fragment_Check 3 0, Fragment_Check 3 2]
       demo_pva_receiver"
  by (rule exI, rule receivers_accept_alike [where rc = "\<lparr>rc_config_hash = 0, rc_heartbeat_period = 0, rc_buffer = [],
      rc_fragment = ser_make [] 0, rc_last_seq_no = - 1, rc_active_fragment_seq_no = - 1,
      rc_last_fragment_seq_no = - 1, rc_last_startup_time = 0, rc_channels = [],
      rc_now = 0, rc_last_heartbeat = 0, rc_calls = []\<rparr>"])
    (simp add: same_progress_def demo_pva_receiver_def)

section \<open>Values keep their type\<close>

text \<open>
  C11: merging an update of the same type into the sender's copy of a value succeeds, keeps the value
  well-typed and of the same type, takes over exactly the fields visited from the top (a marked field
  hides the fields below it), and adds exactly those to the mask of changed fields.
\<close>

theorem merge_keeps_type:
  assumes "value_typed d dest" "value_typed d src" "same_type dest src"
    and "lib_equal_type lib dest (Some src)" "mask_wf (fd_size d) m"
  shows "\<exists>dest' m'. merge_value lib dest m src = Some (dest', m') \<and>
    value_typed d dest' \<and> same_type dest' dest \<and> mask_wf (fd_size d) m' \<and>
    (\<forall>j < fd_size d. pv_fields dest' ! j =
      (if j \<in> set (visited (pv_desc src) (pv_fields src) (fd_size d) 0)
       then merge_field j (pv_fields src ! j) (pv_fields dest ! j) else pv_fields dest ! j)) \<and>
    (\<forall>j. mask_bit m' j \<longleftrightarrow> mask_bit m j \<or> j \<in> set (visited (pv_desc src) (pv_fields src) (fd_size d) 0))"
proof -
  let ?bs = "visited (pv_desc src) (pv_fields src) (fd_size d) 0"
  let ?d = "dest\<lparr>pv_fields := merged ?bs (pv_fields src) (pv_fields dest)\<rparr>"
  from merge_value_eq [OF assms] obtain m' where "merge_value lib dest m src = Some (?d, m')"
    "mask_wf (fd_size d) m'" "\<forall>j. mask_bit m' j \<longleftrightarrow> mask_bit m j \<or> j \<in> set ?bs" by blast
  moreover have "length (pv_fields dest) = fd_size d" using assms(1) by (simp add: value_typed_def)
  ultimately show ?thesis
    using merged_typed [OF assms(1-3), of ?bs] by (auto simp: merged_nth)
qed

text \<open>An update of a pair that changes the string.\<close>

lemma pair_value_typed:
  "value_typed (FieldDesc ''pair'' [(''n'', 1), (''s'', 2)] [] 0 [] TC_Struct) (pair_value b w x)"
  "same_type (pair_value b w x) (pair_value b' w' x')"
  "fd_size (FieldDesc ''pair'' [(''n'', 1), (''s'', 2)] [] 0 [] TC_Struct) = 3"
  "visited (pv_desc (pair_value False w x)) (pv_fields (pair_value False w x)) 3 0 = [2]"
  by (simp_all add: value_typed_def value_desc_def pair_value_def fd_size_def same_type_def visited.simps)

theorem merge_keeps_type_witness:
  "\<exists>dest' m'. merge_value scalar_lib (pair_value True 7 ''x'') \<lparr>bm_words = [0], bm_size = 3\<rparr> (pair_value False 9 ''y'') =
      Some (dest', m') \<and>
    pv_fields dest' ! 1 = pv_fields (pair_value True 7 ''x'') ! 1 \<and> fl_content (pv_fields dest' ! 2) = Text ''y'' \<and>
    mask_bit m' 2 \<and> \<not> mask_bit m' 1"
proof -
  have ok: "lib_equal_type scalar_lib (pair_value True 7 ''x'') (Some (pair_value False 9 ''y''))"
    "mask_wf 3 \<lparr>bm_words = [0], bm_size = 3\<rparr>"
    by (simp_all add: scalar_lib_def pair_value_def mask_wf_def)
  from merge_keeps_type [OF pair_value_typed(1,1,2) ok(1), of "\<lparr>bm_words = [0], bm_size = 3\<rparr>"] ok(2)
  obtain dest' m' where m: "merge_value scalar_lib (pair_value True 7 ''x'') \<lparr>bm_words = [0], bm_size = 3\<rparr>
      (pair_value False 9 ''y'') = Some (dest', m')"
    and f: "\<forall>j < 3. pv_fields dest' ! j = (if j \<in> set [2] then merge_field j (pv_fields (pair_value False 9 ''y'') ! j)
        (pv_fields (pair_value True 7 ''x'') ! j) else pv_fields (pair_value True 7 ''x'') ! j)"
    and b: "\<forall>j. mask_bit m' j \<longleftrightarrow> mask_bit \<lparr>bm_words = [0], bm_size = 3\<rparr> j \<or> j \<in> set [2]"
    unfolding pair_value_typed(3,4) by blast
  from f have "pv_fields dest' ! 1 = pv_fields (pair_value True 7 ''x'') ! 1" by simp
  moreover from f have "fl_content (pv_fields dest' ! 2) = Text ''y''" by (simp add: merge_field_def pair_value_def)
  moreover have "\<not> mask_bit \<lparr>bm_words = [0], bm_size = 3\<rparr> 1" by (simp add: mask_bit_def mask_get_def)
  with b have "mask_bit m' 2 \<and> \<not> mask_bit m' 1" by simp
  ultimately show ?thesis using m by blast
qed

end
