(* ===== verification/Pvxs_Older.thy ===== *)
theory Pvxs_Older
  imports Pvxs_Codec
begin

text \<open>
  The encodings of the older copy of the PVXS headers (\<open>pvxs_headers_1_1_1/pvaproto.h\<close>), the one the
  makefile compiles the diode with. Buffer, scalars, the loop over plain elements, message headers, masks and field
  descriptions are those of the newer copy and share their model (only the place of a fault that is
  remembered differs: the last one here, the first one there, as in \<open>Pvxs_Buffers\<close>; the model of the encodings keeps neither); what differs is
  here: a size can be null, there are no selectors, and a \<open>std::string\<close> goes through its C string.
\<close>

subsection \<open>Sizes\<close>

definition null_size :: nat where
  "null_size = 2 ^ 64 - 1"

definition to_wire_size1 :: "bool \<Rightarrow> nat \<Rightarrow> serializer \<Rightarrow> serializer option" where
  "to_wire_size1 be n s =
     (if \<not> fb_ensure 1 s then Some (fault s)
      else if n < 254 then put_u8 (of_nat n) s
      else if n \<le> 0xffffffff then do { s \<leftarrow> put_u8 254 s; to_wire_u32 be (of_nat n) s }
      else if n = null_size then put_u8 255 s
      else Some (fault s))"

definition from_wire_size1 :: "bool \<Rightarrow> nat \<Rightarrow> serializer \<Rightarrow> (nat \<times> serializer) option" where
  "from_wire_size1 be old s =
     (if \<not> fb_ensure 1 s then Some (old, fault s)
      else do {
        (b, s) \<leftarrow> get_u8 s;
        if b < 254 then Some (unat b, s)
        else if b = 255 then Some (null_size, s)
        else if b = 254 then do { (v, s) \<leftarrow> from_wire_u32 be 0 s; Some (unat v, s) }
        else Some (old, fault s)
      })"

subsection \<open>Strings and statuses\<close>

text \<open>A pointer to a C string may be null; the bytes are pushed one by one.\<close>

definition to_wire_cstr1 :: "bool \<Rightarrow> bytes option \<Rightarrow> serializer \<Rightarrow> serializer option" where
  "to_wire_cstr1 be p s =
     (let bs = (case p of None \<Rightarrow> [] | Some c \<Rightarrow> takeWhile (\<lambda>b. b \<noteq> 0) c)
      in do { s \<leftarrow> to_wire_size1 be (length bs) s;
              if \<not> fb_ensure (length bs) s then Some (fault s) else foldM put_u8 bs s })"

definition to_wire_str1 :: "bool \<Rightarrow> bytes \<Rightarrow> serializer \<Rightarrow> serializer option" where
  "to_wire_str1 be bs = to_wire_cstr1 be (Some bs)"

definition from_wire_str1 :: "bool \<Rightarrow> bytes \<Rightarrow> serializer \<Rightarrow> (bytes \<times> serializer) option" where
  "from_wire_str1 be old s =
     do { (n, s) \<leftarrow> from_wire_size1 be 0 s;
          if n = null_size then Some ([], s)
          else if \<not> fb_ensure n s then Some (old, fault s)
          else ser_read n s }"

definition to_wire_status1 :: "bool \<Rightarrow> status \<Rightarrow> serializer \<Rightarrow> serializer option" where
  "to_wire_status1 be st s =
     (if \<not> fb_ensure 1 s then Some (fault s)
      else if st_code st = 0 \<and> st_msg st = [] \<and> st_trace st = [] then put_u8 255 s
      else do {
        s \<leftarrow> put_u8 (st_code st) s;
        s \<leftarrow> to_wire_cstr1 be (Some (st_msg st)) s;
        to_wire_cstr1 be (Some (st_trace st)) s
      })"

definition from_wire_status1 :: "bool \<Rightarrow> status \<Rightarrow> serializer \<Rightarrow> (status \<times> serializer) option" where
  "from_wire_status1 be old s =
     (if \<not> fb_ensure 1 s then Some (old, fault s)
      else do {
        b \<leftarrow> ser_at s 0;
        if b = 255 then Some (\<lparr>st_code = 0, st_msg = [], st_trace = []\<rparr>, advance 1 s)
        else do {
          (c, s) \<leftarrow> get_u8 s;
          (m, s) \<leftarrow> from_wire_str1 be (st_msg old) s;
          (t, s) \<leftarrow> from_wire_str1 be (st_trace old) s;
          Some (\<lparr>st_code = c, st_msg = m, st_trace = t\<rparr>, s)
        }
      })"

subsection \<open>Arrays\<close>

text \<open>
  The element count is read as a size, so it may be null, and the array is allocated before the
  elements are read: \<open>alloc n\<close> says whether an array of \<open>n\<close> elements can be had; if not, the allocation
  throws and \<open>Inl\<close> is the buffer at that point.
\<close>

definition to_wire_array1 :: "bool \<Rightarrow> nat \<Rightarrow> bytes list \<Rightarrow> serializer \<Rightarrow> serializer option" where
  "to_wire_array1 be k elems s =
     do { s \<leftarrow> to_wire_size1 be (length elems) s; pod_out be k (concat elems) s }"

definition from_wire_array1 ::
  "(nat \<Rightarrow> bool) \<Rightarrow> bool \<Rightarrow> nat \<Rightarrow> serializer \<Rightarrow> (serializer + bytes \<times> serializer) option" where
  "from_wire_array1 alloc be k s =
     do { (n, s) \<leftarrow> from_wire_size1 be 0 s;
          if \<not> alloc n then Some (Inl s)
          else map_option Inr (pod_in be k (n * k mod 2 ^ 64) [] s) }"

definition to_wire_strings1 :: "bool \<Rightarrow> bytes list \<Rightarrow> serializer \<Rightarrow> serializer option" where
  "to_wire_strings1 be elems s =
     do { s \<leftarrow> to_wire_size1 be (length elems) s; foldM (to_wire_str1 be) elems s }"

fun strings_in1 :: "bool \<Rightarrow> nat \<Rightarrow> serializer \<Rightarrow> (bytes list \<times> serializer) option" where
  "strings_in1 be 0 s = Some ([], s)"
| "strings_in1 be (Suc n) s =
     do { (x, s) \<leftarrow> from_wire_str1 be [] s; (xs, s) \<leftarrow> strings_in1 be n s; Some (x # xs, s) }"

definition from_wire_strings1 ::
  "(nat \<Rightarrow> bool) \<Rightarrow> bool \<Rightarrow> serializer \<Rightarrow> (serializer + bytes list \<times> serializer) option" where
  "from_wire_strings1 alloc be s =
     do { (n, s) \<leftarrow> from_wire_size1 be 0 s;
          if \<not> alloc n then Some (Inl s) else map_option Inr (strings_in1 be n s) }"

subsection \<open>The two copies agree\<close>

lemma to_wire_size1_eq: "n \<noteq> null_size \<Longrightarrow> to_wire_size1 be n = to_wire_size be n"
  by (simp add: to_wire_size1_def to_wire_size_def fun_eq_iff)

text \<open>A null size is what the newer copy writes for a null selector.\<close>

lemma to_wire_size1_null: "to_wire_size1 be null_size = to_wire_selector be (- 1)"
  by (simp add: to_wire_size1_def to_wire_selector_def null_size_def fun_eq_iff)

lemma from_wire_size1_eq: "from_wire_size1 be = from_wire_size be True"
  by (auto simp: from_wire_size1_def from_wire_size_def null_size_def fun_eq_iff bind_eq_Some_conv
      intro!: Option.bind_cong split: prod.split)

lemma push_bytes:
  assumes "ser_pos s + length bs \<le> length (ser_mem s)"
  shows "foldM put_u8 bs s = Some (written bs s)"
  using assms
proof (induction bs arbitrary: s)
  case Nil
  then show ?case by simp
next
  case (Cons b bs)
  have "put_u8 b s = Some (written [b] s)"
    using Cons.prems ser_write_fits [of s "[b]"] by (simp add: put_u8_def)
  moreover have "foldM put_u8 bs (written [b] s) = Some (written bs (written [b] s))"
    using Cons.prems by (intro Cons.IH) (simp add: written_def length_patch)
  moreover have "written bs (written [b] s) = written (b # bs) s"
    using Cons.prems written_append [of s "[b]" bs] by simp
  ultimately show ?case by simp
qed

lemma push_block:
  assumes "ser_wf s" "fb_ensure (length bs) s"
  shows "foldM put_u8 bs s = ser_write bs s"
proof -
  have "ser_pos s + length bs \<le> length (ser_mem s)"
    using assms by (auto simp: fb_ensure_def remaining_wf ser_wf_def)
  then show ?thesis by (simp add: push_bytes ser_write_fits)
qed

text \<open>Writing a size keeps the cursor well-formed, whatever the size.\<close>

lemma to_wire_size_wf:
  assumes "ser_wf s" "to_wire_size be n s = Some s'" shows "ser_wf s'"
proof (cases "n \<le> 0xffffffff")
  case True
  from encodesD [OF encodes_size [OF this] assms(1)] obtain t where "to_wire_size be n s = Some t" "ser_wf t" .
  with assms(2) show ?thesis by simp
next
  case False
  with assms show ?thesis by (auto simp: to_wire_size_def split: if_splits)
qed

lemma to_wire_cstr1_eq:
  assumes "ser_wf s" "length c < null_size"
  shows "to_wire_cstr1 be (Some c) s = to_wire_cstr be c s"
proof -
  let ?bs = "takeWhile (\<lambda>b. b \<noteq> 0) c"
  have "length ?bs \<noteq> null_size"
    using assms(2) length_takeWhile_le [of "\<lambda>b. b \<noteq> 0" c] by simp
  moreover have "(if \<not> fb_ensure (length ?bs) t then Some (fault t) else foldM put_u8 ?bs t) =
      (if \<not> fb_ensure (length ?bs) t then Some (fault t) else ser_write ?bs t)"
    if "to_wire_size be (length ?bs) s = Some t" for t
    using push_block [OF to_wire_size_wf [OF assms(1) that]] by simp
  ultimately show ?thesis
    by (simp add: to_wire_cstr1_def to_wire_cstr_def to_wire_str_def to_wire_size1_eq Let_def cong: Option.bind_cong)
qed

lemma to_wire_str1_eq:
  assumes "ser_wf s" "length bs < null_size" "0 \<notin> set bs"
  shows "to_wire_str1 be bs s = to_wire_str be bs s"
  unfolding to_wire_str1_def to_wire_cstr1_eq [OF assms(1,2)] to_wire_cstr_eq [OF assms(3)] ..

text \<open>A string with a zero byte is cut there.\<close>

lemma string_cut:
  assumes "ser_wf s" "length a < null_size" "0 \<notin> set a"
  shows "to_wire_str1 be (a @ 0 # b) s = to_wire_str be a s"
proof -
  have "takeWhile (\<lambda>b. b \<noteq> 0) (a @ 0 # b) = takeWhile (\<lambda>b. b \<noteq> 0) a"
  proof -
    have all: "b \<noteq> 0" if "b \<in> set a" for b using that assms(3) by blast
    then have "takeWhile (\<lambda>b. b \<noteq> 0) a = a" by (simp only: takeWhile_eq_all_conv) blast
    moreover have "takeWhile (\<lambda>b. b \<noteq> 0) (a @ 0 # b) = a"
      using all by (subst takeWhile_append2) simp_all
    ultimately show ?thesis by (rule trans [OF _ sym, rotated])
  qed
  then have "to_wire_str1 be (a @ 0 # b) s = to_wire_str1 be a s"
    by (simp add: to_wire_str1_def to_wire_cstr1_def)
  also have "\<dots> = to_wire_str be a s"
    by (rule to_wire_str1_eq [OF assms])
  finally show ?thesis .
qed

lemma from_wire_str1_eq: "from_wire_str1 = from_wire_str"
  by (simp add: from_wire_str1_def from_wire_str_def from_wire_size1_eq null_size_def fun_eq_iff)

lemma from_wire_status1_eq: "from_wire_status1 = from_wire_status"
  unfolding from_wire_status1_def [abs_def] from_wire_status_def [abs_def] from_wire_str1_eq ..

lemma strings_in1_eq: "strings_in1 be n = strings_in be n"
  by (induction n) (simp_all add: from_wire_str1_eq fun_eq_iff)

lemma to_wire_strings1_eq:
  assumes "ser_wf s" "length xs < null_size" "list_all (\<lambda>x. length x \<le> 0xffffffff \<and> 0 \<notin> set x) xs"
  shows "to_wire_strings1 be xs s = to_wire_strings be xs s"
proof -
  have "foldM (to_wire_str1 be) xs t = foldM (to_wire_str be) xs t" if "ser_wf t" for t
    using assms(3) that
  proof (induction xs arbitrary: t)
    case Nil
    then show ?case by simp
  next
    case (Cons x xs)
    then have x: "length x \<le> 0xffffffff" "0 \<notin> set x" "length x < null_size"
      by (auto simp: null_size_def)
    obtain u where "to_wire_str be x t = Some u" "ser_wf u"
      using encodesD [OF encodes_str [OF x(1)] Cons.prems(2)] by blast
    with Cons x to_wire_str1_eq [OF Cons.prems(2) x(3,2)] show ?case by simp
  qed
  then show ?thesis
    using assms(2) to_wire_size_wf [OF assms(1)]
    by (simp add: to_wire_strings1_def to_wire_strings_def to_wire_size1_eq cong: Option.bind_cong)
qed

text \<open>A status holds texts short enough for a size.\<close>

lemma to_wire_status1_eq:
  assumes "ser_wf s" "length (st_msg st) \<le> 0xffffffff" "length (st_trace st) \<le> 0xffffffff"
  shows "to_wire_status1 be st s = to_wire_status be st s"
proof -
  have c: "to_wire_cstr1 be (Some x) t = to_wire_cstr be x t \<and> (\<forall>u. to_wire_cstr be x t = Some u \<longrightarrow> ser_wf u)"
    if t: "ser_wf t" and x: "length x \<le> 0xffffffff" for t x
  proof -
    have l: "length (takeWhile (\<lambda>b. b \<noteq> 0) x) \<le> 0xffffffff"
      using x length_takeWhile_le [of "\<lambda>b. b \<noteq> 0" x] by linarith
    obtain u where "to_wire_cstr be x t = Some u" "ser_wf u"
      unfolding to_wire_cstr_def by (rule encodesD [OF encodes_str [OF l] t])
    with to_wire_cstr1_eq [OF t] x show ?thesis by (simp add: null_size_def)
  qed
  have "to_wire_cstr1 be (Some (st_msg st)) t = to_wire_cstr be (st_msg st) t \<and>
      (\<forall>u. to_wire_cstr be (st_msg st) t = Some u \<longrightarrow>
        to_wire_cstr1 be (Some (st_trace st)) u = to_wire_cstr be (st_trace st) u)"
    if "fb_ensure 1 s" "put_u8 (st_code st) s = Some t" for t
  proof -
    have "to_wire_u8 (st_code st) s = Some t" using that by (simp add: to_wire_u8_room)
    with encodesD [OF encodes_u8 assms(1)] have "ser_wf t" by (metis option.inject)
    with c assms(2,3) show ?thesis by blast
  qed
  then show ?thesis
    by (auto simp: to_wire_status1_def to_wire_status_def intro!: Option.bind_cong)
qed

text \<open>
  Only a null element count tells the readers apart: the older one asks for an array of that many
  elements, which cannot be had, the newer one faults.
\<close>

definition null_count :: "serializer \<Rightarrow> bool" where
  "null_count s \<longleftrightarrow> fb_ensure 1 s \<and> ser_at s 0 = Some 255"

lemma get_u8_at: "ser_wf s \<Longrightarrow> fb_ensure 1 s \<Longrightarrow> \<exists>b. ser_at s 0 = Some b \<and> get_u8 s = Some (b, advance 1 s)"
proof -
  assume "ser_wf s" "fb_ensure 1 s"
  then have "ser_pos s < length (ser_mem s)"
    by (auto simp: fb_ensure_def remaining_wf ser_wf_def)
  then show ?thesis
    by (simp add: ser_at_def get_u8_def ser_read_def segment_def advance_def hd_drop_conv_nth hd_take)
qed

lemma count_read:
  assumes "ser_wf s"
  shows "from_wire_size1 be 0 s =
    (if null_count s then Some (null_size, advance 1 s) else from_wire_size be False 0 s)"
    and "null_count s \<Longrightarrow> from_wire_size be False 0 s = Some (0, fault (advance 1 s))"
proof -
  consider "\<not> fb_ensure 1 s" | b where "fb_ensure 1 s" "ser_at s 0 = Some b" "get_u8 s = Some (b, advance 1 s)"
    using get_u8_at [OF assms] by blast
  then show "from_wire_size1 be 0 s =
      (if null_count s then Some (null_size, advance 1 s) else from_wire_size be False 0 s)"
    by cases (simp_all add: from_wire_size1_def from_wire_size_def null_count_def)
  show "from_wire_size be False 0 s = Some (0, fault (advance 1 s))" if "null_count s"
    using that get_u8_at [OF assms] by (auto simp: from_wire_size_def null_count_def)
qed

lemma from_wire_size_bound:
  assumes "from_wire_size be False 0 s = Some (n, t)" shows "n \<le> 0xffffffff"
proof -
  have "unat (w :: u32) \<le> 0xffffffff" for w
    using unat_bound(3) [of w] by simp
  moreover have "unat (b :: u8) \<le> 0xffffffff" for b
    using unat_bound(1) [of b] by simp
  ultimately show ?thesis
    using assms by (auto simp: from_wire_size_def bind_eq_Some_conv split: if_splits)
qed

lemma from_wire_array1_eq:
  assumes "ser_wf s" "\<not> alloc null_size" "\<forall>n \<le> 0xffffffff. alloc n" "k \<le> 2 ^ 31"
  shows "from_wire_array1 alloc be k s =
    (if null_count s then Some (Inl (advance 1 s)) else map_option Inr (from_wire_array be k s))"
proof (cases "null_count s")
  case True
  with assms(2) show ?thesis by (simp add: from_wire_array1_def count_read(1) [OF assms(1)])
next
  case False
  have "alloc n \<and> n * k mod 2 ^ 64 = n * k" if "from_wire_size be False 0 s = Some (n, t)" for n t
  proof -
    have n: "n \<le> 0xffffffff" by (rule from_wire_size_bound [OF that])
    then have "n * k \<le> 0xffffffff * 2 ^ 31" using assms(4) by (rule mult_le_mono)
    with n assms(3) show ?thesis by simp
  qed
  with False show ?thesis
    by (cases "from_wire_size be False 0 s")
      (auto simp: from_wire_array1_def from_wire_array_def count_read(1) [OF assms(1)])
qed

lemma from_wire_strings1_eq:
  assumes "ser_wf s" "\<not> alloc null_size" "\<forall>n \<le> 0xffffffff. alloc n"
  shows "from_wire_strings1 alloc be s =
    (if null_count s then Some (Inl (advance 1 s)) else map_option Inr (from_wire_strings be s))"
proof (cases "null_count s")
  case True
  with assms(2) show ?thesis by (simp add: from_wire_strings1_def count_read(1) [OF assms(1)])
next
  case False
  have "alloc n" if "from_wire_size be False 0 s = Some (n, t)" for n t
    using from_wire_size_bound [OF that] assms(3) by blast
  with False show ?thesis
    by (cases "from_wire_size be False 0 s")
      (auto simp: from_wire_strings1_def from_wire_strings_def count_read(1) [OF assms(1)] strings_in1_eq)
qed

subsection \<open>The formats\<close>

definition enc_size1 :: "bool \<Rightarrow> nat \<Rightarrow> bytes" where
  "enc_size1 be n = (if n = null_size then [255] else enc_size be n)"

lemma encodes_cong: "encodes g bs \<Longrightarrow> (\<And>s. ser_wf s \<Longrightarrow> f s = g s) \<Longrightarrow> encodes f bs"
  by (simp add: encodes_def)

interpretation size1_wire: wire_format "to_wire_size1 be" "from_wire_size1 be" "enc_size1 be"
  "\<lambda>n. n \<le> 0xffffffff \<or> n = null_size" for be
proof
  fix n old :: nat
  show "decodes (from_wire_size1 be old)"
    unfolding from_wire_size1_eq by (rule decodes_size)
  assume n: "n \<le> 0xffffffff \<or> n = null_size"
  have null: "encodes (to_wire_size1 be null_size) [255]"
    unfolding to_wire_size1_null using encodes_selector [of "- 1" be] by (simp add: enc_selector_def)
  show "encodes (to_wire_size1 be n) (enc_size1 be n)"
    using n null by (cases "n = null_size") (auto simp: enc_size1_def to_wire_size1_eq encodes_size)
  have "decodes_to (from_wire_size1 be old) [255] null_size"
    unfolding from_wire_size1_def [abs_def] by (rule decodes_to_first_byte) (simp add: decodes_to_return)
  then show "decodes_to (from_wire_size1 be old) (enc_size1 be n) n"
    using n by (cases "n = null_size") (auto simp: enc_size1_def from_wire_size1_eq decodes_to_size)
qed

interpretation str1_wire: wire_format "to_wire_str1 be" "from_wire_str1 be" "enc_str be"
  "\<lambda>bs. length bs \<le> 0xffffffff \<and> 0 \<notin> set bs" for be
proof
  fix bs old :: bytes
  show "decodes (from_wire_str1 be old)"
    unfolding from_wire_str1_eq by (rule decodes_str)
  assume bs: "length bs \<le> 0xffffffff \<and> 0 \<notin> set bs"
  then show "encodes (to_wire_str1 be bs) (enc_str be bs)"
    by (intro encodes_cong [OF encodes_str] to_wire_str1_eq) (auto simp: null_size_def)
  show "decodes_to (from_wire_str1 be old) (enc_str be bs) bs"
    unfolding from_wire_str1_eq using bs by (intro decodes_to_str) blast
qed

interpretation status1_wire: wire_format "to_wire_status1 be" "from_wire_status1 be" "enc_status be" good_status for be
proof
  fix st old
  show "decodes (from_wire_status1 be old)"
    unfolding from_wire_status1_eq by (rule status_wire.get_law)
  assume st: "good_status st"
  then show "encodes (to_wire_status1 be st) (enc_status be st)"
    by (intro encodes_cong [OF encodes_status] to_wire_status1_eq) (auto simp: good_status_def)
  show "decodes_to (from_wire_status1 be old) (enc_status be st) st"
    unfolding from_wire_status1_eq using st by (rule status_wire.get_enc)
qed

text \<open>
  C36: the two copies of the PVXS headers in the repository agree on the wire, for every buffer and both
  byte orders: they write the same bytes, or fault in the same place, for statuses, arrays and lists of
  strings, and read the same values; but the older copy cuts a string at a zero byte, and a null element
  count, a fault for the newer one, makes it allocate an array that cannot be had.
\<close>

theorem header_copies_agree:
  assumes "ser_wf s" "good_status st" "array_ok k elems" "k \<le> 2 ^ 31"
    and "strings_ok xs" "list_all (\<lambda>x. 0 \<notin> set x) xs" "length a < null_size" "0 \<notin> set a"
    and "\<not> alloc null_size" "\<forall>n \<le> 0xffffffff. alloc n"
  shows "to_wire_status1 be st s = to_wire_status be st s \<and>
    to_wire_array1 be k elems s = to_wire_array be k elems s \<and>
    to_wire_strings1 be xs s = to_wire_strings be xs s \<and>
    to_wire_str1 be (a @ 0 # b) s = to_wire_str be a s \<and>
    from_wire_status1 be old s = from_wire_status be old s \<and>
    from_wire_array1 alloc be k s =
      (if null_count s then Some (Inl (advance 1 s)) else map_option Inr (from_wire_array be k s)) \<and>
    from_wire_strings1 alloc be s =
      (if null_count s then Some (Inl (advance 1 s)) else map_option Inr (from_wire_strings be s))"
proof (intro conjI)
  show "to_wire_status1 be st s = to_wire_status be st s"
    using assms(1,2) by (intro to_wire_status1_eq) (simp_all add: good_status_def)
  have "length elems \<noteq> null_size"
    using assms(3) by (auto simp: array_ok_def null_size_def)
  then show "to_wire_array1 be k elems s = to_wire_array be k elems s"
    by (simp add: to_wire_array1_def to_wire_array_def to_wire_size1_eq)
  show "to_wire_strings1 be xs s = to_wire_strings be xs s"
    using assms(1,5,6) by (intro to_wire_strings1_eq) (auto simp: strings_ok_def null_size_def list_all_iff)
  show "to_wire_str1 be (a @ 0 # b) s = to_wire_str be a s"
    by (rule string_cut [OF assms(1,7,8)])
  show "from_wire_status1 be old s = from_wire_status be old s"
    by (simp add: from_wire_status1_eq)
  show "from_wire_array1 alloc be k s =
      (if null_count s then Some (Inl (advance 1 s)) else map_option Inr (from_wire_array be k s))"
    by (rule from_wire_array1_eq [OF assms(1,9,10,4)])
  show "from_wire_strings1 alloc be s =
      (if null_count s then Some (Inl (advance 1 s)) else map_option Inr (from_wire_strings be s))"
    by (rule from_wire_strings1_eq [OF assms(1,9,10)])
qed

theorem header_copies_agree_witness:
  "to_wire_str1 False [65, 0, 66] (ser_of [255, 7, 7]) = to_wire_str False [65] (ser_of [255, 7, 7]) \<and>
   from_wire_array1 (\<lambda>n. n < 2 ^ 32) False 2 (ser_of [255, 7, 7]) = Some (Inl (advance 1 (ser_of [255, 7, 7]))) \<and>
   from_wire_array1 (\<lambda>n. n < 2 ^ 32) False 2 (ser_of [1, 5, 6]) = map_option Inr (from_wire_array False 2 (ser_of [1, 5, 6]))"
proof -
  let ?st = "\<lparr>st_code = 1, st_msg = [104, 105], st_trace = []\<rparr>"
  let ?s = "ser_of [255, 7, 7]" and ?t = "ser_of [1, 5, 6]"
  have s: "ser_wf ?s" "ser_wf ?t" "null_count ?s" "\<not> null_count ?t"
    by (simp_all add: ser_wf_def ser_fields remaining_def null_count_def fb_ensure_def ser_at_def)
  have ok: "good_status ?st" "array_ok 2 [[1, 2], [3, 4]]" "(2 :: nat) \<le> 2 ^ 31" "strings_ok [[65], [66, 67]]"
    "list_all (\<lambda>x :: bytes. 0 \<notin> set x) [[65], [66, 67]]" "length [65 :: u8] < null_size" "0 \<notin> set [65 :: u8]"
    "\<not> null_size < 2 ^ 32" "\<forall>n \<le> 0xffffffff. n < (2 :: nat) ^ 32"
    by (simp_all add: good_status_def array_ok_def strings_ok_def null_size_def)
  from header_copies_agree [OF s(1) ok, of False "[66]" ?st] header_copies_agree [OF s(2) ok, of False "[66]" ?st] s(3,4)
  show ?thesis by simp
qed

end
