(* ===== verification/Pvxs_Buffers.thy ===== *)
theory Pvxs_Buffers
  imports Pvxs_Wire Bitmask
begin

text \<open>
  The base class of the PVXS buffers (\<open>pvxs_headers/pvaproto.h\<close>): a view of a slice of some backing
  store, with a virtual \<open>refill\<close> that subclasses define. For the subclasses over a growing vector or an
  \<open>evbuffer\<close> it is compiled in the PVXS library, so it is a parameter here: it is asked for a number of
  bytes and gives its answer, the new view and the new backing. With the \<open>refill\<close> of \<open>FixedBuf\<close> the operations are
  those of \<open>Pvxs_Wire\<close>. The place of a fault is kept apart. The remaining constructors of \<open>bitmask.h\<close> are at the end.
\<close>

subsection \<open>Faults\<close>

text \<open>\<open>fault\<close> of the two copies of the header: the place of the first fault, and that of the last.\<close>

type_synonym place = "string \<times> int"

definition fault_place :: "place \<Rightarrow> place option \<Rightarrow> place option" where
  "fault_place p err = (if err = None then Some p else err)"

definition fault_place1 :: "place \<Rightarrow> place option \<Rightarrow> place option" where
  "fault_place1 p err = Some p"

definition err_file :: "place option \<Rightarrow> string" where
  "err_file err = (case err of Some (f, l) \<Rightarrow> f | None \<Rightarrow> ''(null)'')"

definition err_line :: "place option \<Rightarrow> int" where
  "err_line err = (case err of Some (f, l) \<Rightarrow> l | None \<Rightarrow> - 1)"

lemma fault_places:
  "fold fault_place ps None = (case ps of [] \<Rightarrow> None | p # _ \<Rightarrow> Some p)"
  "fold fault_place1 ps None = (if ps = [] then None else Some (List.last ps))"
proof -
  have "fold fault_place ps (Some p) = Some p" for ps p
    by (induction ps) (simp_all add: fault_place_def)
  then show "fold fault_place ps None = (case ps of [] \<Rightarrow> None | p # _ \<Rightarrow> Some p)"
    by (cases ps) (simp_all add: fault_place_def)
  show "fold fault_place1 ps None = (if ps = [] then None else Some (List.last ps))"
    by (induction ps rule: rev_induct) (simp_all add: fault_place1_def)
qed

subsection \<open>A buffer that can be refilled\<close>

type_synonym 'b refill = "nat \<Rightarrow> serializer \<Rightarrow> 'b \<Rightarrow> bool \<times> serializer \<times> 'b"

definition buf_ensure :: "'b refill \<Rightarrow> nat \<Rightarrow> serializer \<Rightarrow> 'b \<Rightarrow> bool \<times> serializer \<times> 'b" where
  "buf_ensure refill i s b =
     (if \<not> ser_good s then (False, s, b) else if i \<le> remaining s then (True, s, b) else refill i s b)"

text \<open>
  \<open>skip\<close> moves to the limit before it subtracts \<open>size()\<close>, which is then zero. The subtraction is one
  of \<open>size_t\<close>.
\<close>

partial_function (option) buf_skip :: "'b refill \<Rightarrow> nat \<Rightarrow> serializer \<Rightarrow> 'b \<Rightarrow> (serializer \<times> 'b) option" where
  "buf_skip refill i s b =
     (if i \<le> remaining s then Some (advance i s, b)
      else
        let s' = s\<lparr>ser_pos := ser_limit s\<rparr>;
            i' = unat (of_nat i - of_nat (remaining s') :: u64);
            (again, s', b) = refill i' s' b
        in if again then buf_skip refill i' s' b else Some (fault s', b))"

text \<open>The constructors of the buffers over an \<open>evbuffer\<close>: an empty view that is filled at once.\<close>

definition ev_buf :: "'b refill \<Rightarrow> nat \<Rightarrow> 'b \<Rightarrow> serializer \<times> 'b" where
  "ev_buf refill n b = snd (refill n (ser_make [] 0) b)"

text \<open>\<open>FixedBuf::refill\<close>.\<close>

definition fixed_refill :: "'b refill" where
  "fixed_refill want s b = (False, s, b)"

lemma remaining_at_limit [simp]: "remaining (s\<lparr>ser_pos := ser_limit s\<rparr>) = 0"
  by (simp add: remaining_def)

lemma remaining_bound: "remaining s < 2 ^ 64"
proof -
  have "(int (ser_limit s) - int (ser_pos s)) mod 2 ^ 64 < 2 ^ 64" by (rule pos_mod_bound) simp
  then show ?thesis unfolding remaining_def by (subst nat_less_iff) simp_all
qed

lemma fixed_ensure: "buf_ensure fixed_refill i s b = (fb_ensure i s, s, b)"
  by (simp add: buf_ensure_def fb_ensure_def fixed_refill_def)

lemma fixed_skip: "buf_skip fixed_refill i s b = Some (fb_skip i s, b)"
  by (subst buf_skip.simps) (simp add: fb_skip_def fixed_refill_def Let_def)

subsection \<open>Skipping over a boundary\<close>

text \<open>A backing of segments: a refill drops what is left of the view and shows the next segment.\<close>

fun next_segment :: "bytes list refill" where
  "next_segment want s [] = (False, s, [])"
| "next_segment want s (x # xs) = (True, ser_of x, xs)"

lemma skip_unchanged: "i < 2 ^ 64 \<Longrightarrow> unat (of_nat i - of_nat (remaining (s\<lparr>ser_pos := ser_limit s\<rparr>)) :: u64) = i"
  by (simp add: unat_word_of_nat_small)

text \<open>
  What is left of a segment is passed over without being counted: the skip ends \<open>i\<close> bytes into the
  first segment that has as many, and faults when there is none.
\<close>

lemma skip_in_segments:
  assumes "i < 2 ^ 64" and "remaining s < i" and "\<forall>x \<in> set xs. length x < 2 ^ 64"
  shows "buf_skip next_segment i s xs =
    (case dropWhile (\<lambda>x. length x < i) xs of
       x # rest \<Rightarrow> Some (advance i (ser_of x), rest)
     | [] \<Rightarrow> Some (let s' = (if xs = [] then s else ser_of (List.last xs)) in fault (s'\<lparr>ser_pos := ser_limit s'\<rparr>), []))"
  using assms(2,3)
proof (induction xs arbitrary: s)
  case Nil
  then show ?case
    using skip_unchanged [OF assms(1), of s]
    by (subst buf_skip.simps) (simp add: Let_def)
next
  case (Cons x xs)
  have step: "buf_skip next_segment i s (x # xs) = buf_skip next_segment i (ser_of x) xs"
    using Cons.prems(1) skip_unchanged [OF assms(1), of s]
    by (subst buf_skip.simps) (simp add: Let_def)
  have r: "remaining (ser_of x) = length x"
    using Cons.prems(2) by (simp add: remaining_wf ser_make_fields)
  show ?case
  proof (cases "length x < i")
    case True
    then have d: "dropWhile (\<lambda>x. length x < i) (x # xs) = dropWhile (\<lambda>x. length x < i) xs" by simp
    from True Cons.IH [of "ser_of x"] Cons.prems(2) r show ?thesis
      unfolding step d by (cases "dropWhile (\<lambda>x. length x < i) xs") (auto simp: Let_def simp del: dropWhile_eq_Nil_conv)
  next
    case False
    then have "buf_skip next_segment i (ser_of x) xs = Some (advance i (ser_of x), xs)"
      using r by (subst buf_skip.simps) simp
    with False step show ?thesis by simp
  qed
qed

text \<open>Skipping four bytes, two of them in the first segment: the third and fourth byte of the second are lost.\<close>

lemma skip_loses_bytes:
  "buf_skip next_segment 4 (ser_of [1, 2]) [[3, 4, 5, 6, 7]] = Some (advance 4 (ser_of [3, 4, 5, 6, 7]), [])"
  by (subst skip_in_segments) (simp_all add: remaining_wf ser_make_fields)

subsection \<open>Constructors of a mask\<close>

text \<open>A mask made of an expression, and one that takes over the words of another, which is left empty.\<close>

definition mask_of_expr :: "(nat \<Rightarrow> bitmask \<Rightarrow> bitmask) \<Rightarrow> bit_expr \<Rightarrow> bitmask option" where
  "mask_of_expr rsz e = copy_words (\<lambda>old w. w) e (rsz (expr_size e) empty_mask)"

definition mask_move :: "bitmask \<Rightarrow> bitmask \<times> bitmask" where
  "mask_move m = (\<lparr>bm_words = bm_words m, bm_size = bm_size m\<rparr>, m\<lparr>bm_words := [], bm_size := 0\<rparr>)"

lemma mask_of_expr_assign: "mask_of_expr rsz e = mask_assign rsz e empty_mask"
  by (simp add: mask_of_expr_def mask_assign_def)

lemma mask_move_empty: "mask_move m = (m, empty_mask)"
  by (simp add: mask_move_def empty_mask_def)

end
