(* ===== verification/Pvxs_Helpers.thy ===== *)
theory Pvxs_Helpers
  imports Doubles
begin

text \<open>
  What the helper headers of PVXS compute themselves (\<open>utilpvt.h\<close> and \<open>osiSockExt.h\<close>, in the copies
  \<open>pvxs_headers\<close> and \<open>pvxs_headers_1_1_1\<close>): counting ranges, storage for one of several types, printable
  bytes, instance counters, times, and the orders of addresses and multicast memberships. What these
  headers only declare is compiled in the PVXS library.
\<close>

subsection \<open>Ranges\<close>

text \<open>
  \<open>range(begin, end)\<close> over \<open>size_t\<close>, as a range-based \<open>for\<close> visits it: the iterator is incremented
  until it equals the end. A loop that does not end is \<open>None\<close>.
\<close>

partial_function (option) range_values :: "u64 \<Rightarrow> u64 \<Rightarrow> u64 list option" where
  "range_values a b = (if a = b then Some [] else do { vs \<leftarrow> range_values (a + 1) b; Some (a # vs) })"

definition range_to :: "u64 \<Rightarrow> u64 list option" where
  "range_to b = range_values 0 b"

text \<open>Every range ends; one whose end is below its begin runs around through zero.\<close>

lemma range_values_all: "range_values a b = Some (map (\<lambda>k. a + of_nat k) [0 ..< unat (b - a)])"
proof (induction "unat (b - a)" arbitrary: a)
  case 0
  then have "a = b" by (metis right_minus_eq unat_eq_zero)
  then show ?case by (subst range_values.simps) simp
next
  case (Suc n)
  then have ne: "a \<noteq> b" by auto
  have "b - a \<noteq> 0" using ne by simp
  then have "unat (b - a - 1) = unat (b - a) - 1" by (rule unat_minus_one)
  then have n: "unat (b - (a + 1)) = n" using Suc.hyps(2) by (simp add: algebra_simps)
  have "map (\<lambda>k. a + of_nat k) [0 ..< Suc n] = a # map (\<lambda>k. a + 1 + of_nat k) [0 ..< n]"
    by (simp add: upt_conv_Cons map_Suc_upt [symmetric] add.assoc del: upt_Suc)
  with Suc.hyps(1) [OF n [symmetric]] n ne Suc.hyps(2) show ?case
    by (subst range_values.simps) (simp del: upt_Suc)
qed

lemma range_to_all: "range_to b = Some (map of_nat [0 ..< unat b])"
  by (simp add: range_to_def range_values_all)

lemma range_length:
  "map_option length (range_values a b) = Some (if a \<le> b then unat b - unat a else 2 ^ 64 - (unat a - unat b))"
  using unat_bound(4) [of a] by (simp add: range_values_all unat_sub_if' word_le_nat_alt) linarith

subsection \<open>Storage for one of several types\<close>

definition cmax :: "nat \<Rightarrow> nat \<Rightarrow> nat" where
  "cmax a b = (if a > b then a else b)"

text \<open>Types are given by their alignment and size.\<close>

fun max_sizeof :: "(nat \<times> nat) list \<Rightarrow> nat \<times> nat" where
  "max_sizeof [] = (0, 0)"
| "max_sizeof ((a, s) # ts) = (cmax a (fst (max_sizeof ts)), cmax s (snd (max_sizeof ts)))"

definition aligned_union :: "nat \<Rightarrow> (nat \<times> nat) list \<Rightarrow> nat \<times> nat" where
  "aligned_union n ts = (fst (max_sizeof ts), cmax n (snd (max_sizeof ts)))"

text \<open>Every type fits the storage, at its alignment.\<close>

lemma aligned_union_fits:
  assumes "(2 ^ k, s) \<in> set ts" and "\<forall>(a, s) \<in> set ts. \<exists>k. a = 2 ^ k"
  shows "2 ^ k dvd fst (aligned_union n ts) \<and> s \<le> snd (aligned_union n ts) \<and> n \<le> snd (aligned_union n ts)"
proof -
  have "fst (max_sizeof ts) = 0 \<or> (\<exists>j. fst (max_sizeof ts) = 2 ^ j)" if "\<forall>(a, s) \<in> set ts. \<exists>k. a = 2 ^ k" for ts
    using that by (induction ts rule: max_sizeof.induct) (auto simp: cmax_def)
  with assms(2) have p: "fst (max_sizeof ts) = 0 \<or> (\<exists>j. fst (max_sizeof ts) = 2 ^ j)" by blast
  have "2 ^ k \<le> fst (max_sizeof ts) \<and> s \<le> snd (max_sizeof ts)"
    using assms(1) by (induction ts rule: max_sizeof.induct) (auto simp: cmax_def)
  moreover from this p have "(2 :: nat) ^ k dvd fst (max_sizeof ts)"
    by (metis le_imp_power_dvd le_zero_eq power_eq_0_iff power_le_imp_le_exp one_less_numeral_iff semiring_norm(76) zero_neq_numeral)
  ultimately show ?thesis by (auto simp: aligned_union_def cmax_def)
qed

subsection \<open>Printable bytes\<close>

text \<open>
  Both overloads take the byte as a \<open>char\<close>, whose sign is up to the platform, and return it as an \<open>int\<close>
  or an \<open>unsigned\<close>.
\<close>

definition char_value :: "bool \<Rightarrow> u8 \<Rightarrow> u32" where
  "char_value char_signed v = (if char_signed then scast v else ucast v)"

definition promote_int8 :: "bool \<Rightarrow> u8 \<Rightarrow> u32" where
  "promote_int8 char_signed v = char_value char_signed v"

definition promote_uint8 :: "bool \<Rightarrow> u8 \<Rightarrow> u32" where
  "promote_uint8 char_signed v = char_value char_signed v"

text \<open>So, whichever sign it has, one of the two prints every byte above 127 as another number.\<close>

lemma promote_wrong:
  "promote_uint8 True 200 \<noteq> ucast (200 :: u8)" "promote_int8 False 200 \<noteq> scast (200 :: u8)"
  by (simp_all add: promote_uint8_def promote_int8_def char_value_def)

lemma promote_right:
  assumes "(v :: u8) < 128"
  shows "promote_uint8 char_signed v = ucast v \<and> promote_int8 char_signed v = scast v"
proof -
  have "sint v = uint v"
    using assms signed_take_bit_int_eq_self [of 7 "uint v"] uint_ge_0 [of v] by (simp add: sint_uint word_less_def)
  then have "scast v = (ucast v :: u32)" by (metis scast_eq ucast_eq)
  then show ?thesis by (simp add: promote_uint8_def promote_int8_def char_value_def)
qed

subsection \<open>Instance counters\<close>

text \<open>
  A counter with the names registered for it: the newer copy registers a counter when the first
  instance is made, the older one leaves that to the library.
\<close>

datatype instance_event = Construct | Destroy

fun inst_counter :: "string \<Rightarrow> instance_event \<Rightarrow> u64 \<times> string list \<Rightarrow> u64 \<times> string list" where
  "inst_counter name Construct (n, regs) = (n + 1, if n = 0 then regs @ [name] else regs)"
| "inst_counter name Destroy (n, regs) = (n - 1, regs)"

fun inst_counter1 :: "instance_event \<Rightarrow> u64 \<Rightarrow> u64" where
  "inst_counter1 Construct n = n + 1"
| "inst_counter1 Destroy n = n - 1"

text \<open>Both copies count alike, the living instances; the name is registered whenever there was none.\<close>

lemma inst_counters_agree: "fst (fold (inst_counter name) es (n, regs)) = fold inst_counter1 es n"
proof (induction es arbitrary: n regs)
  case (Cons e es)
  then show ?case by (cases e) simp_all
qed simp

lemma inst_counter_living:
  "fold inst_counter1 es n = n + of_nat (length (filter (\<lambda>e. e = Construct) es)) - of_nat (length (filter (\<lambda>e. e = Destroy) es))"
proof (induction es arbitrary: n)
  case (Cons e es)
  then show ?case by (cases e) simp_all
qed simp

lemma registered_again: "snd (fold (inst_counter name) [Construct, Destroy, Construct] (0, [])) = [name, name]"
  by simp

subsection \<open>Times\<close>

definition totv :: "double \<Rightarrow> int \<times> int" where
  "totv t = (let s = ctrunc (dval t) in (s, ctrunc (fl (fl (dval t - of_int s) * 1000000))))"

lemma totv_whole: "dval t = of_int s \<Longrightarrow> 0 \<le> s \<Longrightarrow> totv t = (s, 0)"
  by (simp add: totv_def ctrunc_def fl_def)

subsection \<open>Comparisons\<close>

text \<open>The contract of a three-way comparison, for which the operators of \<open>SockAddr\<close> make an order.\<close>

locale three_way =
  fixes cmp :: "'a \<Rightarrow> 'a \<Rightarrow> int"
  assumes cmp_swap: "cmp a b < 0 \<longleftrightarrow> 0 < cmp b a"
    and cmp_trans: "cmp a b \<le> 0 \<Longrightarrow> cmp b c \<le> 0 \<Longrightarrow> cmp a c \<le> 0"
begin

lemma cmp_refl: "cmp a a = 0"
  using cmp_swap [of a a] by linarith

lemma less_trans: "cmp a b < 0 \<Longrightarrow> cmp b c < 0 \<Longrightarrow> cmp a c < 0"
  using cmp_trans [of a b c] cmp_trans [of c a b] cmp_swap [of a c] cmp_swap [of b c] cmp_swap [of c b] cmp_swap [of c a]
  by linarith

lemma one_holds: "cmp a b < 0 \<and> \<not> cmp b a < 0 \<and> cmp a b \<noteq> 0 \<or> \<not> cmp a b < 0 \<and> \<not> cmp b a < 0 \<and> cmp a b = 0
    \<or> \<not> cmp a b < 0 \<and> cmp b a < 0 \<and> cmp a b \<noteq> 0"
  using cmp_swap [of a b] cmp_swap [of b a] by linarith

end

text \<open>\<open>memcmp\<close>: the order of the first bytes that differ.\<close>

fun memcmp :: "u8 list \<Rightarrow> u8 list \<Rightarrow> int" where
  "memcmp (x # xs) (y # ys) = (if x < y then - 1 else if y < x then 1 else memcmp xs ys)"
| "memcmp [] (y # ys) = - 1"
| "memcmp (x # xs) [] = 1"
| "memcmp [] [] = 0"

lemma memcmp_swap: "memcmp a b < 0 \<longleftrightarrow> 0 < memcmp b a"
  by (induction a b rule: memcmp.induct) auto

lemma memcmp_trans: "memcmp a b \<le> 0 \<Longrightarrow> memcmp b c \<le> 0 \<Longrightarrow> memcmp a c \<le> 0"
proof (induction a b arbitrary: c rule: memcmp.induct)
  case (1 x xs y ys)
  then show ?case by (cases c) (auto split: if_splits)
next
  case (2 y ys)
  then show ?case by (cases c) auto
next
  case 4
  then show ?case by (cases c) auto
qed simp

interpretation bytes_order: three_way memcmp
  by unfold_locales (rule memcmp_swap, rule memcmp_trans)

lemma memcmp_eq: "memcmp a b = 0 \<longleftrightarrow> a = b"
  by (induction a b rule: memcmp.induct) auto

text \<open>
  A multicast membership: a family and the bytes of the request of that family, 8 for IPv4 and 20
  otherwise. The number of the IPv4 family is the system's.
\<close>

record mcast_membership =
  mc_af :: int
  mc_req :: "u8 list"

definition mc_bytes :: "int \<Rightarrow> mcast_membership \<Rightarrow> u8 list" where
  "mc_bytes af_inet m = take (if mc_af m = af_inet then 8 else 20) (mc_req m)"

text \<open>The comparison of the newer copy, and that of the older one, which returns \<open>memcmp\<close> as a \<open>bool\<close>.\<close>

definition mcast_less :: "int \<Rightarrow> mcast_membership \<Rightarrow> mcast_membership \<Rightarrow> bool" where
  "mcast_less af_inet m m' =
     (if mc_af m = mc_af m' then memcmp (mc_bytes af_inet m) (mc_bytes af_inet m') < 0 else mc_af m < mc_af m')"

definition mcast_less1 :: "int \<Rightarrow> mcast_membership \<Rightarrow> mcast_membership \<Rightarrow> bool" where
  "mcast_less1 af_inet m m' =
     (if mc_af m = mc_af m' then memcmp (mc_bytes af_inet m) (mc_bytes af_inet m') \<noteq> 0 else mc_af m < mc_af m')"

lemma mcast_less_order:
  "\<not> mcast_less af m m" "mcast_less af m m' \<Longrightarrow> mcast_less af m' m'' \<Longrightarrow> mcast_less af m m''"
  "mcast_less af m m' \<or> mcast_less af m' m \<or> (mc_af m = mc_af m' \<and> mc_bytes af m = mc_bytes af m')"
proof -
  show "\<not> mcast_less af m m" by (simp add: mcast_less_def bytes_order.cmp_refl)
  show "mcast_less af m m' \<Longrightarrow> mcast_less af m' m'' \<Longrightarrow> mcast_less af m m''"
    using bytes_order.less_trans [of "mc_bytes af m" "mc_bytes af m'" "mc_bytes af m''"]
    by (auto simp: mcast_less_def split: if_splits)
  show "mcast_less af m m' \<or> mcast_less af m' m \<or> (mc_af m = mc_af m' \<and> mc_bytes af m = mc_bytes af m')"
    using bytes_order.one_holds [of "mc_bytes af m" "mc_bytes af m'"] memcmp_eq [of "mc_bytes af m" "mc_bytes af m'"]
    by (auto simp: mcast_less_def)
qed

text \<open>The older comparison puts each of two different memberships of a family before the other.\<close>

lemma mcast_less1_symmetric:
  assumes "mc_af m = mc_af m'"
  shows "mcast_less1 af m m' \<longleftrightarrow> mc_bytes af m \<noteq> mc_bytes af m'" and "mcast_less1 af m m' \<longleftrightarrow> mcast_less1 af m' m"
  using assms by (auto simp: mcast_less1_def memcmp_eq)

text \<open>
  The comparisons of socket addresses. \<open>cmp\<close> is \<open>evutil_sockaddr_cmp\<close> of libevent, its last argument
  whether the ports count.
\<close>

definition sockaddr_less :: "('a \<Rightarrow> 'a \<Rightarrow> bool \<Rightarrow> int) \<Rightarrow> 'a \<Rightarrow> 'a \<Rightarrow> bool" where
  "sockaddr_less cmp a b \<longleftrightarrow> cmp a b True < 0"

definition sockaddr_eq :: "('a \<Rightarrow> 'a \<Rightarrow> bool \<Rightarrow> int) \<Rightarrow> 'a \<Rightarrow> 'a \<Rightarrow> bool" where
  "sockaddr_eq cmp a b \<longleftrightarrow> cmp a b True = 0"

definition sockaddr_neq :: "('a \<Rightarrow> 'a \<Rightarrow> bool \<Rightarrow> int) \<Rightarrow> 'a \<Rightarrow> 'a \<Rightarrow> bool" where
  "sockaddr_neq cmp a b \<longleftrightarrow> \<not> sockaddr_eq cmp a b"

definition sockaddr_only_less :: "('a \<Rightarrow> 'a \<Rightarrow> bool \<Rightarrow> int) \<Rightarrow> 'a \<Rightarrow> 'a \<Rightarrow> bool" where
  "sockaddr_only_less cmp a b \<longleftrightarrow> cmp a b False < 0"

lemma sockaddr_order:
  assumes "three_way (\<lambda>a b. cmp a b True)"
  shows "sockaddr_less cmp a b \<Longrightarrow> sockaddr_less cmp b c \<Longrightarrow> sockaddr_less cmp a c"
    and "sockaddr_neq cmp a b \<longleftrightarrow> sockaddr_less cmp a b \<noteq> sockaddr_less cmp b a"
  using three_way.less_trans [OF assms, of a b c] three_way.one_holds [OF assms, of a b]
  by (auto simp: sockaddr_less_def sockaddr_neq_def sockaddr_eq_def)

end
