(* ===== verification/Link_Setup.thy ===== *)
theory Link_Setup
  imports Pva_Construct
begin

text \<open>
  From the command line's address list to the wire and back: \<open>initialize_sender\<close> and
  \<open>initialize_receiver\<close> of the two links, the copies of a packet that go to the listed addresses, and
  what is released when an end is destroyed.
\<close>

subsection \<open>Initialisation\<close>

text \<open>The text of the log line: \<open>to_text\<close> is the library's dotted form of an address.\<close>

definition append_address :: "('a \<Rightarrow> string) \<Rightarrow> 'a \<Rightarrow> string \<Rightarrow> string" where
  "append_address to_text a parsed_list = (if parsed_list \<noteq> [] then parsed_list @ '', '' else parsed_list) @ to_text a"

definition send_list_text :: "('a \<Rightarrow> string) \<Rightarrow> 'a list \<Rightarrow> string" where
  "send_list_text to_text addresses = fold (append_address to_text) addresses []"

definition send_list_message :: "('a \<Rightarrow> string) \<Rightarrow> 'a list \<Rightarrow> string" where
  "send_list_message to_text addresses =
     ''Initializing transport, send list: ['' @ send_list_text to_text addresses @ ''].''"

text \<open>
  The buffer with its header, and the socket with the addresses to send to; \<open>port\<close> is the link's default.
  A failed assertion is \<open>None\<close>.
\<close>

definition initialize_link ::
  "int \<Rightarrow> (string \<Rightarrow> int \<Rightarrow> 'a option) \<Rightarrow> bool \<Rightarrow> string \<Rightarrow> config \<Rightarrow> u64 \<Rightarrow>
   (bytes \<times> (transport_error + udp_sender \<times> 'a list)) option" where
  "initialize_link port aToIPAddr created send_address_list cfg startup =
     (if MAX_MESSAGE_SIZE mod Submessage_alignment \<noteq> 0 then None
      else do {
        let addresses = parse_socket_address_list aToIPAddr send_address_list port;
        buf \<leftarrow> initial_buffer startup (cfg_hash cfg);
        Some (buf, case udp_sender_create created (cfg_rate_limit_mbs cfg) of
                     Inl e \<Rightarrow> Inl e
                   | Inr u \<Rightarrow> Inr (u, addresses))
      })"

definition initialize_sender ::
  "(string \<Rightarrow> int \<Rightarrow> 'a option) \<Rightarrow> bool \<Rightarrow> string \<Rightarrow> config \<Rightarrow> u64 \<Rightarrow>
   (bytes \<times> (transport_error + udp_sender \<times> 'a list)) option" where
  "initialize_sender = initialize_link EPICS_DIODE_DEFAULT_PORT"

definition pva_initialize_sender ::
  "(string \<Rightarrow> int \<Rightarrow> 'a option) \<Rightarrow> bool \<Rightarrow> string \<Rightarrow> config \<Rightarrow> u64 \<Rightarrow>
   (bytes \<times> (transport_error + udp_sender \<times> 'a list)) option" where
  "pva_initialize_sender = initialize_link EPICS_PVADIODE_DEFAULT_PORT"

definition initialize_receiver ::
  "(string \<Rightarrow> int \<Rightarrow> 'a option) \<Rightarrow> bool \<Rightarrow> ('a \<Rightarrow> bool) \<Rightarrow> bool \<Rightarrow> int \<Rightarrow> string \<Rightarrow> (transport_error + 'a) option" where
  "initialize_receiver aToIPAddr created bind_ok timeout_ok port listening_address =
     (if MAX_MESSAGE_SIZE mod Submessage_alignment \<noteq> 0 then None
      else Some (fst (udp_receiver_init aToIPAddr created bind_ok timeout_ok port listening_address)))"

definition pva_initialize_receiver ::
  "(string \<Rightarrow> int \<Rightarrow> 'a option) \<Rightarrow> bool \<Rightarrow> ('a \<Rightarrow> bool) \<Rightarrow> bool \<Rightarrow> int \<Rightarrow> string \<Rightarrow> (transport_error + 'a) option" where
  "pva_initialize_receiver aToIPAddr created bind_ok timeout_ok port listening_address =
     (if MAX_MESSAGE_SIZE mod Submessage_alignment \<noteq> 0 then None
      else Some (fst (udp_receiver_init aToIPAddr created bind_ok timeout_ok port listening_address)))"

text \<open>The assertions hold, and the constructors are these initialisations with what comes after them.\<close>

lemma message_size_aligned: "MAX_MESSAGE_SIZE mod Submessage_alignment = 0"
  by (simp add: MAX_MESSAGE_SIZE_def Submessage_alignment_def)

lemma initialize_link_spec:
  "\<exists>buf. initial_buffer startup (cfg_hash cfg) = Some buf \<and>
    initialize_link port f created list cfg startup =
      Some (buf, if created then Inr (udp_sender_init (cfg_rate_limit_mbs cfg), parse_socket_address_list f list port)
                 else Inl SocketFailed)"
proof -
  obtain buf where "initial_buffer startup (cfg_hash cfg) = Some buf"
    using initial_buffer_spec by blast
  then show ?thesis
    by (simp add: initialize_link_def message_size_aligned udp_sender_create_def)
qed

lemma sender_construct_initializes:
  assumes "sender_construct created context ca cfg t = Inr (st, u)"
  shows "initialize_sender f created list cfg t =
    Some (snd_buffer st, Inr (u, parse_socket_address_list f list EPICS_DIODE_DEFAULT_PORT))"
proof -
  have c: "created" "u = udp_sender_init (cfg_rate_limit_mbs cfg)" and s: "sender_init ca cfg t = Some st"
    using assms by (auto simp: sender_construct_Inr)
  obtain buf where "initial_buffer t (cfg_hash cfg) = Some buf"
    "initialize_sender f created list cfg t =
      Some (buf, Inr (u, parse_socket_address_list f list EPICS_DIODE_DEFAULT_PORT))"
    using initialize_link_spec [of t cfg EPICS_DIODE_DEFAULT_PORT f created list] c by (auto simp: initialize_sender_def)
  moreover from this(1) s have "snd_buffer st = buf"
    by (auto simp: sender_init_def Let_def bind_eq_Some_conv)
  ultimately show ?thesis by simp
qed

lemma receiver_construct_initializes:
  "receiver_construct f created ok tok port s cfg now = Inr (rc, a) \<longleftrightarrow>
   initialize_receiver f created ok tok port s = Some (Inr a) \<and> receiver_init cfg now = Some rc"
  by (auto simp: receiver_construct_Inr initialize_receiver_def message_size_aligned)

lemma send_list_text_join:
  assumes "\<forall>a \<in> set (b # bs). to_text a \<noteq> []"
  shows "send_list_text to_text (b # bs) = to_text b @ concat (map (\<lambda>a. '', '' @ to_text a) bs)"
proof -
  have "fold (append_address to_text) xs acc = acc @ concat (map (\<lambda>a. '', '' @ to_text a) xs)" if "acc \<noteq> []" for xs acc
    using that by (induction xs arbitrary: acc) (simp_all add: append_address_def)
  with assms show ?thesis
    by (simp add: send_list_text_def append_address_def)
qed

subsection \<open>Sending to every address\<close>

text \<open>
  \<open>UDPSender::send\<close> with its addresses: \<open>sendto\<close> answers for every one of them in order. What leaves
  are pairs of an address and the packet.
\<close>

definition udp_send_all ::
  "('a \<Rightarrow> bytes \<Rightarrow> int \<times> int) \<Rightarrow> 'a list \<Rightarrow> int \<Rightarrow> bytes \<Rightarrow> udp_sender \<Rightarrow> int \<times> ('a \<times> bytes) list \<times> udp_sender" where
  "udp_send_all sendto addresses now packet u =
     (let (slept, u) = udp_sender_send now (map (\<lambda>a. sendto a packet) addresses) u
      in (slept, map (\<lambda>a. (a, packet)) addresses, u))"

definition datagrams :: "'a list \<Rightarrow> bytes list \<Rightarrow> ('a \<times> bytes) list" where
  "datagrams addresses packets = concat (map (\<lambda>p. map (\<lambda>a. (a, p)) addresses) packets)"

definition datagrams_at :: "'a \<Rightarrow> ('a \<times> bytes) list \<Rightarrow> bytes list" where
  "datagrams_at a ds = map snd (filter (\<lambda>d. fst d = a) ds)"

lemma datagrams_at_datagrams:
  "datagrams_at a (datagrams addresses packets) = concat (map (replicate (count_list addresses a)) packets)"
proof -
  have "map snd (filter (\<lambda>d. fst d = a) (map (\<lambda>b. (b, p)) xs)) = replicate (count_list xs a) p" for xs and p :: bytes
    by (induction xs) auto
  then show ?thesis
    by (induction packets) (simp_all add: datagrams_at_def datagrams_def)
qed

text \<open>
  The pause before a packet goes by the length of one copy of the last one, however many addresses it
  went to: the limit bounds the rate to one address.
\<close>

lemma rate_ignores_addresses:
  assumes "addresses \<noteq> []" and "\<forall>a \<in> set addresses. fst (sendto a packet) = int (length packet)"
  shows "us_last_sent_bytes (snd (snd (udp_send_all sendto addresses now packet u))) = of_nat (length packet)"
proof -
  have "us_last_sent_bytes (fold sendto_result rs u) = of_nat n"
    if "rs \<noteq> []" "\<forall>r \<in> set rs. fst r = int n" for rs u n
    using that
  proof (induction rs rule: rev_induct)
    case (snoc r rs)
    then show ?case by (simp add: sendto_result_def)
  qed simp
  from this [of "map (\<lambda>a. sendto a packet) addresses" "length packet"] assms show ?thesis
    by (simp add: udp_send_all_def udp_sender_send_def Let_def case_prod_beta)
qed

text \<open>All packets of a run, each at its time.\<close>

fun udp_run ::
  "('a \<Rightarrow> bytes \<Rightarrow> int \<times> int) \<Rightarrow> 'a list \<Rightarrow> (int \<times> bytes) list \<Rightarrow> udp_sender \<Rightarrow> ('a \<times> bytes) list \<times> udp_sender" where
  "udp_run sendto addresses [] u = ([], u)"
| "udp_run sendto addresses ((now, packet) # rest) u =
     (let (slept, out, u) = udp_send_all sendto addresses now packet u;
          (outs, u) = udp_run sendto addresses rest u
      in (out @ outs, u))"

lemma udp_run_datagrams: "fst (udp_run sendto addresses timed u) = datagrams addresses (map snd timed)"
proof (induction timed arbitrary: u)
  case (Cons tp timed)
  then show ?case
    by (cases tp) (simp add: udp_send_all_def datagrams_def Let_def case_prod_beta)
qed (simp add: datagrams_def)

text \<open>Without an address nothing is sent, and nothing says so: the packet counts as sent.\<close>

lemma no_address_sends_nothing:
  "fst (snd (udp_send_all sendto [] now packet u)) = [] \<and> datagrams [] packets = []"
  by (simp add: udp_send_all_def Let_def case_prod_beta datagrams_def)

subsection \<open>The whole sender\<close>

text \<open>\<open>Sender::Impl::Impl\<close> with the list of addresses: the sender, its socket, and where it sends.\<close>

definition sender_open ::
  "(string \<Rightarrow> int \<Rightarrow> 'a option) \<Rightarrow> bool \<Rightarrow> ca_status \<Rightarrow> (string \<Rightarrow> ca_status option) \<Rightarrow> string \<Rightarrow> config \<Rightarrow> u64 \<Rightarrow>
   (construct_error + ca_sender \<times> udp_sender \<times> 'a list) option" where
  "sender_open aToIPAddr created context ca send_addresses cfg startup =
     do {
       (buf, transport) \<leftarrow> initialize_sender aToIPAddr created send_addresses cfg startup;
       case transport of
         Inl e \<Rightarrow> Some (Inl (TransportFailed e))
       | Inr (u, addresses) \<Rightarrow>
           (case sender_construct created context ca cfg startup of
              Inl e \<Rightarrow> Some (Inl e)
            | Inr (st, _) \<Rightarrow> Some (Inr (st\<lparr>snd_buffer := buf\<rparr>, u, addresses)))
     }"

lemma sender_open_Inr:
  "sender_open f created context ca list cfg t = Some (Inr (st, u, addresses)) \<longleftrightarrow>
   sender_construct created context ca cfg t = Inr (st, u) \<and>
   addresses = parse_socket_address_list f list EPICS_DIODE_DEFAULT_PORT"
proof (cases "sender_construct created context ca cfg t")
  case (Inl e)
  obtain buf where "initialize_sender f created list cfg t =
      Some (buf, if created then Inr (udp_sender_init (cfg_rate_limit_mbs cfg),
        parse_socket_address_list f list EPICS_DIODE_DEFAULT_PORT) else Inl SocketFailed)"
    using initialize_link_spec [of t cfg EPICS_DIODE_DEFAULT_PORT f created list] by (auto simp: initialize_sender_def)
  with Inl show ?thesis by (cases created) (simp_all add: sender_open_def)
next
  case (Inr r)
  obtain st' u' where r: "r = (st', u')" by fastforce
  with Inr sender_construct_initializes [of created "context" ca cfg t st' u' f list] show ?thesis
    by (auto simp: sender_open_def)
qed

subsection \<open>Small views\<close>

text \<open>The channel at the front of the queue, if any; an index out of range is undefined.\<close>

definition ca_next_channel_update :: "ca_sender \<Rightarrow> ca_channel option option" where
  "ca_next_channel_update st =
     (case snd_deque st of [] \<Rightarrow> Some None | q # _ \<Rightarrow> map_option Some (vec_at (snd_channels st) q))"

definition group_count :: "u32 \<Rightarrow> u32 \<Rightarrow> u32" where
  "group_count start_index end_index = end_index - start_index + 1"

text \<open>On a well-formed queue the front is a group with an update, and the count is that of its members.\<close>

lemma ca_next_channel_update_ok:
  assumes "queue_inv st"
  shows "(\<exists>c. ca_next_channel_update st = Some (Some c) \<and> is_channel c \<and> ch_pending_update c) \<or>
    (snd_deque st = [] \<and> ca_next_channel_update st = Some None)"
proof (cases "snd_deque st")
  case Nil
  then show ?thesis by (simp add: ca_next_channel_update_def)
next
  case (Cons q qs)
  then have "q \<in> {i. pending_root (snd_channels st) i}"
    using assms unfolding queue_inv_def by (metis list.set_intros(1))
  then show ?thesis
    using Cons by (simp add: ca_next_channel_update_def pending_root_def vec_at_def)
qed

lemma group_count_members:
  assumes "start \<le> stop" "stop < 2 ^ 32"
  shows "group_count (of_nat start) (of_nat stop) = of_nat (length [start ..< Suc stop])"
  using assms by (simp add: group_count_def of_nat_diff del: upt_Suc)

subsection \<open>Destruction\<close>

datatype ca_release = Clear_Channel string | Context_Destroy

text \<open>\<open>~Channel\<close>: only a channel the library has created is cleared.\<close>

definition channel_release :: "ca_channel \<Rightarrow> ca_release list" where
  "channel_release c = (case ch_channel_id c of Some n \<Rightarrow> [Clear_Channel n] | None \<Rightarrow> [])"

definition sender_release :: "ca_sender \<Rightarrow> ca_release list" where
  "sender_release st = concat (map channel_release (snd_channels st)) @ [Context_Destroy]"

text \<open>Every channel the library created is cleared once, before the context goes.\<close>

lemma sender_release_all:
  assumes "create_channels ca cfg = Some (snd_channels st)"
  shows "sender_release st =
    map Clear_Channel (filter (\<lambda>n. ca n = None) (flat_channel_names cfg)) @ [Context_Destroy]"
proof -
  have "concat (map channel_release cs) = map Clear_Channel (filter (\<lambda>n. ca n = None) ns)"
    if "map ch_channel_id cs = map (created_name ca) ns" for cs ns
    using that
  proof (induction cs arbitrary: ns)
    case (Cons c cs)
    then obtain n ns' where "ns = n # ns'" "ch_channel_id c = created_name ca n"
      "map ch_channel_id cs = map (created_name ca) ns'"
      by (cases ns) auto
    with Cons.IH show ?case by (simp add: channel_release_def created_name_def)
  qed simp
  with create_channels_spec(2) [OF assms] show ?thesis
    by (simp add: sender_release_def)
qed

text \<open>The socket of either end is closed when it was opened.\<close>

definition socket_release :: "socket_state \<Rightarrow> socket_state" where
  "socket_release s = (if s = SocketOpen then SocketClosed else s)"

subsection \<open>Destinations\<close>



end
