(* ===== verification/Spec2Isabelle.thy ===== *)
theory Spec2Isabelle
  imports CA_Turns CA_Loss Config_Load Ioc_Shell Dump Programs Pva_Delivery Pvxs_Older Pvxs_Buffers Pvxs_Helpers Link_Setup
begin

text \<open>
  Verification of the EPICS diode: programs that carry process variables over a one-way UDP link.
  A \<^emph>\<open>sender\<close> subscribes to variables and sends their updates in packets; a \<^emph>\<open>receiver\<close> on the other side
  of the diode checks and unpacks them and calls back for every value. There are two such links, one
  over Channel Access and one over pvAccess, and device support that feeds received values into the
  records of an IOC.

  \<^bold>\<open>Parts and theories\<close> (file names under \<open>src/\<close>)

  \<^item> \<open>Diode_Prelude\<close>, \<open>Doubles\<close>: machine words, little-endian bytes, checked vector access, loops that may
    fail (\<open>foldM\<close>); the \<open>double\<close>s the sources compute with, kept as their bits.
  \<^item> \<open>Serializer\<close>, \<open>Dump\<close> (\<open>src/epics-diode/protocol.h\<close>, the end of \<open>src/protocol.cpp\<close>): the byte cursor all
    messages go through, with its wrapping remaining length, and the hexadecimal dump.
  \<^item> \<open>Protocol\<close> (\<open>src/protocol.cpp\<close>): packet header, submessage header and the Channel Access structures.
    The locale \<open>wire_codec\<close>, and \<open>safe_codec\<close> where the announced size is what is moved, states what an
    operator pair promises; every pair is an interpretation.
  \<^item> \<open>Config_Model\<close>, \<open>Config_Load\<close> (\<open>src/config.cpp\<close>): the configuration, its hash and numbering, the
    callbacks of the JSON parser, loading.
  \<^item> \<open>Support\<close>, \<open>Transport\<close> (\<open>src/logger.h\<close>, \<open>src/utils.cpp\<close>, \<open>src/transport.cpp\<close>): loggers and their
    levels, value hash, address lists, rate limit, socket construction.
  \<^item> \<open>CA_Channels\<close>, \<open>CA_Sender\<close> (\<open>src/sender.cpp\<close>): channels, groups, library callbacks, heartbeats,
    packets, fragments, run loop. \<open>Update_Queue\<close> is the contract of a queue of pending channels; \<open>CA_Queue\<close>
    shows that \<open>mark_update\<close> and \<open>clear_update\<close> fulfil it, \<open>CA_Sending\<close>, \<open>CA_Packets\<close>, \<open>CA_Fragments\<close> and \<open>CA_Drain\<close>
    say which bytes a queue becomes, \<open>CA_Events\<close> and \<open>CA_Run\<close> follow callbacks and turns, \<open>CA_WholeRun\<close>
    whole runs from construction with a receiver at the other end.
  \<^item> \<open>CA_Receiver\<close> (\<open>src/receiver.cpp\<close>): acceptance, submessages, reassembly, disconnects, run loop.
    \<open>CA_Reception\<close>, \<open>CA_Link\<close>, \<open>CA_Reassembly\<close> read the sender's packets back, \<open>CA_Loss\<close> does so
    when some of them are lost; \<open>CA_Setup\<close> and \<open>CA_Construct\<close> are the constructors.
  \<^item> \<open>Link_Setup\<close>: \<open>initialize_sender\<close> and \<open>initialize_receiver\<close> of both links, the copies of a packet that
    go to the addresses of the send list, and what the destructors release.
  \<^item> \<open>Pvxs_Wire\<close>, \<open>Pvxs_Codec\<close>, \<open>Bitmask\<close> (\<open>pvxs_headers/pvaproto.h\<close>, \<open>bitmask.h\<close>), \<open>Pvxs_Older\<close>
    (\<open>pvxs_headers_1_1_1/pvaproto.h\<close>): the encodings and masks of the PVXS headers, of which the repository has
    two copies. The makefile compiles the older one; what the two have in common is modelled once,
    and \<open>header_copies_agree\<close> says where they differ. The locale \<open>wire_format\<close> (and \<open>wire_pair\<close>, its closure
    under sequencing) says that an encoder writes its encoding or faults inside the buffer and that
    the decoder reads it back. \<open>Pvxs_Buffers\<close>: buffers that are refilled, the place of a fault.
  \<^item> \<open>Pvxs_Helpers\<close> (\<open>utilpvt.h\<close> and \<open>osiSockExt.h\<close> of both copies): ranges, storage, counters, and the
    comparisons of addresses, with the contract \<open>three_way\<close> that makes them orders.
  \<^item> \<open>Pva_Protocol\<close> (\<open>src/pva_protocol.cpp\<close>), \<open>Pva_Sender\<close> (\<open>src/pva_sender.cpp\<close>), \<open>Pva_Receiver\<close>
    (\<open>src/pva_receiver.cpp\<close>): type cache, messages and both ends. \<open>Pva_Values\<close> is about merging updates into
    typed values, \<open>Pva_Queue\<close> and \<open>Pva_Run\<close> about the queue (the same contract \<open>update_queue\<close>), \<open>Pva_Frames\<close>,
    \<open>Pva_Packets\<close> and \<open>Pva_Link\<close> about the packet of a queue and its reception, \<open>Pva_Types\<close> about the
    exchange of type definitions, \<open>Pva_Sync\<close> about heartbeats, \<open>Pva_Construct\<close> about the constructors, \<open>Pva_Reach\<close> about
    what every run from construction keeps; \<open>Pva_Mirror\<close> follows a channel through the turns of a run, with the
    receiver's value of it beside the sender's; \<open>Pva_Delivery\<close> holds the properties of the link.
  \<^item> \<open>Dev_Diode\<close> (\<open>ioc/devdiode.c\<close>), \<open>Diode_Ioc\<close> (\<open>ioc/diodeIoc.cpp\<close>): the tables from channel numbers to
    record fields, applying updates; the tasks and the callback that connects a link to them. \<open>Iocsh_Helper\<close> (\<open>ioc/iocshelper.h\<close>): how a command
    is registered with the shell and gets its arguments.
  \<^item> \<open>Ioc_Init\<close>, \<open>Ioc_Life\<close> (\<open>ioc/iocInit.c\<close>): build, run, pause and shutdown of an IOC as traces of actions,
    and the abstract automaton the commands refine. \<open>Ioc_Shell\<close>: the commands the shell registers, and the
    states a session with them can reach.
  \<^item> \<open>Command_Line\<close>, \<open>Dbgen\<close>, \<open>Programs\<close> (\<open>src/diode_sender.cpp\<close>, \<open>diode_receiver.cpp\<close>, \<open>diode_dbgen.cpp\<close>,
    \<open>pvadiode_sender.cpp\<close>, \<open>pvadiode_receiver.cpp\<close>): options, the database generator, the programs.

  \<^bold>\<open>State and failure.\<close> A class is a record with its members, an operation a function from the state to
  the new state; packets sent and callbacks made are appended to a list in the state. Exceptions and
  error codes are values. \<open>None\<close> is what the sources leave undefined or abort on: an access out of range
  or through a null pointer, a failed assertion, a division by zero. Loops that may not end are
  \<open>partial_function\<close>s, for which \<open>None\<close> is also not returning; that they return is proved
  (\<open>ca_link_delivers\<close>, \<open>turn_empties_queue\<close>, \<open>pva_link_delivers\<close>, \<open>typedefs_taught\<close>), and so are the cases in
  which they do not (\<open>oversized_group_livelock\<close>, \<open>oversized_typedef_livelock\<close>,
  \<open>set_bits_range_stuck\<close>). Loops that a clock or a flag ends take the list of their turns.

  \<^bold>\<open>Parameters.\<close> What is not in the repository is an argument: the EPICS base library (sizes of DBR values,
  memory hash, database access, the tables of \<open>db_access.h\<close>), yajl, the socket calls, the PVXS library
  (record \<open>pva_lib\<close>), the channels of the Channel Access library. The laws used are named: \<open>base_laws\<close>
  for the database, \<open>lib_writes\<close> and \<open>lib_reads\<close> for the encoding of values, \<open>lib_types\<close> for that of types.

  \<^bold>\<open>What the theorems show.\<close> End to end, a queue of the sender is delivered in order and completely, for
  both links, over a whole run from construction each turn's marked groups (Channel Access), to every
  address of the send list, whatever is lost on the way leaves the rest intact (Channel Access), the types a sender
  learns become known to the receiver, a heartbeat brings a pvAccess receiver up to date whatever it has
  missed, and from then on its values are the sender's, field by field, after every turn
  (\<open>receiver_mirrors_sender\<close>), and a value that arrives reaches its record. The queue invariants hold over callbacks
  and whole runs, the life cycle follows its automaton, numbering agrees between all programs but one.
  Messages, configurations and encodings are read back as written. The error theorems say exactly
  what happens where the code does something it does not mean to: a packet's rest that is dropped, a
  truncated update that counts as sent, a failed put that is not retried, names that are shifted.

  \<^bold>\<open>Not modelled.\<close> Usage and version texts, the printing of numbers and values: output only; of a log
  line its text and the decision to print it are modelled, not the calls. Thread creation and the
  parsing of a command line by the IOC shell. From the PVXS headers the addresses and GUIDs, which the
  diode does not use with a wire, and the locks and the saved state of a stream in \<open>utilpvt.h\<close>; what these
  headers only declare, as the \<open>refill\<close> of the growing buffers, is compiled in the library.
  The unit tests.
\<close>

section \<open>The Channel Access link\<close>

subsection \<open>A small system\<close>

text \<open>One record with three bytes of value, queued; a fresh receiver configured alike.\<close>

definition demo_header :: header where
  "demo_header = make_header 5 7"

definition demo_sender :: ca_sender where
  "demo_sender =
     \<lparr>snd_channels = [(new_ca_channel 0 0 False)\<lparr>ch_channel_id := Some ''A'', ch_count := 1, ch_type := 6, ch_value := [1, 2, 3],
         ch_pending_update := True\<rparr>],
      snd_deque = [0], snd_seq_no = 0, snd_buffer = enc_header [0, 0, 0] demo_header @ replicate 65480 0,
      snd_iteration = 0, snd_pf_iterations = 1, snd_hb_iterations = 1, snd_update_period = 0,
      snd_sent = [], snd_ca_calls = []\<rparr>"

definition demo_receiver :: ca_receiver where
  "demo_receiver =
     \<lparr>rc_config_hash = 7, rc_heartbeat_period = 0, rc_buffer = replicate 65504 0,
      rc_fragment = ser_make [] 0, rc_last_seq_no = - 1, rc_active_fragment_seq_no = - 1,
      rc_last_fragment_seq_no = - 1, rc_last_startup_time = 0, rc_channels = [new_rx_channel 0 ''a''],
      rc_now = 0, rc_last_heartbeat = 0, rc_calls = []\<rparr>"

definition demo_env :: ca_env where
  "demo_env = \<lparr>env_dbr_size_n = (\<lambda>t n. 3), env_mem_hash = (\<lambda>bs. 0), env_dbr_time = (\<lambda>t. t)\<rparr>"

lemma demo_group: "group_payload (snd_channels demo_sender) 0 = [(\<lparr>cd_id = 0, cd_count = 1, cd_type = 6\<rparr>, [1, 2, 3])]"
  by (simp add: demo_sender_def group_payload_def group_members_def start_group_id_def end_group_id_def
      end_group_loop.simps new_ca_channel_def payload_def channel_header_def)

lemma demo_header_length: "length (enc_header [0, 0, 0] demo_header) = 24"
  by (simp add: length_enc_header good_header_def demo_header_def make_header_def)

lemma demo_sender_ok:
  "queue_inv demo_sender" "buffer_wf demo_sender" "snd_deque demo_sender = [0]" "snd_seq_no demo_sender = 0"
  "snd_sent demo_sender = []" "sendable (snd_channels demo_sender) 0"
  "take Header_size (snd_buffer demo_sender) = enc_header [0, 0, 0] demo_header"
  "queued_content (snd_channels demo_sender) 0 = GroupUpdate [(\<lparr>cd_id = 0, cd_count = 1, cd_type = 6\<rparr>, [1, 2, 3])]"
proof -
  show "queue_inv demo_sender"
    by (auto simp: queue_inv_def chans_wf_def pending_root_def demo_sender_def new_ca_channel_def is_channel_def)
  show "buffer_wf demo_sender"
    by (simp add: buffer_wf_def demo_sender_def demo_header_length MAX_MESSAGE_SIZE_def)
  show "take Header_size (snd_buffer demo_sender) = enc_header [0, 0, 0] demo_header"
    by (simp add: demo_sender_def demo_header_length Header_size_def)
  show "sendable (snd_channels demo_sender) 0"
    by (simp add: sendable_def demo_group entry_len_def data_room_def size_defs pad_len_def)
  show "queued_content (snd_channels demo_sender) 0 =
      GroupUpdate [(\<lparr>cd_id = 0, cd_count = 1, cd_type = 6\<rparr>, [1, 2, 3])]"
    unfolding queued_content_def demo_group
    by (simp add: demo_sender_def needs_fragments_def size_defs)
qed (simp_all add: demo_sender_def)

lemma demo_members:
  "group_members (snd_channels demo_sender) (snd_channels demo_sender ! 0) = [snd_channels demo_sender ! 0]"
  "readable demo_env (snd_channels demo_sender ! 0)"
  "member_view (snd_channels demo_sender ! 0) = (0, 6, 1, Some [1, 2, 3])" "whole (snd_channels demo_sender) 0"
  "length (snd_channels demo_sender) = 1"
  by (simp_all add: demo_sender_def group_members_def start_group_id_def end_group_id_def end_group_loop.simps
      new_ca_channel_def readable_def member_view_def whole_def needs_fragments_def size_defs rx_value_size_def
      demo_env_def frag_room_def)

lemma demo_receiver_ok:
  "link_ready demo_header [0, 0, 0] demo_receiver" "in_order 0 (admit demo_header demo_receiver)"
  "length (rc_channels demo_receiver) = 1" "rc_calls demo_receiver = []"
  by (simp_all add: link_ready_def good_header_def demo_header_def make_header_def demo_receiver_def
      MAX_MESSAGE_SIZE_def in_order_def admit_def validate_sender_def)

subsection \<open>Delivery\<close>

text \<open>
  C1: whatever is queued in a well-formed sender, if every queued group fits a packet, or is a single
  channel whose value needs fragments, and every value has a type and count from which the receiver can
  tell its size, then \<open>send_updates\<close> returns with an empty queue, and a receiver with the same
  configuration that gets the packets in order calls its callback once for every channel of every queued
  group, in queue order, with the channel's number, type, element count and exact value bytes. (A group
  whose default channel alone needs fragments loses its other channels: \<open>fragmented_root_loses_fields\<close>.)
\<close>

theorem ca_link_delivers:
  assumes "queue_inv st" "buffer_wf st" "take Header_size (snd_buffer st) = enc_header reserved h"
    and "link_ready h reserved rc" "in_order (snd_seq_no st) (admit h rc)"
    and "length (rc_channels rc) = length (snd_channels st)"
    and "\<forall>q \<in> set (snd_deque st). sendable (snd_channels st) q \<and> whole (snd_channels st) q"
    and "\<forall>q \<in> set (snd_deque st). \<forall>c \<in> set (group_members (snd_channels st) (snd_channels st ! q)). readable env c"
  shows "\<exists>st' pkts rc'. send_updates st = Some st' \<and> snd_deque st' = [] \<and> snd_sent st' = snd_sent st @ pkts \<and>
    foldM (receive_packet env) pkts rc = Some rc' \<and>
    length (rc_channels rc') = length (rc_channels rc) \<and>
    map (call_view env) (rc_calls rc') = map (call_view env) (rc_calls rc) @
      concat (map (\<lambda>q. map member_view (group_members (snd_channels st) (snd_channels st ! q))) (snd_deque st))"
proof -
  have c: "wf_content env (length (rc_channels rc)) (queued_content (snd_channels st) q)"
    "expected_calls (queued_content (snd_channels st) q) =
      map member_view (group_members (snd_channels st) (snd_channels st ! q))" if "q \<in> set (snd_deque st)" for q
    using queued_group_content [OF assms(1) that, of env] assms(6-8) that by simp_all
  have "map (expected_calls \<circ> queued_content (snd_channels st)) (snd_deque st) =
      map (\<lambda>q. map member_view (group_members (snd_channels st) (snd_channels st ! q))) (snd_deque st)"
    by (rule map_cong) (simp_all add: c)
  with link_delivers [OF assms(1,2) _ assms(3,4,5), of env] assms(7) c(1) show ?thesis
    unfolding calls_extend_def by auto
qed

theorem ca_link_delivers_witness:
  "\<exists>st' pkts rc'. send_updates demo_sender = Some st' \<and> snd_deque st' = [] \<and> snd_sent st' = snd_sent demo_sender @ pkts \<and>
    foldM (receive_packet demo_env) pkts demo_receiver = Some rc' \<and>
    map (call_view demo_env) (rc_calls rc') = [(0, 6, 1, Some [1, 2, 3])]"
  using ca_link_delivers [OF demo_sender_ok(1,2,7) demo_receiver_ok(1), of demo_env]
  by (auto simp: demo_sender_ok demo_receiver_ok demo_members)

text \<open>
  C41: a default channel whose own value needs fragments is sent without the fields of its record: when
  such a group is queued, \<open>send_updates\<close> takes it off the queue, and the receiver that gets every packet
  is called for the default channel alone. The design document says an update is always sent with all
  its configured extra fields.
\<close>

theorem fragmented_root_loses_fields:
  assumes "queue_inv st" "buffer_wf st" "take Header_size (snd_buffer st) = enc_header reserved h"
    and "link_ready h reserved rc" "in_order (snd_seq_no st) (admit h rc)"
    and "length (rc_channels rc) = length (snd_channels st)"
    and "snd_deque st = [q]" "sendable (snd_channels st) q" "needs_fragments (snd_channels st ! q)"
    and "readable env (snd_channels st ! q)"
    and "group_members (snd_channels st) (snd_channels st ! q) = dflt # fs" "fs \<noteq> []"
  shows "\<exists>st' pkts rc'. send_updates st = Some st' \<and> snd_deque st' = [] \<and> snd_sent st' = snd_sent st @ pkts \<and>
    foldM (receive_packet env) pkts rc = Some rc' \<and>
    map (call_view env) (rc_calls rc') = map (call_view env) (rc_calls rc) @ [member_view dflt]"
proof -
  let ?c = "snd_channels st ! q"
  have q: "pending_root (snd_channels st) q" and wf: "chans_wf (snd_channels st)"
    using assms(1,7) by (auto simp: queue_inv_def)
  then have dflt: "dflt = ?c" "ch_index ?c < length (snd_channels st)"
    using group_payload_root [OF wf, of q] group_members_root [OF wf, of q] chans_wfD(1) [OF wf, of q] assms(11)
    by (simp_all add: pending_root_def)
  note b = big_member [OF assms(10,9) dflt(2)]
  have c: "queued_content (snd_channels st) q = BigUpdate (frag_template ?c) (ch_value ?c)"
    using assms(9) by (simp add: queued_content_def)
  show ?thesis
    using link_delivers [OF assms(1,2) _ assms(3,4,5), of env] assms(6,7,8) b dflt(1)
    unfolding calls_extend_def by (auto simp: c)
qed

text \<open>Two channels of one record, the first with a value larger than a packet.\<close>

definition big_sender :: ca_sender where
  "big_sender = demo_sender\<lparr>snd_channels :=
     [(new_ca_channel 0 0 False)\<lparr>ch_channel_id := Some ''A'', ch_count := 1, ch_type := 6,
         ch_value := replicate 66000 1, ch_pending_update := True\<rparr>,
      (new_ca_channel 1 0 False)\<lparr>ch_channel_id := Some ''A.B'', ch_count := 1, ch_type := 6, ch_value := [1, 2, 3]\<rparr>]\<rparr>"

theorem fragmented_root_loses_fields_witness:
  "\<exists>st' rc'. send_updates big_sender = Some st' \<and> snd_deque st' = [] \<and>
    foldM (receive_packet (demo_env\<lparr>env_dbr_size_n := \<lambda>t n. 66000\<rparr>)) (snd_sent st')
      (demo_receiver\<lparr>rc_channels := [new_rx_channel 0 ''a'', new_rx_channel 1 ''a.b'']\<rparr>) = Some rc' \<and>
    map (call_view (demo_env\<lparr>env_dbr_size_n := \<lambda>t n. 66000\<rparr>)) (rc_calls rc') = [(0, 6, 1, Some (replicate 66000 1))]"
proof -
  let ?env = "demo_env\<lparr>env_dbr_size_n := \<lambda>t n. 66000\<rparr>"
  let ?rc = "demo_receiver\<lparr>rc_channels := [new_rx_channel 0 ''a'', new_rx_channel 1 ''a.b'']\<rparr>"
  let ?chs = "snd_channels big_sender"
  have inv: "queue_inv big_sender"
    by (auto simp: queue_inv_def chans_wf_def pending_root_def big_sender_def demo_sender_def new_ca_channel_def
        is_channel_def nth_Cons' split: if_splits)
  have buf: "buffer_wf big_sender" "take Header_size (snd_buffer big_sender) = enc_header [0, 0, 0] demo_header"
    "snd_seq_no big_sender = 0" "snd_deque big_sender = [0]" "snd_sent big_sender = []"
    using demo_sender_ok by (simp_all add: big_sender_def buffer_wf_def)
  have rc: "link_ready demo_header [0, 0, 0] ?rc" "in_order 0 (admit demo_header ?rc)"
    by (simp_all add: link_ready_def good_header_def demo_header_def make_header_def demo_receiver_def
      MAX_MESSAGE_SIZE_def in_order_def admit_def validate_sender_def)
  have g: "group_members ?chs (?chs ! 0) = [?chs ! 0, ?chs ! 1]"
    by (simp add: big_sender_def group_members_def start_group_id_def end_group_id_def end_group_loop.simps
        new_ca_channel_def upt_conv_Cons)
  have big: "needs_fragments (?chs ! 0)" "readable ?env (?chs ! 0)" "length ?chs = 2"
    "member_view (?chs ! 0) = (0, 6, 1, Some (replicate 66000 1))"
    by (simp_all add: big_sender_def needs_fragments_def size_defs readable_def rx_value_size_def frag_room_def
        member_view_def new_ca_channel_def)
  have "sendable ?chs 0"
    by (simp add: sendable_def group_payload_def g big(1)) (simp add: big_sender_def entry_len_def pad_len_def)
  from fragmented_root_loses_fields [OF inv buf(1,2) rc(1) _ _ buf(4) this big(1,2) g] show ?thesis
    using rc(2) buf(3,5) big(3,4) by (auto simp: demo_receiver_def)
qed

text \<open>
  The same from construction, for one sequence of library callbacks: the callback sees the content of
  the queued groups in the order in which they were first marked.
\<close>

theorem link_from_construction:
  assumes "sender_construct created context ca cfg t = Inr (st, u)"
    and "receiver_construct aton rcreated bind_ok timeout_ok port listen cfg now = Inr (rc, a)"
    and "ca_refuses ca" and "events_ok env st evs" and "foldM (handle_ca_event env) evs st = Some st1"
    and "\<forall>q \<in> set (snd_deque st1). sendable (snd_channels st1) q \<and>
      wf_content env (length (snd_channels st1)) (queued_content (snd_channels st1) q)"
  shows "snd_deque st1 = enq_new [] (map (root_of st) (marked_by env st evs)) \<and>
    (\<exists>st2 rc2. send_updates st1 = Some st2 \<and> snd_deque st2 = [] \<and>
      foldM (receive_packet env) (snd_sent st2) rc = Some rc2 \<and>
      map (call_view env) (rc_calls rc2) =
        concat (map (expected_calls \<circ> queued_content (snd_channels st1)) (snd_deque st1)))"
proof -
  note r = constructed_ready [OF assms(1,2,3)]
  have ev: "queue_inv st1" "stays st st1" "snd_deque st1 = enq_new [] (map (root_of st) (marked_by env st evs))"
    using events_run [OF r(1) assms(4)] assms(5) r(3) by auto
  have f: "buffer_wf st1" "snd_seq_no st1 = 0" "snd_sent st1 = []"
    "take Header_size (snd_buffer st1) = enc_header [0, 0, 0] (make_header t (cfg_hash cfg))"
    "length (rc_channels rc) = length (snd_channels st1)"
    using r ev(2) by (simp_all add: stays_def buffer_wf_def)
  show ?thesis
    using link_delivers [OF ev(1) f(1) _ f(4) r(7), of env] assms(6) r(8,9) f ev(3)
    unfolding calls_extend_def by auto
qed

lemma ucast_minus_one: "(ucast (- 1 :: 64 word) :: 16 word) = - 1"
  by (rule bit_word_eqI) (simp add: bit_simps)

definition demo_cfg :: config where
  "demo_cfg = default_config\<lparr>cfg_channels := [new_config_channel ''A'']\<rparr>"

definition demo_ca :: "string \<Rightarrow> ca_status option" where
  "demo_ca n = None"

lemma demo_construct:
  "\<exists>st u rc a. sender_construct True ECA_NORMAL demo_ca demo_cfg 5 = Inr (st, u) \<and>
     receiver_construct (\<lambda>s p. Some s) True (\<lambda>a. True) True 5080 ''0.0.0.0'' demo_cfg 0 = Inr (rc, a) \<and>
     snd_channels st = [(new_ca_channel 0 0 False)\<lparr>ch_channel_id := Some ''A''\<rparr>] \<and> snd_deque st = []"
proof -
  have cc: "create_channels demo_ca demo_cfg = Some [(new_ca_channel 0 0 False)\<lparr>ch_channel_id := Some ''A''\<rparr>]"
    by (simp add: create_channels_def demo_cfg_def total_channel_count_def channel_width_def new_config_channel_def
        create_config_channel_def create_channel_def create_fields_def demo_ca_def)
  obtain buf where "initial_buffer 5 (cfg_hash demo_cfg) = Some buf"
    using initial_buffer_spec by blast
  with cc obtain st where st: "sender_init demo_ca demo_cfg 5 = Some st"
    "snd_channels st = [(new_ca_channel 0 0 False)\<lparr>ch_channel_id := Some ''A''\<rparr>]" "snd_deque st = []"
    by (simp add: sender_init_def Let_def)
  have "fst (udp_receiver_init (\<lambda>s p. Some s) True (\<lambda>a. True) True 5080 ''0.0.0.0'') = Inr ''0.0.0.0''"
    by (simp add: udp_receiver_init_def parse_socket_address_list_def isspace_def parse_loop.simps find_from_def
        parse_one_def)
  moreover obtain rc where "receiver_init demo_cfg 0 = Some rc"
    by (simp add: receiver_init_def rx_create_channels_def demo_cfg_def total_channel_count_def channel_width_def
        new_config_channel_def)
  ultimately show ?thesis
    using st by (simp add: sender_construct_Inr receiver_construct_Inr)
qed

theorem link_from_construction_witness:
  "\<exists>st u rc a st1 st2 rc2.
    sender_construct True ECA_NORMAL demo_ca demo_cfg 5 = Inr (st, u) \<and>
    receiver_construct (\<lambda>s p. Some s) True (\<lambda>a. True) True 5080 ''0.0.0.0'' demo_cfg 0 = Inr (rc, a) \<and>
    handle_ca_event demo_env (ConnectionEvent 0 CONN_DOWN) st = Some st1 \<and> snd_deque st1 = [0] \<and>
    send_updates st1 = Some st2 \<and> snd_deque st2 = [] \<and>
    foldM (receive_packet demo_env) (snd_sent st2) rc = Some rc2 \<and>
    map (call_view demo_env) (rc_calls rc2) =
      concat (map (expected_calls \<circ> queued_content (snd_channels st1)) (snd_deque st1))"
proof -
  obtain st u rc a where c: "sender_construct True ECA_NORMAL demo_ca demo_cfg 5 = Inr (st, u)"
    "receiver_construct (\<lambda>s p. Some s) True (\<lambda>a. True) True 5080 ''0.0.0.0'' demo_cfg 0 = Inr (rc, a)"
    "snd_channels st = [(new_ca_channel 0 0 False)\<lparr>ch_channel_id := Some ''A''\<rparr>]" "snd_deque st = []"
    using demo_construct by blast
  have ok: "events_ok demo_env st [ConnectionEvent 0 CONN_DOWN]"
    by (simp add: c split: option.split)
  obtain st1 where s1: "handle_ca_event demo_env (ConnectionEvent 0 CONN_DOWN) st = Some st1"
    "snd_deque st1 = [0]" "snd_channels st1 = [(new_ca_channel 0 0 False)\<lparr>ch_channel_id := Some ''A'',
      ch_status := ECA_DISCONN, ch_count := - 1, ch_value := [], ch_pending_update := True,
      ch_updates_since_last_hb := 1\<rparr>]"
    by (simp add: connection_down_def c mark_update.simps is_field_def is_channel_def set_channel_def new_ca_channel_def)
  have g: "group_payload (snd_channels st1) 0 = [(\<lparr>cd_id = 0, cd_count = - 1, cd_type = - 1\<rparr>, [])]"
    by (simp add: s1(3) group_payload_def group_members_def start_group_id_def end_group_id_def
        end_group_loop.simps new_ca_channel_def payload_def channel_header_def TYPENOTCONN_def ucast_minus_one)
  have "\<forall>q \<in> set (snd_deque st1). sendable (snd_channels st1) q \<and>
      wf_content demo_env (length (snd_channels st1)) (queued_content (snd_channels st1) q)"
    by (simp add: s1(2) sendable_def g data_room_def size_defs pad_len_def entry_len_def queued_content_def
        needs_fragments_def wf_payload_def) (simp add: s1(3))
  from link_from_construction [OF c(1,2) _ ok _ this] show ?thesis
    using c s1 by (fastforce simp: ca_refuses_def demo_ca_def)
qed



definition demo_turns :: "ca_event list list" where
  "demo_turns = [[ConnectionEvent 0 (CONN_UP 6 1 ECA_NORMAL),
      ValueEvent 0 \<lparr>ev_status = ECA_NORMAL, ev_type = 6, ev_count = 1, ev_dbr = [1, 2, 3]\<rparr>],
    [ConnectionEvent 0 CONN_DOWN]]"

lemma demo_spec:
  "spec_ok demo_env demo_ca (layout_of demo_cfg) hb 0 demo_turns (nothing_read demo_cfg) {}"
  "concat (spec_run demo_env (layout_of demo_cfg) hb 0 demo_turns (nothing_read demo_cfg) {}) =
    [(0, 6, 1, Some [1, 2, 3]), (0, 6, - 1, Some [])]"
proof -
  have lay: "layout_of demo_cfg = \<lparr>lay_names = [''A''], lay_roots = [0], lay_polled = [False]\<rparr>"
    by (simp add: layout_of_def demo_cfg_def flat_channel_names_def channel_names_def new_config_channel_def
        channel_width_def polled_flags_def)
  have nr: "nothing_read demo_cfg = [no_reading]"
    by (simp add: nothing_read_def demo_cfg_def flat_channel_names_def channel_names_def new_config_channel_def)
  have m: "lay_members \<lparr>lay_names = [''A''], lay_roots = [0], lay_polled = [False]\<rparr> 0 = [0]"
    "\<not> has_fields \<lparr>lay_names = [''A''], lay_roots = [0], lay_polled = [False]\<rparr> 0"
    by (simp_all add: lay_members_def has_fields_def)
  note defs = demo_turns_def turn_news_def turn_records_def record_ok_def reading_ok_def big_reading_def
    padded_len_def pad_len_def size_defs data_room_def frag_room_def no_reading_def event_value_def wf_event_def
    demo_env_def demo_ca_def rx_value_size_def record_view_def reading_view_def
  show "spec_ok demo_env demo_ca (layout_of demo_cfg) hb 0 demo_turns (nothing_read demo_cfg) {}"
    unfolding lay nr by (simp add: defs m Let_def)
  show "concat (spec_run demo_env (layout_of demo_cfg) hb 0 demo_turns (nothing_read demo_cfg) {}) =
      [(0, 6, 1, Some [1, 2, 3]), (0, 6, - 1, Some [])]"
    unfolding lay nr by (simp add: defs m Let_def ucast_all_ones)
qed


text \<open>
  C3: over a network that loses packets: what the sender sends of its queue comes in parts (a data
  packet, or the fragments of one value); whichever packets arrive, in their order, the receiver takes
  them without failing, and its callback sees exactly the content of the parts that arrived completely.
\<close>

theorem lossy_link_delivers:
  assumes "queue_inv st" "buffer_wf st" "\<forall>q \<in> set (snd_deque st). sendable (snd_channels st) q"
    and "take Header_size (snd_buffer st) = enc_header reserved h"
    and "in_reach h reserved (snd_seq_no st) (2 * length (snd_deque st)) rc"
    and "\<forall>q \<in> set (snd_deque st). wf_content env (length (rc_channels rc)) (queued_content (snd_channels st) q)"
  shows "\<exists>st' parts. send_updates st = Some st' \<and> snd_deque st' = [] \<and>
    snd_sent st' = snd_sent st @ concat (map fst parts) \<and>
    concat (map snd parts) = map (queued_content (snd_channels st)) (snd_deque st) \<and>
    list_all (\<lambda>p. fst p \<noteq> []) parts \<and>
    (\<forall>ms. map length ms = map (length \<circ> fst) parts \<longrightarrow>
      (\<exists>rc'. foldM (receive_packet env) (arrivals ms parts) rc = Some rc' \<and>
        map (call_view env) (rc_calls rc') = map (call_view env) (rc_calls rc) @
          concat (map expected_calls (delivered ms parts))))"
  using lossy_link [OF assms] unfolding calls_extend_def by blast

theorem lossy_link_delivers_witness:
  "\<exists>st' parts got lost. send_updates demo_sender = Some st' \<and> snd_sent st' = concat (map fst parts) \<and>
    foldM (receive_packet demo_env) (arrivals (map (\<lambda>p. replicate (length (fst p)) True) parts) parts) demo_receiver = Some got \<and>
    map (call_view demo_env) (rc_calls got) = [(0, 6, 1, Some [1, 2, 3])] \<and>
    foldM (receive_packet demo_env) (arrivals (map (\<lambda>p. replicate (length (fst p)) False) parts) parts) demo_receiver = Some lost \<and>
    rc_calls lost = []"
proof -
  have "in_reach demo_header [0, 0, 0] (snd_seq_no demo_sender) (2 * length (snd_deque demo_sender)) demo_receiver"
    using demo_receiver_ok(1) by (simp add: in_reach_def demo_sender_ok admit_def validate_sender_def demo_receiver_def
        demo_header_def make_header_def unsigned_minus_1_eq_mask mask_eq_exp_minus_1)
  from lossy_link_delivers [OF demo_sender_ok(1,2) _ demo_sender_ok(7) this, of demo_env] obtain st' parts where
    p: "send_updates demo_sender = Some st'" "snd_sent st' = concat (map fst parts)"
      "concat (map snd parts) = [GroupUpdate [(\<lparr>cd_id = 0, cd_count = 1, cd_type = 6\<rparr>, [1, 2, 3])]]"
      "list_all (\<lambda>p. fst p \<noteq> []) parts"
    and r: "\<And>ms. map length ms = map (length \<circ> fst) parts \<Longrightarrow>
      \<exists>rc'. foldM (receive_packet demo_env) (arrivals ms parts) demo_receiver = Some rc' \<and>
        map (call_view demo_env) (rc_calls rc') = concat (map expected_calls (delivered ms parts))"
    by (auto simp: demo_sender_ok demo_receiver_ok wf_payload_def rx_value_size_def demo_env_def)
  have "map length (map (\<lambda>p. replicate (length (fst p)) b) parts) = map (length \<circ> fst) parts" for b
    by simp
  from r [OF this [of True]] r [OF this [of False]] p show ?thesis
    by (auto simp: delivered_all delivered_none expected_call_def)
qed

subsection \<open>The sender's loop\<close>



text \<open>
  C10: a turn of the run loop (callbacks, poll requests, heartbeat, sending) on a well-formed sender
  whose groups can all be sent returns with the queue empty, the invariants kept and one more
  iteration counted.
\<close>

theorem turn_empties_queue:
  assumes "sender_ok st" and "events_ok env st evs" and "foldM (handle_ca_event env) evs st = Some st1"
    and "\<forall>q < length (snd_channels st1). sendable (snd_channels st1) q"
  shows "\<exists>st'. run_iteration env evs st = Some st' \<and> queue_inv st' \<and> buffer_wf st' \<and> snd_deque st' = [] \<and>
    snd_iteration st' = snd_iteration st + 1"
  by (rule run_iteration_drains [OF assms])

lemma demo_sender_turn: "sender_ok demo_sender" "\<forall>q < length (snd_channels demo_sender). sendable (snd_channels demo_sender) q"
proof -
  have "length (snd_channels demo_sender) = 1" by (simp add: demo_sender_def)
  then show "sender_ok demo_sender" "\<forall>q < length (snd_channels demo_sender). sendable (snd_channels demo_sender) q"
    using demo_sender_ok by (auto simp: sender_ok_def)
qed

theorem turn_empties_queue_witness:
  "\<exists>st'. run_iteration demo_env [] demo_sender = Some st' \<and> queue_inv st' \<and> buffer_wf st' \<and> snd_deque st' = [] \<and>
    snd_iteration st' = snd_iteration demo_sender + 1"
  by (rule turn_empties_queue [OF demo_sender_turn(1) _ _ demo_sender_turn(2)]) simp_all



text \<open>
  C14: when the group at the front of the queue fits neither a packet nor the fragmentation rule
  (its values together exceed a packet but the root's own value does not), \<open>send_updates\<close> never
  returns; it sends an empty data packet in every turn.
\<close>

theorem oversized_group_livelock:
  assumes "stuck st"
  shows "send_updates st = None \<and>
    (\<exists>st'. send_step st = Some st' \<and> stuck st' \<and> snd_deque st' = snd_deque st \<and>
       snd_sent st' = snd_sent st @ [data_packet (take Header_size (snd_buffer st)) (snd_seq_no st) []])"
  using stuck_step [OF assms] stuck_no_result [OF _ assms] by (cases "send_updates st") blast+

definition demo_stuck :: ca_sender where
  "demo_stuck = demo_sender\<lparr>snd_channels :=
     [(new_ca_channel 0 0 False)\<lparr>ch_value := replicate 40000 0, ch_pending_update := True\<rparr>,
      (new_ca_channel 1 0 False)\<lparr>ch_value := replicate 40000 0\<rparr>]\<rparr>"

lemma demo_stuck_stuck: "stuck demo_stuck"
proof -
  have g: "map snd (group_payload (snd_channels demo_stuck) 0) = [replicate 40000 0, replicate 40000 0]"
    by (simp add: demo_stuck_def group_payload_def group_members_def start_group_id_def end_group_id_def
        end_group_loop.simps new_ca_channel_def payload_def upt_conv_Cons)
  have len: "group_len (group_payload (snd_channels demo_stuck) 0) = 80016"
    using g by (cases "group_payload (snd_channels demo_stuck) 0"; cases "tl (group_payload (snd_channels demo_stuck) 0)")
      (auto simp: entry_len_def pad_len_def)
  have "queue_inv demo_stuck"
    by (auto simp: queue_inv_def chans_wf_def pending_root_def demo_stuck_def demo_sender_def new_ca_channel_def
        is_channel_def nth_Cons' less_Suc_eq)
  moreover have "buffer_wf demo_stuck"
    using demo_sender_ok(2) by (simp add: buffer_wf_def demo_stuck_def)
  moreover have "snd_deque demo_stuck = [0]"
    by (simp add: demo_stuck_def demo_sender_def)
  moreover have "\<not> needs_fragments (snd_channels demo_stuck ! 0)"
    by (simp add: needs_fragments_def demo_stuck_def new_ca_channel_def size_defs)
  ultimately show ?thesis
    by (simp add: stuck_def queued_groups_def len data_room_def size_defs)
qed

theorem oversized_group_livelock_witness: "send_updates demo_stuck = None"
  using oversized_group_livelock [OF demo_stuck_stuck] by simp

text \<open>
  A run loop with a runtime limit of \<open>n\<close> iterations that starts fresh leaves by its runtime check
  in turn \<open>max 1 n\<close>: given at least that many turns it has left, given fewer it has not.
\<close>

theorem run_loop_leaves:
  assumes "run_loop env True n turns st = Some (left, st')" and "turns \<noteq> []" and "snd_iteration st = 0"
    and "length turns < 2 ^ 64"
  shows "left \<longleftrightarrow> max 1 (unat n) \<le> length turns"
  using run_loop_count [OF assms(1,2)] assms(3,4) by simp

theorem run_loop_leaves_witness:
  "\<exists>left st'. run_loop demo_env True 1 [[]] demo_sender = Some (left, st') \<and>
    (left \<longleftrightarrow> max 1 (unat (1 :: u64)) \<le> length [[] :: ca_event list])"
proof -
  obtain s where "run_iteration demo_env [] demo_sender = Some s"
    using run_iteration_drains [OF demo_sender_turn(1) _ _ demo_sender_turn(2), of demo_env "[]"] by auto
  then obtain l st' where "run_loop demo_env True 1 [[]] demo_sender = Some (l, st')"
    by (cases "1 \<le> snd_iteration s") auto
  moreover from run_loop_leaves [OF this] have "l \<longleftrightarrow> max 1 (unat (1 :: u64)) \<le> length [[] :: ca_event list]"
    by (simp add: demo_sender_def)
  ultimately show ?thesis by blast
qed

text \<open>
  C29: on a polled channel whose stored hash is that of its value, a good value of at most eight bytes
  queues the group exactly when its bytes differ from the stored ones: no change is missed and no
  repetition is sent.
\<close>

theorem polled_change_detected:
  assumes "queue_inv st" and "i < length (snd_channels st)" and "wf_event env args" and "ev_status args = ECA_NORMAL"
    and "ch_is_polled (snd_channels st ! i)" and "ch_value_hash_initialized (snd_channels st ! i)"
    and "value_hash (env_mem_hash env) (ch_value (snd_channels st ! i)) (length (ch_value (snd_channels st ! i))) =
      Some (ch_value_hash (snd_channels st ! i))"
    and "length (event_value env args) \<le> 8"
  shows "\<exists>st'. event_handler env i args st = Some st' \<and>
    snd_deque st' = (if event_value env args = ch_value (snd_channels st ! i) then snd_deque st
      else mark_queue (root_of st i) (snd_deque st))"
proof -
  let ?c = "snd_channels st ! i" and ?v = "event_value env args"
  have "value_hash (env_mem_hash env) ?v (length ?v) \<noteq> Some (ch_value_hash ?c)"
    if "length (ch_value ?c) = length ?v" "?v \<noteq> ch_value ?c"
    using value_hash_small_inj [of ?v "length ?v" "ch_value ?c" "env_mem_hash env"] that assms(7,8) by auto
  then have "event_marks env ?c args \<longleftrightarrow> ?v \<noteq> ch_value ?c"
    using assms(4-7) by (auto simp: event_marks_def)
  then show ?thesis
    using event_handler_spec [OF assms(1-3)] by auto
qed

definition demo_polled :: ca_sender where
  "demo_polled = demo_sender\<lparr>snd_deque := [], snd_channels :=
     [(new_ca_channel 0 0 True)\<lparr>ch_value := [1, 2], ch_value_hash_initialized := True, ch_value_hash := 513\<rparr>]\<rparr>"

theorem polled_change_detected_witness:
  "\<exists>st'. event_handler (demo_env\<lparr>env_dbr_size_n := (\<lambda>t n. 2)\<rparr>) 0
      \<lparr>ev_status = ECA_NORMAL, ev_type = 0, ev_count = 2, ev_dbr = [1, 3]\<rparr> demo_polled = Some st' \<and>
    snd_deque st' = [0]"
proof -
  have "queue_inv demo_polled"
    by (auto simp: queue_inv_def chans_wf_def pending_root_def demo_polled_def new_ca_channel_def is_channel_def)
  from polled_change_detected [OF this, of 0 "demo_env\<lparr>env_dbr_size_n := (\<lambda>t n. 2)\<rparr>"
      "\<lparr>ev_status = ECA_NORMAL, ev_type = 0, ev_count = 2, ev_dbr = [1, 3]\<rparr>"]
  show ?thesis
    by (simp add: demo_polled_def wf_event_def event_value_def demo_env_def new_ca_channel_def value_hash_def
        mark_queue_def root_of_def)
qed

subsection \<open>Channel numbers\<close>

text \<open>
  C24: the sender and the receiver of one configuration number the channels alike: number \<open>k\<close> of the
  \<open>j\<close>-th configured channel is, on both sides, the number of its \<open>k\<close>-th name (the record, then the
  extra fields, then the polled fields), counted from the total width of the channels before it, and
  the sender polls exactly the polled fields.
\<close>

theorem channel_numbers_agree:
  assumes "create_channels ca cfg = Some cs" and "rx_create_channels cfg = Some rs"
    and "j < length (cfg_channels cfg)" and "k < channel_width (cfg_channels cfg ! j)"
  shows "length cs = length rs \<and> group_base cfg j + k < length rs \<and>
    rx_id (rs ! (group_base cfg j + k)) = group_base cfg j + k \<and>
    rx_name (rs ! (group_base cfg j + k)) = channel_names (cfg_channels cfg ! j) ! k \<and>
    ch_index (cs ! (group_base cfg j + k)) = group_base cfg j + k \<and>
    ch_channel_id (cs ! (group_base cfg j + k)) =
      created_name ca (channel_names (cfg_channels cfg ! j) ! k) \<and>
    map ch_is_polled cs = concat (map polled_flags (cfg_channels cfg))"
proof -
  note c = create_channels_spec [OF assms(1)] and f = flat_name_at [OF assms(3,4)]
  have r: "map rx_name rs = flat_channel_names cfg" "map rx_id rs = [0 ..< length (flat_channel_names cfg)]"
    using rx_create_channels_spec [OF assms(2)] rx_block_fields [of 0 "flat_channel_names cfg"] by simp_all
  have l: "length rs = length (flat_channel_names cfg)" "length cs = length (flat_channel_names cfg)"
    using r(1) c(5) by (metis length_map) (simp add: c(5) total_channel_count_flat)
  let ?i = "group_base cfg j + k"
  have "rx_name (rs ! ?i) = flat_channel_names cfg ! ?i" "rx_id (rs ! ?i) = ?i"
    using arg_cong [OF r(1), of "\<lambda>xs. xs ! ?i"] arg_cong [OF r(2), of "\<lambda>xs. xs ! ?i"] f(1) l by simp_all
  moreover have "ch_channel_id (cs ! ?i) = created_name ca (flat_channel_names cfg ! ?i)"
    using arg_cong [OF c(2), of "\<lambda>xs. xs ! ?i"] f(1) l by simp
  moreover have "ch_index (cs ! ?i) = ?i"
    using chans_wfD(1) [OF c(1)] f(1) l by simp
  ultimately show ?thesis
    using f c(3) l by simp
qed

theorem channel_numbers_agree_witness:
  "\<exists>cs rs. create_channels demo_ca demo_config = Some cs \<and> rx_create_channels demo_config = Some rs \<and>
     rx_name (rs ! 3) = ''B'' \<and> ch_channel_id (cs ! 3) = Some ''B''"
proof -
  have n: "total_channel_count demo_config \<le> 2 ^ 32 - 1"
    by (simp add: demo_config_def total_channel_count_def channel_width_def)
  obtain cs rs where c: "create_channels demo_ca demo_config = Some cs" "rx_create_channels demo_config = Some rs"
    using n by (simp add: create_channels_def rx_create_channels_def)
  have b: "group_base demo_config 1 = 3" "cfg_channels demo_config ! 1 = \<lparr>cc_name = ''B'', cc_extra = [], cc_polled = []\<rparr>"
    "length (cfg_channels demo_config) = 2"
    by (simp_all add: group_base_def demo_config_def channel_width_def)
  from channel_numbers_agree [OF c, of 1 0] show ?thesis
    using c by (simp add: b [unfolded One_nat_def] b channel_width_def channel_names_def created_name_def demo_ca_def)
qed

subsection \<open>The receiver\<close>

text \<open>
  The receiver takes a data packet exactly when its sequence number is less than 32767 ahead of
  the one received last (modulo 2 ^ 16), whether or not that one was taken; a repeated packet is always
  taken, although the code's comment excludes duplicates.
\<close>

theorem order_decisions:
  "fst (run_validate_order qs rc) = map2 (\<lambda>q p. q - p < 32767) qs (rc_last_seq_no rc # qs) \<and>
   last (fst (run_validate_order (qs @ [q, q]) rc))"
proof -
  have "order_run p xs = map2 (\<lambda>q p. q - p < 32767) xs (p # xs)" for p xs
    by (induction p xs rule: order_run.induct) simp_all
  moreover have "last (order_run p (xs @ [q, q]))" for p xs
  proof (induction p xs rule: order_run.induct)
    case (2 p x xs)
    have "order_run x (xs @ [q, q]) \<noteq> []" by (cases xs) simp_all
    with 2 show ?case by simp
  qed simp
  ultimately show ?thesis
    by (simp add: run_validate_order_run)
qed

text \<open>
  C19: fragments are only taken in sequence: whatever packets arrive, when fragment \<open>f\<close> of update \<open>q\<close>
  is taken, the fragments taken immediately before it are exactly the fragments 0 to \<open>f - 1\<close> of the
  same update (for sequence numbers other than the code's mark 65535).
\<close>

theorem fragments_in_sequence:
  assumes "rc_active_fragment_seq_no rc = - 1" and "\<forall>x \<in> set xs. fst x \<noteq> - 1" and "q \<noteq> - 1"
    and "run_fragments xs rc = (taken, rc1)" and "fst (validate_fragment_order q f rc1)"
  shows "\<exists>pre. taken @ [(q, f)] = pre @ map (\<lambda>k. (q, of_nat k)) [0 ..< Suc (unat f)]"
  using fragments_taken_in_sequence [OF assms] unfolding fragments_upto_def .

theorem fragments_in_sequence_witness:
  "\<exists>taken rc1. run_fragments [(7, 0), (9, 1), (8, 0)] demo_receiver = (taken, rc1) \<and>
    (\<exists>pre. taken @ [(8, 1)] = pre @ map (\<lambda>k. (8, of_nat k)) [0 ..< Suc (unat (1 :: u16))])"
proof -
  obtain taken rc1 where r: "run_fragments [(7, 0), (9, 1), (8, 0)] demo_receiver = (taken, rc1)"
    "fst (validate_fragment_order 8 1 rc1)"
    by (simp add: validate_fragment_order_def validate_order_def demo_receiver_def Let_def)
  show ?thesis
    using fragments_in_sequence [OF _ _ _ r] r(1) by (auto simp: demo_receiver_def)
qed

text \<open>
  C20: a packet with a wrong magic, another configuration hash or an older start time changes nothing
  but the receive buffer: no callback, no sequence number, no time is touched.
\<close>

theorem foreign_packet_ignored:
  assumes "length reserved = 3" and "length (hd_magic h) = 4"
    and "length (enc_header reserved h @ body) \<le> length (rc_buffer rc)" and "length (rc_buffer rc) < 2 ^ 64"
    and "\<not> header_accepted h rc"
  shows "\<exists>b. receive_packet env (enc_header reserved h @ body) rc = Some (rc\<lparr>rc_buffer := b\<rparr>)"
  using receive_packet_rejects [OF refl assms] unfolding only_buffer_def by metis

theorem foreign_packet_ignored_witness:
  "\<exists>b. receive_packet demo_env (enc_header [0, 0, 0] (demo_header\<lparr>hd_config_hash := 8\<rparr>) @ [1, 2, 3]) demo_receiver =
    Some (demo_receiver\<lparr>rc_buffer := b\<rparr>)"
  by (rule foreign_packet_ignored)
    (simp_all add: demo_header_def make_header_def MAGIC_def enc_header_def demo_receiver_def header_accepted_def)

text \<open>
  C39: after a submessage whose \<open>bytes_to_next_header\<close> lies within the packet the rest of the packet
  is dropped: the receiver ends in the state the first submessage left, because the test of
  \<open>try_position\<close> is inverted.
\<close>

theorem next_submessage_dropped:
  assumes "ser_good s" and "Submessage_size \<le> remaining s" and "get_subheader s = Some (sh, s1)"
    and "and (sh_flags sh) LittleEndian \<noteq> 0" and "dispatch env sh s1 rc = Some (s2, rc')"
    and "ser_pos s1 + unat (sh_next sh) \<le> ser_limit s"
  shows "map_option snd (submessages env s rc) = Some rc'"
  by (rule successor_skipped [OF assms])

theorem next_submessage_dropped_witness:
  "map_option snd (submessages demo_env (ser_of [0, 1, 4, 0, 0, 0, 0, 0, 16, 1, 0, 0, 5, 0, 0, 0]) demo_receiver) =
    Some demo_receiver"
proof -
  let ?s = "ser_of [0, 1, 4, 0, 0, 0, 0, 0, 16, 1, 0, 0, 5, 0, 0, 0]"
  let ?sh = "\<lparr>sh_id = 0, sh_flags = 1, sh_next = 4\<rparr>"
  have rem: "remaining ?s = 16"
    by (simp add: remaining_def ser_fields)
  have "ensure Submessage_size ?s = (True, ?s)"
    by (rule ensure_True) (simp_all add: ser_fields rem Submessage_size_def)
  then have g: "get_subheader ?s = Some (?sh, advance 4 ?s)"
    by (simp add: get_subheader_def) (simp add: get_u8_def get_u16_def ser_read_def
        segment_def advance_def ser_of_def ser_make_def)
  show ?thesis
    by (rule next_submessage_dropped [OF _ _ g])
      (simp_all add: rem Submessage_size_def ser_fields LittleEndian_def dispatch_def CA_DATA_MESSAGE_def
        CA_FRAG_DATA_MESSAGE_def)
qed

text \<open>
  C31: the periodic check, when due, reports exactly the connected channels without an update for two
  heartbeat periods, each once and in the order of their numbers, marks them disconnected and restarts
  its period; a second check at the same time changes nothing.
\<close>

theorem silent_channels_disconnected:
  "check_no_updates rc =
     (if check_due rc
      then rc\<lparr>rc_channels := map (\<lambda>c. if stale rc c then c\<lparr>rx_disconnected := True\<rparr> else c) (rc_channels rc),
              rc_calls := rc_calls rc @ map disconnect_call (filter (stale rc) (rc_channels rc)),
              rc_last_heartbeat := rc_now rc\<rparr>
      else rc) \<and>
   check_no_updates (check_no_updates rc) = check_no_updates rc"
proof -
  let ?rc = "check_no_updates rc"
  have none: "\<not> stale ?rc c" if "check_due rc" "c \<in> set (rc_channels ?rc)" for c
    using that by (auto simp: check_no_updates_spec stale_def)
  have "check_no_updates ?rc = ?rc"
  proof (cases "check_due rc")
    case True
    have "map (\<lambda>c. if stale ?rc c then c\<lparr>rx_disconnected := True\<rparr> else c) (rc_channels ?rc) = rc_channels ?rc"
      "filter (stale ?rc) (rc_channels ?rc) = []"
      using none [OF True] by (auto intro: map_idI simp: filter_empty_conv)
    moreover have "rc_last_heartbeat ?rc = rc_now ?rc"
      using True by (simp add: check_no_updates_spec)
    ultimately show ?thesis
      by (subst check_no_updates_spec) simp
  next
    case False
    then have "?rc = rc" by (simp add: check_no_updates_spec)
    then show ?thesis by simp
  qed
  then show ?thesis
    using check_no_updates_spec [of rc] by simp
qed

subsection \<open>The wire format\<close>

text \<open>
  C26: every message structure read back from where it was written is the one written, and both ends
  move the cursor alike (the cursor must hold the message: sixteen bytes are enough for each).
\<close>

theorem messages_roundtrip:
  assumes "ser_good s" and "ser_wf s" and "16 \<le> remaining s"
  shows "(\<exists>s'. put_subheader m1 s = Some s' \<and> get_subheader (s'\<lparr>ser_pos := ser_pos s\<rparr>) = Some (m1, s')) \<and>
    (\<exists>s'. put_ca_data_message m2 s = Some s' \<and> get_ca_data_message (s'\<lparr>ser_pos := ser_pos s\<rparr>) = Some (m2, s')) \<and>
    (\<exists>s'. put_ca_channel_data m3 s = Some s' \<and> get_ca_channel_data (s'\<lparr>ser_pos := ser_pos s\<rparr>) = Some (m3, s')) \<and>
    (\<exists>s'. put_ca_frag_message m4 s = Some s' \<and> get_ca_frag_message (s'\<lparr>ser_pos := ser_pos s\<rparr>) = Some (m4, s'))"
proof (intro conjI)
  obtain s1 where s1: "put_subheader m1 s = Some s1"
    using subheader.put_defined [OF assms(2)] by blast
  show "\<exists>s'. put_subheader m1 s = Some s' \<and> get_subheader (s'\<lparr>ser_pos := ser_pos s\<rparr>) = Some (m1, s')"
    using subheader.roundtrip [OF assms(1,2) _ s1] s1 assms(3) by (simp add: size_defs)
  obtain s2 where s2: "put_ca_data_message m2 s = Some s2"
    using ca_data.put_defined [OF assms(2)] by blast
  show "\<exists>s'. put_ca_data_message m2 s = Some s' \<and> get_ca_data_message (s'\<lparr>ser_pos := ser_pos s\<rparr>) = Some (m2, s')"
    using ca_data.roundtrip [OF assms(1,2) _ s2] s2 assms(3) by (simp add: size_defs)
  obtain s3 where s3: "put_ca_channel_data m3 s = Some s3"
    using ca_channel.put_ok [OF assms(1), of m3] ser_write_total [OF assms(2), of "enc_ca_channel_data m3"] assms(3)
    by (auto simp: size_defs)
  show "\<exists>s'. put_ca_channel_data m3 s = Some s' \<and> get_ca_channel_data (s'\<lparr>ser_pos := ser_pos s\<rparr>) = Some (m3, s')"
    using ca_channel.roundtrip [OF assms(1,2) _ s3] s3 assms(3) by (simp add: size_defs)
  obtain s4 where s4: "put_ca_frag_message m4 s = Some s4"
    using ca_frag.put_defined [OF assms(2)] by blast
  show "\<exists>s'. put_ca_frag_message m4 s = Some s' \<and> get_ca_frag_message (s'\<lparr>ser_pos := ser_pos s\<rparr>) = Some (m4, s')"
    using ca_frag.roundtrip [OF assms(1,2) _ s4] s4 assms(3) by (simp add: size_defs)
qed

lemma demo_cursor: "ser_good (ser_of (replicate 16 0))" "ser_wf (ser_of (replicate 16 0))"
  "remaining (ser_of (replicate 16 0)) = 16"
  by (simp_all add: ser_fields remaining_def)

theorem messages_roundtrip_witness:
  "\<exists>s'. put_ca_channel_data \<lparr>cd_id = 7, cd_count = 2, cd_type = 20\<rparr> (ser_of (replicate 16 0)) = Some s' \<and>
    get_ca_channel_data (s'\<lparr>ser_pos := 0\<rparr>) = Some (\<lparr>cd_id = 7, cd_count = 2, cd_type = 20\<rparr>, s')"
  using messages_roundtrip [OF demo_cursor(1,2), where ?m3.0 = "\<lparr>cd_id = 7, cd_count = 2, cd_type = 20\<rparr>"]
  by (simp add: demo_cursor ser_fields)

text \<open>
  C40: the operators of the channel header ask for four bytes and move eight: with four to seven bytes
  left they write (and read) past the limit, and from then on every request for at most half the
  address space is granted, because the remaining length wraps.
\<close>

theorem channel_header_overruns:
  assumes "ser_good s" and "ser_wf s" and "4 \<le> remaining s" and "remaining s < 8"
    and "ser_pos s + 8 \<le> length (ser_mem s)" and "n \<le> 2 ^ 63"
  shows "\<exists>s'. put_ca_channel_data m s = Some s' \<and> ser_pos s' = ser_pos s + 8 \<and> ser_pos s' > ser_limit s' \<and>
    fst (ensure n s')"
proof -
  have w: "put_ca_channel_data m s = Some (written (enc_ca_channel_data m) s)"
    using ca_channel.put_ok [OF assms(1), of m] assms(3,5) ser_write_fits [of s "enc_ca_channel_data m"]
    by (simp add: size_defs)
  have rem: "remaining s = ser_limit s - ser_pos s" "ser_pos s \<le> ser_limit s"
    using remaining_wf [OF assms(2)] assms(2) by (simp_all add: ser_wf_def)
  let ?s = "written (enc_ca_channel_data m) s"
  have p: "ser_pos ?s = ser_pos s + 8" "ser_limit ?s = ser_limit s" "ser_good ?s"
    using assms(1) by (simp_all add: ser_fields)
  define d where "d = ser_pos s + 8 - ser_limit s"
  have d: "0 < d" "d \<le> 4" "int (ser_limit s) - int (ser_pos s + 8) = - int d"
    using rem assms(3,4) by (auto simp: d_def)
  have "(- int d) mod 2 ^ 64 = 2 ^ 64 - int d"
    using d(1,2) by (simp add: zmod_zminus1_eq_if)
  then have "remaining ?s = 2 ^ 64 - d"
    unfolding remaining_def p d(3) using d(2) by (simp add: nat_diff_distrib')
  then have "fst (ensure n ?s)"
    using assms(6) d(2) p(3) by (simp add: ensure_def Let_def)
  then show ?thesis
    using w p rem assms(3,4) by auto
qed

theorem channel_header_overruns_witness:
  "\<exists>s'. put_ca_channel_data \<lparr>cd_id = 7, cd_count = 2, cd_type = 20\<rparr> (ser_make (replicate 16 0) 4) = Some s' \<and>
    ser_pos s' = 8 \<and> ser_pos s' > ser_limit s' \<and> fst (ensure 1000 s')"
  using channel_header_overruns [of "ser_make (replicate 16 0) 4" 1000 "\<lparr>cd_id = 7, cd_count = 2, cd_type = 20\<rparr>"]
  by (simp add: ser_fields remaining_def)

end
